(* ===== verification/Arreo_Prelude.thy ===== *)
theory Arreo_Prelude
  imports Main "HOL-Library.Word" "HOL-Library.Sublist" "HOL-Library.List_Lexorder"
    "HOL-Library.Char_ord"
begin

text \<open>
  Shared vocabulary of the development: Rust's \<open>Result\<close> as a sum, the fixed-width integers,
  UTF-8 strings, \<open>BTreeMap\<close> as a key-sorted association list with its interface locale, decimal
  and hexadecimal printing, and the lemma collections the component theories use.
\<close>

section \<open>Types\<close>

type_synonym byte = "8 word"
type_synonym bytes = "byte list"
type_synonym u32 = "32 word"
type_synonym u64 = "64 word"

text \<open>Rust's \<open>Result<T, E>\<close> is \<open>'e + 'a\<close>: \<open>Err\<close> on the left, \<open>Ok\<close> on the right.\<close>

abbreviation Ok :: "'a \<Rightarrow> 'e + 'a" where
  "Ok \<equiv> Inr"

abbreviation Err :: "'e \<Rightarrow> 'e + 'a" where
  "Err \<equiv> Inl"

definition is_ok :: "'e + 'a \<Rightarrow> bool" where
  "is_ok r = (case r of Err _ \<Rightarrow> False | Ok _ \<Rightarrow> True)"

lemma is_ok_simps [simp]: "is_ok (Ok x)" "\<not> is_ok (Err e)"
  by (simp_all add: is_ok_def)

lemma is_ok_iff: "is_ok r \<longleftrightarrow> (\<exists>x. r = Ok x)"
  by (cases r) simp_all

named_theorems btree_simps \<open>lookup and invariant laws of the ordered map\<close>
named_theorems text_simps \<open>facts about strings, digits and hexadecimal\<close>

section \<open>Fixed-width arithmetic\<close>

definition u64_max :: u64 where
  "u64_max = 18446744073709551615"

lemma unat_u64_max [simp]: "unat u64_max = 2 ^ 64 - 1"
  by (simp add: u64_max_def)

lemma unat_less_u64: "unat (x :: u64) < 2 ^ 64"
  using unsigned_less [of x] by simp

text \<open>Rust's \<open>u64::saturating_add\<close>.\<close>

definition saturating_add :: "u64 \<Rightarrow> u64 \<Rightarrow> u64" where
  "saturating_add a b = (if a + b < a then u64_max else a + b)"

text \<open>\<open>u64::saturating_mul\<close> and \<open>u64::saturating_sub\<close>.\<close>

definition saturating_mul :: "u64 \<Rightarrow> u64 \<Rightarrow> u64" where
  "saturating_mul a b = (if unat a * unat b < 2 ^ 64 then a * b else u64_max)"

definition saturating_sub :: "u64 \<Rightarrow> u64 \<Rightarrow> u64" where
  "saturating_sub a b = (if b \<le> a then a - b else 0)"

lemma u64_max_greatest [simp]: "x \<le> u64_max"
  using unat_less_u64 [of x] by (simp add: word_le_nat_alt)

lemma u64_less_succ: "(a :: u64) \<noteq> u64_max \<Longrightarrow> a < a + 1"
proof -
  assume "a \<noteq> u64_max"
  then have "unat a + 1 < 2 ^ 64"
    using unat_less_u64 [of a] by (simp add: word_unat_eq_iff)
  then have "unat (a + 1) = unat a + 1"
    by (simp add: unat_word_ariths)
  then show ?thesis
    by (simp add: word_less_nat_alt)
qed

lemma saturating_add_1_less: "a \<noteq> u64_max \<Longrightarrow> a < saturating_add a 1"
  using u64_less_succ [of a] by (auto simp: saturating_add_def dest: order.asym)

lemma saturating_add_1_max [simp]: "saturating_add u64_max 1 = u64_max"
  by (simp add: saturating_add_def u64_max_def)

lemma saturating_add_1_ge: "a \<le> saturating_add a 1"
  by (cases "a = u64_max") (auto simp: less_imp_le saturating_add_1_less)

section \<open>Ordered maps\<close>

text \<open>
  \<open>BTreeMap<K, V>\<close>: an association list kept strictly sorted by key. Iteration order is list
  order, and two maps are equal exactly when they hold the same bindings.
\<close>

type_synonym ('k, 'v) btree = "('k \<times> 'v) list"

definition bt_get :: "('k, 'v) btree \<Rightarrow> 'k \<Rightarrow> 'v option" where
  "bt_get m k = map_of m k"

fun bt_insert :: "'k::linorder \<Rightarrow> 'v \<Rightarrow> ('k, 'v) btree \<Rightarrow> ('k, 'v) btree" where
  "bt_insert k v [] = [(k, v)]"
| "bt_insert k v ((k', v') # m) =
     (if k < k' then (k, v) # (k', v') # m
      else if k = k' then (k, v) # m
      else (k', v') # bt_insert k v m)"

definition bt_remove :: "'k \<Rightarrow> ('k, 'v) btree \<Rightarrow> ('k, 'v) btree" where
  "bt_remove k m = filter (\<lambda>(k', _). k' \<noteq> k) m"

definition bt_keys :: "('k, 'v) btree \<Rightarrow> 'k list" where
  "bt_keys m = map fst m"

definition bt_values :: "('k, 'v) btree \<Rightarrow> 'v list" where
  "bt_values m = map snd m"

definition bt_inv :: "('k::linorder, 'v) btree \<Rightarrow> bool" where
  "bt_inv m = sorted_wrt (<) (bt_keys m)"

lemma bt_keys_simps [simp]: "bt_keys [] = []" "bt_keys ((k, v) # m) = k # bt_keys m"
  by (simp_all add: bt_keys_def)

lemma bt_inv_Nil [simp, intro]: "bt_inv []"
  by (simp add: bt_inv_def bt_keys_def)

lemma bt_inv_Cons [btree_simps]:
  "bt_inv ((k, v) # m) \<longleftrightarrow> (\<forall>k' \<in> set (bt_keys m). k < k') \<and> bt_inv m"
  by (simp add: bt_inv_def bt_keys_def)

lemma bt_get_Nil [simp]: "bt_get [] k = None"
  by (simp add: bt_get_def)

lemma bt_get_Cons [simp]: "bt_get ((k, v) # m) k' = (if k' = k then Some v else bt_get m k')"
  by (simp add: bt_get_def)

lemma bt_get_None_iff [btree_simps]: "bt_get m k = None \<longleftrightarrow> k \<notin> set (bt_keys m)"
  by (simp add: bt_get_def bt_keys_def map_of_eq_None_iff)

lemma bt_get_insert [btree_simps]:
  "bt_inv m \<Longrightarrow> bt_get (bt_insert k v m) k' = (if k' = k then Some v else bt_get m k')"
  by (induction k v m rule: bt_insert.induct) (auto simp: bt_inv_Cons)

lemma bt_keys_insert [btree_simps]: "set (bt_keys (bt_insert k v m)) = insert k (set (bt_keys m))"
  by (induction k v m rule: bt_insert.induct) (auto simp: bt_keys_def)

lemma bt_inv_insert [btree_simps]: "bt_inv m \<Longrightarrow> bt_inv (bt_insert k v m)"
  by (induction k v m rule: bt_insert.induct)
    (auto simp: bt_inv_Cons bt_keys_insert dest: order.strict_trans)

lemma bt_get_remove [btree_simps]:
  "bt_get (bt_remove k m) k' = (if k' = k then None else bt_get m k')"
  by (induction m) (auto simp: bt_remove_def)

lemma bt_keys_remove [btree_simps]: "set (bt_keys (bt_remove k m)) = set (bt_keys m) - {k}"
  by (induction m) (auto simp: bt_remove_def bt_keys_def)

lemma bt_inv_remove [btree_simps]: "bt_inv m \<Longrightarrow> bt_inv (bt_remove k m)"
  by (induction m) (auto simp: bt_remove_def bt_inv_def bt_keys_def)

lemma bt_get_in_set: "bt_get m k = Some v \<Longrightarrow> (k, v) \<in> set m"
  by (simp add: bt_get_def map_of_SomeD)

lemma bt_get_eq_set: "bt_inv m \<Longrightarrow> bt_get m k = Some v \<longleftrightarrow> (k, v) \<in> set m"
proof
  show "bt_get m k = Some v \<Longrightarrow> (k, v) \<in> set m"
    by (rule bt_get_in_set)
next
  assume "bt_inv m" and "(k, v) \<in> set m"
  then have "distinct (map fst m)"
    by (simp add: bt_inv_def bt_keys_def strict_sorted_iff)
  with \<open>(k, v) \<in> set m\<close> show "bt_get m k = Some v"
    by (simp add: bt_get_def map_of_is_SomeI)
qed

lemma set_bt_insert:
  assumes "bt_inv m"
  shows "set (bt_insert k v m) = insert (k, v) {x \<in> set m. fst x \<noteq> k}"
proof -
  have "(k', v') \<in> set (bt_insert k v m) \<longleftrightarrow> (k', v') = (k, v) \<or> ((k', v') \<in> set m \<and> k' \<noteq> k)" for k' v'
    using assms by (auto simp: btree_simps simp flip: bt_get_eq_set)
  then show ?thesis by auto
qed

lemma bt_ext:
  assumes "bt_inv m" and "bt_inv n" and "\<And>k. bt_get m k = bt_get n k"
  shows "m = n"
proof -
  have "set m = set n"
    using assms by (auto simp flip: bt_get_eq_set)
  moreover have "distinct (map fst m)" "distinct (map fst n)" "sorted (map fst m)"
    "sorted (map fst n)"
    using assms by (auto simp: bt_inv_def bt_keys_def strict_sorted_iff)
  ultimately show ?thesis
    by (intro map_sorted_distinct_set_unique [where f = fst]) (auto simp: distinct_map)
qed

text \<open>
  The interface the components rely on. \<open>get\<close> is the abstraction function: every other operation
  is described by what it does to \<open>get\<close>.
\<close>

locale ordered_map =
  fixes get :: "'m \<Rightarrow> 'k \<Rightarrow> 'v option"
    and ins :: "'k \<Rightarrow> 'v \<Rightarrow> 'm \<Rightarrow> 'm"
    and rem :: "'k \<Rightarrow> 'm \<Rightarrow> 'm"
    and inv :: "'m \<Rightarrow> bool"
  assumes get_ins: "inv m \<Longrightarrow> get (ins k v m) k' = (if k' = k then Some v else get m k')"
    and get_rem: "inv m \<Longrightarrow> get (rem k m) k' = (if k' = k then None else get m k')"
    and inv_ins: "inv m \<Longrightarrow> inv (ins k v m)"
    and inv_rem: "inv m \<Longrightarrow> inv (rem k m)"
    and ext: "inv m \<Longrightarrow> inv n \<Longrightarrow> (\<And>k. get m k = get n k) \<Longrightarrow> m = n"
begin

lemma inv_fold_ins: "inv m \<Longrightarrow> inv (fold (\<lambda>(k, v). ins k v) kvs m)"
  by (induction kvs arbitrary: m) (auto simp: inv_ins)

lemma get_fold_ins:
  "inv m \<Longrightarrow> get (fold (\<lambda>(k, v). ins k v) kvs m) k =
     (case map_of (rev kvs) k of None \<Rightarrow> get m k | Some v \<Rightarrow> Some v)"
proof (induction kvs arbitrary: m)
  case Nil
  then show ?case by simp
next
  case (Cons kv kvs)
  obtain a b where kv: "kv = (a, b)" by force
  with Cons have "get (fold (\<lambda>(k, v). ins k v) kvs (ins a b m)) k =
     (case map_of (rev kvs) k of None \<Rightarrow> get (ins a b m) k | Some v \<Rightarrow> Some v)"
    by (simp add: inv_ins)
  with kv Cons.prems show ?case
    by (auto simp: get_ins map_add_def split: option.splits)
qed

lemma ins_same: "inv m \<Longrightarrow> get m k = Some v \<Longrightarrow> ins k v m = m"
  by (rule ext) (auto simp: get_ins inv_ins)

lemma ins_ins: "inv m \<Longrightarrow> ins k v (ins k w m) = ins k v m"
  by (rule ext) (auto simp: get_ins inv_ins)

lemma ins_commute: "inv m \<Longrightarrow> k \<noteq> k' \<Longrightarrow> ins k v (ins k' w m) = ins k' w (ins k v m)"
  by (rule ext) (auto simp: get_ins inv_ins)

lemma rem_ins: "inv m \<Longrightarrow> get m k = None \<Longrightarrow> rem k (ins k v m) = m"
  by (rule ext) (auto simp: get_ins get_rem inv_ins inv_rem)

end

interpretation bt: ordered_map bt_get bt_insert bt_remove bt_inv
  by unfold_locales (auto simp: btree_simps intro: bt_ext)

section \<open>Text\<close>

text \<open>
  A Rust \<open>str\<close> is its UTF-8 bytes, here a \<open>string\<close> (one \<open>char\<close> per byte). \<open>chars_of\<close> is
  \<open>str::chars\<close>: a code point is a byte followed by its continuation bytes.
\<close>

abbreviation NEWLINE :: char where "NEWLINE \<equiv> CHR 0x0A"

definition chcode :: "char \<Rightarrow> nat" where
  "chcode c = of_char c"

definition is_cont :: "char \<Rightarrow> bool" where
  "is_cont c \<longleftrightarrow> 128 \<le> chcode c \<and> chcode c < 192"

function chars_of :: "string \<Rightarrow> string list" where
  "chars_of [] = []"
| "chars_of (c # s) = (c # takeWhile is_cont s) # chars_of (dropWhile is_cont s)"
  by pat_completeness auto
termination
  by (relation "measure length") (auto simp: length_dropWhile_le le_imp_less_Suc)

text \<open>\<open>char::is_whitespace\<close>: the Unicode \<open>White_Space\<close> property, by encoded form.\<close>

definition is_whitespace :: "string \<Rightarrow> bool" where
  "is_whitespace c = (case map chcode c of
      [a] \<Rightarrow> (9 \<le> a \<and> a \<le> 13) \<or> a = 32
    | [a, b] \<Rightarrow> a = 194 \<and> (b = 133 \<or> b = 160)
    | [a, b, d] \<Rightarrow> (a = 225 \<and> b = 154 \<and> d = 128)
        \<or> (a = 226 \<and> b = 128 \<and> ((128 \<le> d \<and> d \<le> 138) \<or> d = 168 \<or> d = 169 \<or> d = 175))
        \<or> (a = 226 \<and> b = 129 \<and> d = 159) \<or> (a = 227 \<and> b = 128 \<and> d = 128)
    | _ \<Rightarrow> False)"

definition trim_chars :: "string list \<Rightarrow> string list" where
  "trim_chars cs = rev (dropWhile is_whitespace (rev (dropWhile is_whitespace cs)))"

text \<open>\<open>str::trim\<close>.\<close>

definition trim :: "string \<Rightarrow> string" where
  "trim s = concat (trim_chars (chars_of s))"

definition ascii_lower :: "char \<Rightarrow> char" where
  "ascii_lower c = (if 65 \<le> chcode c \<and> chcode c \<le> 90 then char_of (chcode c + 32) else c)"

definition to_ascii_lowercase :: "string \<Rightarrow> string" where
  "to_ascii_lowercase s = map ascii_lower s"

text \<open>\<open>str::trim_start_matches\<close> with a non-empty pattern: every leading copy goes.\<close>

function trim_start_matches :: "string \<Rightarrow> string \<Rightarrow> string" where
  "trim_start_matches p s =
     (if p \<noteq> [] \<and> prefix p s then trim_start_matches p (drop (length p) s) else s)"
  by pat_completeness auto
termination
  by (relation "measure (\<lambda>(p, s). length s)") (auto simp: prefix_def)

declare trim_start_matches.simps [simp del]

definition is_ascii_digit :: "char \<Rightarrow> bool" where
  "is_ascii_digit c \<longleftrightarrow> 48 \<le> chcode c \<and> chcode c \<le> 57"

definition is_ascii_lowercase :: "char \<Rightarrow> bool" where
  "is_ascii_lowercase c \<longleftrightarrow> 97 \<le> chcode c \<and> chcode c \<le> 122"

definition is_ascii_uppercase :: "char \<Rightarrow> bool" where
  "is_ascii_uppercase c \<longleftrightarrow> 65 \<le> chcode c \<and> chcode c \<le> 90"

definition is_ascii_alphanumeric :: "char \<Rightarrow> bool" where
  "is_ascii_alphanumeric c \<longleftrightarrow> is_ascii_digit c \<or> is_ascii_lowercase c \<or> is_ascii_uppercase c"

definition is_ascii_hexdigit :: "char \<Rightarrow> bool" where
  "is_ascii_hexdigit c \<longleftrightarrow> is_ascii_digit c \<or> (97 \<le> chcode c \<and> chcode c \<le> 102)
     \<or> (65 \<le> chcode c \<and> chcode c \<le> 70)"

text \<open>\<open>char::to_digit(16)\<close>.\<close>

definition hex_value :: "char \<Rightarrow> nat option" where
  "hex_value c = (if is_ascii_digit c then Some (chcode c - 48)
     else if 97 \<le> chcode c \<and> chcode c \<le> 102 then Some (chcode c - 87)
     else if 65 \<le> chcode c \<and> chcode c \<le> 70 then Some (chcode c - 55)
     else None)"

definition hex_digit :: "nat \<Rightarrow> char" where
  "hex_digit n = char_of (if n < 10 then 48 + n else 87 + n)"

text \<open>\<open>format!("{byte:02x}")\<close>.\<close>

definition fmt_02x :: "byte \<Rightarrow> string" where
  "fmt_02x b = [hex_digit (unat b div 16), hex_digit (unat b mod 16)]"

text \<open>\<open>format!("{n}")\<close> of an unsigned number, and \<open>{n:0w}\<close> padding.\<close>

function show_nat :: "nat \<Rightarrow> string" where
  "show_nat n = (if n < 10 then [char_of (48 + n)]
     else show_nat (n div 10) @ [char_of (48 + n mod 10)])"
  by pat_completeness auto
termination
  by (relation "measure id") auto

declare show_nat.simps [simp del]

definition pad_zero :: "nat \<Rightarrow> string \<Rightarrow> string" where
  "pad_zero w s = replicate (w - length s) (CHR ''0'') @ s"

subsection \<open>Facts about text\<close>

lemma chcode_char_of [simp]: "n < 256 \<Longrightarrow> chcode (char_of n) = n"
  by (simp add: chcode_def)

lemma chcode_less_256 [simp]: "chcode c < 256"
  using of_char_mod_256 [of c] unfolding chcode_def
  by (metis mod_less_divisor zero_less_numeral)

lemma chcode_inject [simp]: "chcode c = chcode d \<longleftrightarrow> c = d"
  by (simp add: chcode_def)

lemma concat_chars_of [text_simps]: "concat (chars_of s) = s"
  by (induction s rule: chars_of.induct) simp_all

lemma chars_of_ascii [text_simps]: "\<forall>c \<in> set s. chcode c < 128 \<Longrightarrow> chars_of s = map (\<lambda>c. [c]) s"
proof (induction s)
  case Nil
  then show ?case by simp
next
  case (Cons c s)
  then have "takeWhile is_cont s = []" "dropWhile is_cont s = s"
    by (cases s; force simp: is_cont_def)+
  with Cons show ?case by simp
qed

lemma hex_value_less: "hex_value c = Some n \<Longrightarrow> n < 16"
  by (auto simp: hex_value_def is_ascii_digit_def split: if_splits)

lemma hex_value_hex_digit [text_simps]: "n < 16 \<Longrightarrow> hex_value (hex_digit n) = Some n"
  by (auto simp: hex_value_def hex_digit_def is_ascii_digit_def)

lemma hex_digit_ascii: "n < 16 \<Longrightarrow> chcode (hex_digit n) < 128"
  by (simp add: hex_digit_def)

lemma hex_digit_hexdigit [text_simps]: "n < 16 \<Longrightarrow> is_ascii_hexdigit (hex_digit n)"
  by (auto simp: is_ascii_hexdigit_def hex_digit_def is_ascii_digit_def)

lemma ascii_lower_hex_digit [text_simps]: "n < 16 \<Longrightarrow> ascii_lower (hex_digit n) = hex_digit n"
  by (auto simp: ascii_lower_def hex_digit_def)

lemma unat_less_byte [simp]: "unat (b :: byte) < 256"
proof -
  have "unat b < 2 ^ LENGTH(8)"
    by (rule unsigned_less)
  then show ?thesis by simp
qed

lemma byte_mod_16_less [simp]: "unat (b :: byte) mod 16 < 16"
  by simp

lemma byte_div_16_less [simp]: "unat (b :: byte) div 16 < 16"
  using unat_less_byte [of b] by arith

section \<open>Panics\<close>

text \<open>
  Code that can panic returns a \<open>run\<close>: \<open>Panics\<close> is the abort of the process (the release profile
  sets \<open>panic = "abort"\<close>), \<open>Returns x\<close> a normal return.
\<close>

datatype 'a run = Panics | Returns 'a

definition is_char_boundary :: "string \<Rightarrow> nat \<Rightarrow> bool" where
  "is_char_boundary s i \<longleftrightarrow> i = 0 \<or> i = length s \<or> (i < length s \<and> \<not> is_cont (s ! i))"

text \<open>\<open>&s[i..j]\<close>: out of range or off a code point boundary panics.\<close>

definition slice :: "string \<Rightarrow> nat \<Rightarrow> nat \<Rightarrow> string run" where
  "slice s i j = (if i \<le> j \<and> j \<le> length s \<and> is_char_boundary s i \<and> is_char_boundary s j
     then Returns (take (j - i) (drop i s)) else Panics)"

text \<open>
  \<open>u8::from_str_radix(s, 16)\<close>: one leading \<open>+\<close> is accepted, a lone sign and the empty string
  are not, and a value above 255 is an overflow.
\<close>

fun hex_number :: "nat \<Rightarrow> string \<Rightarrow> nat option" where
  "hex_number acc [] = Some acc"
| "hex_number acc (c # s) =
     (case hex_value c of None \<Rightarrow> None
      | Some d \<Rightarrow> if 255 < 16 * acc + d then None else hex_number (16 * acc + d) s)"

definition u8_from_str_radix_16 :: "string \<Rightarrow> byte option" where
  "u8_from_str_radix_16 s = (case s of
      [] \<Rightarrow> None
    | [c] \<Rightarrow> if c = CHR ''+'' \<or> c = CHR ''-'' then None else map_option of_nat (hex_number 0 s)
    | c # r \<Rightarrow> map_option of_nat (hex_number 0 (if c = CHR ''+'' then r else s)))"

lemma is_char_boundary_ascii:
  "\<forall>c \<in> set s. chcode c < 128 \<Longrightarrow> i \<le> length s \<Longrightarrow> is_char_boundary s i"
  using nth_mem [of i s] by (fastforce simp: is_char_boundary_def is_cont_def)

lemma slice_ascii:
  "\<forall>c \<in> set s. chcode c < 128 \<Longrightarrow> i \<le> j \<Longrightarrow> j \<le> length s \<Longrightarrow>
     slice s i j = Returns (take (j - i) (drop i s))"
  by (simp add: slice_def is_char_boundary_ascii)

end
