(* ===== verification/Identity_Role.thy ===== *)
theory Identity_Role
  imports Arreo_Prelude
begin

text \<open>
  Roles, capabilities and the verb policy of \<open>crates/arreo-core/src/identity/role.rs\<close>: a pure
  function over (role, verb), and the two spellings a role has.
\<close>

datatype role = Owner | Viewer

datatype capability = Observe | Control

datatype verb = Hello | Panes | Read | Attach | Wait | Metrics | Send | Spawn | Split | Kill
  | Admin | Sync

datatype role_error =
    UnknownRole string
  | RoleDenied role verb capability

definition role_as_str :: "role \<Rightarrow> string" where
  "role_as_str r = (case r of Owner \<Rightarrow> ''owner'' | Viewer \<Rightarrow> ''viewer'')"

definition role_parse :: "string \<Rightarrow> role_error + role" where
  "role_parse text = (let name = to_ascii_lowercase (trim text) in
     if name = ''owner'' \<or> name = ''operator'' then Ok Owner
     else if name = ''viewer'' then Ok Viewer
     else Err (UnknownRole name))"

definition operator_term :: "role \<Rightarrow> string" where
  "operator_term r = (case r of Owner \<Rightarrow> ''operator'' | Viewer \<Rightarrow> ''viewer'')"

definition allows :: "role \<Rightarrow> capability \<Rightarrow> bool" where
  "allows r c = (case c of Observe \<Rightarrow> True | Control \<Rightarrow> r = Owner)"

definition required :: "verb \<Rightarrow> capability" where
  "required v = (case v of
      Hello \<Rightarrow> Observe | Panes \<Rightarrow> Observe | Read \<Rightarrow> Observe | Attach \<Rightarrow> Observe
    | Wait \<Rightarrow> Observe | Metrics \<Rightarrow> Observe
    | Send \<Rightarrow> Control | Spawn \<Rightarrow> Control | Split \<Rightarrow> Control | Kill \<Rightarrow> Control
    | Admin \<Rightarrow> Control | Sync \<Rightarrow> Control)"

definition role_check :: "role \<Rightarrow> verb \<Rightarrow> role_error + unit" where
  "role_check r v = (let c = required v in
     if allows r c then Ok () else Err (RoleDenied r v c))"

section \<open>The policy\<close>

lemma role_check_Ok_iff: "role_check r v = Ok () \<longleftrightarrow> r = Owner \<or> required v = Observe"
  by (cases "required v") (auto simp: role_check_def allows_def Let_def)

lemma role_check_Err_iff:
  "role_check r v = Err e \<longleftrightarrow> r = Viewer \<and> required v = Control \<and> e = RoleDenied Viewer v Control"
  by (cases "required v"; cases r) (auto simp: role_check_def allows_def Let_def)

lemma role_parse_as_str: "role_parse (role_as_str r) = Ok r"
  by (cases r; hypsubst; code_simp)

lemma role_parse_operator_term: "role_parse (operator_term r) = Ok r"
  by (cases r; hypsubst; code_simp)

lemma role_as_str_inject: "role_as_str r = role_as_str r' \<Longrightarrow> r = r'"
  by (metis role_parse_as_str Inr_inject)

end
