(* ===== verification/Identity_Keys.thy ===== *)
theory Identity_Keys
  imports Arreo_Prelude
begin

text \<open>
  The textual form of key material, \<open>crates/arreo-core/src/identity/keys.rs\<close>: the hexadecimal
  printer \<open>hex\<close>, the strict file decoder \<open>decode_hex\<close> and the two parsers of a public key a peer or
  an operator hands over. The curve itself (\<open>ed25519_dalek\<close>) is a parameter: \<open>point_ok\<close> says which
  32-byte strings \<open>VerifyingKey::from_bytes\<close> accepts, and a verifying key is its 32 bytes, which is
  what \<open>to_bytes\<close> gives back. Error texts are not modelled, error constructors are.
\<close>

type_synonym verifying_key = bytes

datatype key_error =
    Entropy
  | KeyIo
  | Malformed nat
  | Permissions nat nat
  | Missing
  | PublicKey
  | Format

definition hex :: "bytes \<Rightarrow> string" where
  "hex bs = concat (map fmt_02x bs)"

fun decode_hex_pairs :: "nat \<Rightarrow> string \<Rightarrow> key_error + bytes" where
  "decode_hex_pairs got (a # b # rest) =
     (case (hex_value a, hex_value b) of
        (Some hi, Some lo) \<Rightarrow>
          (case decode_hex_pairs got rest of
             Err e \<Rightarrow> Err e
           | Ok out \<Rightarrow> Ok (of_nat (hi * 16 + lo) # out))
      | _ \<Rightarrow> Err (Malformed got))"
| "decode_hex_pairs got _ = Ok []"

definition decode_hex :: "string \<Rightarrow> key_error + bytes" where
  "decode_hex text = (if length text \<noteq> 64 \<or> odd (length text)
     then Err (Malformed (length text)) else decode_hex_pairs (length text) text)"

fun hex_pairs :: "key_error \<Rightarrow> string \<Rightarrow> nat list \<Rightarrow> (key_error + bytes) run" where
  "hex_pairs bad s [] = Returns (Ok [])"
| "hex_pairs bad s (i # is) =
     (case slice s i (i + 2) of
        Panics \<Rightarrow> Panics
      | Returns pair \<Rightarrow>
          (case u8_from_str_radix_16 pair of
             None \<Rightarrow> Returns (Err bad)
           | Some b \<Rightarrow>
               (case hex_pairs bad s is of
                  Returns (Ok out) \<Rightarrow> Returns (Ok (b # out))
                | r \<Rightarrow> r)))"

definition step_by_2 :: "nat \<Rightarrow> nat list" where
  "step_by_2 n = map (\<lambda>i. 2 * i) [0..<(n + 1) div 2]"

definition hex_bytes :: "string \<Rightarrow> (key_error + bytes) run" where
  "hex_bytes s = (if odd (length s) then Returns (Err Format)
     else hex_pairs Format s (step_by_2 (length s)))"

definition public_from_hex ::
    "(bytes \<Rightarrow> bool) \<Rightarrow> string \<Rightarrow> (key_error + verifying_key) run" where
  "public_from_hex point_ok s =
     (case hex_bytes s of
        Panics \<Rightarrow> Panics
      | Returns (Err e) \<Rightarrow> Returns (Err e)
      | Returns (Ok bs) \<Rightarrow>
          Returns (if length bs \<noteq> 32 then Err Format
            else if point_ok bs then Ok bs else Err Format))"

definition verifying_key_from_hex ::
    "(bytes \<Rightarrow> bool) \<Rightarrow> string \<Rightarrow> (key_error + verifying_key) run" where
  "verifying_key_from_hex point_ok text =
     (let trimmed = trim text in
      if length trimmed \<noteq> 64 then Returns (Err PublicKey)
      else (case hex_pairs PublicKey trimmed (map (\<lambda>i. i * 2) [0..<32]) of
              Panics \<Rightarrow> Panics
            | Returns (Err e) \<Rightarrow> Returns (Err e)
            | Returns (Ok bs) \<Rightarrow> Returns (if point_ok bs then Ok bs else Err PublicKey)))"

definition verify_bytes ::
    "(verifying_key \<Rightarrow> bytes \<Rightarrow> bytes \<Rightarrow> bool) \<Rightarrow> verifying_key \<Rightarrow> bytes \<Rightarrow> bytes \<Rightarrow> bool" where
  "verify_bytes sig_ok public payload signature =
     (if length signature \<noteq> 64 then False else sig_ok public payload signature)"

section \<open>Printing and parsing are inverse\<close>

lemma hex_Nil [simp]: "hex [] = []"
  by (simp add: hex_def)

lemma hex_Cons [simp]:
  "hex (b # bs) = hex_digit (unat b div 16) # hex_digit (unat b mod 16) # hex bs"
  by (simp add: hex_def fmt_02x_def)

lemma length_hex [simp]: "length (hex bs) = 2 * length bs"
  by (induction bs) simp_all

lemma set_hex: "c \<in> set (hex bs) \<Longrightarrow> \<exists>n < 16. c = hex_digit n"
  by (induction bs) (auto intro: byte_div_16_less byte_mod_16_less)

lemma hex_ascii: "c \<in> set (hex bs) \<Longrightarrow> chcode c < 128"
  by (auto dest!: set_hex simp: hex_digit_ascii)

lemma hex_alphabet: "c \<in> set (hex bs) \<Longrightarrow> is_ascii_hexdigit c \<and> ascii_lower c = c"
  by (auto dest!: set_hex simp: text_simps)

lemma byte_of_nibbles [simp]: "of_nat (unat b div 16 * 16 + unat b mod 16) = (b :: byte)"
  by (simp only: div_mult_mod_eq) simp

lemma decode_hex_pairs_hex: "decode_hex_pairs got (hex bs) = Ok bs"
  by (induction bs) (auto simp: text_simps)

lemma decode_hex_hex: "length bs = 32 \<Longrightarrow> decode_hex (hex bs) = Ok bs"
  by (simp add: decode_hex_def decode_hex_pairs_hex)

lemma hex_inject: "hex bs = hex cs \<Longrightarrow> bs = cs"
  using decode_hex_pairs_hex by (metis Inr_inject)

lemma hex_digit_not_sign: "n < 16 \<Longrightarrow> hex_digit n \<noteq> CHR ''+'' \<and> hex_digit n \<noteq> CHR ''-''"
  by (auto simp: hex_digit_def simp flip: chcode_inject) (auto simp: chcode_def)

lemma u8_from_hex_digits:
  assumes "m < 16" and "n < 16"
  shows "u8_from_str_radix_16 [hex_digit m, hex_digit n] = Some (of_nat (16 * m + n))"
proof -
  have "16 * m + n \<le> 255"
    using assms by simp
  then show ?thesis
    using assms hex_digit_not_sign [of m]
    by (simp add: u8_from_str_radix_16_def text_simps)
qed

lemma hex_pairs_hex:
  assumes "length pre = 2 * k" and "\<forall>c \<in> set pre. chcode c < 128"
  shows "hex_pairs bad (pre @ hex bs) (map (\<lambda>i. 2 * i) [k..<k + length bs]) = Returns (Ok bs)"
  using assms
proof (induction bs arbitrary: pre k)
  case Nil
  then show ?case by simp
next
  case (Cons b bs)
  let ?p = "[hex_digit (unat b div 16), hex_digit (unat b mod 16)]"
  have "hex_pairs bad ((pre @ ?p) @ hex bs) (map (\<lambda>i. 2 * i) [Suc k..<Suc k + length bs]) =
      Returns (Ok bs)"
    using Cons.prems by (intro Cons.IH) (auto simp: hex_digit_ascii)
  moreover have "\<forall>c \<in> set (pre @ hex (b # bs)). chcode c < 128"
    using Cons.prems hex_ascii [of _ "b # bs"] by (metis Un_iff set_append)
  then have "slice (pre @ hex (b # bs)) (2 * k) (2 * k + 2) = Returns ?p"
    using Cons.prems by (subst slice_ascii) auto
  moreover have "u8_from_str_radix_16 ?p = Some b"
    by (subst u8_from_hex_digits) (auto simp: mult.commute)
  moreover have "[k..<k + length (b # bs)] = k # [Suc k..<Suc k + length bs]"
    by (simp add: upt_conv_Cons del: upt_Suc)
  ultimately show ?case
    by (simp del: upt_Suc)
qed

lemma hex_bytes_hex [simp]: "hex_bytes (hex bs) = Returns (Ok bs)"
  using hex_pairs_hex [of "[]" 0 Format bs] by (simp add: hex_bytes_def step_by_2_def)

lemma trim_hex [simp]: "trim (hex bs) = hex bs"
proof -
  have ws: "\<not> is_whitespace [c]" if "c \<in> set (hex bs)" for c
    using set_hex [OF that] by (auto simp: is_whitespace_def hex_digit_def split: if_splits)
  then have "dropWhile is_whitespace (map (\<lambda>c. [c]) (hex bs)) = map (\<lambda>c. [c]) (hex bs)"
    "dropWhile is_whitespace (rev (map (\<lambda>c. [c]) (hex bs))) = rev (map (\<lambda>c. [c]) (hex bs))"
    by (auto simp: dropWhile_eq_self_iff hd_rev hd_map last_map)
  moreover have "chars_of (hex bs) = map (\<lambda>c. [c]) (hex bs)"
    by (rule chars_of_ascii) (auto simp: hex_ascii)
  ultimately show ?thesis
    by (simp add: trim_def trim_chars_def)
qed

section \<open>Where the parsers stop short of returning\<close>

lemma hex_pairs_ascii_returns:
  "\<forall>c \<in> set s. chcode c < 128 \<Longrightarrow> \<forall>i \<in> set is. i + 2 \<le> length s \<Longrightarrow> hex_pairs bad s is \<noteq> Panics"
  by (induction "is") (auto simp: slice_ascii split: option.splits run.splits sum.splits)

lemma hex_bytes_ascii_returns: "\<forall>c \<in> set s. chcode c < 128 \<Longrightarrow> hex_bytes s \<noteq> Panics"
proof -
  assume ascii: "\<forall>c \<in> set s. chcode c < 128"
  then have "hex_pairs Format s (map ((*) 2) [0..<length s div 2]) \<noteq> Panics"
    by (rule hex_pairs_ascii_returns) auto
  then show ?thesis
    by (auto simp: hex_bytes_def step_by_2_def)
qed

lemma public_from_hex_panics_iff: "public_from_hex ok s = Panics \<longleftrightarrow> hex_bytes s = Panics"
  by (auto simp: public_from_hex_def split: run.splits sum.splits)

end
