(* ===== verification/Identity_Cert.thy ===== *)
theory Identity_Cert
  imports Identity_Role Identity_Keys
begin

text \<open>
  Device certificates and the index of pinned devices: \<open>crates/arreo-core/src/identity/cert.rs\<close> and
  the revocation decision of \<open>revocation.rs\<close>. The cryptography and the MessagePack codec are
  third-party code and enter as the fields of \<open>crypto\<close>.
\<close>

section \<open>Data\<close>

type_synonym device_id = string

record cert_payload =
  cp_version :: byte
  cp_device :: device_id
  cp_public_key :: bytes
  cp_name :: string
  cp_role :: role
  cp_issued_at_ms :: int
  cp_serial :: u64

record device_cert =
  dc_payload :: cert_payload
  dc_signature :: bytes

record device_record =
  rec_id :: device_id
  rec_name :: string
  rec_role :: role
  rec_public_key :: bytes
  rec_serial :: u64
  rec_issued_at_ms :: int
  rec_last_seen_ms :: "int option"
  rec_revoked :: bool
  rec_revoked_at_ms :: "int option"
  rec_revoked_by :: "string option"
  rec_retired_to :: "device_id option"

datatype cert_error =
    Decode
  | Encode
  | Version byte byte
  | DeviceMismatch string string
  | BadSignature
  | ZeroSerial
  | BadDeviceId string
  | NoCert string
  | KeyMismatch string string string
  | Revoked string
  | RotatedAway string string
  | CertIo

text \<open>
  What the code takes from its crates: SHA-256, the set of valid curve points, the small-order
  test, ed25519 verification, and the MessagePack encoding of a payload (\<open>rmp_serde::to_vec_named\<close>,
  with the empty vector \<open>unwrap_or_default\<close> gives for a failed one) and of a whole certificate.
\<close>

record crypto =
  sha256 :: "bytes \<Rightarrow> bytes"
  point_ok :: "bytes \<Rightarrow> bool"
  is_weak :: "verifying_key \<Rightarrow> bool"
  sig_ok :: "verifying_key \<Rightarrow> bytes \<Rightarrow> bytes \<Rightarrow> bool"
  payload_to_vec :: "cert_payload \<Rightarrow> bytes option"
  cert_to_vec :: "device_cert \<Rightarrow> bytes option"
  cert_from_slice :: "bytes \<Rightarrow> device_cert option"

definition CERT_VERSION :: byte where
  "CERT_VERSION = 1"

definition FIRST_SERIAL :: u64 where
  "FIRST_SERIAL = 1"

section \<open>Device ids\<close>

definition from_key :: "crypto \<Rightarrow> verifying_key \<Rightarrow> device_id" where
  "from_key C key = concat (map fmt_02x (take 16 (sha256 C key)))"

definition device_id_parse :: "string \<Rightarrow> cert_error + device_id" where
  "device_id_parse text =
     (let trimmed = trim text; mixed = trim_start_matches ''dev_'' trimmed in
      if length mixed \<noteq> 32 \<or> \<not> list_all is_ascii_hexdigit mixed
      then Err (BadDeviceId trimmed)
      else Ok (to_ascii_lowercase mixed))"

definition display_id :: "device_id \<Rightarrow> string" where
  "display_id d = ''dev_'' @ d"

section \<open>Certificates\<close>

definition payload_bytes :: "crypto \<Rightarrow> cert_payload \<Rightarrow> bytes" where
  "payload_bytes C p = (case payload_to_vec C p of None \<Rightarrow> [] | Some bs \<Rightarrow> bs)"

text \<open>\<open>sign\<close> is the root key's signing function; only \<open>cert_issue\<close> receives it.\<close>

definition cert_issue :: "crypto \<Rightarrow> (bytes \<Rightarrow> bytes) \<Rightarrow> verifying_key \<Rightarrow> string \<Rightarrow> role \<Rightarrow> int
    \<Rightarrow> u64 \<Rightarrow> device_cert" where
  "cert_issue C sign key nm r at sn =
     (let p = \<lparr> cp_version = CERT_VERSION, cp_device = from_key C key, cp_public_key = key, cp_name = nm,
                cp_role = r, cp_issued_at_ms = at, cp_serial = sn \<rparr>
      in \<lparr> dc_payload = p, dc_signature = sign (payload_bytes C p) \<rparr>)"

definition cert_public_key :: "crypto \<Rightarrow> device_cert \<Rightarrow> verifying_key option" where
  "cert_public_key C c = (let k = cp_public_key (dc_payload c) in if point_ok C k then Some k else None)"

definition cert_encode :: "crypto \<Rightarrow> device_cert \<Rightarrow> cert_error + bytes" where
  "cert_encode C c = (case cert_to_vec C c of None \<Rightarrow> Err Encode | Some bs \<Rightarrow> Ok bs)"

definition cert_decode :: "crypto \<Rightarrow> bytes \<Rightarrow> cert_error + device_cert" where
  "cert_decode C bs = (case cert_from_slice C bs of None \<Rightarrow> Err Decode | Some c \<Rightarrow> Ok c)"

definition cert_verify ::
    "crypto \<Rightarrow> device_cert \<Rightarrow> verifying_key \<Rightarrow> verifying_key \<Rightarrow> cert_error + unit" where
  "cert_verify C c root presented =
     (let p = dc_payload c in
      if cp_version p \<noteq> CERT_VERSION then Err (Version (cp_version p) CERT_VERSION)
      else if cp_serial p < FIRST_SERIAL then Err ZeroSerial
      else case cert_public_key C c of
          None \<Rightarrow> Err (DeviceMismatch (display_id (cp_device p)) ''(unparseable cert key)'')
        | Some cert_key \<Rightarrow>
            if cert_key \<noteq> presented
            then Err (DeviceMismatch (display_id (from_key C cert_key))
                        (display_id (from_key C presented)))
            else let derived = from_key C cert_key in
              if derived \<noteq> cp_device p
              then Err (DeviceMismatch (display_id (cp_device p)) (display_id derived))
              else if \<not> sig_ok C root (payload_bytes C p) (dc_signature c) then Err BadSignature
              else Ok ())"

definition from_cert :: "device_cert \<Rightarrow> device_record" where
  "from_cert c =
     (let p = dc_payload c in
      \<lparr> rec_id = cp_device p, rec_name = cp_name p, rec_role = cp_role p, rec_public_key = cp_public_key p,
        rec_serial = cp_serial p, rec_issued_at_ms = cp_issued_at_ms p, rec_last_seen_ms = None,
        rec_revoked = False, rec_revoked_at_ms = None, rec_revoked_by = None,
        rec_retired_to = None \<rparr>)"

definition public_hex :: "device_record \<Rightarrow> string" where
  "public_hex r = hex (rec_public_key r)"

definition record_public_key :: "crypto \<Rightarrow> device_record \<Rightarrow> verifying_key option" where
  "record_public_key C r = (let k = rec_public_key r in if point_ok C k then Some k else None)"

section \<open>The revocation decision\<close>

datatype denied =
    DeniedRevoked device_id
  | DeniedRotatedAway device_id device_id

definition denied_reason :: "denied \<Rightarrow> string" where
  "denied_reason d = (case d of DeniedRevoked _ \<Rightarrow> ''revoked'' | DeniedRotatedAway _ _ \<Rightarrow> ''rotated away'')"

definition may_connect :: "device_record \<Rightarrow> denied + unit" where
  "may_connect r =
     (if rec_revoked r then Err (DeniedRevoked (rec_id r))
      else case rec_retired_to r of
          Some replacement \<Rightarrow> Err (DeniedRotatedAway (rec_id r) replacement)
        | None \<Rightarrow> Ok ())"

definition may_pin :: "device_record option \<Rightarrow> denied + unit" where
  "may_pin r = (case r of Some r \<Rightarrow> may_connect r | None \<Rightarrow> Ok ())"

definition authorized_role :: "device_record \<Rightarrow> denied + role" where
  "authorized_role r = (case may_connect r of Err d \<Rightarrow> Err d | Ok _ \<Rightarrow> Ok (rec_role r))"

section \<open>The index of pinned devices\<close>

record device_index =
  ix_devices :: "(device_id, device_record \<times> device_cert) btree"
  ix_retired :: "(device_id, device_id) btree"

definition index_new :: device_index where
  "index_new = \<lparr> ix_devices = [], ix_retired = [] \<rparr>"

definition index_insert :: "device_cert \<Rightarrow> device_index \<Rightarrow> device_index" where
  "index_insert c ix = (let r = from_cert c in
     ix\<lparr>ix_devices := bt_insert (rec_id r) (r, c) (ix_devices ix)\<rparr>)"

text \<open>
  \<open>load_dir\<close> over the contents of the certificate directory: file names in path order, each with
  the bytes a read of it returns (\<open>None\<close> for an I/O error). A name has the extension \<open>cert\<close> when it
  ends in \<open>.cert\<close> and has something before the dot.
\<close>

type_synonym cert_files = "(string, bytes option) btree"

definition cert_load :: "crypto \<Rightarrow> bytes option \<Rightarrow> cert_error + device_cert" where
  "cert_load C file = (case file of None \<Rightarrow> Err CertIo | Some bs \<Rightarrow> cert_decode C bs)"

fun load_certs :: "crypto \<Rightarrow> cert_files \<Rightarrow> device_index \<times> (string \<times> cert_error) list
    \<Rightarrow> device_index \<times> (string \<times> cert_error) list" where
  "load_certs C [] acc = acc"
| "load_certs C ((path, file) # rest) (ix, problems) =
     (case cert_load C file of
        Ok c \<Rightarrow> load_certs C rest (index_insert c ix, problems)
      | Err e \<Rightarrow> load_certs C rest (ix, problems @ [(path, e)]))"

definition load_dir ::
    "crypto \<Rightarrow> cert_files option \<Rightarrow> device_index \<times> (string \<times> cert_error) list" where
  "load_dir C dir = (case dir of None \<Rightarrow> (index_new, []) | Some fs \<Rightarrow>
     load_certs C (filter (\<lambda>(path, _). suffix ''.cert'' path \<and> path \<noteq> ''.cert'') fs) (index_new, []))"

definition index_get :: "device_index \<Rightarrow> device_id \<Rightarrow> device_record option" where
  "index_get ix d = map_option fst (bt_get (ix_devices ix) d)"

definition index_cert :: "device_index \<Rightarrow> device_id \<Rightarrow> device_cert option" where
  "index_cert ix d = map_option snd (bt_get (ix_devices ix) d)"

definition index_iter :: "device_index \<Rightarrow> device_record list" where
  "index_iter ix = map fst (bt_values (ix_devices ix))"

text \<open>One iteration of \<open>from_records\<close>: a \<open>continue\<close> returns the index unchanged.\<close>

definition add_record :: "crypto \<Rightarrow> (device_id, device_cert) btree \<Rightarrow> verifying_key
    \<Rightarrow> device_record \<Rightarrow> device_index \<Rightarrow> device_index" where
  "add_record C certs root r ix =
     (if rec_revoked r \<or> rec_retired_to r \<noteq> None then ix
      else case bt_get certs (rec_id r) of
          None \<Rightarrow> ix
        | Some c \<Rightarrow>
            (case record_public_key C r of
               None \<Rightarrow> ix
             | Some key \<Rightarrow>
                 if \<not> is_ok (cert_verify C c root key) then ix
                 else ix\<lparr>ix_devices := bt_insert (rec_id r)
                   ((from_cert c)\<lparr>rec_last_seen_ms := rec_last_seen_ms r\<rparr>, c) (ix_devices ix)\<rparr>))"

definition from_records :: "crypto \<Rightarrow> device_record list \<Rightarrow> (device_id, device_cert) btree
    \<Rightarrow> verifying_key \<Rightarrow> device_index" where
  "from_records C records certs root = fold (add_record C certs root) records index_new"

text \<open>
  \<open>DeviceIndex::rotate\<close> mutates in place: the second component is the index left behind, on the
  error paths too.
\<close>

definition index_rotate ::
    "device_id \<Rightarrow> device_cert \<Rightarrow> device_index \<Rightarrow> (cert_error + device_id) \<times> device_index" where
  "index_rotate old_id new_cert ix =
     (if bt_get (ix_devices ix) old_id = None then (Err (NoCert (display_id old_id)), ix)
      else
        let ix1 = ix\<lparr>ix_devices := bt_remove old_id (ix_devices ix)\<rparr>;
            new_id = cp_device (dc_payload new_cert) in
        if new_id = old_id
        then (Err (Revoked ''rotation must move the device onto a different key''), ix1)
        else (Ok new_id,
              index_insert new_cert (ix1\<lparr>ix_retired := bt_insert old_id new_id (ix_retired ix1)\<rparr>)))"

definition index_retire :: "device_id \<Rightarrow> device_id \<Rightarrow> device_index \<Rightarrow> device_index" where
  "index_retire old replacement ix =
     ix\<lparr>ix_devices := bt_remove old (ix_devices ix), ix_retired := bt_insert old replacement (ix_retired ix)\<rparr>"

definition index_set_last_seen :: "device_id \<Rightarrow> int \<Rightarrow> device_index \<Rightarrow> device_index" where
  "index_set_last_seen d at ix =
     (case bt_get (ix_devices ix) d of
        None \<Rightarrow> ix
      | Some (r, c) \<Rightarrow>
          ix\<lparr>ix_devices := bt_insert d (r\<lparr>rec_last_seen_ms := Some at\<rparr>, c) (ix_devices ix)\<rparr>)"

definition index_authorize ::
    "crypto \<Rightarrow> device_index \<Rightarrow> verifying_key \<Rightarrow> verifying_key \<Rightarrow> cert_error + device_record" where
  "index_authorize C ix root presented =
     (let d = from_key C presented in
      case bt_get (ix_devices ix) d of
        None \<Rightarrow>
          (case bt_get (ix_retired ix) d of
             Some replacement \<Rightarrow> Err (RotatedAway (display_id d) (display_id replacement))
           | None \<Rightarrow> Err (NoCert (display_id d)))
      | Some (r, c) \<Rightarrow>
          if rec_revoked r then Err (Revoked (display_id d))
          else if rec_public_key r \<noteq> presented
          then Err (KeyMismatch (display_id d) (hex presented) (public_hex r))
          else (case cert_verify C c root presented of Err e \<Rightarrow> Err e | Ok _ \<Rightarrow> Ok r))"

section \<open>Facts\<close>

subsection \<open>Ids\<close>

definition canonical_id :: "device_id \<Rightarrow> bool" where
  "canonical_id d \<longleftrightarrow> length d = 32 \<and> (\<forall>c \<in> set d. is_ascii_hexdigit c \<and> ascii_lower c = c)"

definition crypto_ok :: "crypto \<Rightarrow> bool" where
  "crypto_ok C \<longleftrightarrow> (\<forall>k. length (sha256 C k) = 32)"

lemma from_key_hex: "from_key C key = hex (take 16 (sha256 C key))"
  by (simp add: from_key_def hex_def)

lemma canonical_from_key: "crypto_ok C \<Longrightarrow> canonical_id (from_key C key)"
  using hex_alphabet by (auto simp: canonical_id_def from_key_hex crypto_ok_def)

lemma hexdigit_lower:
  "is_ascii_hexdigit c \<Longrightarrow> is_ascii_hexdigit (ascii_lower c) \<and> ascii_lower (ascii_lower c) = ascii_lower c"
  by (auto simp: is_ascii_hexdigit_def is_ascii_digit_def ascii_lower_def)

lemma canonical_parse_result: "device_id_parse s = Ok d \<Longrightarrow> canonical_id d"
  by (auto simp: device_id_parse_def canonical_id_def to_ascii_lowercase_def Let_def list_all_iff
      hexdigit_lower split: if_splits)

lemma trim_visible:
  assumes "\<And>c. c \<in> set s \<Longrightarrow> 32 < chcode c \<and> chcode c < 128"
  shows "trim s = s"
proof -
  have ws: "\<not> is_whitespace [c]" if "c \<in> set s" for c
    using assms [OF that] by (auto simp: is_whitespace_def)
  then have "dropWhile is_whitespace (map (\<lambda>c. [c]) s) = map (\<lambda>c. [c]) s"
    "dropWhile is_whitespace (rev (map (\<lambda>c. [c]) s)) = rev (map (\<lambda>c. [c]) s)"
    by (auto simp: dropWhile_eq_self_iff hd_rev hd_map last_map)
  moreover have "chars_of s = map (\<lambda>c. [c]) s"
    by (rule chars_of_ascii) (auto dest: assms)
  ultimately show ?thesis
    by (simp add: trim_def trim_chars_def)
qed

lemma hexdigit_visible: "is_ascii_hexdigit c \<Longrightarrow> 32 < chcode c \<and> chcode c < 128"
  by (auto simp: is_ascii_hexdigit_def is_ascii_digit_def)

lemma device_id_parse_canonical: "canonical_id d \<Longrightarrow> device_id_parse d = Ok d"
proof -
  assume d: "canonical_id d"
  then have "trim d = d"
    by (intro trim_visible) (auto simp: canonical_id_def dest: hexdigit_visible)
  moreover have "CHR ''v'' \<notin> set d"
    using d by (auto simp: canonical_id_def is_ascii_hexdigit_def is_ascii_digit_def chcode_def)
  then have "\<not> prefix ''dev_'' d"
    by (auto simp: prefix_def)
  then have "trim_start_matches ''dev_'' d = d"
    by (subst trim_start_matches.simps) simp
  moreover have "to_ascii_lowercase d = d"
    using d by (simp add: to_ascii_lowercase_def canonical_id_def map_idI)
  ultimately show ?thesis
    using d by (simp add: device_id_parse_def canonical_id_def list_all_iff)
qed

subsection \<open>Verification\<close>

lemma cert_verify_Ok_iff:
  "cert_verify C c root key = Ok () \<longleftrightarrow>
     cp_version (dc_payload c) = CERT_VERSION \<and> FIRST_SERIAL \<le> cp_serial (dc_payload c) \<and>
     point_ok C key \<and> cp_public_key (dc_payload c) = key \<and>
     cp_device (dc_payload c) = from_key C key \<and>
     sig_ok C root (payload_bytes C (dc_payload c)) (dc_signature c)"
  by (auto simp: cert_verify_def cert_public_key_def Let_def)

lemma is_ok_cert_verify: "is_ok (cert_verify C c root key) \<longleftrightarrow> cert_verify C c root key = Ok ()"
  by (auto simp: is_ok_iff)

lemma issued_verifies:
  assumes "sig_ok C root (payload_bytes C (dc_payload c)) (dc_signature c)"
    and "c = cert_issue C sign key nm r at sn" and "point_ok C key" and "FIRST_SERIAL \<le> sn"
  shows "cert_verify C c root key = Ok ()"
  using assms by (simp add: cert_verify_Ok_iff cert_issue_def Let_def)

lemma may_connect_Ok_iff: "may_connect r = Ok () \<longleftrightarrow> \<not> rec_revoked r \<and> rec_retired_to r = None"
  by (auto simp: may_connect_def split: option.splits)

subsection \<open>The index\<close>

text \<open>
  Every entry is filed under the id its certificate names, and its record is the certificate's
  own data: only the time it was last seen can differ.
\<close>

definition index_wf :: "device_index \<Rightarrow> bool" where
  "index_wf ix \<longleftrightarrow> bt_inv (ix_devices ix) \<and> bt_inv (ix_retired ix) \<and>
     (\<forall>d r c. bt_get (ix_devices ix) d = Some (r, c) \<longrightarrow>
        cp_device (dc_payload c) = d \<and> r\<lparr>rec_last_seen_ms := None\<rparr> = from_cert c)"

lemma from_cert_simps [simp]:
  "rec_id (from_cert c) = cp_device (dc_payload c)"
  "rec_role (from_cert c) = cp_role (dc_payload c)"
  "rec_name (from_cert c) = cp_name (dc_payload c)"
  "rec_public_key (from_cert c) = cp_public_key (dc_payload c)"
  "rec_serial (from_cert c) = cp_serial (dc_payload c)"
  "\<not> rec_revoked (from_cert c)" "rec_retired_to (from_cert c) = None"
  "rec_last_seen_ms (from_cert c) = None"
  "rec_revoked_at_ms (from_cert c) = None" "rec_revoked_by (from_cert c) = None"
  by (simp_all add: from_cert_def Let_def)

lemma from_cert_seen [simp]:
  "(from_cert c)\<lparr>rec_last_seen_ms := None\<rparr> = from_cert c"
  by (simp add: from_cert_def Let_def)

lemma index_wf_entry:
  assumes "index_wf ix" and "bt_get (ix_devices ix) d = Some (r, c)"
  shows "rec_id r = d" "rec_role r = cp_role (dc_payload c)" "\<not> rec_revoked r"
    "rec_public_key r = cp_public_key (dc_payload c)" "cp_device (dc_payload c) = d"
proof -
  have *: "cp_device (dc_payload c) = d" "r\<lparr>rec_last_seen_ms := None\<rparr> = from_cert c"
    using assms by (auto simp: index_wf_def)
  have "rec_id (r\<lparr>rec_last_seen_ms := None\<rparr>) = d"
    "rec_role (r\<lparr>rec_last_seen_ms := None\<rparr>) = cp_role (dc_payload c)"
    "\<not> rec_revoked (r\<lparr>rec_last_seen_ms := None\<rparr>)"
    "rec_public_key (r\<lparr>rec_last_seen_ms := None\<rparr>) = cp_public_key (dc_payload c)"
    unfolding *(2) by (simp_all add: *(1))
  then show "rec_id r = d" "rec_role r = cp_role (dc_payload c)" "\<not> rec_revoked r"
    "rec_public_key r = cp_public_key (dc_payload c)" "cp_device (dc_payload c) = d"
    using *(1) by simp_all
qed

lemma index_wf_new [simp, intro]: "index_wf index_new"
  by (simp add: index_wf_def index_new_def)

lemma index_wf_insert [intro]: "index_wf ix \<Longrightarrow> index_wf (index_insert c ix)"
  by (auto simp: index_wf_def index_insert_def Let_def btree_simps split: if_splits)

lemma index_wf_retire [intro]: "index_wf ix \<Longrightarrow> index_wf (index_retire d t ix)"
  by (auto simp: index_wf_def index_retire_def btree_simps split: if_splits)

lemma get_insert_index:
  "index_wf ix \<Longrightarrow> bt_get (ix_devices (index_insert c ix)) d =
     (if d = cp_device (dc_payload c) then Some (from_cert c, c) else bt_get (ix_devices ix) d)"
  by (simp add: index_insert_def Let_def btree_simps index_wf_def)

lemma index_wf_load_certs:
  "index_wf (fst acc) \<Longrightarrow> index_wf (fst (load_certs C fs acc))"
  by (induction C fs acc rule: load_certs.induct) (auto split: sum.splits)

lemma index_wf_load_dir [simp, intro]: "index_wf (fst (load_dir C dir))"
  by (auto simp: load_dir_def index_wf_load_certs split: option.splits)

definition certs_wf :: "(device_id, device_cert) btree \<Rightarrow> bool" where
  "certs_wf certs \<longleftrightarrow> bt_inv certs \<and> (\<forall>d c. bt_get certs d = Some c \<longrightarrow> cp_device (dc_payload c) = d)"

lemma index_wf_add_record [intro]:
  "certs_wf certs \<Longrightarrow> index_wf ix \<Longrightarrow> index_wf (add_record C certs root r ix)"
  by (auto simp: index_wf_def certs_wf_def add_record_def btree_simps from_cert_def Let_def
      split: option.splits if_splits)

lemma index_wf_from_records [intro]:
  "certs_wf certs \<Longrightarrow> index_wf (from_records C rs certs root)"
proof -
  have "index_wf ix \<Longrightarrow> certs_wf certs \<Longrightarrow> index_wf (fold (add_record C certs root) rs ix)" for ix
    by (induction rs arbitrary: ix) auto
  then show "certs_wf certs \<Longrightarrow> ?thesis"
    by (simp add: from_records_def)
qed

text \<open>The decision: what an acceptance by the index says.\<close>

lemma index_authorize_Ok:
  "index_authorize C ix root key = Ok r \<Longrightarrow>
     \<exists>c. bt_get (ix_devices ix) (from_key C key) = Some (r, c) \<and>
         cert_verify C c root key = Ok () \<and> \<not> rec_revoked r \<and> rec_public_key r = key"
  unfolding index_authorize_def Let_def
  by (auto split: option.splits prod.splits sum.splits if_splits)

lemma index_authorize_OkI:
  assumes "bt_get (ix_devices ix) (from_key C key) = Some (r, c)"
    and "cert_verify C c root key = Ok ()" and "index_wf ix"
  shows "index_authorize C ix root key = Ok r"
proof -
  have "rec_public_key r = key" "\<not> rec_revoked r"
    using assms index_wf_entry [OF assms(3,1)] by (auto simp: cert_verify_Ok_iff)
  with assms show ?thesis
    by (simp add: index_authorize_def Let_def)
qed

end
