(* ===== verification/Identity_Authority.thy ===== *)
theory Identity_Authority
  imports Identity_Cert
begin

text \<open>
  The device authority of \<open>crates/arreo-core/src/identity/authority.rs\<close> over the \<open>devices\<close> table of
  \<open>crates/arreo-core/src/store.rs\<close>. The state holds everything the authority reads and writes: the
  pinned root, the certificate directory, the table, the in-memory index, and the audit events it
  hands to \<open>SessionStore::record\<close>, oldest first. Every operation returns its result together with
  the state it leaves behind, on the error paths too. The clock and the root's signing function are
  arguments. SQLite and the filesystem accept every write; a read of the table fails exactly when a
  row does not parse.
\<close>

section \<open>The devices table\<close>

record device_row =
  row_id :: string
  row_name :: string
  row_role :: string
  row_public_key :: string
  row_serial :: int
  row_issued_at_ms :: int
  row_last_seen_ms :: "int option"
  row_revoked :: int
  row_retired_to :: "string option"
  row_revoked_at :: "int option"
  row_revoked_by :: "string option"

type_synonym devices_table = "(string, device_row) btree"

definition row_of :: "device_record \<Rightarrow> device_row" where
  "row_of d =
     \<lparr> row_id = rec_id d, row_name = rec_name d, row_role = role_as_str (rec_role d),
       row_public_key = public_hex d, row_serial = sint (rec_serial d),
       row_issued_at_ms = rec_issued_at_ms d, row_last_seen_ms = rec_last_seen_ms d,
       row_revoked = of_bool (rec_revoked d), row_retired_to = rec_retired_to d,
       row_revoked_at = rec_revoked_at_ms d, row_revoked_by = rec_revoked_by d \<rparr>"

definition coalesce :: "'a option \<Rightarrow> 'a option \<Rightarrow> 'a option" where
  "coalesce a b = (case a of None \<Rightarrow> b | Some x \<Rightarrow> Some x)"

definition upsert_device :: "device_record \<Rightarrow> devices_table \<Rightarrow> devices_table" where
  "upsert_device d t =
     (let excluded = row_of d in
      case bt_get t (row_id excluded) of
        None \<Rightarrow> bt_insert (row_id excluded) excluded t
      | Some old \<Rightarrow> bt_insert (row_id excluded)
          (excluded\<lparr> row_revoked_at := coalesce (row_revoked_at old) (row_revoked_at excluded),
                     row_revoked_by := coalesce (row_revoked_by old) (row_revoked_by excluded) \<rparr>) t)"

definition revoke_device :: "string \<Rightarrow> string \<Rightarrow> int \<Rightarrow> devices_table \<Rightarrow> bool \<times> devices_table" where
  "revoke_device d by now t =
     (case bt_get t d of
        None \<Rightarrow> (False, t)
      | Some old \<Rightarrow>
          if row_revoked old = 0
          then (True, bt_insert d
             (old\<lparr>row_revoked := 1, row_revoked_at := Some now, row_revoked_by := Some by\<rparr>) t)
          else (False, t))"

datatype session_error = InvalidQuery

text \<open>\<open>str::get(i..j)\<close>: \<open>None\<close> where the indexing expression would panic.\<close>

definition str_get :: "string \<Rightarrow> nat \<Rightarrow> nat \<Rightarrow> string option" where
  "str_get s i j = (case slice s i j of Panics \<Rightarrow> None | Returns x \<Rightarrow> Some x)"

fun read_public :: "string \<Rightarrow> nat list \<Rightarrow> session_error + bytes" where
  "read_public s [] = Ok []"
| "read_public s (index # rest) =
     (case str_get s (index * 2) (index * 2 + 2) of
        None \<Rightarrow> Err InvalidQuery
      | Some pair \<Rightarrow>
          (case u8_from_str_radix_16 pair of
             None \<Rightarrow> Err InvalidQuery
           | Some b \<Rightarrow> (case read_public s rest of Err e \<Rightarrow> Err e | Ok bs \<Rightarrow> Ok (b # bs))))"

definition read_retired :: "string option \<Rightarrow> session_error + device_id option" where
  "read_retired t = (case t of
      None \<Rightarrow> Ok None
    | Some text \<Rightarrow> (case device_id_parse text of Err _ \<Rightarrow> Err InvalidQuery | Ok d \<Rightarrow> Ok (Some d)))"

definition read_row :: "device_row \<Rightarrow> session_error + device_record" where
  "read_row row =
     (case role_parse (row_role row) of Err _ \<Rightarrow> Err InvalidQuery | Ok r \<Rightarrow>
      case device_id_parse (row_id row) of Err _ \<Rightarrow> Err InvalidQuery | Ok d \<Rightarrow>
      case read_public (row_public_key row) [0..<32] of Err e \<Rightarrow> Err e | Ok public \<Rightarrow>
      case read_retired (row_retired_to row) of Err e \<Rightarrow> Err e | Ok ret \<Rightarrow>
      Ok \<lparr> rec_id = d, rec_name = row_name row, rec_role = r, rec_public_key = public,
           rec_serial = word_of_int (row_serial row), rec_issued_at_ms = row_issued_at_ms row,
           rec_last_seen_ms = row_last_seen_ms row, rec_revoked = (row_revoked row \<noteq> 0),
           rec_revoked_at_ms = row_revoked_at row, rec_revoked_by = row_revoked_by row,
           rec_retired_to = ret \<rparr>)"

fun read_rows :: "device_row list \<Rightarrow> session_error + device_record list" where
  "read_rows [] = Ok []"
| "read_rows (row # rows) =
     (case read_row row of Err e \<Rightarrow> Err e | Ok r \<Rightarrow>
      case read_rows rows of Err e \<Rightarrow> Err e | Ok rs \<Rightarrow> Ok (r # rs))"

definition store_devices :: "devices_table \<Rightarrow> session_error + device_record list" where
  "store_devices t = read_rows (bt_values t)"

text \<open>\<open>devices().unwrap_or_default()\<close>.\<close>

definition store_devices_or_default :: "devices_table \<Rightarrow> device_record list" where
  "store_devices_or_default t = (case store_devices t of Err _ \<Rightarrow> [] | Ok rs \<Rightarrow> rs)"

section \<open>The authority\<close>

datatype audit_kind = Prompt | AuthReject | DeviceChange | PairingFailed | UnknownKind | Trust

datatype audit_outcome = OutcomeOk | Refused | Expired

record audit_event =
  ev_ts_ms :: u64
  ev_action :: string
  ev_kind :: audit_kind
  ev_outcome :: audit_outcome
  ev_device :: string
  ev_agent :: string
  ev_prompt :: string
  ev_peer :: "string option"
  ev_detail :: "string option"

definition event_new :: "string \<Rightarrow> audit_kind \<Rightarrow> audit_outcome \<Rightarrow> u64 \<Rightarrow> audit_event" where
  "event_new action kind outcome now =
     \<lparr> ev_ts_ms = now, ev_action = action, ev_kind = kind, ev_outcome = outcome, ev_device = [],
       ev_agent = [], ev_prompt = [], ev_peer = None, ev_detail = None \<rparr>"

record authority =
  au_root :: verifying_key
  au_files :: cert_files
  au_store :: devices_table
  au_audit :: "audit_event list"
  au_index :: device_index
  au_certs :: "(device_id, device_cert) btree"

datatype revocation = RevokedNow | AlreadyRevoked

datatype authority_error =
    AeCert cert_error
  | AeStore session_error
  | NotActive device_id string
  | WeakKey

datatype verb_denial =
    NotAuthorized cert_error
  | DenialRole device_id role role_error

definition check_pinnable :: "crypto \<Rightarrow> verifying_key \<Rightarrow> authority_error + unit" where
  "check_pinnable C key = (if is_weak C key then Err WeakKey else Ok ())"

definition find_record :: "device_record list \<Rightarrow> device_id \<Rightarrow> device_record option" where
  "find_record rs d = find (\<lambda>r. rec_id r = d) rs"

definition add_disk_cert :: "device_index \<Rightarrow> device_record \<Rightarrow> (device_id, device_cert) btree
    \<Rightarrow> (device_id, device_cert) btree" where
  "add_disk_cert disk r certs =
     (case index_cert disk (rec_id r) of None \<Rightarrow> certs | Some c \<Rightarrow> bt_insert (rec_id r) c certs)"

definition add_unrecorded :: "device_index \<Rightarrow> device_record \<Rightarrow> device_index \<Rightarrow> device_index" where
  "add_unrecorded disk r ix =
     (if index_get ix (rec_id r) = None \<and> \<not> rec_revoked r
      then (case index_cert disk (rec_id r) of None \<Rightarrow> ix | Some c \<Rightarrow> index_insert c ix)
      else ix)"

definition apply_retirement :: "device_record \<Rightarrow> device_index \<Rightarrow> device_index" where
  "apply_retirement r ix =
     (case rec_retired_to r of None \<Rightarrow> ix | Some t \<Rightarrow> index_retire (rec_id r) t ix)"

definition reload :: "crypto \<Rightarrow> authority \<Rightarrow> (authority_error + unit) \<times> authority" where
  "reload C a =
     (let disk = fst (load_dir C (Some (au_files a)));
          certs = fold (add_disk_cert disk) (index_iter disk) []
      in case store_devices (au_store a) of
           Err e \<Rightarrow> (Err (AeStore e), a)
         | Ok records \<Rightarrow>
             let ix0 = from_records C records certs (au_root a);
                 ix1 = fold (add_unrecorded disk) (index_iter disk) ix0;
                 ix2 = fold apply_retirement records ix1
             in (Ok (), a\<lparr>au_index := ix2, au_certs := certs\<rparr>))"

definition next_serial :: "authority \<Rightarrow> u64" where
  "next_serial a =
     (let serials = map rec_serial (store_devices_or_default (au_store a))
      in fold max serials 0 + 1)"

definition audit_note :: "audit_kind \<Rightarrow> string \<Rightarrow> audit_outcome \<Rightarrow> device_id \<Rightarrow> string \<Rightarrow> int
    \<Rightarrow> authority \<Rightarrow> authority" where
  "audit_note kind action outcome d note now a =
     a\<lparr>au_audit := au_audit a @ [(event_new action kind outcome (word_of_int now))
        \<lparr>ev_device := display_id d, ev_prompt := note\<rparr>]\<rparr>"

definition audit_revocation :: "device_id \<Rightarrow> string \<Rightarrow> int \<Rightarrow> authority \<Rightarrow> authority" where
  "audit_revocation target by now a =
     a\<lparr>au_audit := au_audit a @
        [(event_new ''device.revoke'' DeviceChange OutcomeOk (word_of_int now))
        \<lparr>ev_device := display_id target, ev_detail := Some (''revoked by '' @ by)\<rparr>]\<rparr>"

definition note_refusal :: "device_id \<Rightarrow> string \<Rightarrow> int \<Rightarrow> authority \<Rightarrow> authority" where
  "note_refusal d reason now a = audit_note AuthReject ''auth.reject'' Refused d reason now a"

definition audit_pairing_failure :: "string \<Rightarrow> string \<Rightarrow> int \<Rightarrow> authority \<Rightarrow> authority" where
  "audit_pairing_failure session reason now a =
     a\<lparr>au_audit := au_audit a @
        [(event_new ''pairing.failed'' PairingFailed Refused (word_of_int now))
        \<lparr>ev_device := session, ev_prompt := reason\<rparr>]\<rparr>"

definition cert_file_name :: "device_id \<Rightarrow> string" where
  "cert_file_name d = d @ ''.cert''"

definition cert_save :: "crypto \<Rightarrow> device_cert \<Rightarrow> cert_files \<Rightarrow> cert_error + cert_files" where
  "cert_save C c files =
     (case cert_encode C c of
        Err e \<Rightarrow> Err e
      | Ok bs \<Rightarrow> Ok (bt_insert (cert_file_name (cp_device (dc_payload c))) (Some bs) files))"

definition pin :: "crypto \<Rightarrow> device_cert \<Rightarrow> int \<Rightarrow> authority \<Rightarrow> (authority_error + unit) \<times> authority" where
  "pin C c now a =
     (case cert_save C c (au_files a) of
        Err e \<Rightarrow> (Err (AeCert e), a)
      | Ok files \<Rightarrow>
          let r = from_cert c;
              a1 = a\<lparr>au_files := files, au_store := upsert_device r (au_store a)\<rparr>;
              a2 = audit_note DeviceChange ''device.issue'' OutcomeOk (rec_id r)
                     (''issued '' @ role_as_str (rec_role r) @ '' for '' @ rec_name r) now a1
          in reload C a2)"

definition authority_issue :: "crypto \<Rightarrow> (bytes \<Rightarrow> bytes) \<Rightarrow> string \<Rightarrow> role \<Rightarrow> verifying_key \<Rightarrow> int
    \<Rightarrow> authority \<Rightarrow> (authority_error + device_cert) \<times> authority" where
  "authority_issue C sign nm r key now a =
     (let d = from_key C key in
      case store_devices (au_store a) of
        Err e \<Rightarrow> (Err (AeStore e), a)
      | Ok records \<Rightarrow>
          (case may_pin (find_record records d) of
             Err den \<Rightarrow> (Err (NotActive d (denied_reason den)), a)
           | Ok _ \<Rightarrow>
               (case check_pinnable C key of
                  Err e \<Rightarrow> (Err e, a)
                | Ok _ \<Rightarrow>
                    let c = cert_issue C sign key nm r now (next_serial a) in
                    (case pin C c now a of
                       (Err e, a') \<Rightarrow> (Err e, a')
                     | (Ok _, a') \<Rightarrow> (Ok c, a')))))"

definition authority_rotate :: "crypto \<Rightarrow> (bytes \<Rightarrow> bytes) \<Rightarrow> device_id \<Rightarrow> string \<Rightarrow> role
    \<Rightarrow> verifying_key \<Rightarrow> int \<Rightarrow> authority \<Rightarrow> (authority_error + device_cert) \<times> authority" where
  "authority_rotate C sign d nm r new_key now a =
     (case store_devices (au_store a) of
        Err e \<Rightarrow> (Err (AeStore e), a)
      | Ok records \<Rightarrow>
          (case find_record records d of
             None \<Rightarrow> (Err (AeCert (NoCert (display_id d))), a)
           | Some old \<Rightarrow>
               if rec_revoked old then (Err (NotActive d ''revoked''), a)
               else (case check_pinnable C new_key of
                  Err e \<Rightarrow> (Err e, a)
                | Ok _ \<Rightarrow>
                    let c = cert_issue C sign new_key nm r now (next_serial a);
                        new_id = cp_device (dc_payload c) in
                    if new_id = d
                    then (Err (AeCert (Revoked ''rotation must move onto a different key'')), a)
                    else (case pin C c now a of
                       (Err e, a') \<Rightarrow> (Err e, a')
                     | (Ok _, a') \<Rightarrow>
                         let ret = old\<lparr>rec_retired_to := Some new_id, rec_revoked := False\<rparr>;
                             a1 = a'\<lparr>au_store := upsert_device ret (au_store a'),
                                     au_files := bt_remove (cert_file_name d) (au_files a')\<rparr>;
                             a2 = audit_note DeviceChange ''device.rotate'' OutcomeOk d
                                    (''rotated to '' @ display_id new_id) now a1
                         in (case reload C a2 of
                               (Err e, a3) \<Rightarrow> (Err e, a3)
                             | (Ok _, a3) \<Rightarrow> (Ok c, a3))))))"

definition authority_revoke :: "crypto \<Rightarrow> device_id \<Rightarrow> string \<Rightarrow> int \<Rightarrow> authority
    \<Rightarrow> (authority_error + revocation) \<times> authority" where
  "authority_revoke C d by now a =
     (case store_devices (au_store a) of
        Err e \<Rightarrow> (Err (AeStore e), a)
      | Ok records \<Rightarrow>
          if find_record records d = None then (Err (AeCert (NoCert (display_id d))), a)
          else (case revoke_device d by now (au_store a) of
                  (False, t) \<Rightarrow> (Ok AlreadyRevoked, a\<lparr>au_store := t\<rparr>)
                | (True, t) \<Rightarrow>
                    let a1 = a\<lparr>au_store := t, au_files := bt_remove (cert_file_name d) (au_files a)\<rparr>
                    in (case reload C (audit_revocation d by now a1) of
                          (Err e, a2) \<Rightarrow> (Err e, a2)
                        | (Ok _, a2) \<Rightarrow> (Ok RevokedNow, a2))))"

text \<open>
  The text of a refusal. The four constructors of the last line never come out of
  \<open>DeviceIndex::authorize\<close>; only the fixed part of their text is given.
\<close>

definition cert_error_text :: "cert_error \<Rightarrow> string" where
  "cert_error_text e = (case e of
      Version f x \<Rightarrow> ''unsupported certificate version '' @ show_nat (unat f)
        @ '' (this build speaks '' @ show_nat (unat x) @ '')''
    | DeviceMismatch c p \<Rightarrow> ''certificate is for '' @ c @ '' but the presented key is '' @ p
    | BadSignature \<Rightarrow> ''certificate signature does not verify under the root key''
    | ZeroSerial \<Rightarrow> ''certificate carries serial 0, which is never issued''
    | NoCert d \<Rightarrow> ''device '' @ d @ '' has no certificate''
    | KeyMismatch d k p \<Rightarrow> ''device '' @ d @ '' presents key '' @ k @ '', but is pinned to '' @ p
    | Revoked d \<Rightarrow> ''certificate revoked: '' @ d
    | RotatedAway d r \<Rightarrow> ''key '' @ d @ '' was rotated away; this device is now '' @ r
    | Decode \<Rightarrow> ''certificate is not valid MessagePack'' | Encode \<Rightarrow> ''certificate is not encodable''
    | BadDeviceId _ \<Rightarrow> ''not a device id'' | CertIo \<Rightarrow> ''cert io'')"

definition authority_authorize :: "crypto \<Rightarrow> verifying_key \<Rightarrow> int \<Rightarrow> authority
    \<Rightarrow> (cert_error + device_record) \<times> authority" where
  "authority_authorize C presented now a =
     (let d = from_key C presented;
          durable = store_devices_or_default (au_store a);
          refusal = (case find_record durable d of
              None \<Rightarrow> None
            | Some r \<Rightarrow> (case may_connect r of Ok _ \<Rightarrow> None | Err den \<Rightarrow> Some den))
      in case refusal of
           Some den \<Rightarrow>
             (Err (case den of
                DeniedRevoked _ \<Rightarrow> Revoked (display_id d)
              | DeniedRotatedAway _ to \<Rightarrow> RotatedAway (display_id d) (display_id to)),
              note_refusal d (denied_reason den) now a)
         | None \<Rightarrow>
             (case index_authorize C (au_index a) (au_root a) presented of
                Ok r \<Rightarrow> (Ok r, a)
              | Err e \<Rightarrow> (Err e, note_refusal d (cert_error_text e) now a)))"

definition check_verb :: "crypto \<Rightarrow> verifying_key \<Rightarrow> verb \<Rightarrow> int \<Rightarrow> authority
    \<Rightarrow> (verb_denial + unit) \<times> authority" where
  "check_verb C key v now a =
     (case authority_authorize C key now a of
        (Err e, a') \<Rightarrow> (Err (NotAuthorized e), a')
      | (Ok r, a') \<Rightarrow>
          (case role_check (rec_role r) v of
             Ok _ \<Rightarrow> (Ok (), a')
           | Err source \<Rightarrow> (Err (DenialRole (rec_id r) (rec_role r) source), a')))"

definition touch :: "device_id \<Rightarrow> int \<Rightarrow> authority \<Rightarrow> (authority_error + unit) \<times> authority" where
  "touch d now a =
     (case store_devices (au_store a) of
        Err e \<Rightarrow> (Err (AeStore e), a)
      | Ok records \<Rightarrow>
          (case find_record records d of
             None \<Rightarrow> (Ok (), a)
           | Some r \<Rightarrow> (Ok (), a\<lparr>au_store :=
               upsert_device (r\<lparr>rec_last_seen_ms := Some now\<rparr>) (au_store a)\<rparr>)))"

definition authority_record :: "authority \<Rightarrow> device_id \<Rightarrow> authority_error + device_record option" where
  "authority_record a d =
     (case store_devices (au_store a) of
        Err e \<Rightarrow> Err (AeStore e)
      | Ok records \<Rightarrow> Ok (find_record records d))"

definition authority_device :: "crypto \<Rightarrow> device_id \<Rightarrow> authority \<Rightarrow> device_record option \<times> authority" where
  "authority_device C d a =
     (let withdrawn = (case authority_record a d of
            Ok (Some r) \<Rightarrow> rec_revoked r \<or> rec_retired_to r \<noteq> None
          | _ \<Rightarrow> False)
      in if withdrawn then (None, a)
         else (case index_get (au_index a) d of
             Some r \<Rightarrow> (Some r, a)
           | None \<Rightarrow>
               (case reload C a of
                  (Ok _, a') \<Rightarrow> (index_get (au_index a') d, a')
                | (Err _, a') \<Rightarrow> (None, a'))))"

definition role_of :: "authority \<Rightarrow> device_id \<Rightarrow> role option" where
  "role_of a d =
     map_option rec_role
       (find (\<lambda>r. rec_id r = d \<and> \<not> rec_revoked r \<and> rec_retired_to r = None)
          (store_devices_or_default (au_store a)))"

definition authority_devices :: "authority \<Rightarrow> device_record list" where
  "authority_devices a =
     (let out = store_devices_or_default (au_store a);
          add = (\<lambda>r out. if \<exists>known \<in> set out. rec_id known = rec_id r then out else out @ [r])
      in sort_key rec_id (fold add (index_iter (au_index a)) out))"

definition authority_load :: "crypto \<Rightarrow> verifying_key \<Rightarrow> cert_files \<Rightarrow> devices_table
    \<Rightarrow> audit_event list \<Rightarrow> authority_error + authority" where
  "authority_load C root files table audit =
     (case reload C \<lparr> au_root = root, au_files = files, au_store = table, au_audit = audit,
                      au_index = index_new, au_certs = [] \<rparr> of
        (Err e, _) \<Rightarrow> Err e
      | (Ok _, a) \<Rightarrow> Ok a)"

end
