(* ===== verification/Identity_Authority_Facts.thy ===== *)
theory Identity_Authority_Facts
  imports Identity_Authority
begin

text \<open>
  What the device authority guarantees: rows survive the trip through the table, an acceptance
  rests on a verified certificate, a revocation is final under every operation but one, and the
  places where the code does less than its comments say.
\<close>

section \<open>Rows and records\<close>

definition record_ok :: "device_record \<Rightarrow> bool" where
  "record_ok r \<longleftrightarrow> canonical_id (rec_id r) \<and> length (rec_public_key r) = 32 \<and>
     (\<forall>d. rec_retired_to r = Some d \<longrightarrow> canonical_id d)"

lemma read_public_hex_pairs:
  "read_public s is = (case hex_pairs Format s (map (\<lambda>i. 2 * i) is) of
     Returns (Ok bs) \<Rightarrow> Ok bs | _ \<Rightarrow> Err InvalidQuery)"
  by (induction "is") (auto simp: str_get_def mult.commute split: run.splits option.splits sum.splits)

lemma read_public_hex: "length bs = 32 \<Longrightarrow> read_public (hex bs) [0..<32] = Ok bs"
  using hex_pairs_hex [of "[]" 0 Format bs] by (simp add: read_public_hex_pairs)

lemma length_read_public: "read_public s is = Ok bs \<Longrightarrow> length bs = length is"
  by (induction "is" arbitrary: bs) (auto split: option.splits sum.splits)

lemma read_row_of: "record_ok r \<Longrightarrow> read_row (row_of r) = Ok r"
  by (auto simp: read_row_def row_of_def record_ok_def role_parse_as_str public_hex_def
      read_public_hex device_id_parse_canonical read_retired_def split: option.splits)

lemma read_row_ok: "read_row row = Ok r \<Longrightarrow> record_ok r"
  by (auto simp: read_row_def record_ok_def read_retired_def
      dest: canonical_parse_result length_read_public split: sum.splits option.splits)

definition table_ok :: "devices_table \<Rightarrow> bool" where
  "table_ok t \<longleftrightarrow> bt_inv t \<and>
     (\<forall>d row. bt_get t d = Some row \<longrightarrow> row_id row = d \<and> canonical_id d \<and> is_ok (read_row row))"

lemma read_row_id: "read_row row = Ok r \<Longrightarrow> canonical_id (row_id row) \<Longrightarrow> rec_id r = row_id row"
  by (auto simp: read_row_def device_id_parse_canonical split: sum.splits)

lemma read_rows_Ok: "(\<forall>row \<in> set rows. is_ok (read_row row)) \<Longrightarrow> \<exists>rs. read_rows rows = Ok rs"
  by (induction rows) (auto simp: is_ok_iff)

lemma read_rows_find:
  assumes "read_rows (bt_values t) = Ok rs"
    and "\<forall>(d, row) \<in> set t. row_id row = d \<and> canonical_id d"
  shows "find_record rs d = (case bt_get t d of None \<Rightarrow> None | Some row \<Rightarrow>
      (case read_row row of Ok r \<Rightarrow> Some r | Err _ \<Rightarrow> None))"
  using assms
proof (induction t arbitrary: rs)
  case Nil
  then show ?case by (simp add: bt_values_def find_record_def)
next
  case (Cons p t)
  obtain k row where p: "p = (k, row)" by force
  with Cons.prems obtain r rs' where r: "read_row row = Ok r" "read_rows (bt_values t) = Ok rs'"
    "rs = r # rs'"
    by (auto simp: bt_values_def split: sum.splits)
  moreover have "rec_id r = k"
    using read_row_id [OF r(1)] Cons.prems p by simp
  moreover have "find_record rs' d = (case bt_get t d of None \<Rightarrow> None | Some row \<Rightarrow>
      (case read_row row of Ok r \<Rightarrow> Some r | Err _ \<Rightarrow> None))"
    using Cons.prems r by (intro Cons.IH) auto
  ultimately show ?case
    using p by (auto simp: find_record_def)
qed

lemma table_ok_rows: "table_ok t \<Longrightarrow> \<forall>(d, row) \<in> set t. row_id row = d \<and> canonical_id d \<and> is_ok (read_row row)"
  by (auto simp: table_ok_def simp flip: bt_get_eq_set)

lemma table_ok_readable:
  assumes "table_ok t"
  obtains rs where "store_devices t = Ok rs"
    and "\<And>d. find_record rs d = (case bt_get t d of None \<Rightarrow> None | Some row \<Rightarrow>
            (case read_row row of Ok r \<Rightarrow> Some r | Err _ \<Rightarrow> None))"
proof -
  have "\<forall>row \<in> set (bt_values t). is_ok (read_row row)"
    using table_ok_rows [OF assms] by (auto simp: bt_values_def)
  then obtain rs where rs: "store_devices t = Ok rs"
    unfolding store_devices_def by (blast dest: read_rows_Ok)
  show ?thesis
  proof (rule that [OF rs])
    fix d show "find_record rs d = (case bt_get t d of None \<Rightarrow> None | Some row \<Rightarrow>
            (case read_row row of Ok r \<Rightarrow> Some r | Err _ \<Rightarrow> None))"
      using rs table_ok_rows [OF assms] unfolding store_devices_def
      by (intro read_rows_find) auto
  qed
qed

lemma find_record_id: "find_record rs d = Some r \<Longrightarrow> rec_id r = d"
  by (auto simp: find_record_def find_Some_iff)

text \<open>Rows whose provenance columns differ read back the same otherwise.\<close>

lemma read_row_provenance:
  "read_row row = Ok r \<Longrightarrow> read_row (row\<lparr>row_revoked_at := x, row_revoked_by := y\<rparr>) =
     Ok (r\<lparr>rec_revoked_at_ms := x, rec_revoked_by := y\<rparr>)"
  by (auto simp: read_row_def split: sum.splits)

lemma read_row_revoke:
  "read_row row = Ok r \<Longrightarrow>
     read_row (row\<lparr>row_revoked := 1, row_revoked_at := x, row_revoked_by := y\<rparr>) =
     Ok (r\<lparr>rec_revoked := True, rec_revoked_at_ms := x, rec_revoked_by := y\<rparr>)"
  by (auto simp: read_row_def split: sum.splits)

lemma is_ok_read_row_revoke:
  "is_ok (read_row row) \<Longrightarrow>
     is_ok (read_row (row\<lparr>row_revoked := 1, row_revoked_at := x, row_revoked_by := y\<rparr>))"
  using read_row_revoke by (fastforce simp: is_ok_iff)

lemma read_row_revoked: "read_row row = Ok r \<Longrightarrow> rec_revoked r \<longleftrightarrow> row_revoked row \<noteq> 0"
  by (auto simp: read_row_def split: sum.splits)

section \<open>The table under the operations\<close>

lemma row_of_simps [simp]:
  "row_id (row_of r) = rec_id r" "row_revoked (row_of r) = of_bool (rec_revoked r)"
  "row_revoked_at (row_of r) = rec_revoked_at_ms r" "row_revoked_by (row_of r) = rec_revoked_by r"
  by (simp_all add: row_of_def)

definition upserted_row :: "device_record \<Rightarrow> device_row option \<Rightarrow> device_row" where
  "upserted_row r old = (row_of r)
     \<lparr>row_revoked_at := coalesce (Option.bind old row_revoked_at) (rec_revoked_at_ms r),
      row_revoked_by := coalesce (Option.bind old row_revoked_by) (rec_revoked_by r)\<rparr>"

lemma row_update_same [simp]:
  "row\<lparr>row_revoked_at := row_revoked_at row, row_revoked_by := row_revoked_by row\<rparr> = row"
  by simp

lemma upsert_device_eq: "upsert_device r t = bt_insert (rec_id r) (upserted_row r (bt_get t (rec_id r))) t"
proof (cases "bt_get t (rec_id r)")
  case None
  have "upserted_row r None = row_of r"
    using row_update_same [of "row_of r"] by (simp add: upserted_row_def coalesce_def)
  with None show ?thesis by (simp add: upsert_device_def Let_def)
next
  case (Some old)
  then show ?thesis by (simp add: upsert_device_def Let_def upserted_row_def)
qed

lemma upserted_row_simps [simp]:
  "row_id (upserted_row r old) = rec_id r"
  "row_revoked (upserted_row r old) = of_bool (rec_revoked r)"
  by (simp_all add: upserted_row_def)

lemma read_upserted_row:
  "record_ok r \<Longrightarrow> \<exists>x y. read_row (upserted_row r old) = Ok (r\<lparr>rec_revoked_at_ms := x, rec_revoked_by := y\<rparr>)"
  unfolding upserted_row_def using read_row_provenance [OF read_row_of] by blast

lemma get_upsert:
  "bt_inv t \<Longrightarrow> bt_get (upsert_device r t) d =
     (if d = rec_id r then Some (upserted_row r (bt_get t (rec_id r))) else bt_get t d)"
  by (simp add: upsert_device_eq btree_simps)

lemma bt_inv_upsert: "bt_inv t \<Longrightarrow> bt_inv (upsert_device r t)"
  by (simp add: upsert_device_eq btree_simps)

lemma table_ok_upsert: "table_ok t \<Longrightarrow> record_ok r \<Longrightarrow> table_ok (upsert_device r t)"
  using read_upserted_row [of r]
  by (fastforce simp: table_ok_def bt_inv_upsert get_upsert record_ok_def is_ok_iff split: if_splits)

lemma table_ok_revoke: "table_ok t \<Longrightarrow> table_ok (snd (revoke_device d by now t))"
  by (auto simp: table_ok_def revoke_device_def btree_simps is_ok_read_row_revoke
      split: option.splits)

definition table_revoked :: "devices_table \<Rightarrow> device_id \<Rightarrow> bool" where
  "table_revoked t d \<longleftrightarrow> (\<exists>row. bt_get t d = Some row \<and> row_revoked row \<noteq> 0)"

lemma table_revoked_find:
  assumes "table_ok t" and "store_devices t = Ok rs"
  shows "table_revoked t d \<longleftrightarrow> (\<exists>r. find_record rs d = Some r \<and> rec_revoked r)"
proof -
  have *: "find_record rs d = (case bt_get t d of None \<Rightarrow> None | Some row \<Rightarrow>
            (case read_row row of Ok r \<Rightarrow> Some r | Err _ \<Rightarrow> None))"
    using assms by (metis table_ok_readable Inr_inject)
  show ?thesis
  proof (cases "bt_get t d")
    case None
    with * show ?thesis by (simp add: table_revoked_def)
  next
    case (Some row)
    with assms obtain r where "read_row row = Ok r"
      by (auto simp: table_ok_def is_ok_iff)
    with Some * show ?thesis
      by (auto simp: table_revoked_def read_row_revoked)
  qed
qed

section \<open>Operations as steps\<close>

datatype authority_op =
    OpIssue string role verifying_key
  | OpRotate device_id string role verifying_key
  | OpRevoke device_id string
  | OpAuthorize verifying_key
  | OpCheckVerb verifying_key verb
  | OpTouch device_id
  | OpDevice device_id
  | OpReload
  | OpPairingFailure string string

fun run_op :: "crypto \<Rightarrow> (bytes \<Rightarrow> bytes) \<Rightarrow> authority_op \<times> int \<Rightarrow> authority \<Rightarrow> authority" where
  "run_op C sign (OpIssue nm r key, now) a = snd (authority_issue C sign nm r key now a)"
| "run_op C sign (OpRotate d nm r key, now) a = snd (authority_rotate C sign d nm r key now a)"
| "run_op C sign (OpRevoke d by, now) a = snd (authority_revoke C d by now a)"
| "run_op C sign (OpAuthorize key, now) a = snd (authority_authorize C key now a)"
| "run_op C sign (OpCheckVerb key v, now) a = snd (check_verb C key v now a)"
| "run_op C sign (OpTouch d, now) a = snd (touch d now a)"
| "run_op C sign (OpDevice d, now) a = snd (authority_device C d a)"
| "run_op C sign (OpReload, now) a = snd (reload C a)"
| "run_op C sign (OpPairingFailure s e, now) a = audit_pairing_failure s e now a"

definition run_ops :: "crypto \<Rightarrow> (bytes \<Rightarrow> bytes) \<Rightarrow> (authority_op \<times> int) list \<Rightarrow> authority \<Rightarrow> authority" where
  "run_ops C sign ops a = fold (run_op C sign) ops a"

text \<open>A \<open>VerifyingKey\<close> is 32 bytes by type.\<close>

fun op_ok :: "authority_op \<Rightarrow> bool" where
  "op_ok (OpIssue _ _ key) = (length key = 32)"
| "op_ok (OpRotate _ _ _ key) = (length key = 32)"
| "op_ok _ = True"

text \<open>The one operation that can bring a revoked id back: a rotation onto its key.\<close>

fun rotates_onto :: "crypto \<Rightarrow> device_id \<Rightarrow> authority_op \<Rightarrow> bool" where
  "rotates_onto C d (OpRotate _ _ _ key) = (from_key C key = d)"
| "rotates_onto C d _ = False"

subsection \<open>What each operation does to the table\<close>

lemma au_store_audit [simp]:
  "au_store (audit_note k x oc d n t a) = au_store a" "au_store (audit_revocation d b t a) = au_store a"
  "au_store (note_refusal d e t a) = au_store a" "au_store (audit_pairing_failure s e t a) = au_store a"
  by (simp_all add: audit_note_def audit_revocation_def note_refusal_def audit_pairing_failure_def)

lemma au_store_reload [simp]: "au_store (snd (reload C a)) = au_store a"
  by (simp add: reload_def Let_def split: sum.splits)

lemma reload_pair_store: "reload C a = (x, b) \<Longrightarrow> au_store b = au_store a"
  using au_store_reload [of C a] by simp

lemma au_store_authorize [simp]: "au_store (snd (authority_authorize C key now a)) = au_store a"
  by (simp add: authority_authorize_def Let_def split: option.splits sum.splits)

lemma authorize_pair_store: "authority_authorize C key now a = (x, b) \<Longrightarrow> au_store b = au_store a"
  using au_store_authorize [of C key now a] by simp

lemma au_store_check_verb [simp]: "au_store (snd (check_verb C key v now a)) = au_store a"
  by (auto simp: check_verb_def dest: authorize_pair_store split: prod.splits sum.splits)

lemma au_store_device [simp]: "au_store (snd (authority_device C d a)) = au_store a"
  by (auto simp: authority_device_def Let_def dest: reload_pair_store
      split: option.splits prod.splits sum.splits)

lemma au_store_pin:
  "au_store (snd (pin C c now a)) = au_store a \<or>
   au_store (snd (pin C c now a)) = upsert_device (from_cert c) (au_store a)"
  by (simp add: pin_def Let_def split: sum.splits)

lemma cert_issue_simps [simp]:
  "cp_device (dc_payload (cert_issue C sign key nm r at sn)) = from_key C key"
  "cp_public_key (dc_payload (cert_issue C sign key nm r at sn)) = key"
  "cp_role (dc_payload (cert_issue C sign key nm r at sn)) = r"
  "cp_serial (dc_payload (cert_issue C sign key nm r at sn)) = sn"
  by (simp_all add: cert_issue_def Let_def)

lemma record_ok_issued:
  "crypto_ok C \<Longrightarrow> length key = 32 \<Longrightarrow> record_ok (from_cert (cert_issue C sign key nm r at sn))"
  by (simp add: record_ok_def canonical_from_key)

text \<open>
  The effect of an operation on the table: nothing, or a sequence of upserts of well-formed records
  and revocations. \<open>Q d\<close> says which ids an upsert may write with the revoked flag cleared.
\<close>

inductive table_step :: "(device_id \<Rightarrow> bool) \<Rightarrow> devices_table \<Rightarrow> devices_table \<Rightarrow> bool"
  for Q :: "device_id \<Rightarrow> bool" where
  same: "table_step Q t t"
| upsert: "table_step Q t u \<Longrightarrow> record_ok r \<Longrightarrow> rec_revoked r \<or> Q (rec_id r) \<Longrightarrow>
     table_step Q t (upsert_device r u)"
| revoke: "table_step Q t u \<Longrightarrow> table_step Q t (snd (revoke_device d by now u))"

lemma table_step_ok: "table_step Q t u \<Longrightarrow> table_ok t \<Longrightarrow> table_ok u"
  by (induction rule: table_step.induct) (auto intro: table_ok_upsert table_ok_revoke)

lemma table_revoked_revoke: "bt_inv t \<Longrightarrow> table_revoked t d \<Longrightarrow> table_revoked (snd (revoke_device d' by now t)) d"
  by (auto simp: table_revoked_def revoke_device_def btree_simps split: option.splits)

lemma table_step_revoked:
  "table_step Q t u \<Longrightarrow> table_ok t \<Longrightarrow> \<not> Q d \<Longrightarrow> table_revoked t d \<Longrightarrow> table_revoked u d"
proof (induction rule: table_step.induct)
  case same
  then show ?case by simp
next
  case (upsert t u r)
  have "bt_inv u"
    using table_step_ok [OF upsert.hyps(1) upsert.prems(1)] by (simp add: table_ok_def)
  with upsert show ?case by (auto simp: table_revoked_def get_upsert)
next
  case (revoke t u d' who now)
  have "bt_inv u"
    using table_step_ok [OF revoke.hyps(1) revoke.prems(1)] by (simp add: table_ok_def)
  with revoke show ?case by (simp add: table_revoked_revoke)
qed

lemma step_pin:
  assumes "crypto_ok C" and "length key = 32" and "Q (from_key C key)"
  shows "table_step Q (au_store a) (au_store (snd (pin C (cert_issue C sign key nm r at sn) now a)))"
proof -
  have "table_step Q (au_store a)
      (upsert_device (from_cert (cert_issue C sign key nm r at sn)) (au_store a))"
    using assms by (intro table_step.upsert table_step.same record_ok_issued) auto
  then show ?thesis
    using au_store_pin [of C "cert_issue C sign key nm r at sn" now a] table_step.same [of Q]
    by metis
qed

lemma find_record_ok:
  assumes "store_devices t = Ok rs" and "find_record rs d = Some r"
  shows "record_ok r"
proof -
  have "read_rows rows = Ok rs \<Longrightarrow> \<forall>r \<in> set rs. record_ok r" for rows rs
    by (induction rows arbitrary: rs) (auto dest: read_row_ok split: sum.splits)
  moreover have "r \<in> set rs"
    using assms(2) by (auto simp: find_record_def find_Some_iff)
  ultimately show ?thesis
    using assms(1) by (auto simp: store_devices_def)
qed

lemma issue_store_cases:
  "au_store (snd (authority_issue C sign nm r key now a)) = au_store a \<or>
   (\<exists>rs. store_devices (au_store a) = Ok rs \<and> may_pin (find_record rs (from_key C key)) = Ok () \<and>
     au_store (snd (authority_issue C sign nm r key now a)) =
     au_store (snd (pin C (cert_issue C sign key nm r now (next_serial a)) now a)))"
  by (auto simp: authority_issue_def Let_def split: sum.splits prod.splits)

lemma table_step_issue:
  assumes "crypto_ok C" and "length key = 32" and t: "table_ok (au_store a)"
    and Q: "\<And>d. \<not> table_revoked (au_store a) d \<Longrightarrow> Q d"
  shows "table_step Q (au_store a) (au_store (snd (authority_issue C sign nm r key now a)))"
  using issue_store_cases [of C sign nm r key now a]
proof (elim disjE exE conjE)
  fix rs assume rs: "store_devices (au_store a) = Ok rs"
    and pin: "may_pin (find_record rs (from_key C key)) = Ok ()"
    and eq: "au_store (snd (authority_issue C sign nm r key now a)) =
     au_store (snd (pin C (cert_issue C sign key nm r now (next_serial a)) now a))"
  have "\<not> table_revoked (au_store a) (from_key C key)"
    using pin by (auto simp: table_revoked_find [OF t rs] may_pin_def may_connect_Ok_iff)
  then show ?thesis
    unfolding eq using assms by (intro step_pin) auto
qed (simp add: table_step.same)

lemma rotate_store_cases:
  "au_store (snd (authority_rotate C sign d nm r key now a)) = au_store a \<or>
   (\<exists>rs old x a1. store_devices (au_store a) = Ok rs \<and> find_record rs d = Some old \<and>
     \<not> rec_revoked old \<and> d \<noteq> from_key C key \<and>
     pin C (cert_issue C sign key nm r now (next_serial a)) now a = (x, a1) \<and>
     au_store (snd (authority_rotate C sign d nm r key now a)) \<in>
       {au_store a1, upsert_device (old\<lparr>rec_retired_to := Some (from_key C key),
          rec_revoked := False\<rparr>) (au_store a1)})"
  by (auto simp: authority_rotate_def Let_def dest!: reload_pair_store
      split: sum.splits prod.splits option.splits if_splits)

lemma table_step_rotate:
  assumes C: "crypto_ok C" and "length key = 32" and t: "table_ok (au_store a)"
    and Q: "\<And>d. \<not> table_revoked (au_store a) d \<or> d = from_key C key \<Longrightarrow> Q d"
  shows "table_step Q (au_store a) (au_store (snd (authority_rotate C sign d nm r key now a)))"
  using rotate_store_cases [of C sign d nm r key now a]
proof (elim disjE exE conjE)
  fix rs old x a1
  assume rs: "store_devices (au_store a) = Ok rs" "find_record rs d = Some old" "\<not> rec_revoked old"
    and p: "pin C (cert_issue C sign key nm r now (next_serial a)) now a = (x, a1)"
    and eq: "au_store (snd (authority_rotate C sign d nm r key now a)) \<in>
       {au_store a1, upsert_device (old\<lparr>rec_retired_to := Some (from_key C key),
          rec_revoked := False\<rparr>) (au_store a1)}"
  have step: "table_step Q (au_store a) (au_store a1)"
    using step_pin [OF C assms(2), of Q a sign nm r now "next_serial a" now] p Q by simp
  have "\<not> table_revoked (au_store a) d"
    using rs by (auto simp: table_revoked_find [OF t rs(1)])
  moreover have "record_ok old" "rec_id old = d"
    using find_record_ok [OF rs(1,2)] find_record_id [OF rs(2)] by auto
  ultimately have "table_step Q (au_store a) (upsert_device
      (old\<lparr>rec_retired_to := Some (from_key C key), rec_revoked := False\<rparr>) (au_store a1))"
    using step Q C by (intro table_step.upsert) (auto simp: record_ok_def canonical_from_key)
  with eq step show ?thesis by auto
qed (simp add: table_step.same)

lemma table_step_revoke: "table_step Q (au_store a) (au_store (snd (authority_revoke C d w now a)))"
proof -
  have "au_store (snd (authority_revoke C d w now a)) \<in>
      {au_store a, snd (revoke_device d w now (au_store a))}"
    by (auto simp: authority_revoke_def Let_def dest!: reload_pair_store
        split: sum.splits prod.splits option.splits if_splits bool.splits)
  then show ?thesis using table_step.revoke [OF table_step.same] table_step.same by auto
qed

lemma table_step_touch:
  assumes "table_ok (au_store a)" and Q: "\<And>d. \<not> table_revoked (au_store a) d \<Longrightarrow> Q d"
  shows "table_step Q (au_store a) (au_store (snd (touch d now a)))"
proof -
  have "au_store (snd (touch d now a)) = au_store a \<or>
     (\<exists>rs r. store_devices (au_store a) = Ok rs \<and> find_record rs d = Some r \<and>
       au_store (snd (touch d now a)) = upsert_device (r\<lparr>rec_last_seen_ms := Some now\<rparr>) (au_store a))"
    by (auto simp: touch_def split: sum.splits option.splits)
  then show ?thesis
  proof (elim disjE exE conjE)
    fix rs r assume rs: "store_devices (au_store a) = Ok rs" "find_record rs d = Some r"
      and eq: "au_store (snd (touch d now a)) = upsert_device (r\<lparr>rec_last_seen_ms := Some now\<rparr>) (au_store a)"
    have "rec_revoked r \<or> \<not> table_revoked (au_store a) (rec_id r)"
      using rs find_record_id [OF rs(2)] by (auto simp: table_revoked_find [OF assms(1) rs(1)])
    then show ?thesis
      unfolding eq using Q find_record_ok [OF rs]
      by (intro table_step.upsert table_step.same) (auto simp: record_ok_def)
  qed (simp add: table_step.same)
qed

text \<open>Any operation, as one table step: only ids that are not revoked, or that the operation
  rotates onto, may be written with the revoked flag cleared.\<close>

lemma table_step_run_op:
  assumes C: "crypto_ok C" and k: "op_ok (fst op)" and t: "table_ok (au_store a)"
  shows "table_step (\<lambda>d. \<not> table_revoked (au_store a) d \<or> rotates_onto C d (fst op))
     (au_store a) (au_store (run_op C sign op a))"
proof -
  obtain oper now where op: "op = (oper, now)" by force
  show ?thesis
    unfolding op using C k t op
    by (cases oper) (auto intro!: table_step_issue table_step_rotate table_step_revoke
        table_step_touch table_step.same)
qed

lemma run_op_table_ok:
  "crypto_ok C \<Longrightarrow> op_ok (fst op) \<Longrightarrow> table_ok (au_store a) \<Longrightarrow> table_ok (au_store (run_op C sign op a))"
  using table_step_ok table_step_run_op by blast

lemma run_op_revoked:
  "crypto_ok C \<Longrightarrow> op_ok (fst op) \<Longrightarrow> table_ok (au_store a) \<Longrightarrow> \<not> rotates_onto C d (fst op) \<Longrightarrow>
     table_revoked (au_store a) d \<Longrightarrow> table_revoked (au_store (run_op C sign op a)) d"
  by (rule table_step_revoked [OF table_step_run_op]) auto

lemma run_ops_revoked:
  assumes "crypto_ok C" and "table_ok (au_store a)" and "table_revoked (au_store a) d"
    and "\<forall>op \<in> set ops. op_ok (fst op) \<and> \<not> rotates_onto C d (fst op)"
  shows "table_ok (au_store (run_ops C sign ops a)) \<and> table_revoked (au_store (run_ops C sign ops a)) d"
  using assms(2-4) unfolding run_ops_def
  by (induction ops arbitrary: a) (auto simp: assms(1) run_op_table_ok run_op_revoked)

lemma authorize_revoked:
  assumes "table_ok (au_store a)" and "table_revoked (au_store a) (from_key C key)"
  shows "fst (authority_authorize C key now a) = Err (Revoked (display_id (from_key C key)))"
proof -
  obtain rs where rs: "store_devices (au_store a) = Ok rs"
    using table_ok_readable [OF assms(1)] by metis
  with assms(2) obtain r where "find_record rs (from_key C key) = Some r" "rec_revoked r"
    by (auto simp: table_revoked_find [OF assms(1) rs])
  with rs show ?thesis
    by (simp add: authority_authorize_def Let_def store_devices_or_default_def may_connect_def)
qed

end
