(* ===== verification/Identity_Authority_Pins.thy ===== *)
theory Identity_Authority_Pins
  imports Identity_Authority_Facts
begin

text \<open>
  The way back in: what \<open>reload\<close> rebuilds from the certificate directory and the table, and that a
  certificate the authority has just pinned is accepted.
\<close>

section \<open>The certificate directory\<close>

text \<open>Decoding an encoded certificate gives it back: \<open>rmp_serde\<close> and the derived \<open>serde\<close> code.\<close>

definition codec_ok :: "crypto \<Rightarrow> bool" where
  "codec_ok C \<longleftrightarrow> (\<forall>c bs. cert_to_vec C c = Some bs \<longrightarrow> cert_from_slice C bs = Some c)"

text \<open>A file that decodes is named after the device of the certificate in it.\<close>

definition files_ok :: "crypto \<Rightarrow> cert_files \<Rightarrow> bool" where
  "files_ok C fs \<longleftrightarrow> bt_inv fs \<and>
     (\<forall>n bs c. bt_get fs n = Some (Some bs) \<longrightarrow> cert_from_slice C bs = Some c \<longrightarrow>
        n = cert_file_name (cp_device (dc_payload c)))"

definition file_cert :: "crypto \<Rightarrow> bytes option option \<Rightarrow> device_cert option" where
  "file_cert C f = (case f of Some (Some bs) \<Rightarrow> cert_from_slice C bs | _ \<Rightarrow> None)"

lemma cert_file_name_inject [simp]: "cert_file_name d = cert_file_name d' \<longleftrightarrow> d = d'"
  by (simp add: cert_file_name_def)

lemma cert_load_Ok_iff: "cert_load C f = Ok c \<longleftrightarrow> file_cert C (Some f) = Some c"
  by (auto simp: cert_load_def cert_decode_def file_cert_def split: option.splits)

lemma get_load_certs:
  assumes "distinct (map fst fs)" and "index_wf ix"
    and "\<And>n f c. (n, f) \<in> set fs \<Longrightarrow> file_cert C (Some f) = Some c \<Longrightarrow>
           n = cert_file_name (cp_device (dc_payload c))"
  shows "bt_get (ix_devices (fst (load_certs C fs (ix, p)))) d =
     (case file_cert C (map_of fs (cert_file_name d)) of
        Some c \<Rightarrow> Some (from_cert c, c) | None \<Rightarrow> bt_get (ix_devices ix) d)"
  using assms
proof (induction fs arbitrary: ix p)
  case Nil
  then show ?case by (simp add: file_cert_def)
next
  case (Cons nf fs)
  obtain n f where nf: "nf = (n, f)" by force
  have rest: "\<And>m g c. (m, g) \<in> set fs \<Longrightarrow> file_cert C (Some g) = Some c \<Longrightarrow>
      m = cert_file_name (cp_device (dc_payload c))"
    using Cons.prems(3) by auto
  show ?case
  proof (cases "cert_load C f")
    case (Inl e)
    then have "file_cert C (Some f) = None"
      by (metis cert_load_Ok_iff not_None_eq sum.distinct(1))
    with Inl nf Cons.IH [OF _ Cons.prems(2) rest] Cons.prems(1) show ?thesis
      by (auto simp: map_of_eq_None_iff file_cert_def image_iff split: option.splits)
  next
    case (Inr c)
    then have c: "file_cert C (Some f) = Some c" by (simp add: cert_load_Ok_iff)
    then have n: "n = cert_file_name (cp_device (dc_payload c))"
      using Cons.prems(3) nf by auto
    then have "map_of fs n = None"
      using Cons.prems(1) nf by (simp add: map_of_eq_None_iff)
    with Inr nf n c Cons.IH [OF _ index_wf_insert [OF Cons.prems(2)] rest] Cons.prems(1,2)
    show ?thesis
      by (auto simp: get_insert_index file_cert_def split: option.splits)
  qed
qed

lemma map_of_filter_key: "map_of (filter (\<lambda>(k, _). P k) m) k = (if P k then map_of m k else None)"
  by (induction m) auto

lemma get_load_dir:
  assumes "files_ok C fs" and "d \<noteq> []"
  shows "bt_get (ix_devices (fst (load_dir C (Some fs)))) d =
     map_option (\<lambda>c. (from_cert c, c)) (file_cert C (bt_get fs (cert_file_name d)))"
proof -
  let ?P = "\<lambda>n. suffix ''.cert'' n \<and> n \<noteq> ''.cert''"
  let ?fs = "filter (\<lambda>(n, _). ?P n) fs"
  have "distinct (map fst fs)"
    using assms(1) by (simp add: files_ok_def bt_inv_def bt_keys_def strict_sorted_iff)
  then have "distinct (map fst ?fs)"
    by (rule distinct_map_filter)
  moreover have "n = cert_file_name (cp_device (dc_payload c))"
    if "(n, f) \<in> set ?fs" "file_cert C (Some f) = Some c" for n f c
    using that assms(1)
    by (auto simp: files_ok_def file_cert_def bt_get_eq_set split: option.splits)
  moreover have "?P (cert_file_name d)"
    using assms(2) by (simp add: cert_file_name_def suffix_def)
  ultimately have "bt_get (ix_devices (fst (load_certs C ?fs (index_new, [])))) d =
     (case file_cert C (map_of ?fs (cert_file_name d)) of
        Some c \<Rightarrow> Some (from_cert c, c) | None \<Rightarrow> bt_get (ix_devices index_new) d)"
    using index_wf_new by (intro get_load_certs) auto
  moreover have "map_of ?fs (cert_file_name d) = bt_get fs (cert_file_name d)"
    using \<open>?P (cert_file_name d)\<close> by (simp add: map_of_filter_key bt_get_def)
  ultimately show ?thesis
    by (simp add: load_dir_def index_new_def split: option.splits)
qed

section \<open>Rebuilding the index\<close>

lemma set_index_iter:
  "index_wf ix \<Longrightarrow> r \<in> set (index_iter ix) \<longleftrightarrow> (\<exists>c. bt_get (ix_devices ix) (rec_id r) = Some (r, c))"
proof -
  assume wf: "index_wf ix"
  then have inv: "bt_inv (ix_devices ix)" by (simp add: index_wf_def)
  have "r \<in> set (index_iter ix) \<longleftrightarrow> (\<exists>d c. bt_get (ix_devices ix) d = Some (r, c))"
    unfolding index_iter_def bt_values_def by (force simp: bt_get_eq_set [OF inv])
  then show ?thesis using index_wf_entry(1) [OF wf] by blast
qed

lemma get_fold_disk:
  assumes "index_wf disk" and "bt_inv certs"
  shows "bt_inv (fold (add_disk_cert disk) rs certs) \<and>
     bt_get (fold (add_disk_cert disk) rs certs) d =
       (if d \<in> rec_id ` set rs \<and> index_cert disk d \<noteq> None then index_cert disk d else bt_get certs d)"
  using assms(2)
proof (induction rs arbitrary: certs)
  case Nil
  then show ?case by simp
next
  case (Cons r rs)
  have "bt_inv (add_disk_cert disk r certs)"
    using Cons.prems by (auto simp: add_disk_cert_def btree_simps split: option.splits)
  from Cons.IH [OF this] Cons.prems show ?case
    by (auto simp: add_disk_cert_def btree_simps split: option.splits)
qed

lemma disk_certs:
  assumes "index_wf disk"
  shows "certs_wf (fold (add_disk_cert disk) (index_iter disk) [])"
    and "bt_get (fold (add_disk_cert disk) (index_iter disk) []) d = index_cert disk d"
proof -
  have listed: "d \<in> rec_id ` set (index_iter disk)" if some: "index_cert disk d \<noteq> None" for d
  proof -
    obtain r c where "bt_get (ix_devices disk) d = Some (r, c)"
      using some by (auto simp: index_cert_def)
    moreover from this have "rec_id r = d" by (rule index_wf_entry(1) [OF assms])
    ultimately show ?thesis using set_index_iter [OF assms, of r] by force
  qed
  have get: "bt_get (fold (add_disk_cert disk) (index_iter disk) []) d = index_cert disk d" for d
    using get_fold_disk [OF assms, of "[]" "index_iter disk" d] listed [of d]
    by (cases "index_cert disk d") auto
  then show "bt_get (fold (add_disk_cert disk) (index_iter disk) []) d = index_cert disk d" .
  show "certs_wf (fold (add_disk_cert disk) (index_iter disk) [])"
    unfolding certs_wf_def get
  proof (intro conjI allI impI)
    show "bt_inv (fold (add_disk_cert disk) (index_iter disk) [])"
      using get_fold_disk [OF assms, of "[]"] by simp
    fix d c assume "index_cert disk d = Some c"
    then show "cp_device (dc_payload c) = d"
      by (auto simp: index_cert_def dest: index_wf_entry(5) [OF assms])
  qed
qed

lemma get_fold_add_record_other:
  assumes "certs_wf certs" and "index_wf ix" and "\<forall>s \<in> set rs. rec_id s \<noteq> d"
  shows "bt_get (ix_devices (fold (add_record C certs root) rs ix)) d = bt_get (ix_devices ix) d"
  using assms(2,3)
proof (induction rs arbitrary: ix)
  case (Cons s rs)
  have "bt_get (ix_devices (add_record C certs root s ix)) d = bt_get (ix_devices ix) d"
    using Cons.prems by (auto simp: add_record_def index_wf_def btree_simps split: option.splits)
  moreover have "index_wf (add_record C certs root s ix)"
    using assms(1) Cons.prems by auto
  ultimately show ?case using Cons by simp
qed simp

lemma get_fold_add_record:
  assumes "certs_wf certs" and "index_wf ix" and "distinct (map rec_id rs)" and "r \<in> set rs"
    and "rec_id r = d" and "\<not> rec_revoked r" and "rec_retired_to r = None"
    and "bt_get certs d = Some c" and "cert_verify C c root (rec_public_key r) = Ok ()"
  shows "\<exists>x. bt_get (ix_devices (fold (add_record C certs root) rs ix)) d = Some (x, c)"
  using assms(2-4)
proof (induction rs arbitrary: ix)
  case Nil
  then show ?case by simp
next
  case (Cons s rs)
  let ?ix = "add_record C certs root s ix"
  have wf: "index_wf ?ix" using assms(1) Cons.prems(1) by auto
  show ?case
  proof (cases "s = r")
    case True
    have "bt_get (ix_devices ?ix) d = Some ((from_cert c)\<lparr>rec_last_seen_ms := rec_last_seen_ms r\<rparr>, c)"
      using True assms Cons.prems(1)
      by (auto simp: add_record_def record_public_key_def cert_verify_Ok_iff is_ok_cert_verify
          Let_def index_wf_def btree_simps)
    moreover have "\<forall>s' \<in> set rs. rec_id s' \<noteq> d"
      using True Cons.prems(2) assms(5) by (force simp: image_iff)
    ultimately show ?thesis
      using get_fold_add_record_other [OF assms(1) wf] True by simp
  next
    case False
    then show ?thesis using Cons wf by simp
  qed
qed

lemma get_fold_unrecorded:
  assumes "index_wf disk" and "index_wf ix"
  shows "index_wf (fold (add_unrecorded disk) rs ix) \<and>
     (bt_get (ix_devices ix) d = Some e \<longrightarrow> bt_get (ix_devices (fold (add_unrecorded disk) rs ix)) d = Some e)"
  using assms(2)
proof (induction rs arbitrary: ix)
  case Nil
  then show ?case by simp
next
  case (Cons r rs)
  have "index_wf (add_unrecorded disk r ix)"
    using Cons.prems by (auto simp: add_unrecorded_def split: option.splits)
  moreover have "bt_get (ix_devices ix) d = Some e \<Longrightarrow>
      bt_get (ix_devices (add_unrecorded disk r ix)) d = Some e"
    using Cons.prems index_wf_entry(5) [OF assms(1)]
    by (auto simp: add_unrecorded_def get_insert_index index_get_def index_cert_def
        split: option.splits)
  ultimately show ?case using Cons.IH by simp
qed

lemma get_fold_unrecorded_new:
  assumes disk: "index_wf disk" and "index_wf ix" and "bt_get (ix_devices ix) d = None"
    and "\<exists>r \<in> set rs. rec_id r = d \<and> \<not> rec_revoked r" and c: "index_cert disk d = Some c"
  shows "bt_get (ix_devices (fold (add_unrecorded disk) rs ix)) d = Some (from_cert c, c)"
  using assms(2-4)
proof (induction rs arbitrary: ix)
  case (Cons r rs)
  let ?ix = "add_unrecorded disk r ix"
  have dev: "index_cert disk e = Some x \<Longrightarrow> cp_device (dc_payload x) = e" for e x
    using index_wf_entry(5) [OF disk] by (auto simp: index_cert_def)
  have wf: "index_wf ?ix"
    using Cons.prems(1) by (auto simp: add_unrecorded_def split: option.splits)
  show ?case
  proof (cases "rec_id r = d \<and> \<not> rec_revoked r")
    case True
    then have "bt_get (ix_devices ?ix) d = Some (from_cert c, c)"
      using Cons.prems c dev [OF c] by (auto simp: add_unrecorded_def index_get_def get_insert_index)
    then show ?thesis using get_fold_unrecorded [OF disk wf] by simp
  next
    case False
    then have "bt_get (ix_devices ?ix) d = None"
      using Cons.prems dev by (auto simp: add_unrecorded_def get_insert_index split: option.splits)
    with False show ?thesis using Cons wf by auto
  qed
qed simp

lemma get_fold_retirement:
  assumes "index_wf ix"
  shows "index_wf (fold apply_retirement rs ix) \<and>
     ((\<forall>r \<in> set rs. rec_id r = d \<longrightarrow> rec_retired_to r = None) \<longrightarrow>
       bt_get (ix_devices (fold apply_retirement rs ix)) d = bt_get (ix_devices ix) d)"
  using assms
proof (induction rs arbitrary: ix)
  case Nil
  then show ?case by simp
next
  case (Cons r rs)
  have "index_wf (apply_retirement r ix)"
    using Cons.prems by (auto simp: apply_retirement_def split: option.splits)
  with Cons.IH [OF this] show ?case
    by (auto simp: apply_retirement_def index_retire_def btree_simps split: option.splits)
qed

text \<open>The three passes of \<open>reload\<close>, and what is in the index after them.\<close>

lemma reload_wf:
  assumes "reload C a = (Ok (), b)"
  shows "index_wf (au_index b)"
proof -
  define disk where "disk = fst (load_dir C (Some (au_files a)))"
  define certs where "certs = fold (add_disk_cert disk) (index_iter disk) []"
  have disk: "index_wf disk" and certs: "certs_wf certs"
    by (auto simp: disk_def certs_def intro: disk_certs(1))
  obtain rs where rs: "store_devices (au_store a) = Ok rs"
    using assms by (auto simp: reload_def Let_def split: sum.splits)
  have "au_index b = fold apply_retirement rs
      (fold (add_unrecorded disk) (index_iter disk) (from_records C rs certs (au_root a)))"
    using assms rs by (auto simp: reload_def Let_def disk_def certs_def)
  then show ?thesis
    using get_fold_retirement get_fold_unrecorded [OF disk] index_wf_from_records [OF certs] by simp
qed

lemma distinct_read_rows:
  "read_rows (bt_values t) = Ok rs \<Longrightarrow> \<forall>(d, row) \<in> set t. row_id row = d \<and> canonical_id d \<Longrightarrow>
     map rec_id rs = bt_keys t"
proof (induction t arbitrary: rs)
  case (Cons p t)
  obtain k row where p: "p = (k, row)" by force
  with Cons.prems obtain r rs' where "read_row row = Ok r" "read_rows (bt_values t) = Ok rs'"
    "rs = r # rs'"
    by (auto simp: bt_values_def split: sum.splits)
  with p Cons read_row_id show ?case by auto
qed (simp add: bt_values_def)

lemma distinct_store_devices:
  assumes "table_ok t" and "store_devices t = Ok rs"
  shows "distinct (map rec_id rs)"
proof -
  have "map rec_id rs = bt_keys t"
    using assms table_ok_rows [OF assms(1)] unfolding store_devices_def
    by (intro distinct_read_rows) auto
  then show ?thesis
    using assms(1) by (simp add: table_ok_def bt_inv_def strict_sorted_iff)
qed

lemma reload_entry:
  assumes t: "table_ok (au_store a)" and rs: "store_devices (au_store a) = Ok rs"
    and r: "find_record rs d = Some r" "\<not> rec_revoked r" "rec_retired_to r = None"
    and f: "files_ok C (au_files a)" "bt_get (au_files a) (cert_file_name d) = Some (Some bs)"
      "cert_from_slice C bs = Some c"
    and v: "cert_verify C c (au_root a) (rec_public_key r) = Ok ()"
  shows "\<exists>b x. reload C a = (Ok (), b) \<and> bt_get (ix_devices (au_index b)) d = Some (x, c) \<and>
     b = a\<lparr>au_index := au_index b, au_certs := au_certs b\<rparr>"
proof -
  define disk where "disk = fst (load_dir C (Some (au_files a)))"
  define certs where "certs = fold (add_disk_cert disk) (index_iter disk) []"
  define ix0 where "ix0 = from_records C rs certs (au_root a)"
  define ix1 where "ix1 = fold (add_unrecorded disk) (index_iter disk) ix0"
  have disk: "index_wf disk" and certs: "certs_wf certs"
    by (auto simp: disk_def certs_def intro: disk_certs(1))
  have "canonical_id d"
    using find_record_ok [OF rs r(1)] find_record_id [OF r(1)] by (simp add: record_ok_def)
  then have "d \<noteq> []" by (auto simp: canonical_id_def)
  then have "index_cert disk d = Some c"
    using get_load_dir [OF f(1)] f by (simp add: disk_def index_cert_def file_cert_def)
  then have c: "bt_get certs d = Some c"
    by (simp add: certs_def disk_certs(2) [OF disk])
  have mem: "r \<in> set rs" and rid: "rec_id r = d"
    using r(1) by (auto simp: find_record_def find_Some_iff)
  have dist: "distinct (map rec_id rs)" by (rule distinct_store_devices [OF t rs])
  have "\<exists>x. bt_get (ix_devices ix0) d = Some (x, c)"
    unfolding ix0_def from_records_def
    by (rule get_fold_add_record [OF certs _ dist mem rid r(2,3) c v]) auto
  then obtain x where "bt_get (ix_devices ix0) d = Some (x, c)" ..
  moreover have wf0: "index_wf ix0" unfolding ix0_def using certs by auto
  ultimately have ix1: "bt_get (ix_devices ix1) d = Some (x, c)" "index_wf ix1"
    using get_fold_unrecorded [OF disk wf0] by (auto simp: ix1_def)
  have "\<forall>s \<in> set rs. rec_id s = d \<longrightarrow> rec_retired_to s = None"
    using dist mem rid r(3) by (metis distinct_map inj_onD)
  then have "bt_get (ix_devices (fold apply_retirement rs ix1)) d = Some (x, c)"
    using get_fold_retirement [OF ix1(2)] ix1(1) by simp
  moreover have "reload C a = (Ok (), a\<lparr>au_index := fold apply_retirement rs ix1, au_certs := certs\<rparr>)"
    using rs by (simp add: reload_def Let_def disk_def certs_def ix0_def ix1_def)
  ultimately show ?thesis by auto
qed

text \<open>A certificate file without a row: it is in the index after a reload, verified or not.\<close>

lemma reload_unrecorded:
  assumes t: "table_ok (au_store a)" and rs: "store_devices (au_store a) = Ok rs"
    and none: "find_record rs d = None" "d \<noteq> []"
    and f: "files_ok C (au_files a)" "bt_get (au_files a) (cert_file_name d) = Some (Some bs)"
      "cert_from_slice C bs = Some c"
  shows "\<exists>b. reload C a = (Ok (), b) \<and> bt_get (ix_devices (au_index b)) d = Some (from_cert c, c)"
proof -
  define disk where "disk = fst (load_dir C (Some (au_files a)))"
  define certs where "certs = fold (add_disk_cert disk) (index_iter disk) []"
  define ix0 where "ix0 = from_records C rs certs (au_root a)"
  define ix1 where "ix1 = fold (add_unrecorded disk) (index_iter disk) ix0"
  have disk: "index_wf disk" and certs: "certs_wf certs"
    by (auto simp: disk_def certs_def intro: disk_certs(1))
  have entry: "bt_get (ix_devices disk) d = Some (from_cert c, c)"
    using get_load_dir [OF f(1) none(2)] f by (simp add: disk_def file_cert_def)
  have noid: "\<forall>s \<in> set rs. rec_id s \<noteq> d"
    using none(1) by (auto simp: find_record_def find_None_iff)
  have wf0: "index_wf ix0" unfolding ix0_def using certs by auto
  have "bt_get (ix_devices ix0) d = None"
    unfolding ix0_def from_records_def get_fold_add_record_other [OF certs index_wf_new noid]
    by (simp add: index_new_def)
  moreover have "from_cert c \<in> set (index_iter disk)" "rec_id (from_cert c) = d"
    using set_index_iter [OF disk, of "from_cert c"] entry index_wf_entry(1) [OF disk entry] by auto
  ultimately have "bt_get (ix_devices ix1) d = Some (from_cert c, c)"
    unfolding ix1_def using entry
    by (intro get_fold_unrecorded_new [OF disk wf0] bexI [of _ "from_cert c"])
      (auto simp: index_cert_def)
  moreover have "index_wf ix1" using get_fold_unrecorded [OF disk wf0] by (simp add: ix1_def)
  ultimately have "bt_get (ix_devices (fold apply_retirement rs ix1)) d = Some (from_cert c, c)"
    using get_fold_retirement [of ix1 rs d] noid by auto
  moreover have "reload C a = (Ok (), a\<lparr>au_index := fold apply_retirement rs ix1, au_certs := certs\<rparr>)"
    using rs by (simp add: reload_def Let_def disk_def certs_def ix0_def ix1_def)
  ultimately show ?thesis by auto
qed

end
