(* ===== verification/Identity_Properties.thy ===== *)
theory Identity_Properties
  imports Identity_Authority_Pins
begin

text \<open>
  The properties of device identity, with a small concrete instance of the cryptography for the
  witnesses. The facts they rest on are in \<open>Identity_Authority_Facts\<close> and
  \<open>Identity_Authority_Pins\<close>.
\<close>

section \<open>Facts the properties use\<close>

lemma revoke_effect:
  assumes t: "table_ok (au_store a)" and r: "authority_revoke C d w now a = (Ok out, b)"
  shows "table_ok (au_store b) \<and> table_revoked (au_store b) d"
proof -
  obtain rs where rs: "store_devices (au_store a) = Ok rs" "find_record rs d \<noteq> None"
    using r by (auto simp: authority_revoke_def split: sum.splits if_splits)
  have b: "au_store b = snd (revoke_device d w now (au_store a))"
    using r rs by (auto simp: authority_revoke_def Let_def dest!: reload_pair_store
        split: prod.splits bool.splits sum.splits)
  moreover have "bt_get (au_store a) d \<noteq> None"
  proof -
    have "find_record rs d = (case bt_get (au_store a) d of None \<Rightarrow> None | Some row \<Rightarrow>
            (case read_row row of Ok r \<Rightarrow> Some r | Err _ \<Rightarrow> None))"
      using t rs(1) by (metis table_ok_readable Inr_inject)
    with rs(2) show ?thesis by (auto split: option.splits)
  qed
  then have "table_revoked (snd (revoke_device d w now (au_store a))) d"
    using t by (auto simp: table_revoked_def revoke_device_def table_ok_def btree_simps
        split: option.splits)
  ultimately show ?thesis using table_ok_revoke [OF t] by simp
qed

lemma reload_Ok:
  assumes "table_ok (au_store a)"
  shows "\<exists>b. reload C a = (Ok (), b)"
proof -
  obtain rs where "store_devices (au_store a) = Ok rs"
    using table_ok_readable [OF assms] by metis
  then show ?thesis by (simp add: reload_def Let_def)
qed

lemma revoke_succeeds:
  assumes t: "table_ok (au_store a)" and "bt_get (au_store a) d = Some row"
  shows "\<exists>out b. authority_revoke C d w now a = (Ok out, b)"
proof -
  obtain r where "read_row row = Ok r"
    using assms by (auto simp: table_ok_def is_ok_iff)
  then obtain rs where rs: "store_devices (au_store a) = Ok rs" "find_record rs d \<noteq> None"
    using table_ok_readable [OF t] assms(2) by (metis option.simps(3,5) sum.simps(6))
  obtain ch u where u: "revoke_device d w now (au_store a) = (ch, u)" by force
  let ?a1 = "audit_revocation d w now
      (a\<lparr>au_store := u, au_files := bt_remove (cert_file_name d) (au_files a)\<rparr>)"
  have "table_ok (au_store ?a1)" using table_ok_revoke [OF t, of d w now] u by simp
  then obtain b where "reload C ?a1 = (Ok (), b)" using reload_Ok by blast
  with rs u show ?thesis by (cases ch) (auto simp: authority_revoke_def Let_def)
qed

lemma authorize_Ok:
  assumes "authority_authorize C key now a = (Ok r, b)"
  shows "b = a" and "index_authorize C (au_index a) (au_root a) key = Ok r"
    and "\<And>s. find_record (store_devices_or_default (au_store a)) (from_key C key) = Some s \<Longrightarrow>
           \<not> rec_revoked s \<and> rec_retired_to s = None"
  using assms
  by (auto simp: authority_authorize_def Let_def may_connect_def split: option.splits sum.splits
      if_splits)

lemma authorizeI:
  assumes "index_authorize C (au_index a) (au_root a) key = Ok r"
    and "find_record (store_devices_or_default (au_store a)) (from_key C key) = Some s"
    and "\<not> rec_revoked s" "rec_retired_to s = None"
  shows "authority_authorize C key now a = (Ok r, a)"
  using assms by (simp add: authority_authorize_def Let_def may_connect_def)

lemma fold_max_ge: "x \<le> fold max xs (x :: u64) \<and> (\<forall>y \<in> set xs. y \<le> fold max xs x)"
proof (induction xs arbitrary: x)
  case (Cons y xs)
  from Cons.IH [of "max y x"] show ?case by (auto intro: order_trans)
qed simp

lemma next_serial_bounds:
  assumes "\<forall>s \<in> set (store_devices_or_default (au_store a)). rec_serial s < u64_max"
  shows "FIRST_SERIAL \<le> next_serial a" "\<forall>s \<in> set (store_devices_or_default (au_store a)).
     rec_serial s < next_serial a"
proof -
  let ?xs = "map rec_serial (store_devices_or_default (au_store a))"
  define m where "m = fold max ?xs 0"
  have mem: "fold max xs x \<in> insert x (set xs)" for xs and x :: u64
    by (induction xs arbitrary: x) (auto simp: max_def)
  have "m \<in> insert 0 (set ?xs)" unfolding m_def by (rule mem)
  then have "m \<noteq> u64_max"
    using assms by (auto simp: u64_max_def)
  then have m: "m < m + 1"
    by (rule u64_less_succ)
  have ns: "next_serial a = m + 1" by (simp add: next_serial_def m_def)
  have "unat (m + 1) \<noteq> 0" using m by (auto simp: word_less_nat_alt)
  then show "FIRST_SERIAL \<le> next_serial a"
    by (simp add: ns FIRST_SERIAL_def word_le_nat_alt)
  show "\<forall>s \<in> set (store_devices_or_default (au_store a)). rec_serial s < next_serial a"
    using fold_max_ge [of 0 ?xs] m by (auto simp: ns m_def intro: le_less_trans)
qed

lemma files_ok_insert:
  assumes "files_ok C fs" and "codec_ok C" and "cert_to_vec C c = Some bs"
  shows "files_ok C (bt_insert (cert_file_name (cp_device (dc_payload c))) (Some bs) fs)"
  using assms by (auto simp: files_ok_def codec_ok_def btree_simps split: if_splits)

lemma files_ok_remove: "files_ok C fs \<Longrightarrow> files_ok C (bt_remove n fs)"
  by (auto simp: files_ok_def btree_simps split: if_splits)

text \<open>After a pin, the table, the directory and the index all hold the new certificate.\<close>

definition pinned :: "crypto \<Rightarrow> device_cert \<Rightarrow> verifying_key \<Rightarrow> authority \<Rightarrow> bool" where
  "pinned C c key a \<longleftrightarrow> table_ok (au_store a) \<and> files_ok C (au_files a) \<and>
     (\<exists>bs. bt_get (au_files a) (cert_file_name (from_key C key)) = Some (Some bs) \<and>
           cert_from_slice C bs = Some c) \<and>
     (\<exists>row x y. bt_get (au_store a) (from_key C key) = Some row \<and>
        read_row row = Ok ((from_cert c)\<lparr>rec_revoked_at_ms := x, rec_revoked_by := y\<rparr>)) \<and>
     cert_verify C c (au_root a) key = Ok ()"

lemma pinned_reload:
  assumes "pinned C c key a"
  shows "\<exists>b r. reload C a = (Ok (), b) \<and> authority_authorize C key now b = (Ok r, b) \<and>
     rec_role r = cp_role (dc_payload c) \<and> pinned C c key b"
proof -
  let ?d = "from_key C key"
  from assms obtain bs row x y where t: "table_ok (au_store a)" and f: "files_ok C (au_files a)"
    and bs: "bt_get (au_files a) (cert_file_name ?d) = Some (Some bs)" "cert_from_slice C bs = Some c"
    and row: "bt_get (au_store a) ?d = Some row"
      "read_row row = Ok ((from_cert c)\<lparr>rec_revoked_at_ms := x, rec_revoked_by := y\<rparr>)"
    and v: "cert_verify C c (au_root a) key = Ok ()"
    by (auto simp: pinned_def)
  let ?r = "(from_cert c)\<lparr>rec_revoked_at_ms := x, rec_revoked_by := y\<rparr>"
  obtain rs where rs: "store_devices (au_store a) = Ok rs" "find_record rs ?d = Some ?r"
    using table_ok_readable [OF t] row by (metis option.simps(5) sum.simps(6))
  have "rec_public_key ?r = key" "\<not> rec_revoked ?r" "rec_retired_to ?r = None"
    using v by (simp_all add: cert_verify_Ok_iff)
  then obtain b z where b: "reload C a = (Ok (), b)" "bt_get (ix_devices (au_index b)) ?d = Some (z, c)"
    "b = a\<lparr>au_index := au_index b, au_certs := au_certs b\<rparr>"
    using reload_entry [OF t rs, of C bs c] f bs v by auto
  have same: "au_store b = au_store a" "au_files b = au_files a" "au_root b = au_root a"
    by (subst b(3), simp)+
  have wf: "index_wf (au_index b)" by (rule reload_wf [OF b(1)])
  have "index_authorize C (au_index b) (au_root b) key = Ok z"
    using index_authorize_OkI [OF b(2) _ wf] v same by simp
  then have "authority_authorize C key now b = (Ok z, b)"
    using rs same by (intro authorizeI) (auto simp: store_devices_or_default_def)
  moreover have "pinned C c key b" using assms same by (simp add: pinned_def)
  ultimately show ?thesis
    using b(1) index_wf_entry(2) [OF wf b(2)] by blast
qed

lemma pin_effect:
  assumes "crypto_ok C" and "codec_ok C" and "length key = 32" and "point_ok C key"
    and "table_ok (au_store a)" and "files_ok C (au_files a)"
    and c: "c = cert_issue C sign key nm r at sn" and "FIRST_SERIAL \<le> sn"
    and "\<forall>m. sig_ok C (au_root a) m (sign m)" and enc: "cert_to_vec C c = Some bs"
  shows "\<exists>b x. pin C c now a = (Ok (), b) \<and> pinned C c key b \<and>
     authority_authorize C key later b = (Ok x, b) \<and> rec_role x = r"
proof -
  let ?a1 = "a\<lparr>au_files := bt_insert (cert_file_name (from_key C key)) (Some bs) (au_files a),
       au_store := upsert_device (from_cert c) (au_store a)\<rparr>"
  let ?a2 = "audit_note DeviceChange ''device.issue'' OutcomeOk (from_key C key)
       (''issued '' @ role_as_str r @ '' for '' @ cp_name (dc_payload c)) now ?a1"
  have dev: "cp_device (dc_payload c) = from_key C key" "cp_role (dc_payload c) = r"
    by (simp_all add: c)
  have ok: "record_ok (from_cert c)" using assms(1,3) c record_ok_issued by simp
  have "cert_verify C c (au_root a) key = Ok ()"
    using assms by (intro issued_verifies [OF _ c]) (auto simp: cert_issue_def Let_def)
  moreover have "bt_inv (au_store a)" "bt_inv (au_files a)"
    using assms by (auto simp: table_ok_def files_ok_def)
  moreover obtain x y where "read_row (upserted_row (from_cert c) (bt_get (au_store a) (from_key C key))) =
      Ok ((from_cert c)\<lparr>rec_revoked_at_ms := x, rec_revoked_by := y\<rparr>)"
    using read_upserted_row [OF ok] by blast
  moreover have "files_ok C (au_files ?a1)"
    using files_ok_insert [OF assms(6,2) enc] dev by simp
  moreover have "cert_from_slice C bs = Some c" using assms(2) enc by (simp add: codec_ok_def)
  ultimately have "pinned C c key ?a2"
    using table_ok_upsert [OF assms(5) ok] dev
    by (simp add: pinned_def audit_note_def get_upsert btree_simps) blast
  then obtain b x where "reload C ?a2 = (Ok (), b)" "pinned C c key b"
    "authority_authorize C key later b = (Ok x, b)" "rec_role x = r"
    using pinned_reload [of C c key ?a2 later] dev by auto
  moreover have "pin C c now a = reload C ?a2"
    using enc dev by (simp add: pin_def cert_save_def cert_encode_def Let_def)
  ultimately show ?thesis by auto
qed

lemma reload_pair_same:
  "reload C a = (x, b) \<Longrightarrow> au_files b = au_files a \<and> au_root b = au_root a"
  by (auto simp: reload_def Let_def split: sum.splits)

lemma pinned_retire:
  assumes "pinned C c key a" and "record_ok old" and "rec_id old \<noteq> from_key C key"
  shows "pinned C c key (audit_note k act oc d n now (a\<lparr>au_store := upsert_device old (au_store a),
     au_files := bt_remove (cert_file_name (rec_id old)) (au_files a)\<rparr>))"
proof -
  have inv: "bt_inv (au_store a)" "bt_inv (au_files a)" "table_ok (au_store a)" "files_ok C (au_files a)"
    using assms(1) by (auto simp: pinned_def table_ok_def files_ok_def)
  have "bt_get (upsert_device old (au_store a)) (from_key C key) = bt_get (au_store a) (from_key C key)"
    using inv(1) assms(3) by (simp add: get_upsert)
  moreover have "bt_get (bt_remove (cert_file_name (rec_id old)) (au_files a)) (cert_file_name (from_key C key))
      = bt_get (au_files a) (cert_file_name (from_key C key))"
    using assms(3) by (simp add: btree_simps)
  ultimately show ?thesis
    using assms(1) table_ok_upsert [OF inv(3) assms(2)] files_ok_remove [OF inv(4)]
    by (simp add: pinned_def audit_note_def)
qed

lemma reload_fst: "fst (reload C a) = Ok () \<or> reload C a = (fst (reload C a), a)"
  by (auto simp: reload_def Let_def split: sum.splits)

text \<open>
  The index is only ever replaced by \<open>reload\<close>, the root never: both facts hold of every operation.
\<close>

definition index_step :: "authority \<Rightarrow> authority \<Rightarrow> bool" where
  "index_step a b \<longleftrightarrow> au_root b = au_root a \<and> (au_index b = au_index a \<or> index_wf (au_index b))"

lemma index_step_refl [intro]: "index_step a a"
  by (simp add: index_step_def)

lemma index_step_trans: "index_step a b \<Longrightarrow> index_step b c \<Longrightarrow> index_step a c"
  by (auto simp: index_step_def)

lemma index_step_audit [intro]:
  "index_step a (audit_note k x oc d n t a)" "index_step a (audit_revocation d b t a)"
  "index_step a (note_refusal d e t a)" "index_step a (audit_pairing_failure s e t a)"
  by (simp_all add: index_step_def audit_note_def audit_revocation_def note_refusal_def
      audit_pairing_failure_def)

lemma index_step_reload: "reload C a = (x, b) \<Longrightarrow> index_step a b"
proof (cases x)
  case (Inl e)
  assume "reload C a = (x, b)"
  with Inl show ?thesis using reload_fst [of C a] by auto
next
  case (Inr u)
  assume "reload C a = (x, b)"
  with Inr show ?thesis
    using reload_wf [of C a b] reload_pair_same [of C a x b] by (simp add: index_step_def)
qed

lemma index_step_pin: "pin C c now a = (x, b) \<Longrightarrow> index_step a b"
  by (auto simp: pin_def Let_def index_step_def audit_note_def dest!: index_step_reload split: sum.splits)

lemma index_step_fields:
  "index_step (a\<lparr>au_store := s\<rparr>) b = index_step a b"
  "index_step (a\<lparr>au_store := s, au_files := f\<rparr>) b = index_step a b"
  by (simp_all add: index_step_def)

lemma index_step_run_op: "index_step a (run_op C sign op a)"
proof -
  obtain oper now where op: "op = (oper, now)" by force
  show ?thesis
  proof (cases oper)
    case (OpIssue nm r key)
    then show ?thesis
      by (auto simp: op authority_issue_def Let_def dest: index_step_pin split: sum.splits prod.splits)
  next
    case (OpRotate d nm r key)
    then show ?thesis
      by (auto simp: op authority_rotate_def Let_def audit_note_def index_step_def
          dest!: index_step_pin index_step_reload split: sum.splits prod.splits option.splits)
  next
    case (OpRevoke d w)
    then show ?thesis
      by (auto simp: op authority_revoke_def Let_def audit_revocation_def index_step_def
          dest!: index_step_reload split: sum.splits prod.splits option.splits bool.splits)
  next
    case (OpAuthorize key)
    then show ?thesis
      by (auto simp: op authority_authorize_def Let_def split: sum.splits option.splits)
  next
    case (OpCheckVerb key v)
    have "index_step a (snd (authority_authorize C key now a))"
      by (auto simp: authority_authorize_def Let_def split: sum.splits option.splits)
    with OpCheckVerb show ?thesis
      by (auto simp: op check_verb_def split: sum.splits prod.splits)
  next
    case (OpTouch d)
    then show ?thesis
      by (auto simp: op touch_def index_step_def split: sum.splits option.splits)
  next
    case (OpDevice d)
    then show ?thesis
      by (auto simp: op authority_device_def Let_def dest: index_step_reload
          split: sum.splits option.splits prod.splits)
  next
    case OpReload
    then show ?thesis by (auto simp: op intro: index_step_reload [of C a "fst (reload C a)"])
  next
    case (OpPairingFailure session e)
    then show ?thesis by (auto simp: op)
  qed
qed

lemma run_ops_index:
  assumes "authority_load C root files table log = Ok a"
  shows "au_root (run_ops C sign ops a) = root \<and> index_wf (au_index (run_ops C sign ops a))"
proof -
  have a: "au_root a = root" "index_wf (au_index a)"
    using assms reload_wf reload_pair_same
    by (fastforce simp: authority_load_def split: sum.splits prod.splits)+
  have "au_root b = root \<and> index_wf (au_index b) \<Longrightarrow>
      au_root (run_op C sign op b) = root \<and> index_wf (au_index (run_op C sign op b))" for op b
    using index_step_run_op [of b C sign op] by (auto simp: index_step_def)
  then show ?thesis
    unfolding run_ops_def using a by (induction ops arbitrary: a) auto
qed

lemma check_verb_Ok:
  assumes "check_verb C key v now a = (Ok (), b)"
  obtains r where "authority_authorize C key now a = (Ok r, b)" "role_check (rec_role r) v = Ok ()"
  using assms by (auto simp: check_verb_def split: sum.splits prod.splits)

section \<open>A concrete instance\<close>

text \<open>
  For the witnesses: a digest that pads or truncates to 32 bytes, every 32-byte string a point, a
  signature that is the signed message, and codecs that know the one certificate they are given.
  With \<open>strict\<close> only that certificate's payload has a signature at all.
\<close>

definition demo_crypto :: "bool \<Rightarrow> device_cert \<Rightarrow> crypto" where
  "demo_crypto strict c =
     \<lparr> sha256 = (\<lambda>k. take 32 (k @ replicate 32 0)), point_ok = (\<lambda>k. length k = 32),
       is_weak = (\<lambda>k. False), sig_ok = (\<lambda>root m s. s = m \<and> (strict \<longrightarrow> m = [7])),
       payload_to_vec = (\<lambda>p. if p = dc_payload c then Some [7] else None),
       cert_to_vec = (\<lambda>c'. if c' = c then Some [1] else None),
       cert_from_slice = (\<lambda>bs. if bs = [1] then Some c else None) \<rparr>"

definition demo_key :: "byte \<Rightarrow> verifying_key" where
  "demo_key b = replicate 32 b"

lemma length_demo_key [simp]: "length (demo_key b) = 32"
  by (simp add: demo_key_def)

lemma demo_crypto_ok [simp]: "crypto_ok (demo_crypto st c)"
  by (auto simp: crypto_ok_def demo_crypto_def min_def)

lemma demo_codec_ok [simp]: "codec_ok (demo_crypto st c)"
  by (simp add: codec_ok_def demo_crypto_def)

lemma demo_from_key: "from_key (demo_crypto st c) (demo_key b) = hex (replicate 16 b)"
  by (simp add: from_key_hex demo_crypto_def demo_key_def)

definition demo_id :: "byte \<Rightarrow> device_id" where
  "demo_id b = hex (replicate 16 b)"

lemma demo_from_key_id [simp]: "from_key (demo_crypto st c) (demo_key b) = demo_id b"
  by (simp add: demo_from_key demo_id_def)

lemma demo_id_inject [simp]: "demo_id a = demo_id b \<longleftrightarrow> a = b"
proof
  assume "demo_id a = demo_id b"
  then have "replicate 16 a = replicate 16 b"
    unfolding demo_id_def by (rule hex_inject)
  then show "a = b" by simp
qed simp

definition demo_record :: "byte \<Rightarrow> role \<Rightarrow> bool \<Rightarrow> device_record" where
  "demo_record b r gone =
     \<lparr> rec_id = demo_id b, rec_name = ''phone'', rec_role = r, rec_public_key = demo_key b,
       rec_serial = 1, rec_issued_at_ms = 0, rec_last_seen_ms = None, rec_revoked = gone,
       rec_revoked_at_ms = None, rec_revoked_by = None, rec_retired_to = None \<rparr>"

lemma canonical_demo_id [simp]: "canonical_id (demo_id b)"
  using canonical_from_key [of "demo_crypto st c" "demo_key b" for st c] by simp

lemma demo_record_ok [simp]: "record_ok (demo_record b r gone)"
  by (simp add: record_ok_def demo_record_def demo_key_def)

definition demo_authority :: "device_record list \<Rightarrow> authority" where
  "demo_authority rs = \<lparr> au_root = [], au_files = [], au_store = map (\<lambda>r. (rec_id r, row_of r)) rs,
     au_audit = [], au_index = index_new, au_certs = [] \<rparr>"

lemma demo_authority_simps [simp]:
  "au_root (demo_authority rs) = []" "au_files (demo_authority rs) = []"
  "au_index (demo_authority rs) = index_new"
  by (simp_all add: demo_authority_def)

lemma files_ok_Nil [simp]: "files_ok C []"
  by (simp add: files_ok_def)

lemma demo_devices:
  assumes "\<forall>r \<in> set rs. record_ok r"
  shows "store_devices (au_store (demo_authority rs)) = Ok rs"
proof -
  have "read_rows (map row_of rs) = Ok rs"
    using assms by (induction rs) (auto simp: read_row_of)
  then show ?thesis by (simp add: demo_authority_def store_devices_def bt_values_def comp_def)
qed

lemma demo_id_less: "demo_id 1 < demo_id 2"
proof -
  have "replicate 16 b = b # replicate 15 b" for b :: byte
    using replicate_Suc [of 15 b] by (simp del: replicate_Suc)
  moreover have "hex_digit 1 < hex_digit 2" by code_simp
  ultimately show ?thesis by (simp add: demo_id_def)
qed

lemma table_ok_demo:
  assumes "\<forall>r \<in> set rs. record_ok r" and "sorted_wrt (<) (map rec_id rs)"
  shows "table_ok (au_store (demo_authority rs))"
proof -
  have "bt_inv (au_store (demo_authority rs))"
    using assms(2) by (simp add: demo_authority_def bt_inv_def bt_keys_def comp_def)
  moreover have "row_id row = d \<and> canonical_id d \<and> is_ok (read_row row)"
    if "bt_get (au_store (demo_authority rs)) d = Some row" for d row
  proof -
    from that obtain r where r: "r \<in> set rs" "d = rec_id r" "row = row_of r"
      by (auto simp: demo_authority_def bt_get_def dest!: map_of_SomeD)
    with assms(1) show ?thesis by (simp add: read_row_of) (simp add: record_ok_def)
  qed
  ultimately show ?thesis by (simp add: table_ok_def)
qed

definition demo_cert :: "byte \<Rightarrow> role \<Rightarrow> int \<Rightarrow> u64 \<Rightarrow> device_cert" where
  "demo_cert b r at sn = \<lparr> dc_payload = \<lparr> cp_version = CERT_VERSION, cp_device = demo_id b,
     cp_public_key = demo_key b, cp_name = ''phone'', cp_role = r, cp_issued_at_ms = at,
     cp_serial = sn \<rparr>, dc_signature = [7] \<rparr>"

lemma demo_issue [simp]:
  "cert_issue (demo_crypto st (demo_cert b r at sn)) id (demo_key b) ''phone'' r at sn = demo_cert b r at sn"
  by (simp add: cert_issue_def Let_def payload_bytes_def demo_cert_def)
    (simp add: demo_crypto_def)

lemma demo_crypto_simps [simp]:
  "sig_ok (demo_crypto False c) root m (id m)" "\<not> is_weak (demo_crypto st c) k"
  "sig_ok (demo_crypto False c) root m m" "point_ok (demo_crypto st c) k \<longleftrightarrow> length k = 32"
  by (simp_all add: demo_crypto_def)

lemma demo_crypto_codec: "cert_to_vec (demo_crypto st c) c = Some [1]" "cert_from_slice (demo_crypto st c) [1] = Some c"
  by (simp_all add: demo_crypto_def)

lemma demo_record_simps [simp]:
  "rec_id (demo_record b r gone) = demo_id b" "rec_revoked (demo_record b r gone) = gone"
  "rec_serial (demo_record b r gone) = 1" "rec_role (demo_record b r gone) = r"
  "rec_public_key (demo_record b r gone) = demo_key b" "rec_retired_to (demo_record b r gone) = None"
  by (simp_all add: demo_record_def)

lemma demo_serial:
  assumes "\<forall>r \<in> set rs. record_ok r" and "\<forall>r \<in> set rs. rec_serial r < u64_max"
  shows "FIRST_SERIAL \<le> next_serial (demo_authority rs)"
  using assms by (intro next_serial_bounds) (simp add: store_devices_or_default_def demo_devices)

lemma demo_verify:
  "FIRST_SERIAL \<le> sn \<Longrightarrow>
     cert_verify (demo_crypto st (demo_cert b r at sn)) (demo_cert b r at sn) root (demo_key b) = Ok ()"
  by (simp add: cert_verify_Ok_iff demo_cert_def payload_bytes_def)
    (simp add: demo_crypto_def demo_key_def)

lemma demo_cert_simps:
  "cp_device (dc_payload (demo_cert b r at sn)) = demo_id b" "cp_role (dc_payload (demo_cert b r at sn)) = r"
  "cp_public_key (dc_payload (demo_cert b r at sn)) = demo_key b"
  by (simp_all add: demo_cert_def)

lemma demo_table: "table_ok []" "au_store (demo_authority []) = []"
  by (simp_all add: table_ok_def demo_authority_def)

definition demo_files :: "byte \<Rightarrow> cert_files" where
  "demo_files b = [(cert_file_name (demo_id b), Some [1])]"

lemma demo_files_get [simp]: "bt_get (demo_files b) (cert_file_name (demo_id b)) = Some (Some [1])"
  by (simp add: demo_files_def)

lemma demo_files_ok [simp]:
  "cp_device (dc_payload c) = demo_id b \<Longrightarrow> files_ok (demo_crypto st c) (demo_files b)"
  by (auto simp: files_ok_def demo_files_def demo_crypto_def btree_simps split: if_splits)

lemma demo_id_nonempty [simp]: "demo_id b \<noteq> []"
  using canonical_demo_id [of b] by (auto simp: canonical_id_def)

section \<open>Properties\<close>

text \<open>
  C1. Once \<open>revoke\<close> has answered for a device, \<open>authorize\<close> refuses its key as revoked, whatever
  operations the authority runs in between, except a rotation onto that very key: further issues,
  rotations elsewhere, revocations, lookups, reloads, touches.
\<close>

theorem revoked_stays_refused:
  assumes "crypto_ok C" and "table_ok (au_store a)"
    and "authority_revoke C (from_key C key) w now a = (Ok out, b)"
    and "\<forall>op \<in> set ops. op_ok (fst op) \<and> \<not> rotates_onto C (from_key C key) (fst op)"
  shows "fst (authority_authorize C key later (run_ops C sign ops b)) =
     Err (Revoked (display_id (from_key C key)))"
proof -
  have "table_ok (au_store b)" "table_revoked (au_store b) (from_key C key)"
    using revoke_effect [OF assms(2,3)] by auto
  then have "table_ok (au_store (run_ops C sign ops b))"
    "table_revoked (au_store (run_ops C sign ops b)) (from_key C key)"
    using run_ops_revoked [OF assms(1) _ _ assms(4)] by auto
  then show ?thesis by (rule authorize_revoked)
qed

theorem revoked_stays_refused_witness:
  "\<exists>out b. authority_revoke (demo_crypto False undefined) (demo_id 1) ''local-cli'' 5
       (demo_authority [demo_record 1 Viewer False]) = (Ok out, b) \<and>
     fst (authority_authorize (demo_crypto False undefined) (demo_key 1) 9
       (run_ops (demo_crypto False undefined) id
         [(OpTouch (demo_id 1), 6), (OpIssue ''phone'' Owner (demo_key 1), 7), (OpReload, 8)] b)) =
     Err (Revoked (display_id (demo_id 1)))"
proof -
  let ?C = "demo_crypto False undefined"
  let ?a = "demo_authority [demo_record 1 Viewer False]"
  let ?ops = "[(OpTouch (demo_id 1), 6), (OpIssue ''phone'' Owner (demo_key 1), 7), (OpReload, 8)]"
  have t: "table_ok (au_store ?a)" by (rule table_ok_demo) simp_all
  obtain row where "bt_get (au_store ?a) (demo_id 1) = Some row"
    by (simp add: demo_authority_def demo_record_def)
  then obtain out b where b: "authority_revoke ?C (demo_id 1) ''local-cli'' 5 ?a = (Ok out, b)"
    using revoke_succeeds [OF t] by blast
  moreover have "fst (authority_authorize ?C (demo_key 1) 9 (run_ops ?C id ?ops b)) =
      Err (Revoked (display_id (demo_id 1)))"
    using revoked_stays_refused [of ?C ?a "demo_key 1" "''local-cli''" 5 out b ?ops 9 id] b t
    by simp
  ultimately show ?thesis by blast
qed

text \<open>
  The exception is real: rotating an active device onto a key that was revoked succeeds, and
  the revoked key is then authorized again with the new role. \<open>rotate\<close> asks only whether the key is
  weak; \<open>may_pin\<close>, which \<open>issue\<close> consults so that a burned key is never silently restored, is not
  consulted.
\<close>

theorem rotation_restores_revoked_key:
  assumes C: "crypto_ok C" "codec_ok C" and key: "length key = 32" "point_ok C key" "\<not> is_weak C key"
    and t: "table_ok (au_store a)" and f: "files_ok C (au_files a)"
    and gone: "table_revoked (au_store a) (from_key C key)"
    and old: "authority_record a d = Ok (Some old)" "\<not> rec_revoked old"
    and serial: "FIRST_SERIAL \<le> next_serial a" and sg: "\<forall>m. sig_ok C (au_root a) m (sign m)"
    and enc: "cert_to_vec C (cert_issue C sign key nm r now (next_serial a)) = Some bs"
  shows "\<exists>c b x. authority_rotate C sign d nm r key now a = (Ok c, b) \<and>
     authority_authorize C key later b = (Ok x, b) \<and> rec_role x = r"
proof -
  let ?c = "cert_issue C sign key nm r now (next_serial a)"
  obtain rs where rs: "store_devices (au_store a) = Ok rs" "find_record rs d = Some old"
    using old(1) by (auto simp: authority_record_def split: sum.splits)
  have "rec_id old = d" "record_ok old"
    using find_record_id [OF rs(2)] find_record_ok [OF rs] by auto
  have ne: "d \<noteq> from_key C key"
    using gone old(2) rs by (auto simp: table_revoked_find [OF t rs(1)])
  obtain a1 where a1: "pin C ?c now a = (Ok (), a1)" "pinned C ?c key a1"
    using pin_effect [OF C key(1,2) t f refl serial sg enc] by blast
  let ?ret = "old\<lparr>rec_retired_to := Some (from_key C key), rec_revoked := False\<rparr>"
  have "record_ok ?ret" "rec_id ?ret = d"
    using \<open>record_ok old\<close> \<open>rec_id old = d\<close> C by (auto simp: record_ok_def canonical_from_key)
  then have "pinned C ?c key (audit_note DeviceChange ''device.rotate'' OutcomeOk d
      (''rotated to '' @ display_id (from_key C key)) now
      (a1\<lparr>au_store := upsert_device ?ret (au_store a1),
          au_files := bt_remove (cert_file_name d) (au_files a1)\<rparr>))" (is "pinned C ?c key ?a2")
    using pinned_retire [OF a1(2), of ?ret] ne by simp
  then obtain b x where b: "reload C ?a2 = (Ok (), b)" "authority_authorize C key later b = (Ok x, b)"
    "rec_role x = r"
    using pinned_reload [of C ?c key ?a2 later] by auto
  then have "authority_rotate C sign d nm r key now a = (Ok ?c, b)"
    using rs old(2) key(3) ne a1(1) by (simp add: authority_rotate_def Let_def check_pinnable_def)
  with b show ?thesis by blast
qed

theorem rotation_restores_revoked_key_witness:
  "\<exists>C a c b x. table_revoked (au_store a) (from_key C (demo_key 1)) \<and>
     authority_rotate C id (demo_id 2) ''phone'' Owner (demo_key 1) 5 a = (Ok c, b) \<and>
     authority_authorize C (demo_key 1) 9 b = (Ok x, b) \<and> rec_role x = Owner"
proof -
  let ?rs = "[demo_record 1 Viewer True, demo_record 2 Viewer False]"
  let ?a = "demo_authority ?rs"
  let ?c = "demo_cert 1 Owner 5 (next_serial ?a)"
  let ?C = "demo_crypto False ?c"
  have dev: "store_devices (au_store ?a) = Ok ?rs" by (rule demo_devices) simp
  have t: "table_ok (au_store ?a)" by (rule table_ok_demo) (simp_all add: demo_id_less)
  have gone: "table_revoked (au_store ?a) (from_key ?C (demo_key 1))"
    by (simp add: table_revoked_find [OF t dev] find_record_def)
  have "\<exists>c b x. authority_rotate ?C id (demo_id 2) ''phone'' Owner (demo_key 1) 5 ?a = (Ok c, b) \<and>
     authority_authorize ?C (demo_key 1) 9 b = (Ok x, b) \<and> rec_role x = Owner"
  proof (rule rotation_restores_revoked_key [OF _ _ _ _ _ t _ gone])
    show "authority_record ?a (demo_id 2) = Ok (Some (demo_record 2 Viewer False))"
      by (simp add: authority_record_def dev find_record_def)
    show "FIRST_SERIAL \<le> next_serial ?a" by (rule demo_serial) (simp_all add: u64_max_def)
    show "cert_to_vec ?C (cert_issue ?C id (demo_key 1) ''phone'' Owner 5 (next_serial ?a)) = Some [1]"
      by (simp add: demo_crypto_codec)
  qed simp_all
  with gone show ?thesis by blast
qed

text \<open>
  A key that \<open>issue\<close> accepts can connect at once, with the role it was issued for: the
  certificate written to disk, the row written to the table and the rebuilt index agree.
\<close>

theorem issued_key_is_authorized:
  assumes C: "crypto_ok C" "codec_ok C" and key: "length key = 32" "point_ok C key"
    and t: "table_ok (au_store a)" and f: "files_ok C (au_files a)"
    and serial: "FIRST_SERIAL \<le> next_serial a" and sg: "\<forall>m. sig_ok C (au_root a) m (sign m)"
    and enc: "cert_to_vec C (cert_issue C sign key nm r now (next_serial a)) = Some bs"
    and free: "authority_record a (from_key C key) = Ok None" and "\<not> is_weak C key"
  shows "\<exists>c b x. authority_issue C sign nm r key now a = (Ok c, b) \<and>
     authority_authorize C key later b = (Ok x, b) \<and> rec_role x = r"
proof -
  let ?c = "cert_issue C sign key nm r now (next_serial a)"
  obtain rs where rs: "store_devices (au_store a) = Ok rs" "find_record rs (from_key C key) = None"
    using free by (auto simp: authority_record_def split: sum.splits)
  obtain b x where b: "pin C ?c now a = (Ok (), b)" "authority_authorize C key later b = (Ok x, b)"
    "rec_role x = r"
    using pin_effect [OF C key t f refl serial sg enc, of now later] by blast
  then have "authority_issue C sign nm r key now a = (Ok ?c, b)"
    using rs assms(11) by (simp add: authority_issue_def Let_def may_pin_def check_pinnable_def)
  with b show ?thesis by blast
qed

theorem issued_key_is_authorized_witness:
  "\<exists>C c b x. authority_issue C id ''phone'' Viewer (demo_key 2) 5
       (demo_authority [demo_record 1 Viewer True]) = (Ok c, b) \<and>
     authority_authorize C (demo_key 2) 9 b = (Ok x, b) \<and> rec_role x = Viewer"
proof -
  let ?rs = "[demo_record 1 Viewer True]"
  let ?a = "demo_authority ?rs"
  let ?c = "demo_cert 2 Viewer 5 (next_serial ?a)"
  let ?C = "demo_crypto False ?c"
  have dev: "store_devices (au_store ?a) = Ok ?rs" by (rule demo_devices) simp
  have t: "table_ok (au_store ?a)" by (rule table_ok_demo) simp_all
  have "\<exists>c b x. authority_issue ?C id ''phone'' Viewer (demo_key 2) 5 ?a = (Ok c, b) \<and>
     authority_authorize ?C (demo_key 2) 9 b = (Ok x, b) \<and> rec_role x = Viewer"
  proof (rule issued_key_is_authorized [OF _ _ _ _ t])
    show "authority_record ?a (from_key ?C (demo_key 2)) = Ok None"
      by (simp add: authority_record_def dev find_record_def)
    show "FIRST_SERIAL \<le> next_serial ?a" by (rule demo_serial) (simp_all add: u64_max_def)
    show "cert_to_vec ?C (cert_issue ?C id (demo_key 2) ''phone'' Viewer 5 (next_serial ?a)) = Some [1]"
      by (simp add: demo_crypto_codec)
  qed simp_all
  then show ?thesis by blast
qed

text \<open>
  C7. No verb without a signature: if a machine that loaded its authority and then ran any sequence
  of operations lets a key perform a verb, the root signed a payload that names this very key and
  its fingerprint, with a role that holds the capability the verb needs. The hypothesis on the crates
  is the usual one: a signature under the root verifies for the encoding of a payload only if the
  root issued that payload.
\<close>

theorem verb_needs_signed_role:
  assumes load: "authority_load C root files table log = Ok a0"
    and ok: "check_verb C key v now (run_ops C sign ops a0) = (Ok (), b)"
    and unforgeable: "\<And>p s. sig_ok C root (payload_bytes C p) s \<Longrightarrow> p \<in> issued"
  shows "\<exists>p \<in> issued. cp_public_key p = key \<and> cp_device p = from_key C key \<and>
     (cp_role p = Owner \<or> required v = Observe)"
proof -
  let ?a = "run_ops C sign ops a0"
  have a: "au_root ?a = root" "index_wf (au_index ?a)"
    using run_ops_index [OF load] by auto
  obtain r where r: "authority_authorize C key now ?a = (Ok r, b)" "role_check (rec_role r) v = Ok ()"
    using ok by (rule check_verb_Ok)
  obtain c where c: "bt_get (ix_devices (au_index ?a)) (from_key C key) = Some (r, c)"
    "cert_verify C c root key = Ok ()"
    using index_authorize_Ok [OF authorize_Ok(2) [OF r(1)]] a(1) by auto
  have "dc_payload c \<in> issued"
    using c(2) by (intro unforgeable [of _ "dc_signature c"]) (auto simp: cert_verify_Ok_iff)
  moreover have "cp_role (dc_payload c) = Owner \<or> required v = Observe"
    using r(2) index_wf_entry(2) [OF a(2) c(1)] by (simp add: role_check_Ok_iff)
  ultimately show ?thesis
    using c(2) by (auto simp: cert_verify_Ok_iff)
qed

theorem verb_needs_signed_role_witness:
  "\<exists>C a0 b. authority_load C [] (demo_files 1) [] [] = Ok a0 \<and>
     check_verb C (demo_key 1) Kill 9 (run_ops C id [(OpReload, 3)] a0) = (Ok (), b) \<and>
     (\<exists>p \<in> {dc_payload (demo_cert 1 Owner 5 1)}. cp_public_key p = demo_key 1 \<and>
        cp_device p = from_key C (demo_key 1) \<and> (cp_role p = Owner \<or> required Kill = Observe))"
proof -
  let ?c = "demo_cert 1 Owner 5 1"
  let ?C = "demo_crypto True ?c"
  let ?a = "demo_authority []\<lparr>au_files := demo_files 1\<rparr>"
  obtain a0 where a0: "reload ?C ?a = (Ok (), a0)"
    using reload_Ok [of ?a ?C] demo_table by auto
  have same: "au_store a0 = []" "au_files a0 = demo_files 1" "au_root a0 = []"
    using reload_pair_store [OF a0] reload_pair_same [OF a0] by (simp_all add: demo_authority_def)
  obtain a1 where a1: "reload ?C a0 = (Ok (), a1)"
    "bt_get (ix_devices (au_index a1)) (demo_id 1) = Some (from_cert ?c, ?c)"
    using reload_unrecorded [of a0 "[]" "demo_id 1" ?C "[1]" ?c] same demo_table(1)
    by (auto simp: store_devices_def bt_values_def find_record_def demo_crypto_codec demo_cert_simps)
  have ix: "index_authorize ?C (au_index a1) (au_root a1) (demo_key 1) = Ok (from_cert ?c)"
    using index_authorize_OkI [OF _ _ reload_wf [OF a1(1)], of ?C "demo_key 1"] a1(2)
      demo_verify [of 1 True 1 Owner 5] by (auto simp: FIRST_SERIAL_def)
  have "role_check Owner Kill = Ok ()" by (simp add: role_check_Ok_iff)
  then have "check_verb ?C (demo_key 1) Kill 9 a1 = (Ok (), a1)"
    using ix reload_pair_store [OF a1(1)] same(1)
    by (simp add: check_verb_def authority_authorize_def Let_def store_devices_or_default_def
        store_devices_def bt_values_def find_record_def demo_cert_simps)
  then have cv: "check_verb ?C (demo_key 1) Kill 9 (run_ops ?C id [(OpReload, 3)] a0) = (Ok (), a1)"
    using a1(1) by (simp add: run_ops_def)
  have load: "authority_load ?C [] (demo_files 1) [] [] = Ok a0"
    using a0 by (simp add: authority_load_def demo_authority_def)
  have sig: "p \<in> {dc_payload ?c}" if "sig_ok ?C [] (payload_bytes ?C p) s" for p s
    using that by (auto simp: demo_crypto_def payload_bytes_def split: if_splits)
  show ?thesis
    using verb_needs_signed_role [OF load cv, of "{dc_payload ?c}"] sig load cv by blast
qed

text \<open>
  A refusal is an event: \<open>authorize\<close> either accepts and changes nothing, or refuses and appends
  exactly one \<open>auth.reject\<close> row, with outcome \<open>refused\<close>, naming the refused device.
\<close>

theorem refusal_is_audited:
  "case authority_authorize C key now a of
     (Ok r, b) \<Rightarrow> b = a
   | (Err e, b) \<Rightarrow> \<exists>reason. b = a\<lparr>au_audit := au_audit a @
       [(event_new ''auth.reject'' AuthReject Refused (word_of_int now))
          \<lparr>ev_device := display_id (from_key C key), ev_prompt := reason\<rparr>]\<rparr>"
  by (auto simp: authority_authorize_def note_refusal_def audit_note_def Let_def
      split: option.splits sum.splits)

text \<open>
  The directory is trusted further than its comments say: a certificate file without a row in
  the table enters the index unverified, so \<open>device\<close> answers with its record, whatever the signature
  and the role in it. Only \<open>authorize\<close>, which verifies again, still refuses it.
\<close>

theorem unverified_file_is_listed:
  assumes t: "table_ok (au_store a)" and f: "files_ok C (au_files a)"
    and cf: "bt_get (au_files a) (cert_file_name d) = Some (Some bs)" "cert_from_slice C bs = Some c"
      "d \<noteq> []"
    and none: "authority_record a d = Ok None" "index_get (au_index a) d = None"
    and bad: "\<not> sig_ok C (au_root a) (payload_bytes C (dc_payload c)) (dc_signature c)"
  shows "\<exists>b. authority_device C d a = (Some (from_cert c), b) \<and>
     (\<forall>key now. from_key C key = d \<longrightarrow> \<not> is_ok (fst (authority_authorize C key now b)))"
proof -
  obtain rs where rs: "store_devices (au_store a) = Ok rs" "find_record rs d = None"
    using none(1) by (auto simp: authority_record_def split: sum.splits)
  obtain b where b: "reload C a = (Ok (), b)"
    "bt_get (ix_devices (au_index b)) d = Some (from_cert c, c)"
    using reload_unrecorded [OF t rs cf(3) f cf(1,2)] by blast
  have root: "au_root b = au_root a" using reload_pair_same [OF b(1)] by simp
  have "authority_device C d a = (Some (from_cert c), b)"
    using none b by (simp add: authority_device_def Let_def index_get_def)
  moreover have "\<not> is_ok (fst (authority_authorize C key now b))" if "from_key C key = d" for key now
  proof
    assume "is_ok (fst (authority_authorize C key now b))"
    then obtain r b' where "authority_authorize C key now b = (Ok r, b')"
      by (metis is_ok_iff prod.collapse)
    from index_authorize_Ok [OF authorize_Ok(2) [OF this]] show False
      using that b(2) bad root by (auto simp: cert_verify_Ok_iff)
  qed
  ultimately show ?thesis by blast
qed

theorem unverified_file_is_listed_witness:
  "\<exists>C c b. dc_signature c = [0] \<and> cp_role (dc_payload c) = Owner \<and>
     authority_device C (demo_id 1) (demo_authority []\<lparr>au_files := demo_files 1\<rparr>) = (Some (from_cert c), b) \<and>
     (\<forall>key now. from_key C key = demo_id 1 \<longrightarrow> \<not> is_ok (fst (authority_authorize C key now b)))"
proof -
  let ?c = "demo_cert 1 Owner 5 1\<lparr>dc_signature := [0]\<rparr>"
  let ?C = "demo_crypto False ?c"
  let ?a = "demo_authority []\<lparr>au_files := demo_files 1\<rparr>"
  have "\<exists>b. authority_device ?C (demo_id 1) ?a = (Some (from_cert ?c), b) \<and>
     (\<forall>key now. from_key ?C key = demo_id 1 \<longrightarrow> \<not> is_ok (fst (authority_authorize ?C key now b)))"
  proof (rule unverified_file_is_listed)
    show "bt_get (au_files ?a) (cert_file_name (demo_id 1)) = Some (Some [1])"
      by (simp add: demo_files_def)
    show "authority_record ?a (demo_id 1) = Ok None"
      by (simp add: authority_record_def demo_authority_def store_devices_def bt_values_def find_record_def)
    show "index_get (au_index ?a) (demo_id 1) = None"
      by (simp add: index_get_def index_new_def)
    show "\<not> sig_ok ?C (au_root ?a) (payload_bytes ?C (dc_payload ?c)) (dc_signature ?c)"
      by (simp add: demo_crypto_def payload_bytes_def)
  qed (simp_all add: demo_table demo_crypto_codec demo_cert_simps)
  moreover have "dc_signature ?c = [0]" "cp_role (dc_payload ?c) = Owner"
    by (simp_all add: demo_cert_simps)
  ultimately show ?thesis by blast
qed

text \<open>
  Revocation fails open when the table cannot be read: one row that does not parse makes
  \<open>devices()\<close> an error, \<open>authorize\<close> takes it for an empty table, and a device whose row says revoked
  is accepted as long as the in-memory index still lists its certificate.
\<close>

theorem unreadable_table_skips_revocation:
  assumes "store_devices (au_store a) = Err e" and "index_wf (au_index a)"
    and "table_revoked (au_store a) (from_key C key)"
    and "bt_get (ix_devices (au_index a)) (from_key C key) = Some (r, c)"
    and "cert_verify C c (au_root a) key = Ok ()"
  shows "authority_authorize C key now a = (Ok r, a)"
  using index_authorize_OkI [OF assms(4,5,2)] assms(1)
  by (simp add: authority_authorize_def Let_def store_devices_or_default_def find_record_def)

theorem unreadable_table_skips_revocation_witness:
  "\<exists>C a r. table_revoked (au_store a) (demo_id 1) \<and>
     authority_authorize C (demo_key 1) 9 a = (Ok r, a) \<and> rec_role r = Owner"
proof -
  let ?c = "demo_cert 1 Owner 5 1"
  let ?C = "demo_crypto False ?c"
  let ?bad = "row_of (demo_record 2 Viewer False)\<lparr>row_role := ''root''\<rparr>"
  let ?t = "[(demo_id 1, row_of (demo_record 1 Owner True)), (demo_id 2, ?bad)]"
  let ?a = "demo_authority []\<lparr>au_store := ?t, au_index := index_insert ?c index_new\<rparr>"
  have "role_parse ''root'' = Err (UnknownRole ''root'')" by code_simp
  then have err: "store_devices (au_store ?a) = Err InvalidQuery"
    by (simp add: store_devices_def bt_values_def read_row_of) (simp add: read_row_def)
  have "index_wf (au_index ?a)" using index_wf_insert [OF index_wf_new, of ?c] by simp
  moreover have gone: "table_revoked (au_store ?a) (from_key ?C (demo_key 1))"
    by (simp add: table_revoked_def)
  moreover have "bt_get (ix_devices (au_index ?a)) (from_key ?C (demo_key 1)) = Some (from_cert ?c, ?c)"
    by (simp add: get_insert_index demo_cert_simps)
  moreover have "cert_verify ?C ?c (au_root ?a) (demo_key 1) = Ok ()"
    by (rule demo_verify) (simp add: FIRST_SERIAL_def)
  ultimately have "authority_authorize ?C (demo_key 1) 9 ?a = (Ok (from_cert ?c), ?a)"
    by (rule unreadable_table_skips_revocation [OF err])
  moreover have "rec_role (from_cert ?c) = Owner" by (simp add: demo_cert_simps)
  ultimately show ?thesis using gone unfolding demo_from_key_id by blast
qed

text \<open>
  What the table gives back after an \<open>upsert_device\<close> is the record that went in, except that the
  provenance of a revocation is first-writer-wins: a stored time and author are never replaced.
\<close>

theorem upsert_then_read:
  assumes "table_ok t" and "record_ok r"
  shows "\<exists>rs. store_devices (upsert_device r t) = Ok rs \<and>
     find_record rs (rec_id r) = Some (r\<lparr>
       rec_revoked_at_ms := coalesce (Option.bind (bt_get t (rec_id r)) row_revoked_at) (rec_revoked_at_ms r),
       rec_revoked_by := coalesce (Option.bind (bt_get t (rec_id r)) row_revoked_by) (rec_revoked_by r)\<rparr>)"
proof -
  have inv: "bt_inv t" using assms(1) by (simp add: table_ok_def)
  obtain rs where rs: "store_devices (upsert_device r t) = Ok rs"
    "find_record rs (rec_id r) = (case bt_get (upsert_device r t) (rec_id r) of None \<Rightarrow> None
       | Some row \<Rightarrow> (case read_row row of Ok r \<Rightarrow> Some r | Err _ \<Rightarrow> None))"
    using table_ok_readable [OF table_ok_upsert [OF assms]] by metis
  moreover have "read_row (upserted_row r (bt_get t (rec_id r))) = Ok (r\<lparr>
       rec_revoked_at_ms := coalesce (Option.bind (bt_get t (rec_id r)) row_revoked_at) (rec_revoked_at_ms r),
       rec_revoked_by := coalesce (Option.bind (bt_get t (rec_id r)) row_revoked_by) (rec_revoked_by r)\<rparr>)"
    unfolding upserted_row_def by (rule read_row_provenance [OF read_row_of [OF assms(2)]])
  ultimately show ?thesis by (simp add: get_upsert [OF inv])
qed

theorem upsert_then_read_witness:
  "\<exists>rs. store_devices (upsert_device (demo_record 1 Owner True) (au_store (demo_authority
       [demo_record 1 Viewer False\<lparr>rec_revoked_by := Some ''local-cli''\<rparr>]))) = Ok rs \<and>
     find_record rs (demo_id 1) = Some (demo_record 1 Owner True\<lparr>rec_revoked_by := Some ''local-cli''\<rparr>)"
proof -
  let ?old = "demo_record 1 Viewer False\<lparr>rec_revoked_by := Some ''local-cli''\<rparr>"
  let ?t = "au_store (demo_authority [?old])"
  have ok: "record_ok ?old" using demo_record_ok [of 1 Viewer False] by (simp add: record_ok_def)
  then have "table_ok ?t" by (intro table_ok_demo) simp_all
  from upsert_then_read [OF this demo_record_ok [of 1 Owner True]] show ?thesis
    by (simp add: demo_authority_def coalesce_def) (simp add: demo_record_def row_of_def)
qed

end
