(* ===== verification/Sync_Jsonc.thy ===== *)
theory Sync_Jsonc
  imports Arreo_Prelude
begin

text \<open>
  The two JSONC scanners of \<open>crates/arreo-core/src/sync/merge.rs\<close>, \<open>strip_jsonc_comments\<close> and
  \<open>has_comments\<close>, over the bytes of the text. The code's index into \<open>bytes\<close> is here the suffix that
  starts at it. \<open>strip_jsonc_comments\<close> slices the text, so it returns a \<open>run\<close>.
\<close>

abbreviation QUOTE :: char where "QUOTE \<equiv> CHR 0x22"
abbreviation BACKSLASH :: char where "BACKSLASH \<equiv> CHR 0x5C"
abbreviation SLASH :: char where "SLASH \<equiv> CHR 0x2F"
abbreviation STAR :: char where "STAR \<equiv> CHR 0x2A"

text \<open>
  The inner loop over a string literal: how far it moves from behind the opening quote to behind the
  closing one, or to the end of the text (\<open>min(bytes.len())\<close>).
\<close>

fun literal_end :: "string \<Rightarrow> nat" where
  "literal_end [] = 0"
| "literal_end [c] = 1"
| "literal_end (c # d # s) =
     (if c = BACKSLASH then 2 + literal_end s
      else if c = QUOTE then 1
      else 1 + literal_end (d # s))"

lemma literal_end_le: "literal_end s \<le> length s"
  by (induction s rule: literal_end.induct) auto

text \<open>The loop over a block comment, from behind its opening.\<close>

fun skip_block :: "string \<Rightarrow> string" where
  "skip_block [] = []"
| "skip_block [c] = []"
| "skip_block (c # d # s) = (if c = STAR \<and> d = SLASH then s else skip_block (d # s))"

lemma length_skip_block: "length (skip_block s) \<le> length s"
  by (induction s rule: skip_block.induct) auto

text \<open>\<open>out.push(byte as char)\<close>: a byte from 128 up is the code point of that number, two bytes.\<close>

definition push_byte :: "char \<Rightarrow> string" where
  "push_byte c = (if chcode c < 128 then [c]
     else [char_of (192 + chcode c div 64), char_of (128 + chcode c mod 64)])"

definition prepend :: "string \<Rightarrow> string run \<Rightarrow> string run" where
  "prepend s r = (case r of Panics \<Rightarrow> Panics | Returns t \<Rightarrow> Returns (s @ t))"

function strip_jsonc_comments :: "string \<Rightarrow> string run" where
  "strip_jsonc_comments [] = Returns []"
| "strip_jsonc_comments (c # s) =
     (if c = QUOTE then
        (case slice (c # s) 0 (1 + literal_end s) of
           Panics \<Rightarrow> Panics
         | Returns lit \<Rightarrow> prepend lit (strip_jsonc_comments (drop (literal_end s) s)))
      else if c = SLASH \<and> s \<noteq> [] \<and> hd s = SLASH then
        strip_jsonc_comments (dropWhile (\<lambda>x. x \<noteq> NEWLINE) s)
      else if c = SLASH \<and> s \<noteq> [] \<and> hd s = STAR then
        strip_jsonc_comments (skip_block (tl s))
      else prepend (push_byte c) (strip_jsonc_comments s))"
  by pat_completeness auto
termination
proof (relation "measure length")
  fix s :: string
  have "length (skip_block (tl s)) \<le> length s"
    using length_skip_block [of "tl s"] by simp
  then show "(skip_block (tl s), c # s) \<in> measure length" for c by simp
qed (auto simp: le_imp_less_Suc length_dropWhile_le)

function has_comments :: "string \<Rightarrow> bool" where
  "has_comments [] = False"
| "has_comments (c # s) =
     (if c = QUOTE then has_comments (drop (literal_end s) s)
      else if c = SLASH \<and> s \<noteq> [] \<and> (hd s = SLASH \<or> hd s = STAR) then True
      else has_comments s)"
  by pat_completeness auto
termination
  by (relation "measure length") (auto simp: le_imp_less_Suc)

section \<open>The scanners\<close>

text \<open>
  What the scanners rely on of UTF-8: a continuation byte never follows an ASCII byte. (Every valid
  UTF-8 text has this, since a continuation byte follows a lead byte or another continuation byte.)
\<close>

fun ascii_closed :: "string \<Rightarrow> bool" where
  "ascii_closed (a # b # s) \<longleftrightarrow> (chcode a < 128 \<longrightarrow> \<not> is_cont b) \<and> ascii_closed (b # s)"
| "ascii_closed _ \<longleftrightarrow> True"

lemma ascii_closed_Cons: "ascii_closed (c # s) \<Longrightarrow> ascii_closed s"
  by (cases s) auto

lemma ascii_closed_drop: "ascii_closed s \<Longrightarrow> ascii_closed (drop n s)"
  by (induction n arbitrary: s) (auto dest: ascii_closed_Cons simp: drop_Suc tl_def split: list.splits)

lemma ascii_closed_dropWhile: "ascii_closed s \<Longrightarrow> ascii_closed (dropWhile P s)"
  by (induction s) (auto dest: ascii_closed_Cons)

lemma skip_block_suffix: "\<exists>n. skip_block s = drop n s"
proof (induction s rule: skip_block.induct)
  case (2 c)
  then show ?case by (intro exI [of _ 1]) simp
next
  case (3 c d s)
  show ?case
  proof (cases "c = STAR \<and> d = SLASH")
    case True
    then show ?thesis by (intro exI [of _ 2]) simp
  next
    case False
    with 3 obtain n where "skip_block (d # s) = drop n (d # s)" by auto
    with False show ?thesis by (intro exI [of _ "Suc n"]) auto
  qed
qed simp

lemma ascii_closed_skip_block: "ascii_closed s \<Longrightarrow> ascii_closed (skip_block s)"
  using skip_block_suffix [of s] by (auto intro: ascii_closed_drop)

text \<open>Behind a literal the text ends or goes on after the ASCII closing quote.\<close>

lemma literal_end_boundary:
  "ascii_closed s \<Longrightarrow> drop (literal_end s) s = [] \<or> \<not> is_cont (hd (drop (literal_end s) s))"
proof (induction s rule: literal_end.induct)
  case (3 c d s)
  then have "ascii_closed s" "ascii_closed (d # s)" by (auto dest: ascii_closed_Cons)
  with 3 show ?case by (auto simp: chcode_def)
qed auto

lemma slice_literal:
  assumes "ascii_closed s"
  shows "slice (QUOTE # s) 0 (1 + literal_end s) = Returns (QUOTE # take (literal_end s) s)"
proof -
  have "is_char_boundary (QUOTE # s) (1 + literal_end s)"
    using literal_end_boundary [OF assms] literal_end_le [of s]
    by (auto simp: is_char_boundary_def hd_drop_conv_nth)
  then show ?thesis
    using literal_end_le [of s] by (simp add: slice_def is_char_boundary_def)
qed

lemma strip_returns: "ascii_closed t \<Longrightarrow> \<exists>u. strip_jsonc_comments t = Returns u"
proof (induction t rule: strip_jsonc_comments.induct)
  case (2 c s)
  have s: "ascii_closed s" using 2(5) by (rule ascii_closed_Cons)
  have tl: "ascii_closed (skip_block (tl s))"
    using s by (cases s) (auto intro!: ascii_closed_skip_block dest: ascii_closed_Cons)
  consider "c = QUOTE" | "c \<noteq> QUOTE" "c = SLASH" "s \<noteq> []" "hd s = SLASH"
    | "c \<noteq> QUOTE" "c = SLASH" "s \<noteq> []" "hd s = STAR"
    | "c \<noteq> QUOTE" "\<not> (c = SLASH \<and> s \<noteq> [] \<and> (hd s = SLASH \<or> hd s = STAR))" by auto
  then show ?case
  proof cases
    case 1
    have "slice (c # s) 0 (1 + literal_end s) = Returns (QUOTE # take (literal_end s) s)"
      unfolding 1 by (rule slice_literal [OF s])
    then obtain u where "strip_jsonc_comments (drop (literal_end s) s) = Returns u"
      using 2(1) [OF 1] ascii_closed_drop [OF s] by blast
    with 1 show ?thesis by (simp add: slice_literal [OF s, simplified] prepend_def)
  next
    case 4
    then show ?thesis using 2(4) s by (auto simp: prepend_def)
  qed (use 2 s tl ascii_closed_dropWhile in auto)
qed simp

text \<open>A literal is scanned again the same way, whatever follows it.\<close>

lemma literal_end_take:
  assumes "drop (literal_end s) s = [] \<longrightarrow> t = []"
  shows "literal_end (take (literal_end s) s @ t) = literal_end s"
  using assms
proof (induction s rule: literal_end.induct)
  case (2 c)
  then show ?case by simp
next
  case (3 c d s)
  consider "c = BACKSLASH" | "c \<noteq> BACKSLASH" "c = QUOTE" | "c \<noteq> BACKSLASH" "c \<noteq> QUOTE" by blast
  then show ?case
  proof cases
    case 1
    with 3 show ?thesis by simp
  next
    case 2
    then show ?thesis by (cases t) auto
  next
    case 3
    then have "literal_end (take (literal_end (d # s)) (d # s) @ t) = literal_end (d # s)"
      using "3.IH"(2) "3.prems" by simp
    moreover have "take (literal_end (d # s)) (d # s) \<noteq> []"
      by (cases s) auto
    ultimately show ?thesis using 3 by (cases "take (literal_end (d # s)) (d # s) @ t") auto
  qed
qed simp

lemma literal_end_pos: "s \<noteq> [] \<Longrightarrow> 0 < literal_end s"
  by (induction s rule: literal_end.induct) auto

lemma has_comments_literal:
  assumes "drop (literal_end s) s = [] \<longrightarrow> t = []"
  shows "has_comments (QUOTE # take (literal_end s) s @ t) = has_comments t"
proof -
  have "drop (literal_end s) (take (literal_end s) s @ t) = t"
    using literal_end_le [of s] by simp
  then show ?thesis by (simp add: literal_end_take [OF assms])
qed

lemma push_byte_high:
  assumes "128 \<le> chcode c"
  shows "\<exists>a b. push_byte c = [a, b] \<and> 128 \<le> chcode a \<and> 128 \<le> chcode b"
proof -
  have "192 + chcode c div 64 < 256" "128 + chcode c mod 64 < 256"
    using chcode_less_256 [of c] by linarith+
  with assms show ?thesis by (simp add: push_byte_def)
qed

lemma push_byte_cases:
  obtains "push_byte c = [c]" "chcode c < 128"
  | a b where "push_byte c = [a, b]" "128 \<le> chcode a" "128 \<le> chcode b" "128 \<le> chcode c"
  using push_byte_high [of c] by (cases "chcode c < 128") (auto simp: push_byte_def)

lemma low_chars: "chcode SLASH < 128" "chcode STAR < 128" "chcode QUOTE < 128"
  by (simp_all add: chcode_def)

lemma push_byte_simps:
  "push_byte c \<noteq> []" "hd (push_byte c) = SLASH \<longleftrightarrow> c = SLASH" "hd (push_byte c) = STAR \<longleftrightarrow> c = STAR"
  using low_chars by (cases rule: push_byte_cases [of c]; force)+

lemma has_comments_push:
  assumes "c \<noteq> QUOTE" and "c = SLASH \<Longrightarrow> u = [] \<or> (hd u \<noteq> SLASH \<and> hd u \<noteq> STAR)"
  shows "has_comments (push_byte c @ u) = has_comments u"
proof (cases rule: push_byte_cases [of c])
  case (2 a b)
  then have "a \<noteq> QUOTE" "b \<noteq> QUOTE" "a \<noteq> SLASH" "b \<noteq> SLASH" using low_chars by auto
  with 2 show ?thesis by simp
qed (use assms in auto)

lemma strip_hd:
  assumes "strip_jsonc_comments (x # s) = Returns u" and "x \<noteq> SLASH"
  shows "u \<noteq> [] \<and> (x \<noteq> QUOTE \<longrightarrow> hd u = hd (push_byte x)) \<and> (x = QUOTE \<longrightarrow> hd u = QUOTE)"
  using assms push_byte_simps(1) [of x]
  by (auto simp: prepend_def slice_def split: run.splits if_splits)

lemma strip_has_no_comments:
  "ascii_closed t \<Longrightarrow> strip_jsonc_comments t = Returns u \<Longrightarrow> \<not> has_comments u"
proof (induction t arbitrary: u rule: strip_jsonc_comments.induct)
  case (2 c s)
  have s: "ascii_closed s" using 2(5) by (rule ascii_closed_Cons)
  have tl: "ascii_closed (skip_block (tl s))"
    using s by (cases s) (auto intro!: ascii_closed_skip_block dest: ascii_closed_Cons)
  consider "c = QUOTE" | "c \<noteq> QUOTE" "c = SLASH" "s \<noteq> []" "hd s = SLASH"
    | "c \<noteq> QUOTE" "c = SLASH" "s \<noteq> []" "hd s = STAR"
    | "c \<noteq> QUOTE" "\<not> (c = SLASH \<and> s \<noteq> [] \<and> (hd s = SLASH \<or> hd s = STAR))" by auto
  then show ?case
  proof cases
    case 1
    have sl: "slice (c # s) 0 (1 + literal_end s) = Returns (QUOTE # take (literal_end s) s)"
      unfolding 1 by (rule slice_literal [OF s])
    then obtain v where v: "strip_jsonc_comments (drop (literal_end s) s) = Returns v"
      "u = QUOTE # take (literal_end s) s @ v"
      using 2(6) 1 by (auto simp: prepend_def split: run.splits)
    have "\<not> has_comments v" using 2(1) [OF 1 sl ascii_closed_drop [OF s] v(1)] .
    moreover have "drop (literal_end s) s = [] \<longrightarrow> v = []" using v(1) by auto
    ultimately show ?thesis using has_comments_literal v(2) by blast
  next
    case 4
    then obtain v where v: "strip_jsonc_comments s = Returns v" "u = push_byte c @ v"
      using 2(6) by (auto simp: prepend_def split: run.splits if_splits)
    have "v = [] \<or> (hd v \<noteq> SLASH \<and> hd v \<noteq> STAR)" if "c = SLASH"
    proof (cases s)
      case (Cons x s')
      then have "x \<noteq> SLASH" "x \<noteq> STAR" using 4 that by auto
      then show ?thesis using strip_hd [of x s' v] v(1) Cons push_byte_simps [of x] by auto
    qed (use v(1) in simp)
    with 2(4) 4 s v show ?thesis by (auto simp: has_comments_push)
  qed (use 2 s tl ascii_closed_dropWhile in auto)
qed simp

lemma strip_without_comments:
  "\<forall>c \<in> set t. chcode c < 128 \<Longrightarrow> \<not> has_comments t \<Longrightarrow> strip_jsonc_comments t = Returns t"
proof (induction t rule: has_comments.induct)
  case (2 c s)
  show ?case
  proof (cases "c = QUOTE")
    case True
    have "\<forall>c \<in> set (drop (literal_end s) s). chcode c < 128"
      using 2(3) by (auto dest: in_set_dropD)
    then have "strip_jsonc_comments (drop (literal_end s) s) = Returns (drop (literal_end s) s)"
      using 2 True by simp
    moreover have "slice (c # s) 0 (1 + literal_end s) = Returns (c # take (literal_end s) s)"
      using 2(3) literal_end_le [of s] slice_ascii [of "c # s" 0 "1 + literal_end s"] by simp
    ultimately show ?thesis using True by (simp add: prepend_def)
  next
    case False
    with 2 show ?thesis by (auto simp: prepend_def push_byte_def split: if_splits)
  qed
qed simp

end
