(* ===== verification/Sync_Merge.thy ===== *)
theory Sync_Merge
  imports Sync_Jsonc
begin

text \<open>
  The merge of two configuration documents, \<open>crates/arreo-core/src/sync/merge.rs\<close>: \<open>merge_value\<close> with
  its helpers and \<open>merge_json\<close>. JSON objects are \<open>serde_json\<close>'s default \<open>BTreeMap\<close>; the type of
  numbers is a parameter, and the parser and printer of \<open>serde_json\<close> are arguments of \<open>merge_json\<close>.
\<close>

datatype 'n json =
    JNull
  | JBool bool
  | JNumber 'n
  | JString string
  | JArray "'n json list"
  | JObject "(string \<times> 'n json) list"

datatype side = Live | Incoming

datatype merge_refusal =
    Comments side
  | Conflict string
  | Shape string
  | Parse side string

record merge_spec =
  union_arrays :: "string list"

definition child_path :: "string \<Rightarrow> string \<Rightarrow> string" where
  "child_path path key = (if path = [] then key else path @ ''.'' @ key)"

text \<open>\<open>path.rsplit('.').next()\<close>: what follows the last dot. It is never \<open>None\<close>.\<close>

definition last_key :: "string \<Rightarrow> string" where
  "last_key path = rev (takeWhile (\<lambda>c. c \<noteq> CHR ''.'') (rev path))"

definition same_kind :: "'n json \<Rightarrow> 'n json \<Rightarrow> bool" where
  "same_kind a b = (case (a, b) of
      (JBool _, JBool _) \<Rightarrow> True
    | (JNumber _, JNumber _) \<Rightarrow> True
    | (JString _, JString _) \<Rightarrow> True
    | (JObject _, JObject _) \<Rightarrow> True
    | (JArray _, JArray _) \<Rightarrow> True
    | _ \<Rightarrow> False)"

definition push_new :: "'a list \<Rightarrow> 'a list \<Rightarrow> 'a list" where
  "push_new base incoming =
     fold (\<lambda>item union. if item \<in> set union then union else union @ [item]) incoming base"

fun merge_value :: "merge_spec \<Rightarrow> string \<Rightarrow> 'n json \<Rightarrow> 'n json \<Rightarrow> merge_refusal + 'n json"
and merge_entries :: "merge_spec \<Rightarrow> string \<Rightarrow> (string, 'n json) btree \<Rightarrow> (string \<times> 'n json) list
    \<Rightarrow> merge_refusal + (string, 'n json) btree" where
  "merge_value spec path base incoming = (case (base, incoming) of
      (JObject base_map, JObject incoming_map) \<Rightarrow>
        (case merge_entries spec path base_map incoming_map of
           Err e \<Rightarrow> Err e | Ok merged \<Rightarrow> Ok (JObject merged))
    | (JArray base_items, JArray incoming_items) \<Rightarrow>
        if last_key path \<in> set (union_arrays spec) then Ok (JArray (push_new base_items incoming_items))
        else if base_items = incoming_items then Ok (JArray base_items)
        else Err (Conflict path)
    | (JNull, other) \<Rightarrow> Ok other
    | (other, JNull) \<Rightarrow> Ok other
    | _ \<Rightarrow>
        if base = incoming then Ok base
        else if same_kind base incoming then Err (Conflict path)
        else Err (Shape path))"
| "merge_entries spec path merged [] = Ok merged"
| "merge_entries spec path merged ((key, incoming_value) # rest) =
     (case bt_get merged key of
        None \<Rightarrow> merge_entries spec path (bt_insert key incoming_value merged) rest
      | Some base_value \<Rightarrow>
          (case merge_value spec (child_path path key) base_value incoming_value of
             Err e \<Rightarrow> Err e
           | Ok v \<Rightarrow> merge_entries spec path (bt_insert key v merged) rest))"

declare merge_value.simps [simp del]

definition merge_json ::
    "(string \<Rightarrow> string + 'n json) \<Rightarrow> ('n json \<Rightarrow> string + string) \<Rightarrow> merge_spec \<Rightarrow> string \<Rightarrow> string
      \<Rightarrow> merge_refusal + string" where
  "merge_json from_str to_string_pretty spec base incoming =
     (if has_comments base then Err (Comments Live)
      else if has_comments incoming then Err (Comments Incoming)
      else case from_str base of
        Err reason \<Rightarrow> Err (Parse Live reason)
      | Ok base_value \<Rightarrow>
          (case from_str incoming of
             Err reason \<Rightarrow> Err (Parse Incoming reason)
           | Ok incoming_value \<Rightarrow>
               (case merge_value spec [] base_value incoming_value of
                  Err e \<Rightarrow> Err e
                | Ok merged \<Rightarrow>
                    (case to_string_pretty merged of
                       Err reason \<Rightarrow> Err (Parse Incoming reason)
                     | Ok text \<Rightarrow> Ok (text @ [NEWLINE])))))"

section \<open>What a document says\<close>

text \<open>
  The facts of a document: which keys an object has, which items an array has, which scalar stands
  where. \<open>null\<close> says nothing, as the merge takes it. The order and multiplicity of array items are
  not facts; they are kept by \<open>merge_value\<close> except where an array is merged as a set.
\<close>

datatype 'n fact =
    FObject | FKey string | FArray | FItem "'n json" | FScalar "'n json"

fun facts :: "'n json \<Rightarrow> (string list \<times> 'n fact) set"
and entry_facts :: "(string \<times> 'n json) list \<Rightarrow> (string list \<times> 'n fact) set" where
  "facts JNull = {}"
| "facts (JBool b) = {([], FScalar (JBool b))}"
| "facts (JNumber n) = {([], FScalar (JNumber n))}"
| "facts (JString s) = {([], FScalar (JString s))}"
| "facts (JArray xs) = insert ([], FArray) ((\<lambda>x. ([], FItem x)) ` set xs)"
| "facts (JObject m) = insert ([], FObject) (entry_facts m)"
| "entry_facts [] = {}"
| "entry_facts ((k, v) # m) = insert ([], FKey k) ((\<lambda>(p, f). (k # p, f)) ` facts v \<union> entry_facts m)"

text \<open>Well-formed documents: every object is a tree of the prelude.\<close>

fun json_ok :: "'n json \<Rightarrow> bool" and entries_ok :: "(string \<times> 'n json) list \<Rightarrow> bool" where
  "json_ok (JObject m) \<longleftrightarrow> bt_inv m \<and> entries_ok m"
| "json_ok _ \<longleftrightarrow> True"
| "entries_ok [] \<longleftrightarrow> True"
| "entries_ok ((k, v) # m) \<longleftrightarrow> json_ok v \<and> entries_ok m"

definition at_key :: "string \<Rightarrow> 'n json \<Rightarrow> (string list \<times> 'n fact) set" where
  "at_key k v = insert ([], FKey k) ((\<lambda>(p, f). (k # p, f)) ` facts v)"

lemma entry_facts_iff: "entry_facts m = (\<Union>(k, v) \<in> set m. at_key k v)"
proof (induction m)
  case (Cons x m)
  obtain k v where "x = (k, v)" by force
  with Cons show ?case by (simp add: at_key_def)
qed simp

lemma entries_ok_iff: "entries_ok m \<longleftrightarrow> (\<forall>(k, v) \<in> set m. json_ok v)"
  by (induction m) auto

lemma entry_facts_insert_new:
  assumes "bt_inv m" and "bt_get m k = None"
  shows "entry_facts (bt_insert k v m) = entry_facts m \<union> at_key k v"
proof -
  have "{x \<in> set m. fst x \<noteq> k} = set m"
    using assms(2) by (force simp: bt_get_None_iff bt_keys_def)
  then show ?thesis by (auto simp: entry_facts_iff set_bt_insert [OF assms(1)])
qed

lemma entry_facts_update:
  assumes "bt_inv m" and "bt_get m k = Some w" and "facts v = facts w \<union> facts x"
  shows "entry_facts (bt_insert k v m) = entry_facts m \<union> at_key k x"
proof -
  let ?R = "\<Union>(k, v) \<in> {x \<in> set m. fst x \<noteq> k}. at_key k v"
  have "set m = insert (k, w) {x \<in> set m. fst x \<noteq> k}"
    using assms(1,2) by (auto simp flip: bt_get_eq_set)
  then have "entry_facts m = at_key k w \<union> ?R"
    unfolding entry_facts_iff by (metis (no_types, lifting) UN_insert case_prod_conv)
  moreover have "entry_facts (bt_insert k v m) = at_key k v \<union> ?R"
    unfolding entry_facts_iff set_bt_insert [OF assms(1)] by simp
  moreover have "at_key k v = at_key k w \<union> at_key k x"
    by (simp add: at_key_def assms(3) image_Un insert_commute)
  ultimately show ?thesis by auto
qed

lemma entries_ok_insert:
  "bt_inv m \<Longrightarrow> entries_ok m \<Longrightarrow> json_ok v \<Longrightarrow> entries_ok (bt_insert k v m)"
  by (auto simp: entries_ok_iff set_bt_insert)

lemma set_push_new: "set (push_new xs ys) = set xs \<union> set ys"
  unfolding push_new_def by (induction ys arbitrary: xs) auto

lemma push_new_prefix: "prefix xs (push_new xs ys)"
proof (induction ys arbitrary: xs)
  case (Cons y ys)
  have "prefix xs (push_new (xs @ [y]) ys)"
    using Cons [of "xs @ [y]"] by (auto simp: prefix_def)
  with Cons show ?case by (simp add: push_new_def)
qed (simp add: push_new_def)

lemma push_new_known: "set ys \<subseteq> set xs \<Longrightarrow> push_new xs ys = xs"
  unfolding push_new_def by (induction ys) auto

lemma merge_facts:
  fixes a b v :: "'n json" and m es m' :: "(string \<times> 'n json) list"
  shows "merge_value spec path a b = Ok v \<Longrightarrow> json_ok a \<Longrightarrow> json_ok b \<Longrightarrow>
     json_ok v \<and> facts v = facts a \<union> facts b"
  "merge_entries spec path m es = Ok m' \<Longrightarrow> bt_inv m \<Longrightarrow> entries_ok m \<Longrightarrow> entries_ok es \<Longrightarrow>
     bt_inv m' \<and> entries_ok m' \<and> entry_facts m' = entry_facts m \<union> entry_facts es"
proof (induction spec path a b and spec path m es arbitrary: v and m' rule: merge_value_merge_entries.induct)
  case (1 spec path base incoming)
  show ?case
  proof (cases "\<exists>m n. base = JObject m \<and> incoming = JObject n")
    case True
    with 1 show ?thesis by (auto simp: merge_value.simps split: sum.splits)
  next
    case False
    with 1(2-) show ?thesis
      by (cases base; cases incoming)
        (auto simp: merge_value.simps set_push_new image_Un split: if_splits)
  qed
next
  case (3 spec path merged key iv rest)
  show ?case
  proof (cases "bt_get merged key")
    case None
    with 3 show ?thesis
      by (auto simp: btree_simps entries_ok_insert entry_facts_insert_new at_key_def)
  next
    case (Some bv)
    then obtain x where x: "merge_value spec (child_path path key) bv iv = Ok x"
      "merge_entries spec path (bt_insert key x merged) rest = Ok m'"
      using 3(4) by (auto split: sum.splits)
    have "json_ok bv" "json_ok iv" "entries_ok rest"
      using Some 3 by (auto simp: entries_ok_iff dest!: bt_get_in_set)
    then have "json_ok x" "facts x = facts bv \<union> facts iv" using 3(2) [OF Some x(1)] by auto
    then have "bt_inv m' \<and> entries_ok m' \<and> entry_facts m' = entry_facts (bt_insert key x merged) \<union> entry_facts rest"
      "entry_facts (bt_insert key x merged) = entry_facts merged \<union> at_key key iv"
      using 3(3) [OF Some x(1) x(2)] 3(5,6) \<open>entries_ok rest\<close> entry_facts_update [OF 3(5) Some]
      by (auto simp: btree_simps entries_ok_insert)
    then show ?thesis by (auto simp: at_key_def)
  qed
qed auto

section \<open>Lookups\<close>

fun value_at :: "'n json \<Rightarrow> string list \<Rightarrow> 'n json option" where
  "value_at v [] = Some v"
| "value_at (JObject m) (k # ks) = (case bt_get m k of None \<Rightarrow> None | Some w \<Rightarrow> value_at w ks)"
| "value_at _ (k # ks) = None"

definition dotted :: "string \<Rightarrow> string list \<Rightarrow> string" where
  "dotted path ks = foldl child_path path ks"

lemma bt_inv_tail: "bt_inv ((k, v) # es) \<Longrightarrow> bt_inv es \<and> k \<notin> set (bt_keys es)"
  by (auto simp: bt_inv_Cons)

text \<open>
  The entries of the incoming object are merged independently: what the loop finds under a key is
  what the base had there.
\<close>

definition merged_at where
  "merged_at spec path m es m' k = (case bt_get es k of
      None \<Rightarrow> bt_get m' k = bt_get m k
    | Some iv \<Rightarrow> (case bt_get m k of
          None \<Rightarrow> bt_get m' k = Some iv
        | Some bv \<Rightarrow> \<exists>x. merge_value spec (child_path path k) bv iv = Ok x \<and> bt_get m' k = Some x))"

lemma merged_at_cong:
  "bt_get es k = bt_get es' k \<Longrightarrow> bt_get m k = bt_get n k \<Longrightarrow>
     merged_at spec path m es m' k = merged_at spec path n es' m' k"
  by (simp add: merged_at_def split: option.split)

lemma merge_entries_Ok_iff:
  assumes "bt_inv m" and "bt_inv es"
  shows "merge_entries spec path m es = Ok m' \<longleftrightarrow> bt_inv m' \<and> (\<forall>k. merged_at spec path m es m' k)"
  using assms
proof (induction es arbitrary: m)
  case Nil
  then show ?case by (auto simp: merged_at_def intro: bt_ext)
next
  case (Cons e es)
  obtain key iv where e: "e = (key, iv)" by force
  have es: "bt_inv es" "bt_get es key = None"
    using Cons.prems e by (auto simp: bt_get_None_iff bt_inv_Cons)
  have step: "merge_entries spec path (bt_insert key x m) es = Ok m' \<longleftrightarrow>
      bt_inv m' \<and> bt_get m' key = Some x \<and> (\<forall>k. k \<noteq> key \<longrightarrow> merged_at spec path m (e # es) m' k)" for x
  proof -
    let ?n = "bt_insert key x m"
    have "merge_entries spec path ?n es = Ok m' \<longleftrightarrow> bt_inv m' \<and> (\<forall>k. merged_at spec path ?n es m' k)"
      using Cons.IH [of ?n] Cons.prems es(1) by (simp add: btree_simps)
    moreover have "merged_at spec path ?n es m' key \<longleftrightarrow> bt_get m' key = Some x"
      using Cons.prems(1) es(2) by (simp add: merged_at_def bt_get_insert)
    moreover have "merged_at spec path ?n es m' k = merged_at spec path m (e # es) m' k" if "k \<noteq> key" for k
      using that Cons.prems(1) e by (intro merged_at_cong) (simp_all add: btree_simps)
    ultimately show ?thesis by metis
  qed
  have all: "(\<forall>k. merged_at spec path m (e # es) m' k) \<longleftrightarrow> merged_at spec path m (e # es) m' key \<and>
      (\<forall>k. k \<noteq> key \<longrightarrow> merged_at spec path m (e # es) m' k)" by metis
  show ?case
  proof (cases "bt_get m key")
    case None
    then have "merged_at spec path m (e # es) m' key \<longleftrightarrow> bt_get m' key = Some iv"
      by (simp add: merged_at_def e)
    with None step [of iv] show ?thesis unfolding all by (simp add: e)
  next
    case (Some bv)
    then have "merged_at spec path m (e # es) m' key \<longleftrightarrow>
        (\<exists>x. merge_value spec (child_path path key) bv iv = Ok x \<and> bt_get m' key = Some x)"
      by (simp add: merged_at_def e)
    with Some step show ?thesis unfolding all
      by (cases "merge_value spec (child_path path key) bv iv") (simp_all add: e)
  qed
qed

text \<open>A refusal comes from one key that both objects have.\<close>

lemma merge_entries_Err:
  assumes "merge_entries spec path m es = Err e" and "bt_inv m" and "bt_inv es"
  shows "\<exists>k bv iv. bt_get m k = Some bv \<and> bt_get es k = Some iv \<and>
     merge_value spec (child_path path k) bv iv = Err e"
  using assms
proof (induction es arbitrary: m)
  case (Cons x es)
  obtain key iv where x: "x = (key, iv)" by force
  have es: "bt_inv es" "bt_get es key = None"
    using Cons.prems x by (auto simp: bt_get_None_iff bt_inv_Cons)
  have rest: ?case if err: "merge_entries spec path (bt_insert key y m) es = Err e" for y
  proof -
    obtain k bv jv where k: "bt_get (bt_insert key y m) k = Some bv" "bt_get es k = Some jv"
      "merge_value spec (child_path path k) bv jv = Err e"
      using Cons.IH [OF err bt_inv_insert [OF Cons.prems(2)] es(1)] by blast
    then have "k \<noteq> key" using es(2) by auto
    with k Cons.prems(2) x show ?thesis by (auto simp: bt_get_insert)
  qed
  show ?case
  proof (cases "bt_get m key")
    case None
    then show ?thesis using rest Cons.prems(1) x by simp
  next
    case (Some bv)
    then show ?thesis
      using rest Cons.prems(1) x by (cases "merge_value spec (child_path path key) bv iv") auto
  qed
qed simp

lemma size_bt_get: "bt_get m k = Some v \<Longrightarrow> size v < size (JObject m)"
proof -
  assume "bt_get m k = Some v"
  then have "(k, v) \<in> set m" by (rule bt_get_in_set)
  then have "size_prod (\<lambda>_. 0) size (k, v) \<le> size_list (size_prod (\<lambda>_. 0) size) m"
    by (rule size_list_estimation') simp
  then show ?thesis by simp
qed

lemma json_ok_get: "json_ok (JObject m) \<Longrightarrow> bt_get m k = Some v \<Longrightarrow> json_ok v"
  by (auto simp: entries_ok_iff dest!: bt_get_in_set)

lemma merge_value_object:
  "merge_value spec path (JObject m) (JObject n) =
     (case merge_entries spec path m n of Err e \<Rightarrow> Err e | Ok x \<Rightarrow> Ok (JObject x))"
  by (simp add: merge_value.simps)

lemma merge_value_object_Ok:
  assumes "json_ok (JObject m)" and "json_ok (JObject n)"
  shows "merge_value spec path (JObject m) (JObject n) = Ok v \<longleftrightarrow>
     (\<exists>m'. v = JObject m' \<and> bt_inv m' \<and> (\<forall>k. merged_at spec path m n m' k))"
proof -
  have "merge_value spec path (JObject m) (JObject n) = Ok v \<longleftrightarrow>
      (\<exists>m'. v = JObject m' \<and> merge_entries spec path m n = Ok m')"
    by (auto simp: merge_value_object split: sum.splits)
  then show ?thesis using assms merge_entries_Ok_iff [of m n spec path] by simp
qed

lemma merge_value_flat:
  "\<not> (\<exists>m. a = JObject m) \<Longrightarrow> merge_value spec path a a = Ok a"
  by (cases a) (auto simp: merge_value.simps push_new_known)

lemma merge_idem: "json_ok a \<Longrightarrow> merge_value spec path a a = Ok a"
proof (induction a arbitrary: path rule: measure_induct_rule [of size])
  case (less a)
  show ?case
  proof (cases "\<exists>m. a = JObject m")
    case True
    then obtain m where a: "a = JObject m" by blast
    have "merge_value spec (child_path path k) v v = Ok v" if "bt_get m k = Some v" for k v
      using less a that size_bt_get json_ok_get by metis
    then have "merged_at spec path m m m k" for k
      by (auto simp: merged_at_def split: option.splits)
    then show ?thesis using less.prems a merge_value_object_Ok [of m m] by auto
  qed (rule merge_value_flat)
qed

lemma merge_redelivery:
  "json_ok a \<Longrightarrow> json_ok b \<Longrightarrow> merge_value spec path a b = Ok v \<Longrightarrow> merge_value spec path v b = Ok v"
proof (induction b arbitrary: a v path rule: measure_induct_rule [of size])
  case (less b)
  show ?case
  proof (cases "\<exists>m n. a = JObject m \<and> b = JObject n")
    case True
    then obtain m n where ab: "a = JObject m" "b = JObject n" by blast
    then obtain m' where v: "v = JObject m'" "bt_inv m'" "\<And>k. merged_at spec path m n m' k"
      using less.prems merge_value_object_Ok by metis
    have "merged_at spec path m' n m' k" for k
    proof (cases "bt_get n k")
      case (Some iv)
      have iv: "json_ok iv" "size iv < size b" using Some less.prems ab size_bt_get json_ok_get by metis+
      show ?thesis
      proof (cases "bt_get m k")
        case None
        then have "bt_get m' k = Some iv" using v(3) [of k] Some by (simp add: merged_at_def)
        then show ?thesis using Some merge_idem [OF iv(1)] by (simp add: merged_at_def)
      next
        case bv: (Some bv)
        then obtain x where x: "merge_value spec (child_path path k) bv iv = Ok x" "bt_get m' k = Some x"
          using v(3) [of k] Some by (auto simp: merged_at_def)
        have "json_ok bv" using bv less.prems ab json_ok_get by metis
        then show ?thesis using less.IH [OF iv(2) _ iv(1) x(1)] Some x(2) by (simp add: merged_at_def)
      qed
    qed (simp add: merged_at_def)
    moreover have "json_ok v" using merge_facts(1) [OF less.prems(3,1,2)] by blast
    ultimately show ?thesis
      using ab v(1,2) less.prems merge_value_object_Ok [of m' n spec path v] by auto
  next
    case False
    have "merge_value spec path b b = Ok b" using less.prems merge_idem by blast
    with False less.prems(3) show ?thesis
      by (cases a; cases b) (auto simp: merge_value.simps set_push_new push_new_known split: if_splits)
  qed
qed

lemma merge_refusal_place:
  "json_ok a \<Longrightarrow> json_ok b \<Longrightarrow> merge_value spec path a b = Err e \<Longrightarrow>
     \<exists>ks x y. value_at a ks = Some x \<and> value_at b ks = Some y \<and> x \<noteq> y \<and> x \<noteq> JNull \<and> y \<noteq> JNull \<and>
       e = (if same_kind x y then Conflict (dotted path ks) else Shape (dotted path ks))"
proof (induction a arbitrary: b path rule: measure_induct_rule [of size])
  case (less a)
  show ?case
  proof (cases "\<exists>m n. a = JObject m \<and> b = JObject n")
    case True
    then obtain m n where ab: "a = JObject m" "b = JObject n" by blast
    then have "merge_entries spec path m n = Err e"
      using less.prems(3) by (auto simp: merge_value_object split: sum.splits)
    then obtain k bv iv where k: "bt_get m k = Some bv" "bt_get n k = Some iv"
      "merge_value spec (child_path path k) bv iv = Err e"
      using merge_entries_Err less.prems ab by (metis json_ok.simps(1))
    moreover have "size bv < size a" "json_ok bv" "json_ok iv"
      using k less.prems ab size_bt_get json_ok_get by metis+
    ultimately obtain ks x y where "value_at bv ks = Some x" "value_at iv ks = Some y"
      "x \<noteq> y" "x \<noteq> JNull" "y \<noteq> JNull"
      "e = (if same_kind x y then Conflict (dotted (child_path path k) ks)
            else Shape (dotted (child_path path k) ks))"
      using less.IH by blast
    with k ab show ?thesis
      by (intro exI [of _ "k # ks"] exI [of _ x] exI [of _ y]) (simp add: dotted_def)
  next
    case False
    with less.prems(3) have "a \<noteq> b \<and> a \<noteq> JNull \<and> b \<noteq> JNull \<and>
        e = (if same_kind a b then Conflict path else Shape path)"
      by (cases a; cases b) (auto simp: merge_value.simps same_kind_def split: if_splits)
    then show ?thesis
      by (intro exI [of _ "[]"] exI [of _ a] exI [of _ b]) (simp add: dotted_def)
  qed
qed

lemma merge_Ok_sym:
  "json_ok a \<Longrightarrow> json_ok b \<Longrightarrow> is_ok (merge_value spec path a b) \<Longrightarrow> is_ok (merge_value spec path b a)"
proof (induction a arbitrary: b path rule: measure_induct_rule [of size])
  case (less a)
  show ?case
  proof (cases "\<exists>m n. a = JObject m \<and> b = JObject n")
    case True
    then obtain m n where ab: "a = JObject m" "b = JObject n" by blast
    obtain v where "merge_value spec path a b = Ok v" using less.prems(3) by (auto simp: is_ok_iff)
    then obtain m' where m': "\<And>k. merged_at spec path m n m' k"
      using less.prems ab merge_value_object_Ok by metis
    show ?thesis
    proof (rule ccontr)
      assume "\<not> ?thesis"
      then obtain e where "merge_entries spec path n m = Err e"
        using ab by (auto simp: merge_value_object split: sum.splits)
      then obtain k bv iv where k: "bt_get n k = Some bv" "bt_get m k = Some iv"
        "merge_value spec (child_path path k) bv iv = Err e"
        using merge_entries_Err less.prems ab by (metis json_ok.simps(1))
      moreover have "is_ok (merge_value spec (child_path path k) iv bv)"
        using m' [of k] k by (auto simp: merged_at_def)
      moreover have "size iv < size a" "json_ok bv" "json_ok iv"
        using k less.prems ab size_bt_get json_ok_get by metis+
      ultimately show False using less.IH [of iv bv] by (metis is_ok_simps(2))
    qed
  next
    case False
    with less.prems(3) show ?thesis
      by (cases a; cases b) (auto simp: merge_value.simps same_kind_def split: if_splits)
  qed
qed

end
