(* ===== verification/Civil_Time.thy ===== *)
theory Civil_Time
  imports Arreo_Prelude
begin

text \<open>
  Calendar arithmetic: \<open>civil_from_days\<close> of \<open>crates/arreo-core/src/store.rs\<close> and of
  \<open>crates/arreo-core/src/sync/merge.rs\<close> (the same algorithm twice), and the two printed forms built
  on it, \<open>rfc3339_ms\<close> and \<open>compact_utc_ms\<close>. Every intermediate value of the code is far inside
  \<open>i64\<close> for the instants it is given, so the numbers are \<open>int\<close>; on the non-negative values divided
  here Rust's \<open>/\<close> is \<open>div\<close>, and \<open>div_euclid\<close>, \<open>rem_euclid\<close> by a positive number are \<open>div\<close>, \<open>mod\<close>.
\<close>

definition civil_from_days :: "int \<Rightarrow> int \<times> int \<times> int" where
  "civil_from_days days =
     (let z = days + 719468;
          era = z div 146097;
          doe = z mod 146097;
          yoe = (doe - doe div 1460 + doe div 36524 - doe div 146096) div 365;
          year = yoe + era * 400;
          doy = doe - (365 * yoe + yoe div 4 - yoe div 100);
          mp = (5 * doy + 2) div 153;
          day = doy - (153 * mp + 2) div 5 + 1;
          month = (if mp < 10 then mp + 3 else mp - 9)
      in (if month \<le> 2 then year + 1 else year, month, day))"

text \<open>\<open>{n:0w}\<close> of a signed number: the sign counts towards the width.\<close>

definition fmt_int :: "nat \<Rightarrow> int \<Rightarrow> string" where
  "fmt_int w n = (if n < 0 then ''-'' @ pad_zero (w - 1) (show_nat (nat (- n)))
     else pad_zero w (show_nat (nat n)))"

definition rfc3339_ms :: "int \<Rightarrow> string" where
  "rfc3339_ms ms =
     (let secs = ms div 1000; millis = ms mod 1000;
          days = secs div 86400; day_secs = secs mod 86400;
          (year, month, day) = civil_from_days days;
          hour = day_secs div 3600; minute = day_secs mod 3600 div 60; second = day_secs mod 60
      in fmt_int 4 year @ ''-'' @ fmt_int 2 month @ ''-'' @ fmt_int 2 day @ ''T'' @
         fmt_int 2 hour @ '':'' @ fmt_int 2 minute @ '':'' @ fmt_int 2 second @
         (if millis \<noteq> 0 then ''.'' @ fmt_int 3 millis else []) @ ''Z'')"

definition compact_utc_ms :: "u64 \<Rightarrow> string" where
  "compact_utc_ms ms =
     (let seconds = uint ms div 1000; days = seconds div 86400; rem = seconds mod 86400;
          (year, month, day) = civil_from_days days
      in fmt_int 4 year @ fmt_int 2 month @ fmt_int 2 day @ ''T'' @
         fmt_int 2 (rem div 3600) @ fmt_int 2 (rem mod 3600 div 60) @ fmt_int 2 (rem mod 60))"

section \<open>The calendar\<close>

text \<open>The proleptic Gregorian calendar, as a specification.\<close>

definition leap :: "int \<Rightarrow> bool" where
  "leap y \<longleftrightarrow> 4 dvd y \<and> (\<not> 100 dvd y \<or> 400 dvd y)"

definition month_length :: "int \<Rightarrow> int \<Rightarrow> int" where
  "month_length y m = (if m = 2 then if leap y then 29 else 28
     else if m \<in> {4, 6, 9, 11} then 30 else 31)"

definition valid_date :: "int \<times> int \<times> int \<Rightarrow> bool" where
  "valid_date = (\<lambda>(y, m, d). 1 \<le> m \<and> m \<le> 12 \<and> 1 \<le> d \<and> d \<le> month_length y m)"

text \<open>Days from 1970-01-01 to a date: whole years since the March before, whole months, days.\<close>

definition days_from_civil :: "int \<times> int \<times> int \<Rightarrow> int" where
  "days_from_civil = (\<lambda>(y, m, d).
     let Y = (if m \<le> 2 then y - 1 else y); mp = (if m \<le> 2 then m + 9 else m - 3)
     in 365 * Y + Y div 4 - Y div 100 + Y div 400 + (153 * mp + 2) div 5 + d - 1 - 719468)"

definition year_of_era :: "int \<Rightarrow> int" where
  "year_of_era doe = (doe - doe div 1460 + doe div 36524 - doe div 146096) div 365"

definition day_of_year :: "int \<Rightarrow> int" where
  "day_of_year doe = doe - (365 * year_of_era doe + year_of_era doe div 4 - year_of_era doe div 100)"

lemma div_eqI: "k * n \<le> m \<Longrightarrow> m < k * n + k \<Longrightarrow> 0 < k \<Longrightarrow> (m :: int) div k = n"
  by (rule int_div_pos_eq [where r = "m - k * n"]) auto

text \<open>Inside one century: the year and the day in it, with all quantities as linear terms.\<close>

lemma century_bounds:
  fixes c r :: int
  assumes "0 \<le> c" "c \<le> 3" "0 \<le> r" "r < 36524"
  defines "t \<equiv> (24 * c + r) div 1460"
  defines "s \<equiv> (r - t) div 365"
  shows "0 \<le> s" "s \<le> 99" "0 \<le> r - 365 * s - s div 4" "r - 365 * s - s div 4 \<le> 365"
    "r - 365 * s - s div 4 = 365 \<Longrightarrow> s mod 4 = 3 \<and> s \<noteq> 99"
proof -
  define g h where "g = s div 4" and "h = s mod 4"
  have gh: "s = 4 * g + h" "0 \<le> h" "h \<le> 3" by (simp_all add: g_def h_def)
  have t: "1460 * t \<le> 24 * c + r" "24 * c + r < 1460 * t + 1460" unfolding t_def by simp_all
  have s: "365 * s \<le> r - t" "r - t < 365 * s + 365" unfolding s_def by simp_all
  have "0 \<le> t" "t \<le> 25" using t assms by linarith+
  show "0 \<le> s" using s t \<open>0 \<le> t\<close> assms by linarith
  then have g: "0 \<le> g" by (simp add: g_def)
  have "g \<le> t" using s t gh assms \<open>0 \<le> t\<close> by linarith
  have "t \<le> g + 1" using s t gh assms \<open>t \<le> 25\<close> by linarith
  show "s \<le> 99" using s t assms \<open>t \<le> 25\<close> \<open>0 \<le> t\<close> by linarith
  have sg: "s div 4 = g" by (simp add: g_def)
  show "0 \<le> r - 365 * s - s div 4" unfolding sg using \<open>g \<le> t\<close> s by linarith
  show "r - 365 * s - s div 4 \<le> 365" unfolding sg using \<open>t \<le> g + 1\<close> s by linarith
  assume "r - 365 * s - s div 4 = 365"
  then have r: "r = 1461 * g + 365 * h + 365" unfolding sg using gh(1) by linarith
  then have "t = g + 1" using s gh \<open>t \<le> g + 1\<close> by linarith
  then have "h = 3" using r t gh g assms(1,2) \<open>t \<le> 25\<close> by linarith
  moreover have "s \<noteq> 99" using r gh(1) assms(4) \<open>h = 3\<close> by linarith
  ultimately show "s mod 4 = 3 \<and> s \<noteq> 99" by (simp add: h_def)
qed

lemma year_of_century:
  fixes c r :: int
  assumes "0 \<le> c" "c \<le> 3" "0 \<le> r" "r < 36524"
  defines "s \<equiv> (r - (24 * c + r) div 1460) div 365"
  shows "year_of_era (36524 * c + r) = 100 * c + s"
    and "day_of_year (36524 * c + r) = r - 365 * s - s div 4"
proof -
  have "(36524 * c + r) div 36524 = c" using assms by (intro div_eqI) auto
  moreover have "(36524 * c + r) div 146096 = 0" using assms by simp
  moreover have "(36524 * c + r) div 1460 = 25 * c + (24 * c + r) div 1460"
  proof -
    have "36524 * c + r = (24 * c + r) + 25 * c * 1460" by simp
    then show ?thesis by (simp only: div_mult_self1)
  qed
  moreover have "36524 * c + r - (25 * c + (24 * c + r) div 1460) + c - 0 =
      (r - (24 * c + r) div 1460) + 100 * c * 365" by simp
  ultimately show y: "year_of_era (36524 * c + r) = 100 * c + s"
    unfolding year_of_era_def s_def by (simp only: div_mult_self1)
  have "(100 * c + s) div 4 = 25 * c + s div 4" "(100 * c + s) div 100 = c"
  proof -
    have "100 * c + s = s + 25 * c * 4" by simp
    then show "(100 * c + s) div 4 = 25 * c + s div 4" by (simp only: div_mult_self1)
    show "(100 * c + s) div 100 = c"
      using century_bounds(1,2) [OF assms(1-4)] by (intro div_eqI) (simp_all add: s_def)
  qed
  then show "day_of_year (36524 * c + r) = r - 365 * s - s div 4"
    unfolding day_of_year_def y by simp
qed

text \<open>A day of the era is the last one, or lies in one of the four centuries.\<close>

lemma era_cases:
  fixes doe :: int
  assumes "0 \<le> doe" "doe < 146097"
  obtains "doe = 146096" | c r where "doe = 36524 * c + r" "0 \<le> c" "c \<le> 3" "0 \<le> r" "r < 36524"
proof (cases "doe = 146096")
  case False
  have "doe = 36524 * (doe div 36524) + doe mod 36524" by simp
  moreover have "0 \<le> doe div 36524" "doe div 36524 \<le> 3" "0 \<le> doe mod 36524" "doe mod 36524 < 36524"
    using assms False by auto
  ultimately show ?thesis using that(2) by blast
qed (use that in blast)

lemma leap_in_century:
  assumes "s mod 4 = 3" "s \<noteq> 99" "0 \<le> s" "s \<le> 99"
  shows "leap (100 * c + s + 1)"
proof -
  have "4 dvd 100 * c + s + 1" using assms(1) by presburger
  moreover have "\<not> 100 dvd 100 * c + s + 1"
  proof
    assume "100 dvd 100 * c + s + 1"
    then have "100 dvd s + 1"
      using dvd_add_right_iff [of 100 "100 * c" "s + 1"] by (simp add: add.assoc)
    then show False using zdvd_not_zless [of "s + 1" 100] assms(2-4) by linarith
  qed
  ultimately show ?thesis by (simp add: leap_def)
qed

lemma era_bounds:
  assumes "0 \<le> doe" "doe < 146097"
  shows "0 \<le> year_of_era doe" "year_of_era doe \<le> 399" "0 \<le> day_of_year doe" "day_of_year doe \<le> 365"
    "day_of_year doe = 365 \<Longrightarrow> leap (year_of_era doe + 1)"
proof -
  let ?P = "0 \<le> year_of_era doe \<and> year_of_era doe \<le> 399 \<and> 0 \<le> day_of_year doe \<and>
     day_of_year doe \<le> 365 \<and> (day_of_year doe = 365 \<longrightarrow> leap (year_of_era doe + 1))"
  have ?P
  proof (cases rule: era_cases [OF assms])
    case 1
    then show ?thesis by (simp add: day_of_year_def year_of_era_def leap_def)
  next
    case (2 c r)
    define s where "s = (r - (24 * c + r) div 1460) div 365"
    note b = century_bounds [OF 2(2-5), folded s_def]
    have yd: "year_of_era doe = 100 * c + s" "day_of_year doe = r - 365 * s - s div 4"
      using year_of_century [OF 2(2-5)] by (simp_all add: s_def 2(1))
    have "leap (100 * c + s + 1)" if "s mod 4 = 3" "s \<noteq> 99" "0 \<le> s" "s \<le> 99" for s
      using leap_in_century [of s c] that by simp
    then have "day_of_year doe = 365 \<longrightarrow> leap (year_of_era doe + 1)"
      unfolding yd using b by blast
    moreover have "0 \<le> 100 * c + s" "100 * c + s \<le> 399" using b(1,2) 2(2,3) by linarith+
    ultimately show ?thesis unfolding yd using b(3,4) by blast
  qed
  then show "0 \<le> year_of_era doe" "year_of_era doe \<le> 399" "0 \<le> day_of_year doe" "day_of_year doe \<le> 365"
    "day_of_year doe = 365 \<Longrightarrow> leap (year_of_era doe + 1)" by blast+
qed

lemma civil_from_days_eq:
  "civil_from_days days =
     (let z = days + 719468; era = z div 146097; doe = z mod 146097; doy = day_of_year doe;
          mp = (5 * doy + 2) div 153; year = year_of_era doe + era * 400;
          month = (if mp < 10 then mp + 3 else mp - 9)
      in (if month \<le> 2 then year + 1 else year, month, doy - (153 * mp + 2) div 5 + 1))"
  by (simp only: civil_from_days_def day_of_year_def year_of_era_def Let_def)

lemma month_days:
  fixes doy mp :: int
  assumes "153 * mp \<le> 5 * doy + 2" "5 * doy + 2 < 153 * mp + 153" "0 \<le> doy" "doy \<le> 365"
  defines "d \<equiv> doy - (153 * mp + 2) div 5 + 1"
  shows "0 \<le> mp \<and> mp \<le> 11 \<and> 1 \<le> d \<and> d \<le> 31 \<and> (mp \<in> {1, 3, 6, 8} \<longrightarrow> d \<le> 30) \<and>
     (mp = 11 \<longrightarrow> d \<le> 29 \<and> (d = 29 \<longrightarrow> doy = 365))"
proof -
  have "0 \<le> mp" "mp \<le> 11" using assms(1-4) by linarith+
  then have "mp = 0 \<or> mp = 1 \<or> mp = 2 \<or> mp = 3 \<or> mp = 4 \<or> mp = 5 \<or> mp = 6 \<or> mp = 7
      \<or> mp = 8 \<or> mp = 9 \<or> mp = 10 \<or> mp = 11" by presburger
  then show ?thesis using assms(1-4) unfolding d_def by (elim disjE; hypsubst; simp)
qed

lemma leap_era: "leap (y + era * 400) = leap y"
proof -
  have "4 dvd era * 400" "100 dvd era * 400" "400 dvd era * 400" by (intro dvd_mult; simp)+
  note this [THEN dvd_add_left_iff]
  then show ?thesis by (simp add: leap_def)
qed

lemma civil_parts:
  obtains y doy mp era where
    "days + 719468 = 146097 * era + 365 * y + y div 4 - y div 100 + doy" "0 \<le> y" "y \<le> 399"
    "0 \<le> doy" "doy \<le> 365" "doy = 365 \<longrightarrow> leap (y + 1)"
    "153 * mp \<le> 5 * doy + 2" "5 * doy + 2 < 153 * mp + 153"
    "civil_from_days days =
      (if mp < 10 then (y + era * 400, mp + 3, doy - (153 * mp + 2) div 5 + 1)
       else (y + 1 + era * 400, mp - 9, doy - (153 * mp + 2) div 5 + 1))"
proof -
  define doe era where "doe = (days + 719468) mod 146097" and "era = (days + 719468) div 146097"
  define y doy where "y = year_of_era doe" and "doy = day_of_year doe"
  define mp where "mp = (5 * doy + 2) div 153"
  have z: "days + 719468 = 146097 * era + doe" by (simp add: doe_def era_def)
  have "0 \<le> doe" "doe < 146097" by (simp_all add: doe_def)
  note e = era_bounds [OF this, folded doy_def y_def]
  have mp: "153 * mp \<le> 5 * doy + 2" "5 * doy + 2 < 153 * mp + 153" unfolding mp_def by simp_all
  have "0 \<le> mp" "mp \<le> 11" using month_days [OF mp e(3,4)] by blast+
  then have "civil_from_days days =
      (if mp < 10 then (y + era * 400, mp + 3, doy - (153 * mp + 2) div 5 + 1)
       else (y + 1 + era * 400, mp - 9, doy - (153 * mp + 2) div 5 + 1))"
    unfolding civil_from_days_eq Let_def doe_def [symmetric] era_def [symmetric] doy_def [symmetric]
      mp_def [symmetric] y_def [symmetric] by auto
  moreover have "doe = 365 * y + y div 4 - y div 100 + doy"
    by (simp add: doy_def y_def day_of_year_def)
  ultimately show ?thesis using that [of era y doy mp] z e mp by simp
qed

lemma civil_from_days_valid: "valid_date (civil_from_days days)"
proof -
  obtain y doy mp era where e: "0 \<le> doy" "doy \<le> 365" "doy = 365 \<longrightarrow> leap (y + 1)"
    and mp: "153 * mp \<le> 5 * doy + 2" "5 * doy + 2 < 153 * mp + 153"
    and civ: "civil_from_days days =
      (if mp < 10 then (y + era * 400, mp + 3, doy - (153 * mp + 2) div 5 + 1)
       else (y + 1 + era * 400, mp - 9, doy - (153 * mp + 2) div 5 + 1))"
    by (rule civil_parts [of days])
  define d where "d = doy - (153 * mp + 2) div 5 + 1"
  have b: "0 \<le> mp" "mp \<le> 11" "1 \<le> d" "d \<le> 31" "mp \<in> {1, 3, 6, 8} \<longrightarrow> d \<le> 30"
    "mp = 11 \<longrightarrow> d \<le> 29 \<and> (d = 29 \<longrightarrow> leap (y + 1))"
    using month_days [OF mp e(1,2)] e(3) by (auto simp: d_def)
  show ?thesis
  proof (cases "mp < 10")
    case True
    then show ?thesis
      using b unfolding civ d_def [symmetric] valid_date_def month_length_def by simp
  next
    case False
    then have "mp = 10 \<or> mp = 11" using b(2) by linarith
    then show ?thesis
      using b unfolding civ d_def [symmetric] valid_date_def month_length_def
      by (auto simp: leap_era)
  qed
qed

lemma days_from_civil_from_days: "days_from_civil (civil_from_days days) = days"
proof -
  obtain y doy mp era where
    z: "days + 719468 = 146097 * era + 365 * y + y div 4 - y div 100 + doy" and y: "0 \<le> y" "y \<le> 399"
    and e: "0 \<le> doy" "doy \<le> 365"
    and mp: "153 * mp \<le> 5 * doy + 2" "5 * doy + 2 < 153 * mp + 153"
    and civ: "civil_from_days days =
      (if mp < 10 then (y + era * 400, mp + 3, doy - (153 * mp + 2) div 5 + 1)
       else (y + 1 + era * 400, mp - 9, doy - (153 * mp + 2) div 5 + 1))"
    by (rule civil_parts [of days])
  have mp': "0 \<le> mp" "mp \<le> 11" using month_days [OF mp e] by blast+
  define Y q where "Y = y + era * 400" and "q = (153 * mp + 2) div 5"
  have Yd: "Y div 400 = era" "Y div 100 = y div 100 + 4 * era" "Y div 4 = y div 4 + 100 * era"
    unfolding Y_def using y by simp_all
  have F: "365 * Y + Y div 4 - Y div 100 + Y div 400 = days + 719468 - doy"
    unfolding Yd using z Y_def by linarith
  have civ': "civil_from_days days =
      (if mp < 10 then (Y, mp + 3, doy - q + 1) else (Y + 1, mp - 9, doy - q + 1))"
    unfolding civ Y_def q_def by (simp only: ac_simps)
  have "days_from_civil (civil_from_days days) =
      365 * Y + Y div 4 - Y div 100 + Y div 400 + q + (doy - q + 1) - 1 - 719468"
  proof (cases "mp < 10")
    case True
    then have "\<not> mp + 3 \<le> 2" using mp'(1) by linarith
    then show ?thesis unfolding civ' days_from_civil_def q_def Let_def using True by simp
  next
    case False
    then have "mp - 9 \<le> 2" using mp'(2) by linarith
    then show ?thesis unfolding civ' days_from_civil_def q_def Let_def using False by simp
  qed
  then show ?thesis using F by linarith
qed

lemma civil_inject: "civil_from_days x = civil_from_days y \<Longrightarrow> x = y"
  by (metis days_from_civil_from_days)

lemma civil_year_nonneg:
  assumes "0 \<le> days"
  shows "0 \<le> fst (civil_from_days days)"
proof -
  obtain y doy mp era where
    z: "days + 719468 = 146097 * era + 365 * y + y div 4 - y div 100 + doy" and y: "0 \<le> y" "y \<le> 399"
    and e: "doy \<le> 365"
    and civ: "civil_from_days days =
      (if mp < 10 then (y + era * 400, mp + 3, doy - (153 * mp + 2) div 5 + 1)
       else (y + 1 + era * 400, mp - 9, doy - (153 * mp + 2) div 5 + 1))"
    by (rule civil_parts [of days])
  have "y div 4 \<le> 99" "0 \<le> y div 100" using y by linarith+
  then have "0 \<le> era" using z y e assms by linarith
  then show ?thesis using y unfolding civ by simp
qed

section \<open>Decimal text\<close>

definition digits_value :: "string \<Rightarrow> nat" where
  "digits_value s = foldl (\<lambda>a c. 10 * a + (chcode c - 48)) 0 s"

lemma digits_value_snoc: "digits_value (s @ [c]) = 10 * digits_value s + (chcode c - 48)"
  by (simp add: digits_value_def)

lemma digits_value_show: "digits_value (show_nat n) = n"
proof (induction n rule: show_nat.induct)
  case (1 n)
  show ?case
  proof (cases "n < 10")
    case True
    then show ?thesis by (simp add: show_nat.simps [of n] digits_value_def)
  next
    case False
    then have "digits_value (show_nat n) = 10 * digits_value (show_nat (n div 10)) + n mod 10"
      by (subst show_nat.simps) (simp add: digits_value_snoc)
    with 1 False show ?thesis by simp
  qed
qed

lemma digits_value_pad: "digits_value (pad_zero w s) = digits_value s"
proof -
  have "digits_value (replicate k (CHR ''0'') @ s) = digits_value s" for k
    by (induction k) (simp_all add: digits_value_def chcode_def)
  then show ?thesis by (simp add: pad_zero_def)
qed

lemma show_nat_digits: "c \<in> set (show_nat n) \<Longrightarrow> is_ascii_digit c"
proof (induction n rule: show_nat.induct)
  case (1 n)
  show ?case
  proof (cases "n < 10")
    case True
    with 1(2) show ?thesis by (simp add: show_nat.simps [of n] is_ascii_digit_def)
  next
    case False
    with 1 show ?thesis by (subst (asm) show_nat.simps [of n]) (auto simp: is_ascii_digit_def)
  qed
qed

lemma fmt_int_digits: "0 \<le> n \<Longrightarrow> c \<in> set (fmt_int w n) \<Longrightarrow> is_ascii_digit c"
  by (auto simp: fmt_int_def pad_zero_def dest: show_nat_digits split: if_splits)
    (simp add: is_ascii_digit_def chcode_def)

lemma fmt_int_value: "0 \<le> n \<Longrightarrow> int (digits_value (fmt_int w n)) = n"
  by (simp add: fmt_int_def digits_value_pad digits_value_show)

lemma fmt_int_inject: "fmt_int w m = fmt_int w n \<Longrightarrow> 0 \<le> m \<Longrightarrow> 0 \<le> n \<Longrightarrow> m = n"
  by (metis fmt_int_value)

lemma length_fmt_int_2: "0 \<le> n \<Longrightarrow> n < 100 \<Longrightarrow> length (fmt_int 2 n) = 2"
  by (cases "nat n < 10") (auto simp: fmt_int_def pad_zero_def show_nat.simps [of "nat n"]
      show_nat.simps [of "nat n div 10"])

lemma compact_parts:
  fixes ms :: u64
  obtains y m d h mi s where
    "compact_utc_ms ms = fmt_int 4 y @ fmt_int 2 m @ fmt_int 2 d @ ''T'' @
       fmt_int 2 h @ fmt_int 2 mi @ fmt_int 2 s"
    "civil_from_days (uint ms div 1000 div 86400) = (y, m, d)" "0 \<le> y"
    "0 \<le> m" "m < 100" "0 \<le> d" "d < 100" "0 \<le> h" "h < 100" "0 \<le> mi" "mi < 100" "0 \<le> s" "s < 100"
    "uint ms div 1000 mod 86400 = 3600 * h + 60 * mi + s"
proof -
  define days r where "days = uint ms div 1000 div 86400" and "r = uint ms div 1000 mod 86400"
  obtain y m d where ymd: "civil_from_days days = (y, m, d)" by (metis prod_cases3)
  have "0 \<le> days" by (simp add: days_def pos_imp_zdiv_nonneg_iff)
  then have y: "0 \<le> y" using civil_year_nonneg [of days] by (simp add: ymd)
  have md: "1 \<le> m" "m \<le> 12" "1 \<le> d" "d \<le> 31"
    using civil_from_days_valid [of days] by (auto simp: ymd valid_date_def month_length_def split: if_splits)
  have "0 \<le> r" "r < 86400" by (simp_all add: r_def)
  then have b: "0 \<le> r div 3600" "r div 3600 < 100" "0 \<le> r mod 3600 div 60" "r mod 3600 div 60 < 100"
    "0 \<le> r mod 60" "r mod 60 < 100" by (auto simp: pos_imp_zdiv_nonneg_iff)
  have "r mod 3600 mod 60 = r mod 60" by (rule mod_mod_cancel) simp
  then have sp: "r = 3600 * (r div 3600) + 60 * (r mod 3600 div 60) + r mod 60"
    using mult_div_mod_eq [of 3600 r] mult_div_mod_eq [of 60 "r mod 3600"] by linarith
  have c: "compact_utc_ms ms = fmt_int 4 y @ fmt_int 2 m @ fmt_int 2 d @ ''T'' @
      fmt_int 2 (r div 3600) @ fmt_int 2 (r mod 3600 div 60) @ fmt_int 2 (r mod 60)"
    unfolding compact_utc_ms_def Let_def days_def [symmetric] r_def [symmetric] ymd by simp
  show ?thesis
  proof (rule that [OF c ymd [unfolded days_def] y])
    show "uint ms div 1000 mod 86400 = 3600 * (r div 3600) + 60 * (r mod 3600 div 60) + r mod 60"
      using sp by (simp only: r_def [symmetric])
  qed (use md b in linarith)+
qed

lemma compact_inject:
  assumes "compact_utc_ms a = compact_utc_ms b"
  shows "uint a div 1000 = uint b div 1000"
proof (rule compact_parts [of a], rule compact_parts [of b])
  fix y m d h mi s y' m' d' h' mi' s'
  assume a: "compact_utc_ms a = fmt_int 4 y @ fmt_int 2 m @ fmt_int 2 d @ ''T'' @ fmt_int 2 h @ fmt_int 2 mi @ fmt_int 2 s"
    "civil_from_days (uint a div 1000 div 86400) = (y, m, d)" "0 \<le> y"
    "0 \<le> m" "m < 100" "0 \<le> d" "d < 100" "0 \<le> h" "h < 100" "0 \<le> mi" "mi < 100" "0 \<le> s" "s < 100"
    "uint a div 1000 mod 86400 = 3600 * h + 60 * mi + s"
    and b: "compact_utc_ms b = fmt_int 4 y' @ fmt_int 2 m' @ fmt_int 2 d' @ ''T'' @ fmt_int 2 h' @ fmt_int 2 mi' @ fmt_int 2 s'"
    "civil_from_days (uint b div 1000 div 86400) = (y', m', d')" "0 \<le> y'"
    "0 \<le> m'" "m' < 100" "0 \<le> d'" "d' < 100" "0 \<le> h'" "h' < 100" "0 \<le> mi'" "mi' < 100" "0 \<le> s'" "s' < 100"
    "uint b div 1000 mod 86400 = 3600 * h' + 60 * mi' + s'"
  have "fmt_int 4 y = fmt_int 4 y' \<and> fmt_int 2 m = fmt_int 2 m' \<and> fmt_int 2 d = fmt_int 2 d' \<and>
      fmt_int 2 h = fmt_int 2 h' \<and> fmt_int 2 mi = fmt_int 2 mi' \<and> fmt_int 2 s = fmt_int 2 s'"
    using assms a b unfolding a(1) b(1) by (simp add: length_fmt_int_2)
  then have "(y, m, d) = (y', m', d')" "3600 * h + 60 * mi + s = 3600 * h' + 60 * mi' + s'"
    using a b by (auto dest!: fmt_int_inject)
  then have "uint a div 1000 div 86400 = uint b div 1000 div 86400"
    "uint a div 1000 mod 86400 = uint b div 1000 mod 86400"
    using a(2,14) b(2,14) civil_inject by metis+
  then show ?thesis by (metis div_mult_mod_eq)
qed

end
