(* ===== verification/Sync_Conflict.thy ===== *)
theory Sync_Conflict
  imports Civil_Time
begin

text \<open>
  The names of conflict copies, \<open>crates/arreo-core/src/sync/merge.rs\<close>: \<open>conflict_path\<close>,
  \<open>is_conflict_copy\<close>, \<open>sanitize_machine\<close>. A path is its directory and its file name, which is
  \<open>None\<close> where \<open>Path::file_name\<close> is (a root, a path that ends in \<open>..\<close>); names are UTF-8, so
  \<open>to_str\<close> succeeds.
\<close>

record path =
  path_dir :: string
  path_name :: "string option"

text \<open>
  \<open>Path::file_stem\<close> and \<open>Path::extension\<close>: the name is split at its last dot, unless that dot is
  its first byte.
\<close>

definition split_dot :: "string \<Rightarrow> string \<times> string option" where
  "split_dot name =
     (let ext = rev (takeWhile (\<lambda>c. c \<noteq> CHR ''.'') (rev name));
          before = take (length name - length ext - 1) name
      in if CHR ''.'' \<in> set name \<and> before \<noteq> [] then (before, Some ext) else (name, None))"

definition file_stem :: "path \<Rightarrow> string option" where
  "file_stem p = map_option (fst \<circ> split_dot) (path_name p)"

definition extension :: "path \<Rightarrow> string option" where
  "extension p = Option.bind (path_name p) (snd \<circ> split_dot)"

text \<open>\<open>c.is_ascii_alphanumeric()\<close> of a code point; a code point of more than one byte is not.\<close>

definition machine_char :: "string \<Rightarrow> string" where
  "machine_char c = (case c of
      [b] \<Rightarrow> if is_ascii_alphanumeric b \<or> b = CHR ''-'' \<or> b = CHR ''_'' then [b] else ''-''
    | _ \<Rightarrow> ''-'')"

definition sanitize_machine :: "string \<Rightarrow> string" where
  "sanitize_machine machine =
     (let cleaned = concat (map machine_char (chars_of machine))
      in if cleaned = [] then ''machine'' else cleaned)"

definition conflict_path :: "path \<Rightarrow> string \<Rightarrow> u64 \<Rightarrow> path" where
  "conflict_path dest machine ms =
     (let stem = (case file_stem dest of None \<Rightarrow> ''config'' | Some s \<Rightarrow> s);
          machine = sanitize_machine machine;
          name = (case extension dest of
              Some ext \<Rightarrow> stem @ ''.conflict-'' @ machine @ ''-'' @ compact_utc_ms ms @ ''.'' @ ext
            | None \<Rightarrow> stem @ ''.conflict-'' @ machine @ ''-'' @ compact_utc_ms ms)
      in dest\<lparr>path_name := Some name\<rparr>)"

definition is_conflict_copy :: "path \<Rightarrow> path \<Rightarrow> bool" where
  "is_conflict_copy dest candidate =
     (case file_stem dest of
        None \<Rightarrow> False
      | Some stem \<Rightarrow>
          (case path_name candidate of
             None \<Rightarrow> False
           | Some name \<Rightarrow>
               if \<not> prefix (stem @ ''.conflict-'') name then False
               else case extension dest of
                   Some ext \<Rightarrow> suffix (''.'' @ ext) name
                 | None \<Rightarrow> True))"

section \<open>Conflict names\<close>

text \<open>The stamp is digits around one \<open>T\<close>, so the last dash of a name is the one before it.\<close>

lemma stamp_no_dash: "CHR ''-'' \<notin> set (compact_utc_ms ms)"
proof (rule compact_parts [of ms])
  fix y m d h mi s
  assume a: "compact_utc_ms ms = fmt_int 4 y @ fmt_int 2 m @ fmt_int 2 d @ ''T'' @ fmt_int 2 h @ fmt_int 2 mi @ fmt_int 2 s"
    "0 \<le> y" "0 \<le> m" "0 \<le> d" "0 \<le> h" "0 \<le> mi" "0 \<le> s"
  have "\<not> is_ascii_digit (CHR ''-'')" by (simp add: is_ascii_digit_def chcode_def)
  then have "CHR ''-'' \<notin> set (fmt_int w n)" if "0 \<le> n" for w n
    using fmt_int_digits [OF that] by blast
  then show ?thesis using a by simp
qed

lemma dash_split:
  assumes "a @ CHR ''-'' # s = b @ CHR ''-'' # t" and "CHR ''-'' \<notin> set s" and "CHR ''-'' \<notin> set t"
  shows "a = b \<and> s = t"
proof -
  have "takeWhile (\<lambda>c. c \<noteq> CHR ''-'') (rev (x @ CHR ''-'' # u)) = rev u" if "CHR ''-'' \<notin> set u" for x u
    using that by (auto simp: takeWhile_append)
  from this [OF assms(2), of a] this [OF assms(3), of b] have "s = t"
    unfolding assms(1) by simp
  with assms(1) show ?thesis by simp
qed

lemma conflict_path_inject:
  assumes "conflict_path dest m a = conflict_path dest n b"
  shows "sanitize_machine m = sanitize_machine n \<and> uint a div 1000 = uint b div 1000"
proof -
  have "sanitize_machine m @ ''-'' @ compact_utc_ms a = sanitize_machine n @ ''-'' @ compact_utc_ms b"
    using arg_cong [OF assms, of path_name]
    by (cases "extension dest") (simp_all add: conflict_path_def Let_def)
  then have "sanitize_machine m = sanitize_machine n \<and> compact_utc_ms a = compact_utc_ms b"
    using dash_split [of "sanitize_machine m"] stamp_no_dash by simp
  then show ?thesis using compact_inject by blast
qed

lemma split_dot_name:
  "split_dot name = (stem, ext) \<Longrightarrow> name = stem @ (case ext of None \<Rightarrow> [] | Some e \<Rightarrow> ''.'' @ e)"
proof -
  assume sp: "split_dot name = (stem, ext)"
  show "name = stem @ (case ext of None \<Rightarrow> [] | Some e \<Rightarrow> ''.'' @ e)"
  proof (cases "CHR ''.'' \<in> set name")
    case True
    then obtain ys zs where r: "rev name = ys @ CHR ''.'' # zs" "CHR ''.'' \<notin> set ys"
      using split_list_first [of "CHR ''.''" "rev name"] by auto
    then have e: "takeWhile (\<lambda>c. c \<noteq> CHR ''.'') (rev name) = ys"
      by (auto simp: takeWhile_append)
    from arg_cong [OF r(1), of rev] have name: "name = rev zs @ CHR ''.'' # rev ys" by simp
    have "take (length name - length ys - 1) name = rev zs" unfolding name by simp
    then show ?thesis using sp name True e by (auto simp: split_dot_def Let_def split: if_splits)
  next
    case False
    then show ?thesis using sp by (auto simp: split_dot_def Let_def)
  qed
qed

lemma conflict_path_is_copy:
  assumes "path_name dest \<noteq> None"
  shows "is_conflict_copy dest (conflict_path dest machine ms)"
  using assms
  by (auto simp: is_conflict_copy_def conflict_path_def Let_def file_stem_def extension_def
      suffix_def split: option.splits)

lemma conflict_path_other:
  assumes "path_name dest = Some name"
  shows "path_name (conflict_path dest machine ms) \<noteq> Some name"
proof -
  obtain stem ext where sp: "split_dot name = (stem, ext)" by force
  have "length name < length (stem @ ''.conflict-'' @ sanitize_machine machine @ ''-'' @ compact_utc_ms ms @
      (case ext of None \<Rightarrow> [] | Some e \<Rightarrow> ''.'' @ e))"
    using arg_cong [OF split_dot_name [OF sp], of length] by simp
  then show ?thesis
    using assms sp
    by (auto simp: conflict_path_def Let_def file_stem_def extension_def split: option.splits)
qed

end
