(* ===== verification/Sync_Vector.thy ===== *)
theory Sync_Vector
  imports Arreo_Prelude
begin

text \<open>
  Version vectors, \<open>crates/arreo-core/src/sync/vectors.rs\<close>: every operation of \<open>Vector\<close>, on the
  ordered map of the prelude with 64-bit counters. What \<open>relation\<close> answers is compared with the
  pointwise order on counters, and \<open>absorb\<close> is shown to be the join of that order, so that machines
  that have seen the same payloads agree whatever the order of delivery.
\<close>

type_synonym vector = "(string, u64) btree"

datatype relation = Same | Newer | Older | Concurrent

definition vec_new :: vector where
  "vec_new = []"

definition from_pairs :: "(string \<times> u64) list \<Rightarrow> vector" where
  "from_pairs ps = fold (\<lambda>(machine, counter). bt_insert machine counter) ps []"

definition vec_get :: "vector \<Rightarrow> string \<Rightarrow> u64" where
  "vec_get v machine = (case bt_get v machine of None \<Rightarrow> 0 | Some counter \<Rightarrow> counter)"

definition bump :: "string \<Rightarrow> vector \<Rightarrow> u64 \<times> vector" where
  "bump machine v =
     (let next = saturating_add (vec_get v machine) 1 in (next, bt_insert machine next v))"

definition vec_set :: "string \<Rightarrow> u64 \<Rightarrow> vector \<Rightarrow> vector" where
  "vec_set machine counter v = bt_insert machine counter v"

fun absorb_loop :: "(string \<times> u64) list \<Rightarrow> bool \<times> vector \<Rightarrow> bool \<times> vector" where
  "absorb_loop [] st = st"
| "absorb_loop ((machine, counter) # rest) (changed, v) =
     (if vec_get v machine < counter then absorb_loop rest (True, bt_insert machine counter v)
      else absorb_loop rest (changed, v))"

definition absorb :: "vector \<Rightarrow> vector \<Rightarrow> bool \<times> vector" where
  "absorb other v = absorb_loop other (False, v)"

fun dominates_loop :: "vector \<Rightarrow> vector \<Rightarrow> bool \<Rightarrow> string list \<Rightarrow> bool" where
  "dominates_loop v other strictly [] = strictly"
| "dominates_loop v other strictly (machine # rest) =
     (let mine = vec_get v machine; theirs = vec_get other machine in
      if mine < theirs then False
      else dominates_loop v other (if mine > theirs then True else strictly) rest)"

definition dominates :: "vector \<Rightarrow> vector \<Rightarrow> bool" where
  "dominates v other = dominates_loop v other False (bt_keys v @ bt_keys other)"

definition relation :: "vector \<Rightarrow> vector \<Rightarrow> relation" where
  "relation v other =
     (if v = other then Same
      else if dominates v other then Newer
      else if dominates other v then Older
      else Concurrent)"

definition vec_is_empty :: "vector \<Rightarrow> bool" where
  "vec_is_empty v = (v = [])"

fun join_comma :: "string list \<Rightarrow> string" where
  "join_comma [] = []"
| "join_comma [s] = s"
| "join_comma (s # t # rest) = s @ '','' @ join_comma (t # rest)"

definition summary :: "vector \<Rightarrow> string" where
  "summary v = (if v = [] then ''-''
     else join_comma (map (\<lambda>(machine, counter). machine @ '':'' @ show_nat (unat counter)) v))"

section \<open>Well-formed vectors\<close>

text \<open>
  \<open>vec_inv\<close> is the invariant of the tree. \<open>no_zero\<close> says that no machine is listed at 0, which is
  what counting by \<open>bump\<close> produces; \<open>set\<close> and \<open>from_pairs\<close> accept a 0 and so can break it.
\<close>

abbreviation vec_inv :: "vector \<Rightarrow> bool" where
  "vec_inv v \<equiv> bt_inv v"

definition no_zero :: "vector \<Rightarrow> bool" where
  "no_zero v \<longleftrightarrow> (\<forall>machine. bt_get v machine \<noteq> Some 0)"

definition knows :: "vector \<Rightarrow> vector \<Rightarrow> bool" where
  "knows v w \<longleftrightarrow> (\<forall>machine. vec_get w machine \<le> vec_get v machine)"

lemma knows_refl [simp, intro]: "knows v v"
  by (simp add: knows_def)

lemma knows_trans: "knows u v \<Longrightarrow> knows v w \<Longrightarrow> knows u w"
  unfolding knows_def by (meson order_trans)

lemma vec_get_insert: "vec_inv v \<Longrightarrow> vec_get (bt_insert m c v) k = (if k = m then c else vec_get v k)"
  by (simp add: vec_get_def btree_simps)

lemma vec_get_notin: "m \<notin> set (bt_keys v) \<Longrightarrow> vec_get v m = 0"
  by (simp add: vec_get_def btree_simps bt_get_None_iff [THEN iffD2])

lemma from_pairs_inv [simp, intro]: "vec_inv (from_pairs ps)"
  unfolding from_pairs_def by (rule bt.inv_fold_ins) simp

lemma vec_ext:
  assumes "vec_inv v" "vec_inv w" "no_zero v" "no_zero w" and "\<And>m. vec_get v m = vec_get w m"
  shows "v = w"
proof (rule bt_ext [OF assms(1,2)])
  fix m
  show "bt_get v m = bt_get w m"
    using assms(5) [of m] assms(3,4)
    by (auto simp: vec_get_def no_zero_def split: option.splits)
qed

section \<open>The operations against the order\<close>

lemma absorb_loop_get:
  assumes "vec_inv v" and "distinct (map fst ps)"
  shows "vec_inv (snd (absorb_loop ps (ch, v)))"
    and "vec_get (snd (absorb_loop ps (ch, v))) m =
       max (vec_get v m) (case map_of ps m of None \<Rightarrow> 0 | Some c \<Rightarrow> c)"
  using assms
proof (induction ps arbitrary: ch v)
  case (Cons p ps)
  obtain a c where p: "p = (a, c)" by force
  { case 1
    then show ?case using Cons.IH(1) p by (simp add: btree_simps)
  next
    case 2
    then have "map_of ps a = None" "distinct (map fst ps)"
      using p by (auto simp: map_of_eq_None_iff)
    with 2 p show ?case
      using Cons.IH(2) [of "bt_insert a c v" True] Cons.IH(2) [of v ch]
      by (auto simp: vec_get_insert btree_simps max_def not_less split: if_splits)
  }
qed simp_all

lemma vec_inv_distinct: "vec_inv v \<Longrightarrow> distinct (map fst v)"
  by (simp add: bt_inv_def bt_keys_def strict_sorted_iff)

lemma absorb_inv: "vec_inv v \<Longrightarrow> vec_inv w \<Longrightarrow> vec_inv (snd (absorb w v))"
  by (simp add: absorb_def absorb_loop_get vec_inv_distinct)

lemma vec_get_absorb:
  "vec_inv v \<Longrightarrow> vec_inv w \<Longrightarrow> vec_get (snd (absorb w v)) m = max (vec_get v m) (vec_get w m)"
  by (simp add: absorb_def absorb_loop_get vec_inv_distinct vec_get_def [of w] bt_get_def)

lemma absorb_loop_no_zero: "vec_inv v \<Longrightarrow> no_zero v \<Longrightarrow> no_zero (snd (absorb_loop ps (ch, v)))"
proof (induction ps arbitrary: ch v)
  case (Cons p ps)
  obtain a c where p: "p = (a, c)" by force
  have "no_zero (bt_insert a c v)" if "vec_get v a < c"
    using Cons.prems that by (auto simp: no_zero_def btree_simps)
  with Cons p show ?case by (simp add: btree_simps)
qed simp

lemma absorb_no_zero: "vec_inv v \<Longrightarrow> no_zero v \<Longrightarrow> no_zero (snd (absorb w v))"
  by (simp add: absorb_def absorb_loop_no_zero)

lemma absorb_loop_changed:
  assumes "vec_inv v"
  shows "fst (absorb_loop ps (ch, v)) \<longleftrightarrow> ch \<or> (\<exists>(m, c) \<in> set ps. vec_get v m < c)"
  using assms
proof (induction ps arbitrary: ch v)
  case (Cons p ps)
  obtain a c where p: "p = (a, c)" by force
  show ?case
  proof (cases "vec_get v a < c")
    case True
    then have "fst (absorb_loop ps (True, bt_insert a c v))"
      using Cons.IH [of "bt_insert a c v" True] Cons.prems by (simp add: btree_simps)
    with True p show ?thesis by auto
  next
    case False
    then show ?thesis using Cons.IH [OF Cons.prems, of ch] p by auto
  qed
qed simp

lemma absorb_changed_iff:
  assumes "vec_inv v" "vec_inv w"
  shows "fst (absorb w v) \<longleftrightarrow> \<not> knows v w"
proof -
  have "vec_get w m = c" if "(m, c) \<in> set w" for m c
    using that assms(2) by (simp add: vec_get_def bt_get_eq_set [THEN iffD2])
  moreover have "(m, vec_get w m) \<in> set w" if "vec_get v m < vec_get w m" for m
  proof -
    have "bt_get w m \<noteq> None"
    proof
      assume "bt_get w m = None"
      with that show False by (simp add: vec_get_def [of w])
    qed
    then show ?thesis by (auto simp: vec_get_def dest: bt_get_in_set)
  qed
  ultimately have "(\<exists>(m, c) \<in> set w. vec_get v m < c) \<longleftrightarrow> \<not> knows v w"
    unfolding knows_def not_all not_le by (metis (no_types, lifting) case_prodE case_prodI)
  then show ?thesis using absorb_loop_changed [OF assms(1), of w False] by (simp add: absorb_def)
qed

lemma absorb_loop_same: "\<forall>(m, c) \<in> set ps. \<not> vec_get v m < c \<Longrightarrow> absorb_loop ps (ch, v) = (ch, v)"
  by (induction ps) auto

lemma absorb_known:
  assumes "vec_inv v" "vec_inv w" "knows v w"
  shows "absorb w v = (False, v)"
proof -
  have "\<not> (\<exists>(m, c) \<in> set w. vec_get v m < c)"
    using absorb_changed_iff [OF assms(1,2)] absorb_loop_changed [OF assms(1), of w False] assms(3)
    by (simp add: absorb_def)
  then show ?thesis unfolding absorb_def by (intro absorb_loop_same) auto
qed

lemma dominates_loop_iff:
  "dominates_loop v w s ms \<longleftrightarrow>
     (\<forall>m \<in> set ms. vec_get w m \<le> vec_get v m) \<and> (s \<or> (\<exists>m \<in> set ms. vec_get w m < vec_get v m))"
  by (induction ms arbitrary: s) (auto simp: Let_def not_less)

lemma dominates_iff: "dominates v w \<longleftrightarrow> knows v w \<and> \<not> knows w v"
proof -
  have zero: "vec_get v m = 0 \<and> vec_get w m = 0" if "m \<notin> set (bt_keys v @ bt_keys w)" for m
    using that by (simp add: vec_get_notin)
  have "(\<forall>m \<in> set (bt_keys v @ bt_keys w). vec_get w m \<le> vec_get v m) \<longleftrightarrow> knows v w"
    unfolding knows_def using zero by (metis order_refl)
  moreover have "(\<exists>m \<in> set (bt_keys v @ bt_keys w). vec_get w m < vec_get v m) \<longleftrightarrow> \<not> knows w v"
    unfolding knows_def using zero by (metis not_le order_refl)
  ultimately show ?thesis unfolding dominates_def dominates_loop_iff by auto
qed

lemma relation_same_iff: "relation v w = Same \<longleftrightarrow> v = w"
  by (simp add: relation_def)

lemma relation_newer_iff: "relation v w = Newer \<longleftrightarrow> knows v w \<and> \<not> knows w v"
  by (auto simp: relation_def dominates_iff)

lemma relation_older_iff: "relation v w = Older \<longleftrightarrow> knows w v \<and> \<not> knows v w"
  by (auto simp: relation_def dominates_iff)

lemma knows_antisym:
  "vec_inv v \<Longrightarrow> vec_inv w \<Longrightarrow> no_zero v \<Longrightarrow> no_zero w \<Longrightarrow> knows v w \<Longrightarrow> knows w v \<Longrightarrow> v = w"
  by (rule vec_ext) (auto simp: knows_def intro: antisym)

section \<open>Convergence\<close>

text \<open>
  The contract of a merge of replicas: on the states that satisfy \<open>inv\<close> it is a semilattice. Then
  the result of absorbing payloads depends only on which payloads arrived: not on their order, and
  not on how often each of them was delivered.
\<close>

locale replica_merge =
  fixes merge :: "'s \<Rightarrow> 's \<Rightarrow> 's" and inv :: "'s \<Rightarrow> bool"
  assumes inv_merge: "inv a \<Longrightarrow> inv b \<Longrightarrow> inv (merge a b)"
    and comm: "inv a \<Longrightarrow> inv b \<Longrightarrow> merge a b = merge b a"
    and assoc: "inv a \<Longrightarrow> inv b \<Longrightarrow> inv c \<Longrightarrow> merge (merge a b) c = merge a (merge b c)"
    and idem: "inv a \<Longrightarrow> merge a a = a"
begin

lemma inv_fold: "inv a \<Longrightarrow> \<forall>x \<in> set xs. inv x \<Longrightarrow> inv (fold merge xs a)"
  by (induction xs arbitrary: a) (auto intro: inv_merge)

lemma fold_merge_left:
  "inv a \<Longrightarrow> inv x \<Longrightarrow> \<forall>y \<in> set ys. inv y \<Longrightarrow> fold merge ys (merge x a) = merge x (fold merge ys a)"
proof (induction ys arbitrary: a)
  case (Cons y ys)
  then have "merge y (merge x a) = merge x (merge y a)"
    by (metis assoc comm list.set_intros(1))
  with Cons show ?case by (simp add: inv_merge)
qed simp

lemma fold_merge_member:
  "inv a \<Longrightarrow> \<forall>y \<in> set ys. inv y \<Longrightarrow> x \<in> set ys \<Longrightarrow> merge x (fold merge ys a) = fold merge ys a"
proof (induction ys arbitrary: a)
  case (Cons y ys)
  then show ?case
  proof (cases "x = y")
    case True
    have "merge x (fold merge ys (merge x a)) = merge x (merge x (fold merge ys a))"
      using Cons.prems True by (simp add: fold_merge_left)
    also have "\<dots> = merge x (fold merge ys a)"
      using Cons.prems True by (metis assoc idem inv_fold list.set_intros(1,2))
    finally show ?thesis using Cons.prems True by (simp add: fold_merge_left)
  next
    case False
    with Cons show ?thesis by (auto simp: inv_merge)
  qed
qed simp

lemma fold_merge_absorbs:
  "inv a \<Longrightarrow> \<forall>y \<in> set ys. inv y \<Longrightarrow> set xs \<subseteq> set ys \<Longrightarrow>
     fold merge xs (fold merge ys a) = fold merge ys a"
  by (induction xs) (auto simp: fold_merge_member)

lemma fold_merge_swap:
  "inv a \<Longrightarrow> \<forall>x \<in> set xs. inv x \<Longrightarrow> \<forall>y \<in> set ys. inv y \<Longrightarrow>
     fold merge xs (fold merge ys a) = fold merge ys (fold merge xs a)"
proof (induction xs arbitrary: a)
  case (Cons x xs)
  then have "fold merge xs (merge x (fold merge ys a)) = fold merge xs (fold merge ys (merge x a))"
    by (simp add: fold_merge_left)
  with Cons show ?case by (simp add: inv_merge)
qed simp

theorem convergence:
  assumes "inv a" and "\<forall>x \<in> set xs. inv x" and "set xs = set ys"
  shows "fold merge xs a = fold merge ys a"
  using assms fold_merge_absorbs [of a ys xs] fold_merge_absorbs [of a xs ys] fold_merge_swap [of a xs ys]
  by simp

end

definition vec_ok :: "vector \<Rightarrow> bool" where
  "vec_ok v \<longleftrightarrow> vec_inv v \<and> no_zero v"

definition absorbed :: "vector \<Rightarrow> vector \<Rightarrow> vector" where
  "absorbed other v = snd (absorb other v)"

lemma vec_ok_absorbed: "vec_ok v \<Longrightarrow> vec_ok w \<Longrightarrow> vec_ok (absorbed w v)"
  by (simp add: vec_ok_def absorbed_def absorb_inv absorb_no_zero)

lemma vec_get_absorbed:
  "vec_ok v \<Longrightarrow> vec_ok w \<Longrightarrow> vec_get (absorbed w v) m = max (vec_get v m) (vec_get w m)"
  by (simp add: vec_ok_def absorbed_def vec_get_absorb)

lemma vec_ok_ext: "vec_ok v \<Longrightarrow> vec_ok w \<Longrightarrow> (\<And>m. vec_get v m = vec_get w m) \<Longrightarrow> v = w"
  by (rule vec_ext) (auto simp: vec_ok_def)

interpretation vm: replica_merge absorbed vec_ok
proof
  fix a b c
  assume a: "vec_ok a" and b: "vec_ok b"
  show "vec_ok (absorbed a b)" using a b by (simp add: vec_ok_absorbed)
  show "absorbed a b = absorbed b a"
    using a b by (intro vec_ok_ext) (auto simp: vec_ok_absorbed vec_get_absorbed max.commute)
  assume c: "vec_ok c"
  show "absorbed (absorbed a b) c = absorbed a (absorbed b c)"
    using a b c by (intro vec_ok_ext) (auto simp: vec_ok_absorbed vec_get_absorbed max.assoc max.commute max.left_commute)
next
  fix a
  assume "vec_ok a"
  then show "absorbed a a = a"
    by (intro vec_ok_ext) (auto simp: vec_ok_absorbed vec_get_absorbed)
qed

lemma fold_absorb: "fold (\<lambda>p v. snd (absorb p v)) ps v = fold absorbed ps v"
  by (simp add: absorbed_def [abs_def])

section \<open>Properties\<close>

lemma vec_ok_bump:
  assumes "vec_ok v"
  shows "vec_ok (snd (bump a v))"
proof -
  have "saturating_add x 1 \<noteq> 0" for x
    using saturating_add_1_less [of x] by (cases "x = u64_max") (auto simp: u64_max_def saturating_add_def)
  with assms show ?thesis
    by (auto simp: bump_def Let_def vec_ok_def no_zero_def btree_simps)
qed

lemma vec_get_bump:
  "vec_ok v \<Longrightarrow> vec_get (snd (bump a v)) m =
     (if m = a then saturating_add (vec_get v a) 1 else vec_get v m)"
  by (simp add: bump_def Let_def vec_get_insert vec_ok_def)

lemma knows_bump: "vec_ok v \<Longrightarrow> knows (snd (bump a v)) v"
  by (auto simp: knows_def vec_get_bump saturating_add_1_ge)

lemma not_knows_bump: "vec_ok v \<Longrightarrow> vec_get v a \<noteq> u64_max \<Longrightarrow> vec_get w a \<le> vec_get v a \<Longrightarrow>
    \<not> knows w (snd (bump a v))"
  unfolding knows_def not_all not_le
  using saturating_add_1_less [of "vec_get v a"] by (intro exI [of _ a]) (simp add: vec_get_bump)

lemma vec_ok_new [simp]: "vec_ok []"
  by (simp add: vec_ok_def no_zero_def)

text \<open>
  The four answers of \<open>relation\<close> are the four cases of the pointwise order on the counters:
  on vectors that count from 1, as \<open>bump\<close> makes them, "did the other side see everything I have" is
  decided from the two vectors alone.
\<close>

theorem relation_decides_order:
  assumes "vec_ok v" and "vec_ok w"
  shows "relation v w =
     (if knows v w then if knows w v then Same else Newer
      else if knows w v then Older else Concurrent)"
proof -
  have "knows v w \<and> knows w v \<longleftrightarrow> v = w"
    using knows_antisym [of v w] assms by (auto simp: vec_ok_def)
  then show ?thesis by (auto simp: relation_def dominates_iff)
qed

theorem relation_decides_order_witness:
  "relation [(''a'', 2), (''b'', 1)] [(''a'', 1)] = Newer \<and>
   knows [(''a'', 2), (''b'', 1)] [(''a'', 1)] \<and> \<not> knows [(''a'', 1)] [(''a'', 2), (''b'', 1)]"
proof -
  let ?v = "[(''a'', 2), (''b'', 1)] :: vector" and ?w = "[(''a'', 1)] :: vector"
  have "vec_ok ?v" "vec_ok ?w" by (auto simp: vec_ok_def no_zero_def bt_inv_Cons)
  moreover have "knows ?v ?w" "\<not> knows ?w ?v"
    by (auto simp: knows_def vec_get_def intro: exI [of _ "''b''"])
  ultimately show ?thesis using relation_decides_order [of ?v ?w] by simp
qed

text \<open>
  C18. Two machines that absorbed the same payloads hold the same vector, byte for byte, whatever
  the order of delivery and however often a payload was delivered again; and the vector is the
  pointwise maximum of what arrived.
\<close>

theorem absorb_converges:
  assumes "vec_ok v" and "\<forall>p \<in> set ps. vec_ok p" and "set ps = set qs"
  shows "fold (\<lambda>p v. snd (absorb p v)) ps v = fold (\<lambda>p v. snd (absorb p v)) qs v \<and>
     vec_get (fold (\<lambda>p v. snd (absorb p v)) ps v) m =
       Max (insert (vec_get v m) ((\<lambda>p. vec_get p m) ` set ps))"
proof (intro conjI)
  show "fold (\<lambda>p v. snd (absorb p v)) ps v = fold (\<lambda>p v. snd (absorb p v)) qs v"
    unfolding fold_absorb using assms by (rule vm.convergence)
  have "vec_get (fold absorbed ps v) m = Max (insert (vec_get v m) ((\<lambda>p. vec_get p m) ` set ps))"
    using assms(1,2)
  proof (induction ps arbitrary: v)
    case (Cons p ps)
    then have "vec_get (fold absorbed ps (absorbed p v)) m =
        Max (insert (max (vec_get v m) (vec_get p m)) ((\<lambda>p. vec_get p m) ` set ps))"
      by (simp add: vec_ok_absorbed vec_get_absorbed)
    then show ?case by (cases "ps = []") (simp_all add: max.assoc)
  qed simp
  then show "vec_get (fold (\<lambda>p v. snd (absorb p v)) ps v) m =
       Max (insert (vec_get v m) ((\<lambda>p. vec_get p m) ` set ps))"
    unfolding fold_absorb .
qed

theorem absorb_converges_witness:
  "fold (\<lambda>p v. snd (absorb p v)) [[(''a'', 2)], [(''a'', 1), (''b'', 1)]] [] =
   fold (\<lambda>p v. snd (absorb p v)) [[(''a'', 1), (''b'', 1)], [(''a'', 2)], [(''a'', 1), (''b'', 1)]] []"
  by (rule absorb_converges [THEN conjunct1]) (auto simp: vec_ok_def no_zero_def bt_inv_Cons)

text \<open>
  Two machines that each edit the same version are in conflict, neither is silently preferred,
  and once they have exchanged vectors they agree on one that is newer than both edits.
\<close>

theorem concurrent_edits_then_exchange:
  assumes "vec_ok v" and "a \<noteq> b" and "vec_get v a \<noteq> u64_max" and "vec_get v b \<noteq> u64_max"
  defines "x \<equiv> snd (bump a v)" and "y \<equiv> snd (bump b v)"
  shows "relation x y = Concurrent \<and> relation x v = Newer \<and> relation y v = Newer \<and>
     snd (absorb y x) = snd (absorb x y) \<and>
     relation (snd (absorb y x)) x = Newer \<and> relation (snd (absorb y x)) y = Newer"
proof (intro conjI)
  have ok: "vec_ok x" "vec_ok y" by (simp_all add: x_def y_def vec_ok_bump assms(1))
  have get: "vec_get x b = vec_get v b" "vec_get y a = vec_get v a"
    using assms(1,2) by (simp_all add: x_def y_def vec_get_bump)
  have xy: "\<not> knows x y" "\<not> knows y x" "\<not> knows v x" "\<not> knows v y"
    using not_knows_bump [OF assms(1)] assms(3,4) get by (simp_all add: x_def y_def)
  show "relation x y = Concurrent"
    using xy by (auto simp: relation_def dominates_iff)
  show "relation x v = Newer" "relation y v = Newer"
    using xy assms(1) by (simp_all add: relation_newer_iff) (simp_all add: x_def y_def knows_bump)
  show "snd (absorb y x) = snd (absorb x y)"
    using vm.comm [OF ok] by (simp add: absorbed_def)
  let ?z = "snd (absorb y x)"
  have "vec_get ?z m = max (vec_get x m) (vec_get y m)" for m
    using vec_get_absorbed [OF ok] by (simp add: absorbed_def)
  then have z: "knows ?z x" "knows ?z y" by (simp_all add: knows_def)
  moreover have "\<not> knows x ?z" "\<not> knows y ?z"
    using xy z knows_trans by blast+
  ultimately show "relation ?z x = Newer" "relation ?z y = Newer"
    by (simp_all add: relation_newer_iff)
qed

theorem concurrent_edits_then_exchange_witness:
  "relation (snd (bump ''a'' [(''c'', 4)])) (snd (bump ''b'' [(''c'', 4)])) = Concurrent"
  by (rule concurrent_edits_then_exchange [THEN conjunct1])
    (auto simp: vec_ok_def no_zero_def bt_inv_Cons vec_get_def u64_max_def)

text \<open>
  A counter of 0 that is written down is not the counter 0 of a machine that never pushed: two
  vectors that mean the same thing but differ in such an entry are reported as a real conflict, and
  absorbing either into the other does not end it.
\<close>

theorem explicit_zero_is_concurrent:
  assumes "vec_inv v" and "vec_inv w" and "\<forall>m. vec_get v m = vec_get w m" and "v \<noteq> w"
  shows "relation v w = Concurrent \<and> absorb w v = (False, v) \<and> absorb v w = (False, w)"
proof -
  have "knows v w" "knows w v" using assms(3) by (simp_all add: knows_def)
  then show ?thesis
    using assms by (simp add: relation_def dominates_iff absorb_known)
qed

theorem explicit_zero_is_concurrent_witness:
  "relation (vec_set ''a'' 0 []) [] = Concurrent \<and>
   absorb [] (vec_set ''a'' 0 []) = (False, vec_set ''a'' 0 []) \<and> absorb (vec_set ''a'' 0 []) [] = (False, [])"
  by (rule explicit_zero_is_concurrent) (auto simp: vec_set_def vec_get_def bt_inv_Cons)

text \<open>
  \<open>absorb\<close> reports a change exactly when the other side knew something more, and absorbing what
  is already known leaves the vector as it was.
\<close>

theorem absorb_reports_change:
  assumes "vec_inv v" and "vec_inv w"
  shows "(fst (absorb w v) \<longleftrightarrow> \<not> knows v w) \<and> (knows v w \<longrightarrow> snd (absorb w v) = v) \<and>
     knows (snd (absorb w v)) v \<and> knows (snd (absorb w v)) w"
  using assms absorb_changed_iff [OF assms] absorb_known [OF assms]
  by (auto simp: knows_def vec_get_absorb)

theorem absorb_reports_change_witness:
  "fst (absorb [(''a'', 2)] [(''a'', 1)]) \<longleftrightarrow> \<not> knows [(''a'', 1)] [(''a'', 2)]"
  by (rule absorb_reports_change [THEN conjunct1]) (auto simp: bt_inv_Cons)

end
