(* ===== verification/Sync_Properties.thy ===== *)
theory Sync_Properties
  imports Sync_Merge Sync_Conflict Sync_Vector
begin

text \<open>
  The properties of configuration sync below the engine: the comment scanners, the merge of two
  documents, the names of conflict copies, the calendar. Those of the vectors are in
  \<open>Sync_Vector\<close>.
\<close>

text \<open>
  Removing JSONC comments always returns (no slice of the scanner can split a code point), what
  it returns has no comment left for the companion scanner to see, and an ASCII document without
  comments comes back byte for byte, so a \<open>//\<close> inside a string is never cut.
\<close>

theorem strip_jsonc_correct:
  assumes "ascii_closed t"
  shows "\<exists>u. strip_jsonc_comments t = Returns u \<and> \<not> has_comments u \<and>
     (\<not> has_comments t \<and> (\<forall>c \<in> set t. chcode c < 128) \<longrightarrow> u = t)"
proof -
  obtain u where u: "strip_jsonc_comments t = Returns u" using strip_returns [OF assms] by blast
  moreover have "u = t" if "\<not> has_comments t" "\<forall>c \<in> set t. chcode c < 128"
    using strip_without_comments [OF that(2,1)] u by simp
  ultimately show ?thesis using strip_has_no_comments [OF assms u] by blast
qed

theorem strip_jsonc_correct_witness:
  "\<exists>u. strip_jsonc_comments (''{'' @ [QUOTE] @ ''u'' @ [QUOTE] @ '':1} // x'') = Returns u \<and> \<not> has_comments u"
proof -
  have "ascii_closed (''{'' @ [QUOTE] @ ''u'' @ [QUOTE] @ '':1} // x'')" by code_simp
  from strip_jsonc_correct [OF this] show ?thesis by blast
qed

text \<open>
  C4. A merge that succeeds neither loses nor invents: the printed document says exactly what the two
  documents said together, every key, array item and scalar of either side and nothing else. The
  hypotheses are those of a JSON library: parsed objects have their keys in order, and what the printer
  writes parses back to the value.
\<close>

theorem merge_keeps_everything:
  assumes merge: "merge_json from_str to_string_pretty spec base incoming = Ok text"
    and parsed: "\<And>t v. from_str t = Ok v \<Longrightarrow> json_ok v"
    and roundtrip: "\<And>v t. to_string_pretty v = Ok t \<Longrightarrow> from_str (t @ [NEWLINE]) = Ok v"
  shows "\<exists>a b v. from_str base = Ok a \<and> from_str incoming = Ok b \<and> from_str text = Ok v \<and>
     facts v = facts a \<union> facts b"
proof -
  obtain a b v t where ab: "from_str base = Ok a" "from_str incoming = Ok b"
    and v: "merge_value spec [] a b = Ok v" and t: "to_string_pretty v = Ok t" "text = t @ [NEWLINE]"
    using merge by (auto simp: merge_json_def split: if_splits sum.splits)
  have "facts v = facts a \<union> facts b"
    using merge_facts(1) [OF v parsed [OF ab(1)] parsed [OF ab(2)]] by blast
  then show ?thesis using ab roundtrip [OF t(1)] t(2) by blast
qed

text \<open>A parser and a printer for the witnesses: three documents, one value each.\<close>

definition demo_doc :: "string \<Rightarrow> int json" where
  "demo_doc k = JObject [(k, JBool True)]"

definition demo_print :: "int json \<Rightarrow> string + string" where
  "demo_print v = (if v = JObject [(''a'', JBool True), (''b'', JBool True)] then Ok ''ab'' else Err ''no'')"

definition demo_parse :: "string \<Rightarrow> string + int json" where
  "demo_parse t = (if t = ''a'' then Ok (demo_doc ''a'') else if t = ''b'' then Ok (demo_doc ''b'')
     else if t = ''ab'' @ [NEWLINE] then Ok (JObject [(''a'', JBool True), (''b'', JBool True)])
     else Err ''no'')"

lemma demo_parse_ok: "demo_parse t = Ok v \<Longrightarrow> json_ok v"
  by (auto simp: demo_parse_def demo_doc_def bt_inv_Cons split: if_splits)

lemma demo_roundtrip: "demo_print v = Ok t \<Longrightarrow> demo_parse (t @ [NEWLINE]) = Ok v"
  by (auto simp: demo_parse_def demo_print_def split: if_splits)

lemma demo_merge: "merge_json demo_parse demo_print \<lparr>union_arrays = []\<rparr> ''a'' ''b'' = Ok (''ab'' @ [NEWLINE])"
  by (simp add: merge_json_def demo_parse_def demo_print_def demo_doc_def merge_value.simps)

theorem merge_keeps_everything_witness:
  "\<exists>a b v. demo_parse ''a'' = Ok a \<and> demo_parse ''b'' = Ok b \<and> demo_parse (''ab'' @ [NEWLINE]) = Ok v \<and>
     facts v = facts a \<union> facts b"
  by (rule merge_keeps_everything [OF demo_merge]) (rule demo_parse_ok demo_roundtrip, assumption)+

text \<open>
  Delivery may repeat: merging the same incoming document into the merged one again succeeds and
  writes the same bytes. (Printed JSON carries no comments, the third hypothesis.)
\<close>

theorem merge_redelivered:
  assumes merge: "merge_json from_str to_string_pretty spec base incoming = Ok text"
    and parsed: "\<And>t v. from_str t = Ok v \<Longrightarrow> json_ok v"
    and roundtrip: "\<And>v t. to_string_pretty v = Ok t \<Longrightarrow> from_str (t @ [NEWLINE]) = Ok v"
    and plain: "\<And>v t. to_string_pretty v = Ok t \<Longrightarrow> \<not> has_comments (t @ [NEWLINE])"
  shows "merge_json from_str to_string_pretty spec text incoming = Ok text"
proof -
  obtain a b v t where ab: "from_str base = Ok a" "from_str incoming = Ok b" "\<not> has_comments incoming"
    and v: "merge_value spec [] a b = Ok v" and t: "to_string_pretty v = Ok t" "text = t @ [NEWLINE]"
    using merge by (auto simp: merge_json_def split: if_splits sum.splits)
  have "merge_value spec [] v b = Ok v"
    using merge_redelivery [OF parsed [OF ab(1)] parsed [OF ab(2)] v] .
  then show ?thesis
    using ab(2,3) roundtrip [OF t(1)] plain [OF t(1)] t by (simp add: merge_json_def)
qed

theorem merge_redelivered_witness:
  "merge_json demo_parse demo_print \<lparr>union_arrays = []\<rparr> (''ab'' @ [NEWLINE]) ''b'' = Ok (''ab'' @ [NEWLINE])"
proof (rule merge_redelivered [OF demo_merge])
  fix v t
  assume "demo_print v = Ok t"
  then show "\<not> has_comments (t @ [NEWLINE])"
    by (auto simp: demo_print_def split: if_splits)
qed (rule demo_parse_ok demo_roundtrip, assumption)+

text \<open>
  A refusal points at a real disagreement: the path it names leads, in both documents, to two
  different values, neither of them null, and it is a \<open>Conflict\<close> exactly when they are of one kind.
\<close>

theorem merge_refusal_is_real:
  assumes "json_ok a" and "json_ok b" and "merge_value spec [] a b = Err e"
  shows "\<exists>ks x y. value_at a ks = Some x \<and> value_at b ks = Some y \<and> x \<noteq> y \<and> x \<noteq> JNull \<and> y \<noteq> JNull \<and>
     e = (if same_kind x y then Conflict (dotted [] ks) else Shape (dotted [] ks))"
  using assms by (rule merge_refusal_place)

theorem merge_refusal_is_real_witness:
  "\<exists>ks x y. value_at (JObject [(''p'', JObject [(''n'', JNumber (1::int))])]) ks = Some x \<and>
     value_at (JObject [(''p'', JObject [(''n'', JNumber 2)])]) ks = Some y \<and> x \<noteq> y \<and> x \<noteq> JNull \<and> y \<noteq> JNull \<and>
     Conflict ''p.n'' = (if same_kind x y then Conflict (dotted [] ks) else Shape (dotted [] ks))"
  by (rule merge_refusal_is_real [of _ _ "\<lparr>union_arrays = []\<rparr>"])
    (simp_all add: merge_value.simps bt_inv_Cons same_kind_def child_path_def)

text \<open>
  Who runs the merge does not matter: the two machines either both succeed or both refuse, and if
  they succeed their documents say the same.
\<close>

theorem merge_is_symmetric:
  assumes "json_ok a" and "json_ok b"
  shows "is_ok (merge_value spec path a b) = is_ok (merge_value spec path b a) \<and>
     (\<forall>v w. merge_value spec path a b = Ok v \<longrightarrow> merge_value spec path b a = Ok w \<longrightarrow> facts v = facts w)"
  using merge_Ok_sym [OF assms, of spec path] merge_Ok_sym [OF assms(2,1), of spec path]
    merge_facts(1) [OF _ assms] merge_facts(1) [OF _ assms(2,1)]
  by (auto simp: Un_commute)

theorem merge_is_symmetric_witness:
  "is_ok (merge_value \<lparr>union_arrays = [''plugin'']\<rparr> ''plugin'' (JArray [JNumber (1::int)]) (JArray [JNumber 2])) =
   is_ok (merge_value \<lparr>union_arrays = [''plugin'']\<rparr> ''plugin'' (JArray [JNumber (2::int)]) (JArray [JNumber 1]))"
  by (rule merge_is_symmetric [THEN conjunct1]) simp_all

text \<open>
  A key with a dot is taken for its last segment: two arrays under a key such as \<open>x.plugin\<close> are
  merged as sets although only \<open>plugin\<close> is declared as one, because the path is split at its dots again.
\<close>

theorem dotted_key_is_a_set:
  assumes "CHR ''.'' \<notin> set u" and "u \<in> set (union_arrays spec)"
  shows "merge_value spec [] (JObject [(k @ ''.'' @ u, JArray xs)]) (JObject [(k @ ''.'' @ u, JArray ys)]) =
     Ok (JObject [(k @ ''.'' @ u, JArray (push_new xs ys))])"
proof -
  have "last_key (k @ CHR ''.'' # u) = u"
    using assms(1) by (auto simp: last_key_def takeWhile_append)
  then show ?thesis
    using assms(2) by (simp add: merge_value.simps child_path_def)
qed

theorem dotted_key_is_a_set_witness:
  "merge_value \<lparr>union_arrays = [''plugin'']\<rparr> [] (JObject [(''x.plugin'', JArray [JNumber (1::int)])])
     (JObject [(''x.plugin'', JArray [JNumber 2])]) = Ok (JObject [(''x.plugin'', JArray [JNumber 1, JNumber 2])])"
  using dotted_key_is_a_set [of "''plugin''" "\<lparr>union_arrays = [''plugin'']\<rparr>" "''x''" "[JNumber (1::int)]" "[JNumber 2]"]
  by (simp add: push_new_def)

text \<open>
  A losing copy never overwrites: its name is not the file's own, it is recognised as a conflict
  copy of that file, and copies of different machines or of different seconds have different names.
\<close>

theorem conflict_copies_are_kept:
  assumes "path_name dest = Some name"
  shows "path_name (conflict_path dest m a) \<noteq> Some name \<and> is_conflict_copy dest (conflict_path dest m a) \<and>
     (sanitize_machine m \<noteq> sanitize_machine n \<or> uint a div 1000 \<noteq> uint b div 1000 \<longrightarrow>
        conflict_path dest m a \<noteq> conflict_path dest n b)"
  using conflict_path_other [OF assms] conflict_path_is_copy [of dest m a] conflict_path_inject [of dest m a n b]
    assms by auto

theorem conflict_copies_are_kept_witness:
  "is_conflict_copy \<lparr>path_dir = ''/x'', path_name = Some ''opencode.json''\<rparr>
     (conflict_path \<lparr>path_dir = ''/x'', path_name = Some ''opencode.json''\<rparr> ''desk top'' 1760000000000)"
  using conflict_copies_are_kept [of "\<lparr>path_dir = ''/x'', path_name = Some ''opencode.json''\<rparr>" "''opencode.json''"
      "''desk top''" 1760000000000 "[]" 0] by simp

text \<open>
  The calendar arithmetic is right on every day, before and after 1970: \<open>civil_from_days\<close> yields a
  date of the Gregorian calendar, with February 29 in leap years only, and counting the days of that date
  from 1970-01-01 gives the argument back, so no two days share a date.
\<close>

theorem civil_dates_are_exact:
  "valid_date (civil_from_days days) \<and> days_from_civil (civil_from_days days) = days"
  by (simp add: civil_from_days_valid days_from_civil_from_days)

end
