(* ===== verification/Relay_Inbox.thy ===== *)
theory Relay_Inbox
  imports Arreo_Prelude
begin

text \<open>
  The durable inbox of the relay, \<open>crates/arreo-relay/src/inbox.rs\<close>, with the two SQLite tables it
  keeps (\<open>inbox\<close> and \<open>inbox_stats\<close>, \<open>crates/arreo-relay/src/store.rs\<close>) and the rows it appends to
  the relay's audit trail. Every operation is one transaction, so it is a function on the tables.
  Row counts and byte sums are \<open>nat\<close>: they count what is stored. Timestamps and counters are the
  \<open>int\<close> of an SQLite integer column; the sequence numbers a client sends are \<open>u64\<close> and are cast to
  \<open>i64\<close> as in the code. The release profile does not check overflow, so the operator's byte bound wraps.
\<close>

section \<open>Limits\<close>

record inbox_limits =
  lim_ttl_ms :: int
  lim_max_messages :: nat
  lim_max_bytes :: nat

datatype inbox_error =
    InboxSqlite
  | BadLimit
  | TooLarge string nat nat

definition ttl_ms :: "nat \<Rightarrow> int" where
  "ttl_ms days = int days * 24 * 60 * 60 * 1000"

definition DEFAULT_TTL_DAYS :: nat where "DEFAULT_TTL_DAYS = 30"
definition DEFAULT_MAX_MESSAGES :: nat where "DEFAULT_MAX_MESSAGES = 10000"
definition DEFAULT_MAX_MB :: nat where "DEFAULT_MAX_MB = 64"

definition default_limits :: inbox_limits where
  "default_limits = \<lparr> lim_ttl_ms = ttl_ms DEFAULT_TTL_DAYS, lim_max_messages = DEFAULT_MAX_MESSAGES,
     lim_max_bytes = DEFAULT_MAX_MB * 1024 * 1024 \<rparr>"

definition from_options :: "nat \<Rightarrow> nat \<Rightarrow> nat \<Rightarrow> inbox_error + inbox_limits" where
  "from_options ttl_days max_messages max_mb =
     (if \<not> (1 \<le> ttl_days \<and> ttl_days \<le> 365) then Err BadLimit
      else if max_messages = 0 then Err BadLimit
      else if max_mb = 0 then Err BadLimit
      else Ok \<lparr> lim_ttl_ms = ttl_ms ttl_days, lim_max_messages = max_messages,
        lim_max_bytes = (max_mb * 1024 * 1024) mod 2 ^ 64 \<rparr>)"

section \<open>The tables\<close>

record inbox_row =
  ib_device :: string
  ib_seq :: int
  ib_received_at_ms :: int
  ib_expires_at_ms :: int
  ib_bytes :: bytes

record inbox_stats_row =
  is_dropped_total :: int
  is_expired_total :: int
  is_bytes :: int
  is_queued :: int
  is_dropped_reported :: int

datatype relay_outcome = RelayOk | RelayRefused | RelayExpired

text \<open>The columns of \<open>relay_audit\<close> the inbox fills; it has no account, peer or version to record.\<close>

record relay_event =
  re_action :: string
  re_outcome :: relay_outcome
  re_device :: "string option"
  re_detail :: string

record inbox_db =
  db_inbox :: "inbox_row list"
  db_stats :: "(string, inbox_stats_row) btree"
  db_audit :: "relay_event list"

definition rows_of :: "string \<Rightarrow> inbox_row list \<Rightarrow> inbox_row list" where
  "rows_of device rows = filter (\<lambda>r. ib_device r = device) rows"

definition row_bytes :: "inbox_row list \<Rightarrow> nat" where
  "row_bytes rows = sum_list (map (\<lambda>r. length (ib_bytes r)) rows)"

definition totals_locked :: "string \<Rightarrow> inbox_row list \<Rightarrow> nat \<times> nat" where
  "totals_locked device rows = (length (rows_of device rows), row_bytes (rows_of device rows))"

definition oldest_locked :: "string \<Rightarrow> inbox_row list \<Rightarrow> (int \<times> nat) option" where
  "oldest_locked device rows = (case sort_key ib_seq (rows_of device rows) of
      [] \<Rightarrow> None | r # _ \<Rightarrow> Some (ib_seq r, length (ib_bytes r)))"

definition delete_row :: "string \<Rightarrow> int \<Rightarrow> inbox_row list \<Rightarrow> inbox_row list" where
  "delete_row device seq rows = filter (\<lambda>r. \<not> (ib_device r = device \<and> ib_seq r = seq)) rows"

text \<open>\<open>COALESCE(MAX(seq), 0) + 1\<close>.\<close>

definition next_seq_of :: "string \<Rightarrow> inbox_row list \<Rightarrow> int" where
  "next_seq_of device rows = (case map ib_seq (rows_of device rows) of
      [] \<Rightarrow> 0 + 1 | s # ss \<Rightarrow> fold max ss s + 1)"

definition stats_or_new :: "string \<Rightarrow> inbox_stats_row \<Rightarrow> (inbox_stats_row \<Rightarrow> inbox_stats_row)
    \<Rightarrow> (string, inbox_stats_row) btree \<Rightarrow> (string, inbox_stats_row) btree" where
  "stats_or_new device fresh update t = bt_insert device
     (case bt_get t device of None \<Rightarrow> fresh | Some s \<Rightarrow> update s) t"

definition bump_expired :: "string \<Rightarrow> nat \<Rightarrow> (string, inbox_stats_row) btree
    \<Rightarrow> (string, inbox_stats_row) btree" where
  "bump_expired device count t = (if count = 0 then t else
     stats_or_new device
       \<lparr> is_dropped_total = int count, is_expired_total = int count, is_bytes = 0, is_queued = 0,
         is_dropped_reported = 0 \<rparr>
       (\<lambda>s. s\<lparr>is_dropped_total := is_dropped_total s + int count,
             is_expired_total := is_expired_total s + int count\<rparr>) t)"

text \<open>\<open>SELECT device_id, COUNT(*) ... GROUP BY device_id\<close> and the loop over its rows.\<close>

definition expired_rows :: "int \<Rightarrow> inbox_row list \<Rightarrow> inbox_row list" where
  "expired_rows now rows = filter (\<lambda>r. ib_expires_at_ms r \<le> now) rows"

definition sweep_locked :: "int \<Rightarrow> inbox_db \<Rightarrow> nat \<times> inbox_db" where
  "sweep_locked now db =
     (let gone = expired_rows now (db_inbox db);
          per_device = map (\<lambda>d. (d, length (rows_of d gone))) (remdups (map ib_device gone))
      in (length gone,
          db\<lparr>db_stats := fold (\<lambda>(d, n). bump_expired d n) per_device (db_stats db),
             db_inbox := filter (\<lambda>r. \<not> ib_expires_at_ms r \<le> now) (db_inbox db)\<rparr>))"

section \<open>The operations\<close>

definition inbox_record :: "relay_event \<Rightarrow> inbox_db \<Rightarrow> inbox_db" where
  "inbox_record event db = db\<lparr>db_audit := db_audit db @ [event]\<rparr>"

definition note_expiry :: "nat \<Rightarrow> inbox_db \<Rightarrow> inbox_db" where
  "note_expiry expired db = (if expired = 0 then db else inbox_record
     \<lparr> re_action = ''inbox.expire'', re_outcome = RelayExpired, re_device = None,
       re_detail = ''expired '' @ show_nat expired @ '' message(s) past their time-to-live'' \<rparr> db)"

lemma oldest_row:
  assumes "oldest_locked device rows = Some (seq, len)"
  shows "\<exists>r \<in> set (rows_of device rows). ib_seq r = seq \<and> length (ib_bytes r) = len"
proof (cases "sort_key ib_seq (rows_of device rows)")
  case (Cons r rs)
  then have "r \<in> set (rows_of device rows)" by (metis list.set_intros(1) set_sort)
  then show ?thesis using Cons assms by (auto simp: oldest_locked_def)
qed (use assms in \<open>simp add: oldest_locked_def\<close>)

lemma rows_of_delete_row:
  "rows_of d (delete_row device seq rows) =
     (if d = device then filter (\<lambda>r. ib_seq r \<noteq> seq) (rows_of d rows) else rows_of d rows)"
  by (auto simp: rows_of_def delete_row_def intro: filter_cong)

lemma delete_oldest_less:
  assumes "oldest_locked device rows = Some (seq, len)"
  shows "length (rows_of device (delete_row device seq rows)) < length (rows_of device rows)"
  using oldest_row [OF assms] by (auto simp: rows_of_delete_row intro: length_filter_less)

text \<open>Oldest-first eviction until a message of \<open>sz\<close> bytes fits.\<close>

function evict_loop :: "inbox_limits \<Rightarrow> string \<Rightarrow> nat \<Rightarrow> inbox_row list \<times> nat \<times> nat \<times> int list
    \<Rightarrow> inbox_row list \<times> nat \<times> nat \<times> int list" where
  "evict_loop lim device sz (rows, queued, bytes, evicted) =
     (if queued + 1 > lim_max_messages lim \<or> bytes + sz > lim_max_bytes lim then
        (case oldest_locked device rows of
           None \<Rightarrow> (rows, queued, bytes, evicted)
         | Some (seq, len) \<Rightarrow> evict_loop lim device sz
             (delete_row device seq rows, queued - 1, bytes - len, evicted @ [seq]))
      else (rows, queued, bytes, evicted))"
  by pat_completeness auto
termination
  by (relation "measure (\<lambda>(lim, device, sz, rows, _). length (rows_of device rows))")
    (auto dest: delete_oldest_less)

declare evict_loop.simps [simp del]

record enqueued =
  en_seq :: int
  en_queued :: nat
  en_evicted :: "int list"
  en_dropped_total :: int

definition enqueue :: "inbox_limits \<Rightarrow> string \<Rightarrow> bytes \<Rightarrow> int \<Rightarrow> inbox_db
    \<Rightarrow> (inbox_error + enqueued) \<times> inbox_db" where
  "enqueue lim device payload now db =
     (let sz = length payload in
      if sz > lim_max_bytes lim then (Err (TooLarge device sz (lim_max_bytes lim)), db)
      else
        let (expired, db1) = sweep_locked now db;
            (queued0, bytes0) = totals_locked device (db_inbox db1);
            (rows, queued, bytes, evicted) =
              evict_loop lim device sz (db_inbox db1, queued0, bytes0, []);
            seq = next_seq_of device rows;
            row = \<lparr> ib_device = device, ib_seq = seq, ib_received_at_ms = now,
                    ib_expires_at_ms = now + lim_ttl_ms lim, ib_bytes = payload \<rparr>
        in if \<exists>r \<in> set rows. ib_device r = device \<and> ib_seq r = seq then (Err InboxSqlite, db)
           else
             let stats = stats_or_new device
                   \<lparr> is_dropped_total = int (length evicted), is_expired_total = int expired,
                     is_bytes = int (bytes + sz), is_queued = int (queued + 1),
                     is_dropped_reported = 0 \<rparr>
                   (\<lambda>s. s\<lparr>is_dropped_total := is_dropped_total s + int (length evicted),
                         is_bytes := int (bytes + sz), is_queued := int (queued + 1)\<rparr>)
                   (db_stats db1);
                 dropped_total = (case bt_get stats device of None \<Rightarrow> 0 | Some s \<Rightarrow> is_dropped_total s);
                 db2 = note_expiry expired (db1\<lparr>db_inbox := rows @ [row], db_stats := stats\<rparr>);
                 db3 = (if evicted \<noteq> [] then inbox_record
                     \<lparr> re_action = ''inbox.drop'', re_outcome = RelayOk, re_device = Some device,
                       re_detail = ''evicted '' @ show_nat (length evicted) @
                         '' oldest message(s): the queue is full'' \<rparr> db2 else db2)
             in (Ok \<lparr> en_seq = seq, en_queued = queued + 1, en_evicted = evicted,
                     en_dropped_total = dropped_total \<rparr>, db3))"

record drained =
  dr_messages :: "(u64 \<times> bytes) list"
  dr_raw :: "bytes list"
  dr_dropped :: nat
  dr_expired :: nat
  dr_next_seq :: u64
  dr_queued :: nat

definition waiting :: "string \<Rightarrow> u64 \<Rightarrow> nat \<Rightarrow> inbox_row list \<Rightarrow> inbox_row list" where
  "waiting device from_seq limit rows =
     take limit (sort_key ib_seq (filter (\<lambda>r. ib_seq r \<ge> sint from_seq) (rows_of device rows)))"

definition drain :: "string \<Rightarrow> u64 \<Rightarrow> nat \<Rightarrow> int \<Rightarrow> inbox_db \<Rightarrow> drained \<times> inbox_db" where
  "drain device from_seq limit now db =
     (let (expired, db1) = sweep_locked now db;
          messages = map (\<lambda>r. (word_of_int (ib_seq r), ib_bytes r)) (waiting device from_seq limit (db_inbox db1));
          raw = map snd messages;
          next_seq = (if messages = [] then from_seq else fst (last messages) + 1);
          (queued, bytes) = totals_locked device (db_inbox db1);
          (dropped_total, reported) = (case bt_get (db_stats db1) device of
              None \<Rightarrow> (0, 0) | Some s \<Rightarrow> (is_dropped_total s, is_dropped_reported s));
          dropped = nat (max (dropped_total - reported) 0);
          stats = stats_or_new device
            \<lparr> is_dropped_total = dropped_total, is_expired_total = 0, is_bytes = int bytes,
              is_queued = int queued, is_dropped_reported = dropped_total \<rparr>
            (\<lambda>s. s\<lparr>is_bytes := int bytes, is_queued := int queued, is_dropped_reported := dropped_total\<rparr>)
            (db_stats db1)
      in (\<lparr> dr_messages = messages, dr_raw = raw, dr_dropped = dropped, dr_expired = expired,
            dr_next_seq = next_seq, dr_queued = queued \<rparr>,
          note_expiry expired (db1\<lparr>db_stats := stats\<rparr>)))"

definition ack :: "string \<Rightarrow> u64 \<Rightarrow> inbox_db \<Rightarrow> nat \<times> inbox_db" where
  "ack device seq db =
     (let rows = filter (\<lambda>r. \<not> (ib_device r = device \<and> ib_seq r \<le> sint seq)) (db_inbox db);
          removed = length (db_inbox db) - length rows;
          (queued, bytes) = totals_locked device rows;
          stats = stats_or_new device
            \<lparr> is_dropped_total = 0, is_expired_total = 0, is_bytes = int bytes, is_queued = int queued,
              is_dropped_reported = 0 \<rparr>
            (\<lambda>s. s\<lparr>is_bytes := int bytes, is_queued := int queued\<rparr>) (db_stats db)
      in (removed, db\<lparr>db_inbox := rows, db_stats := stats\<rparr>))"

definition sweep :: "int \<Rightarrow> inbox_db \<Rightarrow> nat \<times> inbox_db" where
  "sweep now db = (let (expired, db1) = sweep_locked now db in (expired, note_expiry expired db1))"

record inbox_stats =
  st_queued :: nat
  st_bytes :: nat
  st_dropped_total :: nat
  st_expired_total :: nat

definition stats :: "string \<Rightarrow> inbox_db \<Rightarrow> inbox_stats" where
  "stats device db =
     (let (queued, bytes) = totals_locked device (db_inbox db);
          (dropped_total, expired_total) = (case bt_get (db_stats db) device of
              None \<Rightarrow> (0, 0) | Some s \<Rightarrow> (is_dropped_total s, is_expired_total s))
      in \<lparr> st_queued = queued, st_bytes = bytes, st_dropped_total = nat (max dropped_total 0),
           st_expired_total = nat (max expired_total 0) \<rparr>)"

end
