(* ===== verification/Relay_Inbox_Facts.thy ===== *)
theory Relay_Inbox_Facts
  imports Relay_Inbox
begin

text \<open>
  The invariant of the inbox and what each operation does to the counters, followed by the
  properties. An execution is a sequence of operations with their outputs; the ledger of a device
  (accepted, acknowledged, dropped, reported) is read off the outputs.
\<close>

section \<open>Rows\<close>

definition keys_distinct :: "inbox_row list \<Rightarrow> bool" where
  "keys_distinct rows \<longleftrightarrow> distinct (map (\<lambda>r. (ib_device r, ib_seq r)) rows)"

lemma keys_distinct_filter: "keys_distinct rows \<Longrightarrow> keys_distinct (filter P rows)"
  by (simp add: keys_distinct_def distinct_map_filter)

lemma keys_distinct_delete: "keys_distinct rows \<Longrightarrow> keys_distinct (delete_row d s rows)"
  by (simp add: delete_row_def keys_distinct_filter)

lemma seqs_distinct: "keys_distinct rows \<Longrightarrow> distinct (map ib_seq (rows_of d rows))"
  by (auto simp: keys_distinct_def rows_of_def distinct_map inj_on_def)

lemma delete_one:
  assumes "distinct (map ib_seq rs)" and "r \<in> set rs"
  shows "length (filter (\<lambda>x. ib_seq x \<noteq> ib_seq r) rs) = length rs - 1"
    and "row_bytes (filter (\<lambda>x. ib_seq x \<noteq> ib_seq r) rs) = row_bytes rs - length (ib_bytes r)"
    and "length (ib_bytes r) \<le> row_bytes rs"
proof -
  obtain xs ys where rs: "rs = xs @ r # ys" using split_list [OF assms(2)] by blast
  have "filter (\<lambda>x. ib_seq x \<noteq> ib_seq r) rs = xs @ ys"
  proof -
    have "\<forall>x \<in> set xs. ib_seq x \<noteq> ib_seq r" "\<forall>x \<in> set ys. ib_seq x \<noteq> ib_seq r"
      using assms(1) unfolding rs by (auto simp: image_iff)
    then have "filter (\<lambda>x. ib_seq x \<noteq> ib_seq r) xs = xs" "filter (\<lambda>x. ib_seq x \<noteq> ib_seq r) ys = ys"
      by (simp_all add: filter_True)
    then show ?thesis by (simp add: rs)
  qed
  then show "length (filter (\<lambda>x. ib_seq x \<noteq> ib_seq r) rs) = length rs - 1"
    "row_bytes (filter (\<lambda>x. ib_seq x \<noteq> ib_seq r) rs) = row_bytes rs - length (ib_bytes r)"
    "length (ib_bytes r) \<le> row_bytes rs"
    by (simp_all add: rs row_bytes_def)
qed

lemma oldest_None: "oldest_locked d rows = None \<longleftrightarrow> rows_of d rows = []"
  by (auto simp: oldest_locked_def split: list.splits) (metis set_empty set_sort)

lemma evict_loop_spec:
  assumes "evict_loop lim d sz (rows, q, b, ev) = (rows', q', b', ev')"
    and "keys_distinct rows" and "q = length (rows_of d rows)" and "b = row_bytes (rows_of d rows)"
    and "1 \<le> lim_max_messages lim" and "sz \<le> lim_max_bytes lim"
  shows "keys_distinct rows' \<and> q' = length (rows_of d rows') \<and> b' = row_bytes (rows_of d rows') \<and>
     length ev' + q' = length ev + q \<and> (\<forall>e. e \<noteq> d \<longrightarrow> rows_of e rows' = rows_of e rows) \<and>
     set rows' \<subseteq> set rows \<and> q' + 1 \<le> lim_max_messages lim \<and> b' + sz \<le> lim_max_bytes lim"
  using assms
proof (induction lim d sz "(rows, q, b, ev)" arbitrary: rows q b ev rule: evict_loop.induct)
  case (1 lim d sz rows q b ev)
  show ?case
  proof (cases "q + 1 > lim_max_messages lim \<or> b + sz > lim_max_bytes lim")
    case full: True
    show ?thesis
    proof (cases "oldest_locked d rows")
      case None
      then have "rows_of d rows = []" by (simp add: oldest_None)
      with full 1 show ?thesis by (auto simp: row_bytes_def)
    next
      case (Some p)
      obtain s len where p: "p = (s, len)" by force
      obtain r where r: "r \<in> set (rows_of d rows)" "ib_seq r = s" "length (ib_bytes r) = len"
        using oldest_row Some p by blast
      have del: "rows_of d (delete_row d s rows) = filter (\<lambda>x. ib_seq x \<noteq> ib_seq r) (rows_of d rows)"
        by (simp add: rows_of_delete_row r(2))
      note one = delete_one [OF seqs_distinct [OF 1(3)] r(1)]
      have step: "evict_loop lim d sz (delete_row d s rows, q - 1, b - len, ev @ [s]) = (rows', q', b', ev')"
        using 1(2) full Some p by (simp add: evict_loop.simps [of lim d sz rows])
      have "q - 1 = length (rows_of d (delete_row d s rows))"
        "b - len = row_bytes (rows_of d (delete_row d s rows))" "1 \<le> q"
        unfolding del using one 1(4,5) r by (auto simp: Suc_le_eq intro: length_pos_if_in_set)
      moreover have "set (delete_row d s rows) \<subseteq> set rows" by (auto simp: delete_row_def)
      ultimately show ?thesis
        using 1(1) [OF full Some p [symmetric] step keys_distinct_delete [OF 1(3)] _ _ 1(6,7)]
        by (auto simp: rows_of_delete_row)
    qed
  next
    case False
    with 1(2) have "(rows', q', b', ev') = (rows, q, b, ev)" by (simp add: evict_loop.simps)
    with False 1 show ?thesis by simp
  qed
qed

lemma fold_max_int_ge: "x \<le> fold max xs (x :: int) \<and> (\<forall>y \<in> set xs. y \<le> fold max xs x)"
proof (induction xs arbitrary: x)
  case (Cons y xs)
  from Cons [of "max y x"] show ?case by (auto intro: order_trans)
qed simp

lemma next_seq_greater: "r \<in> set rows \<Longrightarrow> ib_device r = d \<Longrightarrow> ib_seq r < next_seq_of d rows"
proof -
  assume "r \<in> set rows" "ib_device r = d"
  then have "ib_seq r \<in> set (map ib_seq (rows_of d rows))" by (simp add: rows_of_def)
  then obtain s ss where ss: "map ib_seq (rows_of d rows) = s # ss"
    by (cases "map ib_seq (rows_of d rows)") auto
  then have "ib_seq r \<le> fold max ss s"
    using \<open>ib_seq r \<in> _\<close> fold_max_int_ge [of s ss] by auto
  then show ?thesis by (simp add: next_seq_of_def ss)
qed

section \<open>Statistics\<close>

definition dropped_of :: "string \<Rightarrow> (string, inbox_stats_row) btree \<Rightarrow> int" where
  "dropped_of d t = (case bt_get t d of None \<Rightarrow> 0 | Some s \<Rightarrow> is_dropped_total s)"

definition reported_of :: "string \<Rightarrow> (string, inbox_stats_row) btree \<Rightarrow> int" where
  "reported_of d t = (case bt_get t d of None \<Rightarrow> 0 | Some s \<Rightarrow> is_dropped_reported s)"

lemma stats_or_new_get:
  "bt_inv t \<Longrightarrow> bt_get (stats_or_new d f u t) e =
     (if e = d then Some (case bt_get t d of None \<Rightarrow> f | Some s \<Rightarrow> u s) else bt_get t e)"
  by (simp add: stats_or_new_def bt_get_insert)

lemma stats_or_new_inv: "bt_inv t \<Longrightarrow> bt_inv (stats_or_new d f u t)"
  by (simp add: stats_or_new_def bt_inv_insert)

lemma bump_expired_facts:
  assumes "bt_inv t"
  shows "bt_inv (bump_expired d n t)"
    and "dropped_of e (bump_expired d n t) = dropped_of e t + (if e = d then int n else 0)"
    and "reported_of e (bump_expired d n t) = reported_of e t"
  using assms
  by (auto simp: bump_expired_def stats_or_new_inv dropped_of_def reported_of_def stats_or_new_get
      split: option.splits)

lemma fold_bump_facts:
  assumes "bt_inv t" and "distinct ds"
  shows "bt_inv (fold (\<lambda>d. bump_expired d (n d)) ds t)"
    and "dropped_of e (fold (\<lambda>d. bump_expired d (n d)) ds t) =
       dropped_of e t + (if e \<in> set ds then int (n e) else 0)"
    and "reported_of e (fold (\<lambda>d. bump_expired d (n d)) ds t) = reported_of e t"
  using assms
  by (induction ds arbitrary: t) (auto simp: bump_expired_facts)

section \<open>The invariant\<close>

definition limits_ok :: "inbox_limits \<Rightarrow> bool" where
  "limits_ok lim \<longleftrightarrow> 1 \<le> lim_max_messages lim"

definition inbox_inv :: "inbox_limits \<Rightarrow> inbox_db \<Rightarrow> bool" where
  "inbox_inv lim db \<longleftrightarrow> keys_distinct (db_inbox db) \<and> bt_inv (db_stats db) \<and>
     (\<forall>r \<in> set (db_inbox db). 1 \<le> ib_seq r) \<and>
     (\<forall>d. length (rows_of d (db_inbox db)) \<le> lim_max_messages lim \<and>
          row_bytes (rows_of d (db_inbox db)) \<le> lim_max_bytes lim)"

definition empty_inbox :: inbox_db where
  "empty_inbox = \<lparr> db_inbox = [], db_stats = [], db_audit = [] \<rparr>"

lemma rows_of_filter: "rows_of d (filter P rows) = filter P (rows_of d rows)"
  by (simp add: rows_of_def conj_commute)

lemma row_bytes_filter: "row_bytes (filter P rs) \<le> row_bytes rs"
  by (induction rs) (auto simp: row_bytes_def)

lemma inbox_inv_filter:
  assumes "inbox_inv lim db" and "bt_inv t"
  shows "inbox_inv lim (db\<lparr>db_inbox := filter P (db_inbox db), db_stats := t\<rparr>)"
  using assms
  by (auto simp: inbox_inv_def keys_distinct_filter rows_of_filter
      intro: order_trans [OF length_filter_le] order_trans [OF row_bytes_filter])

lemma note_expiry_simps [simp]:
  "db_inbox (note_expiry n db) = db_inbox db" "db_stats (note_expiry n db) = db_stats db"
  by (simp_all add: note_expiry_def inbox_record_def)

lemma inbox_inv_note [simp]: "inbox_inv lim (note_expiry n db) = inbox_inv lim db"
  by (simp add: inbox_inv_def)

lemma inbox_inv_record [simp]: "inbox_inv lim (inbox_record e db) = inbox_inv lim db"
  by (simp add: inbox_inv_def inbox_record_def)

lemma sweep_locked_facts:
  assumes "inbox_inv lim db" and "sweep_locked now db = (n, db1)"
  shows "inbox_inv lim db1"
    and "db_inbox db1 = filter (\<lambda>r. now < ib_expires_at_ms r) (db_inbox db)"
    and "dropped_of d (db_stats db1) + int (length (rows_of d (db_inbox db1))) =
       dropped_of d (db_stats db) + int (length (rows_of d (db_inbox db)))"
    and "reported_of d (db_stats db1) = reported_of d (db_stats db)"
proof -
  let ?gone = "expired_rows now (db_inbox db)"
  let ?ds = "remdups (map ib_device ?gone)"
  have t: "bt_inv (db_stats db)" using assms(1) by (simp add: inbox_inv_def)
  have fold: "fold (\<lambda>(d, n). bump_expired d n) (map (\<lambda>d. (d, length (rows_of d ?gone))) ?ds) (db_stats db) =
      fold (\<lambda>d. bump_expired d (length (rows_of d ?gone))) ?ds (db_stats db)"
    by (simp add: fold_map comp_def)
  have db1: "db1 = db\<lparr>db_inbox := filter (\<lambda>r. now < ib_expires_at_ms r) (db_inbox db),
      db_stats := fold (\<lambda>d. bump_expired d (length (rows_of d ?gone))) ?ds (db_stats db)\<rparr>"
    using assms(2) unfolding sweep_locked_def Let_def fold by (auto simp: not_le)
  note facts = fold_bump_facts [OF t distinct_remdups [of "map ib_device ?gone"], where n = "\<lambda>d. length (rows_of d ?gone)"]
  show "inbox_inv lim db1" unfolding db1 using inbox_inv_filter [OF assms(1) facts(1)] .
  show "db_inbox db1 = filter (\<lambda>r. now < ib_expires_at_ms r) (db_inbox db)" by (simp add: db1)
  show "reported_of d (db_stats db1) = reported_of d (db_stats db)" by (simp add: db1 facts(3))
  have "rows_of d ?gone = []" if "d \<notin> set (map ib_device ?gone)"
    using that by (auto simp: rows_of_def filter_empty_conv)
  then have "dropped_of d (db_stats db1) = dropped_of d (db_stats db) + int (length (rows_of d ?gone))"
    by (auto simp: db1 facts(2))
  moreover have "length (rows_of d ?gone) + length (rows_of d (db_inbox db1)) = length (rows_of d (db_inbox db))"
    using sum_length_filter_compl [of "\<lambda>r. now < ib_expires_at_ms r" "rows_of d (db_inbox db)"]
    by (simp add: db1 expired_rows_def rows_of_filter not_less)
  ultimately show "dropped_of d (db_stats db1) + int (length (rows_of d (db_inbox db1))) =
       dropped_of d (db_stats db) + int (length (rows_of d (db_inbox db)))" by simp
qed

section \<open>Executions\<close>

datatype inbox_op =
    OpEnqueue string bytes int
  | OpDrain string u64 nat int
  | OpAck string u64
  | OpSweep int

datatype inbox_out =
    OutEnqueue string "inbox_error + enqueued"
  | OutDrain string drained
  | OutAck string nat
  | OutSweep nat

fun inbox_step :: "inbox_limits \<Rightarrow> inbox_op \<Rightarrow> inbox_db \<Rightarrow> inbox_out \<times> inbox_db" where
  "inbox_step lim (OpEnqueue d p now) db = (let (r, db') = enqueue lim d p now db in (OutEnqueue d r, db'))"
| "inbox_step lim (OpDrain d s n now) db = (let (r, db') = drain d s n now db in (OutDrain d r, db'))"
| "inbox_step lim (OpAck d s) db = (let (n, db') = ack d s db in (OutAck d n, db'))"
| "inbox_step lim (OpSweep now) db = (let (n, db') = sweep now db in (OutSweep n, db'))"

fun inbox_run :: "inbox_limits \<Rightarrow> inbox_op list \<Rightarrow> inbox_db \<Rightarrow> inbox_out list \<times> inbox_db" where
  "inbox_run lim [] db = ([], db)"
| "inbox_run lim (op # ops) db =
     (let (out, db1) = inbox_step lim op db; (outs, db2) = inbox_run lim ops db1 in (out # outs, db2))"

text \<open>The ledger of device \<open>d\<close>: messages accepted, acknowledged, and reported as dropped.\<close>

fun accepted :: "string \<Rightarrow> inbox_out \<Rightarrow> nat" where
  "accepted d (OutEnqueue e (Ok r)) = (if e = d then 1 else 0)"
| "accepted d _ = 0"

fun acknowledged :: "string \<Rightarrow> inbox_out \<Rightarrow> nat" where
  "acknowledged d (OutAck e n) = (if e = d then n else 0)"
| "acknowledged d _ = 0"

fun reported :: "string \<Rightarrow> inbox_out \<Rightarrow> nat" where
  "reported d (OutDrain e r) = (if e = d then dr_dropped r else 0)"
| "reported d _ = 0"

definition queued_of :: "string \<Rightarrow> inbox_db \<Rightarrow> int" where
  "queued_of d db = int (length (rows_of d (db_inbox db)))"

text \<open>
  One step keeps the books: what a device is owed (queued, or dropped and not yet reported) changes
  by exactly what the step's output says. \<open>reported_of\<close> never passes \<open>dropped_of\<close>.
\<close>

definition books_ok :: "(string, inbox_stats_row) btree \<Rightarrow> bool" where
  "books_ok t \<longleftrightarrow> (\<forall>d. reported_of d t \<le> dropped_of d t)"

definition balanced :: "inbox_limits \<Rightarrow> inbox_db \<Rightarrow> inbox_out \<Rightarrow> inbox_db \<Rightarrow> bool" where
  "balanced lim db out db' \<longleftrightarrow> inbox_inv lim db' \<and> books_ok (db_stats db') \<and> (\<forall>d.
     queued_of d db' + dropped_of d (db_stats db') + int (acknowledged d out) =
       queued_of d db + dropped_of d (db_stats db) + int (accepted d out) \<and>
     reported_of d (db_stats db') = reported_of d (db_stats db) + int (reported d out))"

lemma dropped_of_stats_or_new:
  "bt_inv t \<Longrightarrow> dropped_of e (stats_or_new d f u t) =
     (if e = d then is_dropped_total (case bt_get t d of None \<Rightarrow> f | Some s \<Rightarrow> u s) else dropped_of e t)"
  by (simp add: dropped_of_def stats_or_new_get)

lemma reported_of_stats_or_new:
  "bt_inv t \<Longrightarrow> reported_of e (stats_or_new d f u t) =
     (if e = d then is_dropped_reported (case bt_get t d of None \<Rightarrow> f | Some s \<Rightarrow> u s) else reported_of e t)"
  by (simp add: reported_of_def stats_or_new_get)

lemma rows_of_append: "rows_of d (xs @ ys) = rows_of d xs @ rows_of d ys"
  by (simp add: rows_of_def)

lemma sweep_dropped_mono:
  assumes "inbox_inv lim db" and "sweep_locked now db = (n, db1)"
  shows "dropped_of d (db_stats db) \<le> dropped_of d (db_stats db1)"
proof -
  have "length (rows_of d (db_inbox db1)) \<le> length (rows_of d (db_inbox db))"
    unfolding sweep_locked_facts(2) [OF assms] by (simp add: rows_of_filter)
  then show ?thesis using sweep_locked_facts(3) [OF assms, of d] by linarith
qed

lemma balanced_sweep:
  assumes "inbox_inv lim db" and "books_ok (db_stats db)"
  shows "balanced lim db (OutSweep (fst (sweep now db))) (snd (sweep now db))"
proof -
  obtain n db1 where s: "sweep_locked now db = (n, db1)" by force
  show ?thesis
    using sweep_locked_facts [OF assms(1) s] sweep_dropped_mono [OF assms(1) s] assms(2)
    by (auto simp: balanced_def sweep_def s queued_of_def books_ok_def algebra_simps intro: order_trans)
qed

lemma balanced_ack:
  assumes "inbox_inv lim db" and "books_ok (db_stats db)"
  shows "balanced lim db (OutAck e (fst (ack e s db))) (snd (ack e s db))"
proof -
  let ?P = "\<lambda>r. \<not> (ib_device r = e \<and> ib_seq r \<le> sint s)"
  let ?rows = "filter ?P (db_inbox db)"
  have t: "bt_inv (db_stats db)" using assms(1) by (simp add: inbox_inv_def)
  have len: "length (db_inbox db) - length ?rows = length (rows_of e (db_inbox db)) - length (rows_of e ?rows)"
  proof -
    have "length (filter (\<lambda>r. \<not> ?P r) (db_inbox db)) = length (filter (\<lambda>r. \<not> ?P r) (rows_of e (db_inbox db)))"
      by (simp add: rows_of_def)
    then show ?thesis
      using sum_length_filter_compl [of ?P "db_inbox db"] sum_length_filter_compl [of ?P "rows_of e (db_inbox db)"]
      by (simp add: rows_of_filter)
  qed
  have le: "length (rows_of d ?rows) \<le> length (rows_of d (db_inbox db))" for d
    by (simp add: rows_of_filter)
  have other: "rows_of d ?rows = rows_of d (db_inbox db)" if "d \<noteq> e" for d
    unfolding rows_of_filter using that by (intro filter_True) (auto simp: rows_of_def)
  define u where "u = stats_or_new e
      \<lparr> is_dropped_total = 0, is_expired_total = 0, is_bytes = int (row_bytes (rows_of e ?rows)),
        is_queued = int (length (rows_of e ?rows)), is_dropped_reported = 0 \<rparr>
      (\<lambda>s. s\<lparr>is_bytes := int (row_bytes (rows_of e ?rows)), is_queued := int (length (rows_of e ?rows))\<rparr>)
      (db_stats db)"
  have ack: "ack e s db = (length (db_inbox db) - length ?rows, db\<lparr>db_inbox := ?rows, db_stats := u\<rparr>)"
    unfolding ack_def Let_def totals_locked_def prod.case u_def by (rule refl)
  have "inbox_inv lim (db\<lparr>db_inbox := ?rows, db_stats := u\<rparr>)"
    unfolding u_def by (rule inbox_inv_filter [OF assms(1) stats_or_new_inv [OF t]])
  moreover have drop: "dropped_of d u = dropped_of d (db_stats db)" "reported_of d u = reported_of d (db_stats db)" for d
    by (auto simp: u_def dropped_of_stats_or_new [OF t] reported_of_stats_or_new [OF t])
      (simp_all add: dropped_of_def reported_of_def split: option.split)
  moreover have "books_ok u" using assms(2) by (simp add: books_ok_def drop)
  moreover have "queued_of d (snd (ack e s db)) + int (acknowledged d (OutAck e (fst (ack e s db)))) =
      queued_of d db" for d
    unfolding ack fst_conv snd_conv acknowledged.simps queued_of_def len
    using le [of e] other [of d] by (cases "e = d") (simp_all del: not_all)
  ultimately show ?thesis
    unfolding balanced_def by (simp add: ack del: de_Morgan_conj)
qed

lemma inbox_inv_stats: "inbox_inv lim db \<Longrightarrow> bt_inv t \<Longrightarrow> inbox_inv lim (db\<lparr>db_stats := t\<rparr>)"
  by (simp add: inbox_inv_def)

lemma balanced_drain:
  assumes "inbox_inv lim db" and "books_ok (db_stats db)"
  shows "balanced lim db (OutDrain e (fst (drain e s k now db))) (snd (drain e s k now db))"
proof -
  obtain n db1 where sw: "sweep_locked now db = (n, db1)" by force
  note f = sweep_locked_facts [OF assms(1) sw] sweep_dropped_mono [OF assms(1) sw]
  have t: "bt_inv (db_stats db1)" using f(1) by (simp add: inbox_inv_def)
  have books: "books_ok (db_stats db1)"
    using assms(2) f(4,5) by (metis books_ok_def order_trans)
  define dt where "dt = dropped_of e (db_stats db1)"
  define rp where "rp = reported_of e (db_stats db1)"
  have dtrp: "(case bt_get (db_stats db1) e of None \<Rightarrow> (0, 0) | Some s \<Rightarrow> (is_dropped_total s, is_dropped_reported s)) = (dt, rp)"
    by (simp add: dt_def rp_def dropped_of_def reported_of_def split: option.split)
  obtain q b where qb: "totals_locked e (db_inbox db1) = (q, b)" by force
  define u where "u = stats_or_new e
            \<lparr> is_dropped_total = dt, is_expired_total = 0, is_bytes = int b,
              is_queued = int q, is_dropped_reported = dt \<rparr>
            (\<lambda>s. s\<lparr>is_bytes := int b, is_queued := int q, is_dropped_reported := dt\<rparr>) (db_stats db1)"
  have db': "db_inbox (snd (drain e s k now db)) = db_inbox db1" "db_stats (snd (drain e s k now db)) = u"
    "dr_dropped (fst (drain e s k now db)) = nat (max (dt - rp) 0)"
    unfolding drain_def Let_def sw qb prod.case dtrp u_def by simp_all
  have u_inv: "bt_inv u" unfolding u_def by (rule stats_or_new_inv [OF t])
  have inv: "inbox_inv lim (snd (drain e s k now db))"
    using f(1) u_inv by (simp add: inbox_inv_def db')
  have drop: "dropped_of d u = dropped_of d (db_stats db1)" for d
    by (auto simp: u_def dropped_of_stats_or_new [OF t] dt_def) (simp add: dropped_of_def split: option.split)
  have rep: "reported_of d u = (if d = e then dt else reported_of d (db_stats db1))" for d
    by (auto simp: u_def reported_of_stats_or_new [OF t] split: option.split)
  have "rp \<le> dt" using books by (simp add: books_ok_def dt_def rp_def)
  then have "reported_of d u = reported_of d (db_stats db) + int (if e = d then nat (max (dt - rp) 0) else 0)" for d
    using f(4) by (auto simp: rep rp_def)
  moreover have "books_ok u" using books by (auto simp: books_ok_def drop rep dt_def)
  ultimately show ?thesis
    using inv f(3) unfolding balanced_def db' by (simp add: queued_of_def db' drop algebra_simps)
qed

lemma next_seq_pos:
  assumes "\<forall>r \<in> set rows. 1 \<le> ib_seq r"
  shows "1 \<le> next_seq_of d rows"
proof (cases "rows_of d rows")
  case (Cons r rs)
  then have "r \<in> set rows" "ib_device r = d"
    using list.set_intros(1) [of r rs] unfolding Cons [symmetric] by (auto simp: rows_of_def)
  then show ?thesis using next_seq_greater [of r rows d] assms by force
qed (simp add: next_seq_of_def)

lemma balanced_enqueue:
  assumes "inbox_inv lim db" and "books_ok (db_stats db)" and "limits_ok lim"
  shows "balanced lim db (OutEnqueue e (fst (enqueue lim e p now db))) (snd (enqueue lim e p now db))"
proof (cases "length p > lim_max_bytes lim")
  case True
  then show ?thesis using assms by (simp add: enqueue_def balanced_def)
next
  case small: False
  obtain n db1 where sw: "sweep_locked now db = (n, db1)" by force
  note f = sweep_locked_facts [OF assms(1) sw] sweep_dropped_mono [OF assms(1) sw]
  have t: "bt_inv (db_stats db1)" using f(1) by (simp add: inbox_inv_def)
  have books: "books_ok (db_stats db1)"
    using assms(2) f(4,5) by (metis books_ok_def order_trans)
  obtain rows q b ev where ev: "evict_loop lim e (length p)
      (db_inbox db1, length (rows_of e (db_inbox db1)), row_bytes (rows_of e (db_inbox db1)), []) = (rows, q, b, ev)"
    by (metis prod_cases4)
  have inv1: "keys_distinct (db_inbox db1)" "\<forall>r \<in> set (db_inbox db1). 1 \<le> ib_seq r"
    "\<forall>d. length (rows_of d (db_inbox db1)) \<le> lim_max_messages lim \<and> row_bytes (rows_of d (db_inbox db1)) \<le> lim_max_bytes lim"
    using f(1) by (auto simp: inbox_inv_def)
  have E: "keys_distinct rows" "q = length (rows_of e rows)" "b = row_bytes (rows_of e rows)"
    "length ev + q = length (rows_of e (db_inbox db1))" "\<And>d. d \<noteq> e \<Longrightarrow> rows_of d rows = rows_of d (db_inbox db1)"
    "set rows \<subseteq> set (db_inbox db1)" "q + 1 \<le> lim_max_messages lim" "b + length p \<le> lim_max_bytes lim"
    using evict_loop_spec [OF ev inv1(1)] assms(3) small by (auto simp: limits_ok_def)
  define row where "row = \<lparr> ib_device = e, ib_seq = next_seq_of e rows, ib_received_at_ms = now,
      ib_expires_at_ms = now + lim_ttl_ms lim, ib_bytes = p \<rparr>"
  have fresh: "\<not> (\<exists>r \<in> set rows. ib_device r = e \<and> ib_seq r = next_seq_of e rows)"
    using next_seq_greater [of _ rows e] by fastforce
  define u where "u = stats_or_new e
                   \<lparr> is_dropped_total = int (length ev), is_expired_total = int n,
                     is_bytes = int (b + length p), is_queued = int (q + 1), is_dropped_reported = 0 \<rparr>
                   (\<lambda>s. s\<lparr>is_dropped_total := is_dropped_total s + int (length ev),
                         is_bytes := int (b + length p), is_queued := int (q + 1)\<rparr>)
                   (db_stats db1)"
  have u_inv: "bt_inv u" unfolding u_def by (rule stats_or_new_inv [OF t])
  let ?r = "enqueue lim e p now db"
  have db': "db_inbox (snd ?r) = rows @ [row]" "db_stats (snd ?r) = u" "\<exists>x. fst ?r = Ok x"
    unfolding enqueue_def Let_def sw totals_locked_def prod.case ev
    using small fresh by (auto simp: row_def inbox_record_def u_def)
  have drop: "dropped_of d u = dropped_of d (db_stats db1) + (if d = e then int (length ev) else 0)" for d
    by (auto simp: u_def dropped_of_stats_or_new [OF t]) (simp add: dropped_of_def split: option.split)
  have rep: "reported_of d u = reported_of d (db_stats db1)" for d
    by (auto simp: u_def reported_of_stats_or_new [OF t]) (simp add: reported_of_def split: option.split)
  have pos: "\<forall>r \<in> set (rows @ [row]). 1 \<le> ib_seq r"
    using E(6) inv1(2) next_seq_pos [of rows e] by (auto simp: row_def)
  have kd: "keys_distinct (rows @ [row])"
    using E(1) fresh by (auto simp: keys_distinct_def row_def)
  have of_e: "rows_of e (rows @ [row]) = rows_of e rows @ [row]"
    and of_d: "d \<noteq> e \<Longrightarrow> rows_of d (rows @ [row]) = rows_of d (db_inbox db1)" for d
    using E(5) by (auto simp: rows_of_append) (simp_all add: rows_of_def row_def)
  have "length (rows_of d (rows @ [row])) \<le> lim_max_messages lim \<and>
      row_bytes (rows_of d (rows @ [row])) \<le> lim_max_bytes lim" for d
    using of_e of_d [of d] inv1(3) E(2,3,7,8) by (cases "d = e") (auto simp: row_bytes_def row_def)
  then have "inbox_inv lim (snd ?r)"
    using kd pos u_inv unfolding inbox_inv_def db' by blast
  moreover have "books_ok u" using books by (auto simp: books_ok_def drop rep intro: order_trans)
  moreover have "queued_of d (snd ?r) + dropped_of d u =
      queued_of d db + dropped_of d (db_stats db) + (if d = e then 1 else 0)" for d
    using f(3) [of d] of_e of_d [of d] E(2,4) by (cases "d = e") (auto simp: queued_of_def db' drop)
  ultimately show ?thesis
    using db'(3) f(4) unfolding balanced_def db'(2) rep by auto
qed

lemma balanced_step:
  assumes "inbox_inv lim db" and "books_ok (db_stats db)" and "limits_ok lim"
  shows "balanced lim db (fst (inbox_step lim op db)) (snd (inbox_step lim op db))"
  using balanced_enqueue [OF assms] balanced_drain [OF assms(1,2)] balanced_ack [OF assms(1,2)]
    balanced_sweep [OF assms(1,2)]
  by (cases op) (auto simp: split_beta Let_def)

end
