(* ===== verification/Relay_Inbox_Properties.thy ===== *)
theory Relay_Inbox_Properties
  imports Relay_Inbox_Facts "HOL-Library.Multiset"
begin

text \<open>
  The properties of the inbox: the ledger over whole executions, the queue of a device as a list, and
  what happens to the sequence numbers when a queue runs empty.
\<close>

section \<open>The queue of a device\<close>

text \<open>The abstraction: what waits for a device, oldest first.\<close>

definition queue_of :: "string \<Rightarrow> inbox_row list \<Rightarrow> inbox_row list" where
  "queue_of d rows = sort_key ib_seq (rows_of d rows)"

lemma queue_of_distinct: "keys_distinct rows \<Longrightarrow> distinct (map ib_seq (queue_of d rows))"
proof -
  assume "keys_distinct rows"
  then have "distinct (map ib_seq (rows_of d rows))" by (rule seqs_distinct)
  moreover have "mset (map ib_seq (queue_of d rows)) = mset (map ib_seq (rows_of d rows))"
    by (simp add: queue_of_def)
  ultimately show ?thesis by (metis mset_eq_imp_distinct_iff)
qed

lemma queue_of_filter: "queue_of d (filter P rows) = filter P (queue_of d rows)"
  by (simp add: queue_of_def rows_of_filter filter_sort)

lemma queue_of_delete:
  assumes "keys_distinct rows" and "queue_of d rows = r # rs"
  shows "queue_of d (delete_row d (ib_seq r) rows) = rs"
proof -
  have "queue_of d (delete_row d (ib_seq r) rows) = filter (\<lambda>x. ib_seq x \<noteq> ib_seq r) (queue_of d rows)"
    by (simp add: queue_of_def rows_of_delete_row filter_sort)
  moreover have "filter (\<lambda>x. ib_seq x \<noteq> ib_seq r) rs = rs"
    using queue_of_distinct [OF assms(1), of d] assms(2) by (intro filter_True) (auto simp: image_iff)
  ultimately show ?thesis by (simp add: assms(2))
qed

lemma evict_loop_queue:
  assumes "evict_loop lim d sz (rows, q, b, ev) = (rows', q', b', ev')" and "keys_distinct rows"
  shows "\<exists>k. queue_of d rows' = drop k (queue_of d rows) \<and> ev' = ev @ map ib_seq (take k (queue_of d rows))"
  using assms
proof (induction lim d sz "(rows, q, b, ev)" arbitrary: rows q b ev rule: evict_loop.induct)
  case (1 lim d sz rows q b ev)
  show ?case
  proof (cases "q + 1 > lim_max_messages lim \<or> b + sz > lim_max_bytes lim")
    case full: True
    show ?thesis
    proof (cases "queue_of d rows")
      case Nil
      then have "oldest_locked d rows = None" by (simp add: oldest_locked_def queue_of_def)
      with 1(2) full have "(rows', q', b', ev') = (rows, q, b, ev)" by (simp add: evict_loop.simps)
      then show ?thesis by (intro exI [of _ 0]) simp
    next
      case (Cons r rs)
      then have old: "oldest_locked d rows = Some (ib_seq r, length (ib_bytes r))"
        by (simp add: oldest_locked_def queue_of_def)
      have "evict_loop lim d sz (delete_row d (ib_seq r) rows, q - 1, b - length (ib_bytes r), ev @ [ib_seq r]) =
          (rows', q', b', ev')"
        using 1(2) full old by (simp add: evict_loop.simps [of lim d sz rows])
      then obtain k where "queue_of d rows' = drop k rs" "ev' = (ev @ [ib_seq r]) @ map ib_seq (take k rs)"
        using 1(1) [OF full old refl _ keys_distinct_delete [OF 1(3)]] queue_of_delete [OF 1(3) Cons] by auto
      then show ?thesis using Cons by (intro exI [of _ "Suc k"]) simp
    qed
  next
    case False
    with 1(2) have "(rows', q', b', ev') = (rows, q, b, ev)" by (simp add: evict_loop.simps)
    then show ?thesis by (intro exI [of _ 0]) simp
  qed
qed

lemma insort_end: "\<forall>x \<in> set xs. f x < f y \<Longrightarrow> insort_key f y xs = xs @ [y]" for f :: "'a \<Rightarrow> 'b :: linorder"
  by (induction xs) auto

lemma queue_of_snoc:
  assumes "\<forall>r \<in> set rows. ib_device r = d \<longrightarrow> ib_seq r < ib_seq row" and "ib_device row = d"
  shows "queue_of d (rows @ [row]) = queue_of d rows @ [row]"
proof -
  have "queue_of d (rows @ [row]) = insort_key ib_seq row (queue_of d rows)"
  proof (rule sym, unfold queue_of_def, rule properties_for_sort_key [THEN sym])
    show "mset (insort_key ib_seq row (sort_key ib_seq (rows_of d rows))) = mset (rows_of d (rows @ [row]))"
      using assms(2) by (simp add: rows_of_append rows_of_def)
    show "sorted (map ib_seq (insort_key ib_seq row (sort_key ib_seq (rows_of d rows))))"
      by (simp add: sorted_insort_key)
    fix k
    assume "k \<in> set (insort_key ib_seq row (sort_key ib_seq (rows_of d rows)))"
    have ins: "insort_key ib_seq row (sort_key ib_seq (rows_of d rows)) = sort_key ib_seq (rows_of d rows) @ [row]"
      using assms(1) by (intro insort_end) (auto simp: rows_of_def)
    show "filter (\<lambda>x. ib_seq k = ib_seq x) (insort_key ib_seq row (sort_key ib_seq (rows_of d rows))) =
        filter (\<lambda>x. ib_seq k = ib_seq x) (rows_of d (rows @ [row]))"
    proof -
      have "filter (\<lambda>x. ib_seq k = ib_seq x) (sort_key ib_seq (rows_of d rows)) =
          filter (\<lambda>x. ib_seq k = ib_seq x) (rows_of d rows)"
        using sort_key_stable [of ib_seq "ib_seq k" "rows_of d rows"] by (simp add: eq_commute)
      moreover have "rows_of d (rows @ [row]) = rows_of d rows @ [row]"
        using assms(2) by (simp add: rows_of_def)
      ultimately show ?thesis unfolding ins by (simp only: filter_append)
    qed
  qed
  also have "\<dots> = queue_of d rows @ [row]"
    using assms(1) by (intro insort_end) (auto simp: queue_of_def rows_of_def)
  finally show ?thesis .
qed

section \<open>Properties\<close>

lemma inbox_run_ledger:
  assumes "inbox_run lim ops db = (outs, db')" and "inbox_inv lim db" and "books_ok (db_stats db)" and "limits_ok lim"
  shows "inbox_inv lim db' \<and> books_ok (db_stats db') \<and> (\<forall>d.
     queued_of d db' + dropped_of d (db_stats db') + int (sum_list (map (acknowledged d) outs)) =
       queued_of d db + dropped_of d (db_stats db) + int (sum_list (map (accepted d) outs)) \<and>
     reported_of d (db_stats db') = reported_of d (db_stats db) + int (sum_list (map (reported d) outs)))"
  using assms
proof (induction ops arbitrary: db outs)
  case (Cons op ops)
  obtain out db1 where st: "inbox_step lim op db = (out, db1)" by force
  obtain outs2 where run: "inbox_run lim ops db1 = (outs2, db')" "outs = out # outs2"
    using Cons.prems(1) st by (auto split: prod.splits)
  have "balanced lim db out db1" using balanced_step [OF Cons.prems(2-4), of op] st by simp
  then have b: "inbox_inv lim db1" "books_ok (db_stats db1)"
    "queued_of d db1 + dropped_of d (db_stats db1) + int (acknowledged d out) =
       queued_of d db + dropped_of d (db_stats db) + int (accepted d out)"
    "reported_of d (db_stats db1) = reported_of d (db_stats db) + int (reported d out)" for d
    by (auto simp: balanced_def)
  note IH = Cons.IH [OF run(1) b(1,2) Cons.prems(4)]
  show ?case
  proof (intro conjI allI)
    fix d
    show "queued_of d db' + dropped_of d (db_stats db') + int (sum_list (map (acknowledged d) outs)) =
       queued_of d db + dropped_of d (db_stats db) + int (sum_list (map (accepted d) outs))"
      using IH [THEN conjunct2, THEN conjunct2, rule_format, of d] b(3) [of d] unfolding run(2) by simp
    show "reported_of d (db_stats db') = reported_of d (db_stats db) + int (sum_list (map (reported d) outs))"
      using IH b(4) [of d] unfolding run(2) by simp
  qed (use IH in blast)+
qed simp

lemma drain_catches_up:
  assumes "inbox_inv lim db"
  shows "reported_of d (db_stats (snd (drain d s k now db))) = dropped_of d (db_stats (snd (drain d s k now db)))"
proof -
  obtain n db1 where sw: "sweep_locked now db = (n, db1)" by force
  have t: "bt_inv (db_stats db1)"
    using sweep_locked_facts(1) [OF assms sw] by (simp add: inbox_inv_def)
  show ?thesis
    by (auto simp: drain_def Let_def sw dropped_of_stats_or_new [OF t] reported_of_stats_or_new [OF t]
        split: prod.splits option.splits)
qed

lemma empty_inbox_inv [simp]: "inbox_inv lim empty_inbox" "books_ok (db_stats empty_inbox)"
  by (simp_all add: inbox_inv_def empty_inbox_def keys_distinct_def rows_of_def row_bytes_def
      books_ok_def reported_of_def dropped_of_def)

text \<open>
  C6. A drop is never silent. After any sequence of enqueues, drains, acknowledgements and sweeps on a
  fresh inbox, every device is inside both of its bounds, and its books balance: each message accepted
  for it is still queued, was acknowledged, or is counted as dropped; and with its next drain the device
  has been told of every drop exactly once.
\<close>

theorem inbox_ledger:
  assumes "limits_ok lim" and "inbox_run lim ops empty_inbox = (outs, db)"
  shows "st_queued (stats d db) \<le> lim_max_messages lim \<and> st_bytes (stats d db) \<le> lim_max_bytes lim \<and>
     sum_list (map (accepted d) outs) =
       st_queued (stats d db) + sum_list (map (acknowledged d) outs) + st_dropped_total (stats d db) \<and>
     sum_list (map (reported d) outs) + dr_dropped (fst (drain d s k now db)) =
       st_dropped_total (stats d (snd (drain d s k now db)))"
proof -
  note run = inbox_run_ledger [OF assms(2) empty_inbox_inv assms(1)]
  have inv: "inbox_inv lim db" "books_ok (db_stats db)"
    and bal: "queued_of d db + dropped_of d (db_stats db) + int (sum_list (map (acknowledged d) outs)) =
      int (sum_list (map (accepted d) outs))"
    and rep: "reported_of d (db_stats db) = int (sum_list (map (reported d) outs))"
    using run by (auto simp: empty_inbox_def queued_of_def rows_of_def dropped_of_def reported_of_def)
  have st: "int (st_dropped_total (stats d x)) = max (dropped_of d (db_stats x)) 0"
    "st_queued (stats d x) = length (rows_of d (db_inbox x))" "st_bytes (stats d x) = row_bytes (rows_of d (db_inbox x))" for x
    by (auto simp: stats_def Let_def totals_locked_def dropped_of_def split: option.splits)
  have nn: "0 \<le> dropped_of d (db_stats db)"
    using inv(2) rep by (metis books_ok_def of_nat_0_le_iff order_trans)
  let ?db' = "snd (drain d s k now db)"
  have "balanced lim db (OutDrain d (fst (drain d s k now db))) ?db'"
    by (rule balanced_drain [OF inv])
  then have "reported_of d (db_stats ?db') = reported_of d (db_stats db) + int (dr_dropped (fst (drain d s k now db)))"
    by (simp add: balanced_def)
  then have "int (st_dropped_total (stats d ?db')) =
      int (sum_list (map (reported d) outs)) + int (dr_dropped (fst (drain d s k now db)))"
    using rep drain_catches_up [OF inv(1), of d s k now] by (simp add: st)
  moreover have "int (st_dropped_total (stats d db)) = dropped_of d (db_stats db)" using nn by (simp add: st)
  ultimately show ?thesis
    using inv(1) bal unfolding st(2,3) by (auto simp: inbox_inv_def queued_of_def)
qed

definition demo_limits :: inbox_limits where
  "demo_limits = \<lparr> lim_ttl_ms = 100, lim_max_messages = 1, lim_max_bytes = 10 \<rparr>"

lemma demo_limits_simps [simp]:
  "limits_ok demo_limits" "lim_max_messages demo_limits = 1" "lim_max_bytes demo_limits = 10" "lim_ttl_ms demo_limits = 100"
  by (simp_all add: limits_ok_def demo_limits_def)

theorem inbox_ledger_witness:
  "\<exists>outs db. inbox_run demo_limits [OpEnqueue ''a'' [1] 0, OpEnqueue ''a'' [2] 5] empty_inbox = (outs, db) \<and>
     st_queued (stats ''a'' db) \<le> 1 \<and> sum_list (map (accepted ''a'') outs) =
       st_queued (stats ''a'' db) + sum_list (map (acknowledged ''a'') outs) + st_dropped_total (stats ''a'' db)"
proof -
  obtain outs db where run: "inbox_run demo_limits [OpEnqueue ''a'' [1] 0, OpEnqueue ''a'' [2] 5] empty_inbox = (outs, db)"
    by force
  then show ?thesis using inbox_ledger [of demo_limits _ outs db "''a''" 0 0 0] by (simp del: inbox_run.simps)
qed

abbreviation unexpired :: "int \<Rightarrow> inbox_row \<Rightarrow> bool" where
  "unexpired now r \<equiv> now < ib_expires_at_ms r"

lemma enqueue_Ok_parts:
  assumes "enqueue lim d p now db = (Ok r, db')" and "sweep_locked now db = (n, db1)"
  obtains rows q b ev row where
    "evict_loop lim d (length p)
      (db_inbox db1, length (rows_of d (db_inbox db1)), row_bytes (rows_of d (db_inbox db1)), []) = (rows, q, b, ev)"
    "db_inbox db' = rows @ [row]" "row = \<lparr> ib_device = d, ib_seq = next_seq_of d rows, ib_received_at_ms = now,
      ib_expires_at_ms = now + lim_ttl_ms lim, ib_bytes = p \<rparr>"
    "en_seq r = next_seq_of d rows" "en_evicted r = ev" "length p \<le> lim_max_bytes lim" "en_queued r = q + 1"
  using assms
  by (auto simp: enqueue_def Let_def totals_locked_def inbox_record_def split: if_splits prod.splits)

text \<open>
  C31. The table is a first-in first-out queue per device: an accepted message goes behind everything
  still waiting for its device, what had to make room is a run of the oldest messages and is reported
  with its sequence numbers, and no other device loses anything but what had expired.
\<close>

theorem enqueue_is_fifo:
  assumes "inbox_inv lim db" and "limits_ok lim" and "enqueue lim d p now db = (Ok r, db')"
  shows "\<exists>k row. queue_of d (db_inbox db') = drop k (filter (unexpired now) (queue_of d (db_inbox db))) @ [row] \<and>
     en_evicted r = map ib_seq (take k (filter (unexpired now) (queue_of d (db_inbox db)))) \<and>
     ib_bytes row = p \<and> ib_seq row = en_seq r \<and> ib_expires_at_ms row = now + lim_ttl_ms lim \<and>
     (\<forall>e. e \<noteq> d \<longrightarrow> queue_of e (db_inbox db') = filter (unexpired now) (queue_of e (db_inbox db)))"
proof -
  obtain n db1 where sw: "sweep_locked now db = (n, db1)" by force
  note f = sweep_locked_facts(1,2) [OF assms(1) sw]
  have kd: "keys_distinct (db_inbox db1)" using f(1) by (simp add: inbox_inv_def)
  have q1: "queue_of e (db_inbox db1) = filter (unexpired now) (queue_of e (db_inbox db))" for e
    by (simp add: f(2) queue_of_filter)
  obtain rows q b ev row where ev: "evict_loop lim d (length p)
      (db_inbox db1, length (rows_of d (db_inbox db1)), row_bytes (rows_of d (db_inbox db1)), []) = (rows, q, b, ev)"
    and db': "db_inbox db' = rows @ [row]" and row: "row = \<lparr> ib_device = d, ib_seq = next_seq_of d rows, ib_received_at_ms = now,
      ib_expires_at_ms = now + lim_ttl_ms lim, ib_bytes = p \<rparr>"
    and r: "en_seq r = next_seq_of d rows" "en_evicted r = ev" "length p \<le> lim_max_bytes lim"
    using enqueue_Ok_parts [OF assms(3) sw] by metis
  obtain k where k: "queue_of d rows = drop k (queue_of d (db_inbox db1))" "ev = map ib_seq (take k (queue_of d (db_inbox db1)))"
    using evict_loop_queue [OF ev kd] by auto
  have other: "rows_of e rows = rows_of e (db_inbox db1)" if "e \<noteq> d" for e
    using evict_loop_spec [OF ev kd refl refl _ r(3)] assms(2) that by (auto simp: limits_ok_def)
  have "queue_of e (rows @ [row]) = queue_of e (db_inbox db1)" if "e \<noteq> d" for e
    using other [OF that] that by (simp add: queue_of_def rows_of_append) (simp add: rows_of_def row)
  moreover have "queue_of d (rows @ [row]) = queue_of d rows @ [row]"
    by (rule queue_of_snoc) (auto simp: row next_seq_greater)
  ultimately show ?thesis
    using k r unfolding db' q1 by (intro exI [of _ k] exI [of _ row]) (simp add: row)
qed

lemma enqueue_succeeds:
  assumes "inbox_inv lim db" and "limits_ok lim" and "length p \<le> lim_max_bytes lim"
  shows "\<exists>r db'. enqueue lim d p now db = (Ok r, db')"
proof -
  obtain n db1 where sw: "sweep_locked now db = (n, db1)" by force
  obtain rows q b ev where ev: "evict_loop lim d (length p)
      (db_inbox db1, length (rows_of d (db_inbox db1)), row_bytes (rows_of d (db_inbox db1)), []) = (rows, q, b, ev)"
    by (metis prod_cases4)
  have "\<not> (\<exists>r \<in> set rows. ib_device r = d \<and> ib_seq r = next_seq_of d rows)"
    using next_seq_greater [of _ rows d] by fastforce
  then show ?thesis
    unfolding enqueue_def Let_def sw totals_locked_def prod.case ev using assms(3) by auto
qed

theorem enqueue_is_fifo_witness:
  "\<exists>r db' k row. enqueue demo_limits ''a'' [2] 5 empty_inbox = (Ok r, db') \<and>
     queue_of ''a'' (db_inbox db') = drop k (filter (unexpired 5) (queue_of ''a'' (db_inbox empty_inbox))) @ [row] \<and>
     ib_bytes row = [2]"
proof -
  obtain r db' where "enqueue demo_limits ''a'' [2] 5 empty_inbox = (Ok r, db')"
    using enqueue_succeeds [of demo_limits empty_inbox "[2]" "''a''" 5] by auto
  then show ?thesis using enqueue_is_fifo [of demo_limits empty_inbox "''a''" "[2]" 5 r db'] by auto
qed

lemma drain_parts:
  "dr_messages (fst (drain d c k now db)) = map (\<lambda>r. (word_of_int (ib_seq r), ib_bytes r))
     (take k (filter (\<lambda>r. sint c \<le> ib_seq r) (filter (unexpired now) (queue_of d (db_inbox db)))))"
  "dr_raw (fst (drain d c k now db)) = map snd (dr_messages (fst (drain d c k now db)))"
  "db_inbox (snd (drain d c k now db)) = filter (unexpired now) (db_inbox db)"
proof -
  obtain n db1 where sw: "sweep_locked now db = (n, db1)" by force
  then have rows: "db_inbox db1 = filter (unexpired now) (db_inbox db)"
    by (auto simp: sweep_locked_def Let_def not_le)
  have parts: "dr_messages (fst (drain d c k now db)) =
      map (\<lambda>r. (word_of_int (ib_seq r), ib_bytes r)) (waiting d c k (db_inbox db1))"
    "dr_raw (fst (drain d c k now db)) = map snd (dr_messages (fst (drain d c k now db)))"
    "db_inbox (snd (drain d c k now db)) = db_inbox db1"
    by (simp_all add: drain_def Let_def sw split: prod.splits)
  have "waiting d c k (db_inbox db1) = take k (filter (\<lambda>r. sint c \<le> ib_seq r) (queue_of d (db_inbox db1)))"
    by (simp add: waiting_def queue_of_def filter_sort)
  then show "dr_messages (fst (drain d c k now db)) = map (\<lambda>r. (word_of_int (ib_seq r), ib_bytes r))
     (take k (filter (\<lambda>r. sint c \<le> ib_seq r) (filter (unexpired now) (queue_of d (db_inbox db)))))"
    unfolding parts by (simp only: rows queue_of_filter)
  show "dr_raw (fst (drain d c k now db)) = map snd (dr_messages (fst (drain d c k now db)))"
    "db_inbox (snd (drain d c k now db)) = filter (unexpired now) (db_inbox db)"
    using parts rows by simp_all
qed

lemma ack_inv: "inbox_inv lim db \<Longrightarrow> inbox_inv lim (snd (ack d s db))"
  unfolding ack_def Let_def totals_locked_def prod.case snd_conv
  by (rule inbox_inv_filter [OF _ stats_or_new_inv]) (auto simp: inbox_inv_def)

text \<open>
  A drain hands out, in ascending order and without holes, the unexpired messages of the device from
  the cursor on, at most \<open>limit\<close> of them, as the bytes that were enqueued; and it removes nothing that has
  not expired, so a consumer that dies before it acknowledges is served the same messages again.
\<close>

theorem drain_in_order:
  assumes "inbox_inv lim db"
  shows "dr_messages (fst (drain d c k now db)) = map (\<lambda>r. (word_of_int (ib_seq r), ib_bytes r))
       (take k (filter (\<lambda>r. sint c \<le> ib_seq r) (filter (unexpired now) (queue_of d (db_inbox db))))) \<and>
     dr_raw (fst (drain d c k now db)) = map snd (dr_messages (fst (drain d c k now db))) \<and>
     sorted_wrt (<) (map ib_seq (queue_of d (db_inbox db))) \<and>
     (\<forall>e. queue_of e (db_inbox (snd (drain d c k now db))) = filter (unexpired now) (queue_of e (db_inbox db)))"
proof -
  have "sorted_wrt (<) (map ib_seq (queue_of d (db_inbox db)))"
    using queue_of_distinct [of "db_inbox db" d] assms by (simp add: inbox_inv_def strict_sorted_iff queue_of_def)
  then show ?thesis by (simp add: drain_parts queue_of_filter)
qed

theorem drain_in_order_witness:
  "dr_raw (fst (drain ''a'' 1 10 5 empty_inbox)) = map snd (dr_messages (fst (drain ''a'' 1 10 5 empty_inbox)))"
  using drain_in_order [of demo_limits empty_inbox "''a''" 1 10 5] by simp

text \<open>
  The sequence numbers are not monotonic: once a device has acknowledged everything it was sent, the
  next message for it is number 1 again, and a consumer that resumes from its cursor, as \<open>next_seq\<close> told
  it to, is never handed that message.
\<close>

theorem seq_restarts_after_ack:
  assumes "inbox_inv lim db" and "limits_ok lim" and "length p \<le> lim_max_bytes lim"
    and "\<forall>r \<in> set (rows_of d (db_inbox db)). ib_seq r \<le> sint s" and "1 < sint c"
  shows "\<exists>r db'. enqueue lim d p now (snd (ack d s db)) = (Ok r, db') \<and> en_seq r = 1 \<and> en_queued r = 1 \<and>
     dr_messages (fst (drain d c k later db')) = []"
proof -
  let ?a = "snd (ack d s db)"
  have inv: "inbox_inv lim ?a" by (rule ack_inv [OF assms(1)])
  have "rows_of d (db_inbox ?a) = []"
    using assms(4) by (auto simp: ack_def Let_def totals_locked_def rows_of_def filter_empty_conv)
  moreover obtain n db1 where sw: "sweep_locked now ?a = (n, db1)" by force
  ultimately have none: "rows_of d (db_inbox db1) = []"
    by (simp add: sweep_locked_facts(2) [OF inv sw] rows_of_filter)
  obtain r db' where en: "enqueue lim d p now ?a = (Ok r, db')"
    using enqueue_succeeds [OF inv assms(2,3)] by blast
  obtain rows q b ev row where ev: "evict_loop lim d (length p)
      (db_inbox db1, length (rows_of d (db_inbox db1)), row_bytes (rows_of d (db_inbox db1)), []) = (rows, q, b, ev)"
    and db': "db_inbox db' = rows @ [row]" and row: "row = \<lparr> ib_device = d, ib_seq = next_seq_of d rows, ib_received_at_ms = now,
      ib_expires_at_ms = now + lim_ttl_ms lim, ib_bytes = p \<rparr>"
    and r: "en_seq r = next_seq_of d rows" "en_queued r = q + 1"
    using enqueue_Ok_parts [OF en sw] by metis
  have kd: "keys_distinct (db_inbox db1)"
    using sweep_locked_facts(1) [OF inv sw] by (simp add: inbox_inv_def)
  have "q = length (rows_of d rows)" "length ev + q = 0"
    using evict_loop_spec [OF ev kd refl refl _ assms(3)] assms(2) none by (auto simp: limits_ok_def)
  then have rows: "rows_of d rows = []" "q = 0" by simp_all
  then have seq: "next_seq_of d rows = 1" by (simp add: next_seq_of_def)
  have "queue_of d (db_inbox db') = [row]"
    using rows by (simp add: db' queue_of_def rows_of_append) (simp add: rows_of_def row)
  then have "dr_messages (fst (drain d c k later db')) = []"
    using assms(5) by (simp add: drain_parts row seq)
  then show ?thesis using en r seq rows(2) by simp
qed

theorem seq_restarts_after_ack_witness:
  "\<exists>r db'. enqueue demo_limits ''a'' [2] 5 (snd (ack ''a'' 7 empty_inbox)) = (Ok r, db') \<and>
     en_seq r = 1 \<and> en_queued r = 1 \<and> dr_messages (fst (drain ''a'' 8 256 6 db')) = []"
proof (rule seq_restarts_after_ack [OF empty_inbox_inv(1)])
  show "\<forall>r \<in> set (rows_of ''a'' (db_inbox empty_inbox)). ib_seq r \<le> sint (7 :: u64)"
    by (simp add: empty_inbox_def rows_of_def)
qed simp_all

text \<open>
  Another device's losses on a new account: the first message for a device that has no counters yet
  writes the number of messages the sweep just expired, all of them other devices', into its own
  \<open>expired_total\<close>.
\<close>

theorem first_message_inherits_expiries:
  assumes "inbox_inv lim db" and "limits_ok lim" and "length p \<le> lim_max_bytes lim"
    and "bt_get (db_stats db) d = None" and "rows_of d (db_inbox db) = []"
  shows "\<exists>r db'. enqueue lim d p now db = (Ok r, db') \<and>
     st_expired_total (stats d db') = length (expired_rows now (db_inbox db))"
proof -
  obtain r db' where en: "enqueue lim d p now db = (Ok r, db')"
    using enqueue_succeeds [OF assms(1-3)] by blast
  obtain n db1 where sw: "sweep_locked now db = (n, db1)" by force
  let ?gone = "expired_rows now (db_inbox db)"
  have n: "n = length ?gone" using sw by (auto simp: sweep_locked_def Let_def)
  have "d \<notin> set (remdups (map ib_device ?gone))"
    using assms(5) by (auto simp: expired_rows_def rows_of_def filter_empty_conv)
  moreover have "bt_get (fold (\<lambda>(d, n). bump_expired d n) (map (\<lambda>d. (d, f d)) ds) t) d = bt_get t d"
    if "d \<notin> set ds" "bt_inv t" for ds f t
    using that
    by (induction ds arbitrary: t) (auto simp: bump_expired_facts bump_expired_def stats_or_new_get stats_or_new_inv)
  moreover have t: "bt_inv (db_stats db)" using assms(1) by (simp add: inbox_inv_def)
  ultimately have "bt_get (db_stats db1) d = None"
    using sw assms(4) by (auto simp: sweep_locked_def Let_def)
  moreover have "bt_inv (db_stats db1)" using sweep_locked_facts(1) [OF assms(1) sw] by (simp add: inbox_inv_def)
  ultimately have "\<exists>s. bt_get (db_stats db') d = Some s \<and> is_expired_total s = int n"
    using en sw by (auto simp: enqueue_def Let_def inbox_record_def stats_or_new_get split: if_splits prod.splits)
  then show ?thesis using en n by (auto simp: stats_def Let_def split: prod.splits)
qed

theorem first_message_inherits_expiries_witness:
  "\<exists>r db'. enqueue demo_limits ''b'' [2] 500
       (empty_inbox\<lparr>db_inbox := [\<lparr> ib_device = ''a'', ib_seq = 1, ib_received_at_ms = 0, ib_expires_at_ms = 100, ib_bytes = [1] \<rparr>]\<rparr>) = (Ok r, db') \<and>
     st_expired_total (stats ''b'' db') = 1"
proof -
  let ?db = "empty_inbox\<lparr>db_inbox := [\<lparr> ib_device = ''a'', ib_seq = 1, ib_received_at_ms = 0, ib_expires_at_ms = 100, ib_bytes = [1] \<rparr>]\<rparr>"
  have "\<exists>r db'. enqueue demo_limits ''b'' [2] 500 ?db = (Ok r, db') \<and>
     st_expired_total (stats ''b'' db') = length (expired_rows 500 (db_inbox ?db))"
    by (rule first_message_inherits_expiries)
      (auto simp: inbox_inv_def empty_inbox_def keys_distinct_def rows_of_def row_bytes_def)
  then show ?thesis by (simp add: expired_rows_def)
qed

end
