(* ===== verification/Text_Utf8.thy ===== *)
theory Text_Utf8
  imports Arreo_Prelude
begin

text \<open>
  What the code uses of the standard library on text beyond the prelude: the validity check of
  \<open>String::from_utf8\<close>, \<open>str::parse\<close> of unsigned numbers, and the splitting functions.
\<close>

section \<open>UTF-8\<close>

definition code_in :: "nat \<Rightarrow> nat \<Rightarrow> char \<Rightarrow> bool" where
  "code_in lo hi c \<longleftrightarrow> lo \<le> chcode c \<and> chcode c \<le> hi"

text \<open>The well-formed byte sequences of the Unicode standard: no overlong form, no surrogate.\<close>

definition utf8_second :: "char \<Rightarrow> char \<Rightarrow> bool" where
  "utf8_second a b = (if chcode a = 224 then code_in 160 191 b
     else if chcode a = 237 then code_in 128 159 b
     else if chcode a = 240 then code_in 144 191 b
     else if chcode a = 244 then code_in 128 143 b
     else code_in 128 191 b)"

fun valid_utf8 :: "string \<Rightarrow> bool" where
  "valid_utf8 [] = True"
| "valid_utf8 (a # s) =
     (if chcode a < 128 then valid_utf8 s
      else if code_in 194 223 a then
        (case s of b # s1 \<Rightarrow> code_in 128 191 b \<and> valid_utf8 s1 | _ \<Rightarrow> False)
      else if code_in 224 239 a then
        (case s of b # c # s1 \<Rightarrow> utf8_second a b \<and> code_in 128 191 c \<and> valid_utf8 s1 | _ \<Rightarrow> False)
      else if code_in 240 244 a then
        (case s of b # c # d # s1 \<Rightarrow> utf8_second a b \<and> code_in 128 191 c \<and> code_in 128 191 d \<and> valid_utf8 s1
         | _ \<Rightarrow> False)
      else False)"

declare valid_utf8.simps(2) [simp del]

lemma valid_utf8_ascii: "\<forall>c \<in> set s. chcode c < 128 \<Longrightarrow> valid_utf8 s"
  by (induction s) (auto simp: valid_utf8.simps(2))

text \<open>
  \<open>String::from_utf8_lossy\<close>: well-formed sequences are kept; every other maximal part of one becomes
  U+FFFD. \<open>utf8_step\<close> says whether a sequence starts here and how many bytes to take.
\<close>

definition utf8_step :: "char \<Rightarrow> string \<Rightarrow> bool \<times> nat" where
  "utf8_step a s =
     (if chcode a < 128 then (True, 1)
      else if code_in 194 223 a then
        (case s of b # _ \<Rightarrow> if code_in 128 191 b then (True, 2) else (False, 1) | [] \<Rightarrow> (False, 1))
      else if code_in 224 239 a then
        (case s of
           b # s1 \<Rightarrow> if utf8_second a b then
             (case s1 of c # _ \<Rightarrow> if code_in 128 191 c then (True, 3) else (False, 2) | [] \<Rightarrow> (False, 2))
             else (False, 1)
         | [] \<Rightarrow> (False, 1))
      else if code_in 240 244 a then
        (case s of
           b # s1 \<Rightarrow> if utf8_second a b then
             (case s1 of
                c # s2 \<Rightarrow> if code_in 128 191 c then
                  (case s2 of d # _ \<Rightarrow> if code_in 128 191 d then (True, 4) else (False, 3) | [] \<Rightarrow> (False, 3))
                  else (False, 2)
              | [] \<Rightarrow> (False, 2))
             else (False, 1)
         | [] \<Rightarrow> (False, 1))
      else (False, 1))"

definition REPLACEMENT :: string where
  "REPLACEMENT = [CHR 0xEF, CHR 0xBF, CHR 0xBD]"

lemma utf8_step_pos: "0 < snd (utf8_step a s)"
  by (simp add: utf8_step_def split: list.split)

function utf8_lossy :: "string \<Rightarrow> string" where
  "utf8_lossy [] = []"
| "utf8_lossy (a # s) = (case utf8_step a s of (ok, n) \<Rightarrow>
     (if ok then take n (a # s) else REPLACEMENT) @ utf8_lossy (drop n (a # s)))"
  by pat_completeness auto
termination
proof (relation "measure length")
  fix a s and ok :: bool and n
  assume "(ok, n) = utf8_step a s"
  then have "0 < n" using utf8_step_pos [of a s] by (metis snd_conv)
  then show "(drop n (a # s), a # s) \<in> measure length" by simp
qed simp

declare utf8_lossy.simps(2) [simp del]

lemma utf8_lossy_valid: "valid_utf8 (utf8_lossy s)"
proof (induction s rule: utf8_lossy.induct)
  case (2 a s)
  obtain ok n where step: "utf8_step a s = (ok, n)" by fastforce
  note IH = "2.IH" [OF step [symmetric]]
  show ?case
  proof (cases ok)
    case False
    then show ?thesis
      using step IH by (simp add: utf8_lossy.simps(2) REPLACEMENT_def valid_utf8.simps(2) code_in_def chcode_def utf8_second_def)
  next
    case True
    then have "valid_utf8 (take n (a # s) @ t) = valid_utf8 t" for t
      using step by (auto simp: utf8_step_def valid_utf8.simps(2) code_in_def split: list.splits if_splits)
    with True step IH show ?thesis by (simp add: utf8_lossy.simps(2))
  qed
qed simp

lemma utf8_lossy_ascii: "\<forall>c \<in> set s. chcode c < 128 \<Longrightarrow> utf8_lossy s = s"
  by (induction s) (auto simp: utf8_lossy.simps(2) utf8_step_def)

section \<open>Numbers\<close>

text \<open>
  \<open>str::parse::<uN>\<close>: one leading \<open>+\<close> is accepted, a lone sign and the empty text are not, and a value
  above the greatest one is an error.
\<close>

fun dec_number :: "nat \<Rightarrow> nat \<Rightarrow> string \<Rightarrow> nat option" where
  "dec_number greatest acc [] = Some acc"
| "dec_number greatest acc (c # s) =
     (if is_ascii_digit c then
        (let v = 10 * acc + (chcode c - 48) in if greatest < v then None else dec_number greatest v s)
      else None)"

definition parse_unsigned :: "nat \<Rightarrow> string \<Rightarrow> nat option" where
  "parse_unsigned greatest s = (case s of
      [] \<Rightarrow> None
    | [c] \<Rightarrow> if c = CHR ''+'' \<or> c = CHR ''-'' then None else dec_number greatest 0 s
    | c # r \<Rightarrow> dec_number greatest 0 (if c = CHR ''+'' then r else s))"

definition parse_u16 :: "string \<Rightarrow> nat option" where
  "parse_u16 s = parse_unsigned (2 ^ 16 - 1) s"

definition parse_u64 :: "string \<Rightarrow> nat option" where
  "parse_u64 s = parse_unsigned (2 ^ 64 - 1) s"

lemma dec_number_append:
  "dec_number g acc (s @ t) = (case dec_number g acc s of None \<Rightarrow> None | Some v \<Rightarrow> dec_number g v t)"
  by (induction s arbitrary: acc) (auto simp: Let_def)

lemma digit_char: "n < 10 \<Longrightarrow> is_ascii_digit (char_of (48 + n)) \<and> chcode (char_of (48 + n)) - 48 = n"
  by (simp add: is_ascii_digit_def)

lemma show_nat_ne: "show_nat n \<noteq> []"
  by (subst show_nat.simps) simp

lemma show_nat_all_digits: "\<forall>c \<in> set (show_nat n). is_ascii_digit c"
proof (induction n rule: show_nat.induct)
  case (1 n)
  then show ?case by (subst show_nat.simps) (auto simp: digit_char)
qed

lemma dec_number_show: "n \<le> g \<Longrightarrow> dec_number g 0 (show_nat n) = Some n"
proof (induction n rule: show_nat.induct)
  case (1 n)
  show ?case
  proof (cases "n < 10")
    case True
    then show ?thesis using 1(2) by (subst show_nat.simps) (simp add: digit_char)
  next
    case False
    have "n div 10 \<le> g" using 1(2) by linarith
    with False 1 have "dec_number g 0 (show_nat (n div 10)) = Some (n div 10)" by simp
    moreover have "10 * (n div 10) + n mod 10 = n" by simp
    ultimately show ?thesis
      using False 1(2) digit_char [of "n mod 10"] by (subst show_nat.simps) (simp add: dec_number_append)
  qed
qed

lemma parse_unsigned_show: "n \<le> g \<Longrightarrow> parse_unsigned g (show_nat n) = Some n"
proof -
  assume n: "n \<le> g"
  obtain c r where cr: "show_nat n = c # r" using show_nat_ne [of n] by (cases "show_nat n") auto
  have "is_ascii_digit c" using show_nat_all_digits [of n] cr by simp
  then have "c \<noteq> CHR ''+'' \<and> c \<noteq> CHR ''-''" by (auto simp: is_ascii_digit_def chcode_def)
  then show ?thesis using dec_number_show [OF n] cr by (cases r) (auto simp: parse_unsigned_def)
qed

section \<open>Splitting\<close>

text \<open>\<open>str::split(c)\<close>, \<open>str::split_once(c)\<close> and \<open>str::rsplit_once(c)\<close> with a one-byte pattern.\<close>

fun split_on :: "char \<Rightarrow> string \<Rightarrow> string list" where
  "split_on c [] = [[]]"
| "split_on c (x # s) =
     (if x = c then [] # split_on c s
      else case split_on c s of [] \<Rightarrow> [[x]] | w # ws \<Rightarrow> (x # w) # ws)"

definition split_once :: "char \<Rightarrow> string \<Rightarrow> (string \<times> string) option" where
  "split_once c s = (case dropWhile (\<lambda>x. x \<noteq> c) s of [] \<Rightarrow> None | _ # v \<Rightarrow> Some (takeWhile (\<lambda>x. x \<noteq> c) s, v))"

definition rsplit_once :: "char \<Rightarrow> string \<Rightarrow> (string \<times> string) option" where
  "rsplit_once c s = (case split_once c (rev s) of None \<Rightarrow> None | Some (k, v) \<Rightarrow> Some (rev v, rev k))"

lemma split_on_ne: "split_on c s \<noteq> []"
  by (induction s) (auto split: list.splits)

lemma split_on_plain: "c \<notin> set w \<Longrightarrow> split_on c w = [w]"
  by (induction w) auto

lemma split_on_append: "c \<notin> set w \<Longrightarrow> split_on c (w @ c # s) = w # split_on c s"
proof (induction w)
  case (Cons x w)
  then show ?case using split_on_ne [of c s] by auto
qed simp

lemma split_once_eq: "c \<notin> set k \<Longrightarrow> split_once c (k @ c # v) = Some (k, v)"
  by (induction k) (auto simp: split_once_def split: list.splits)

lemma split_once_Some: "split_once c s = Some (k, v) \<Longrightarrow> s = k @ c # v \<and> c \<notin> set k"
proof -
  assume h: "split_once c s = Some (k, v)"
  then obtain d where d: "dropWhile (\<lambda>x. x \<noteq> c) s = d # v" and k: "k = takeWhile (\<lambda>x. x \<noteq> c) s"
    by (auto simp: split_once_def split: list.splits)
  have "d = c" using hd_dropWhile [of "\<lambda>x. x \<noteq> c" s] d by simp
  moreover have "s = k @ d # v" using takeWhile_dropWhile_id [of "\<lambda>x. x \<noteq> c" s] d k by simp
  ultimately show ?thesis using k by (auto dest: set_takeWhileD)
qed

section \<open>Bytes\<close>

text \<open>\<open>str::as_bytes\<close>.\<close>

definition as_bytes :: "string \<Rightarrow> bytes" where
  "as_bytes s = map (\<lambda>c. of_nat (chcode c)) s"

lemma byte_chcode: "char_of (unat (of_nat (chcode b) :: byte)) = b"
proof -
  have "unat (of_nat (chcode b) :: byte) = chcode b" by (simp add: unat_of_nat)
  then show ?thesis by (simp add: chcode_def)
qed

lemma as_bytes_inject: "as_bytes s = as_bytes t \<longleftrightarrow> s = t"
proof -
  have "inj (\<lambda>c. of_nat (chcode c) :: byte)"
    by (rule injI) (metis byte_chcode)
  then show ?thesis unfolding as_bytes_def by (simp add: inj_map_eq_map)
qed

text \<open>\<open>u32::to_le_bytes\<close> and its inverse.\<close>

definition to_le_bytes :: "nat \<Rightarrow> bytes" where
  "to_le_bytes n = [of_nat n, of_nat (n div 2 ^ 8), of_nat (n div 2 ^ 16), of_nat (n div 2 ^ 24)]"

definition from_le_bytes :: "bytes \<Rightarrow> nat" where
  "from_le_bytes bs = unat (bs ! 0) + 2 ^ 8 * unat (bs ! 1) + 2 ^ 16 * unat (bs ! 2) + 2 ^ 24 * unat (bs ! 3)"

lemma byte_of: "unat (of_nat n :: byte) = n mod 256"
  by (simp add: unat_of_nat)

lemma le_round_trip:
  assumes "n < 2 ^ 32"
  shows "from_le_bytes (to_le_bytes n @ rest) = n"
proof -
  have a: "n div 16777216 mod 256 = n div 16777216" using assms by simp
  have "n mod 256 + 256 * (n div 256 mod 256) + 65536 * (n div 65536 mod 256) + 16777216 * (n div 16777216 mod 256) = n"
  proof -
    have b: "n div 65536 = 256 * (n div 16777216) + n div 65536 mod 256"
      using div_mult_mod_eq [of "n div 65536" 256] by (simp add: div_mult2_eq [symmetric] mult.commute)
    have c: "n div 256 = 256 * (n div 65536) + n div 256 mod 256"
      using div_mult_mod_eq [of "n div 256" 256] by (simp add: div_mult2_eq [symmetric] mult.commute)
    have d: "n = 256 * (n div 256) + n mod 256" by simp
    show ?thesis using a b c d by linarith
  qed
  then show ?thesis using a by (simp add: from_le_bytes_def to_le_bytes_def byte_of)
qed

lemma length_le [simp]: "length (to_le_bytes n) = 4"
  by (simp add: to_le_bytes_def)

end
