(* ===== verification/Relay_Mailbox.thy ===== *)
theory Relay_Mailbox
  imports Text_Utf8
begin

text \<open>
  The pairing mailbox of the relay, \<open>crates/arreo-relay/src/pairing.rs\<close>, with its wire types from
  \<open>crates/arreo-core/src/pairing/wire.rs\<close>. An \<open>Instant\<close> is a number of nanoseconds; adding a
  \<open>Duration\<close> panics when the sum is not representable, so \<open>handle\<close> returns a \<open>run\<close>. The iteration
  order of the hash map of live sessions is an argument, \<open>order\<close>.
\<close>

datatype slot = SlotA | SlotB | SlotC | SlotD

datatype mailbox_request =
    Open string u64
  | Put string slot string
  | Get string slot
  | Burn string
  | Status string

record mailbox_response =
  mr_ok :: bool
  mr_payload :: "string option"
  mr_ttl_ms :: "u64 option"
  mr_error :: "string option"

definition response_ok :: mailbox_response where
  "response_ok = \<lparr> mr_ok = True, mr_payload = None, mr_ttl_ms = None, mr_error = None \<rparr>"

definition with_payload :: "string option \<Rightarrow> mailbox_response" where
  "with_payload p = \<lparr> mr_ok = True, mr_payload = p, mr_ttl_ms = None, mr_error = None \<rparr>"

definition with_ttl :: "u64 \<Rightarrow> mailbox_response" where
  "with_ttl t = \<lparr> mr_ok = True, mr_payload = None, mr_ttl_ms = Some t, mr_error = None \<rparr>"

definition response_error :: "string \<Rightarrow> mailbox_response" where
  "response_error m = \<lparr> mr_ok = False, mr_payload = None, mr_ttl_ms = None, mr_error = Some m \<rparr>"

definition MAX_REMEMBERED_BURNS :: nat where
  "MAX_REMEMBERED_BURNS = 4096"

definition MAX_FRAME_BYTES :: nat where
  "MAX_FRAME_BYTES = 64 * 1024"

text \<open>The last \<open>Instant\<close>: seconds are an \<open>i64\<close>, with nanoseconds below a second.\<close>

type_synonym instant = nat

definition INSTANT_MAX :: instant where
  "INSTANT_MAX = (2 ^ 63 - 1) * 1000000000 + 999999999"

definition instant_add_secs :: "instant \<Rightarrow> u64 \<Rightarrow> instant run" where
  "instant_add_secs t secs =
     (if t + unat secs * 1000000000 \<le> INSTANT_MAX then Returns (t + unat secs * 1000000000) else Panics)"

text \<open>\<open>[Option<Vec<u8>>; 4]\<close>, indexed by \<open>slot_index\<close>.\<close>

record session =
  se_slots :: "string option list"
  se_expires_at :: instant

definition slot_index :: "slot \<Rightarrow> nat" where
  "slot_index s = (case s of SlotA \<Rightarrow> 0 | SlotB \<Rightarrow> 1 | SlotC \<Rightarrow> 2 | SlotD \<Rightarrow> 3)"

record mailbox =
  mb_live :: "(string, session) btree"
  mb_used :: "(string, unit) btree"
  mb_used_order :: "string list"

definition mailbox_new :: mailbox where
  "mailbox_new = \<lparr> mb_live = [], mb_used = [], mb_used_order = [] \<rparr>"

text \<open>\<open>while used_order.len() > MAX\<close>: forget the oldest.\<close>

function forget_loop :: "string list \<Rightarrow> (string, unit) btree \<Rightarrow> string list \<times> (string, unit) btree" where
  "forget_loop ord used =
     (if length ord > MAX_REMEMBERED_BURNS then
        (case ord of [] \<Rightarrow> (ord, used) | oldest # rest \<Rightarrow> forget_loop rest (bt_remove oldest used))
      else (ord, used))"
  by pat_completeness auto
termination
  by (relation "measure (\<lambda>(ord, used). length ord)") auto

declare forget_loop.simps [simp del]

definition remember_used :: "string \<Rightarrow> mailbox \<Rightarrow> mailbox" where
  "remember_used s m =
     (case bt_get (mb_used m) s of
        Some _ \<Rightarrow> m
      | None \<Rightarrow>
          let (ord, used) = forget_loop (mb_used_order m @ [s]) (bt_insert s () (mb_used m))
          in m\<lparr>mb_used := used, mb_used_order := ord\<rparr>)"

definition expire :: "string \<Rightarrow> mailbox \<Rightarrow> mailbox" where
  "expire s m = remember_used s (m\<lparr>mb_live := bt_remove s (mb_live m)\<rparr>)"

definition mailbox_sweep :: "(string list \<Rightarrow> string list) \<Rightarrow> instant \<Rightarrow> mailbox \<Rightarrow> mailbox" where
  "mailbox_sweep order now m =
     (let expired = order (map fst (filter (\<lambda>(_, se). se_expires_at se \<le> now) (mb_live m)))
      in fold expire expired m)"

definition explain_missing :: "mailbox \<Rightarrow> string \<Rightarrow> string" where
  "explain_missing m s = (if bt_get (mb_used m) s \<noteq> None
     then ''session is no longer available (used or expired)'' else ''no such session'')"

definition handle_open :: "instant \<Rightarrow> string \<Rightarrow> u64 \<Rightarrow> mailbox \<Rightarrow> (mailbox_response \<times> mailbox) run" where
  "handle_open now s ttl m =
     (if bt_get (mb_live m) s \<noteq> None then Returns (response_error ''session is already open'', m)
      else if bt_get (mb_used m) s \<noteq> None then Returns (response_error ''session has already been used'', m)
      else if s = [] \<or> length s > 128 then Returns (response_error ''session id must be 1..=128 characters'', m)
      else case instant_add_secs now (max ttl 1) of
          Panics \<Rightarrow> Panics
        | Returns expires_at \<Rightarrow>
            Returns (response_ok, m\<lparr>mb_live := bt_insert s
              \<lparr> se_slots = [None, None, None, None], se_expires_at = expires_at \<rparr> (mb_live m)\<rparr>))"

definition handle_put :: "instant \<Rightarrow> string \<Rightarrow> slot \<Rightarrow> string \<Rightarrow> mailbox \<Rightarrow> mailbox_response \<times> mailbox" where
  "handle_put now s sl payload m =
     (if length payload > MAX_FRAME_BYTES then (response_error ''flight is too large'', m)
      else case bt_get (mb_live m) s of
          None \<Rightarrow> (response_error (explain_missing m s), m)
        | Some entry \<Rightarrow>
            if se_expires_at entry \<le> now then (response_error ''session has expired'', m)
            else if se_slots entry ! slot_index sl \<noteq> None
              then (response_error ''slot already holds a flight'', m)
            else (response_ok, m\<lparr>mb_live := bt_insert s
              (entry\<lparr>se_slots := (se_slots entry)[slot_index sl := Some payload]\<rparr>) (mb_live m)\<rparr>))"

text \<open>The stored bytes are those of a \<open>String\<close>, so \<open>from_utf8_lossy\<close> gives the string back.\<close>

definition handle_get :: "instant \<Rightarrow> string \<Rightarrow> slot \<Rightarrow> mailbox \<Rightarrow> mailbox_response" where
  "handle_get now s sl m =
     (case bt_get (mb_live m) s of
        None \<Rightarrow> response_error (explain_missing m s)
      | Some entry \<Rightarrow>
          if se_expires_at entry \<le> now then response_error ''session has expired''
          else with_payload (se_slots entry ! slot_index sl))"

definition handle_burn :: "string \<Rightarrow> mailbox \<Rightarrow> mailbox_response \<times> mailbox" where
  "handle_burn s m =
     (if bt_get (mb_live m) s \<noteq> None
        then (response_ok, remember_used s (m\<lparr>mb_live := bt_remove s (mb_live m)\<rparr>))
      else if bt_get (mb_used m) s \<noteq> None then (response_ok, m)
      else (response_error ''no such session'', m))"

definition handle_status :: "instant \<Rightarrow> string \<Rightarrow> mailbox \<Rightarrow> mailbox_response" where
  "handle_status now s m =
     (case bt_get (mb_live m) s of
        Some entry \<Rightarrow> with_ttl (of_nat ((se_expires_at entry - now) div 1000000))
      | None \<Rightarrow> response_error (explain_missing m s))"

definition handle :: "(string list \<Rightarrow> string list) \<Rightarrow> instant \<Rightarrow> mailbox_request \<Rightarrow> mailbox
    \<Rightarrow> (mailbox_response \<times> mailbox) run" where
  "handle order now request m0 =
     (let m = mailbox_sweep order now m0 in
      case request of
        Open s ttl \<Rightarrow> handle_open now s ttl m
      | Put s sl payload \<Rightarrow> Returns (handle_put now s sl payload m)
      | Get s sl \<Rightarrow> Returns (handle_get now s sl m, m)
      | Burn s \<Rightarrow> Returns (handle_burn s m)
      | Status s \<Rightarrow> Returns (handle_status now s m, m))"

text \<open>
  \<open>read_frame\<close>: bytes up to the first newline. What the stream holds is a list; its end is end of
  file. (A frame that is not UTF-8 is refused by \<open>String::from_utf8\<close>.)
\<close>

datatype frame_error = EndedWithoutNewline | FrameTooLarge | NotUtf8

fun read_frame_loop :: "string \<Rightarrow> string \<Rightarrow> frame_error + string option" where
  "read_frame_loop line [] = (if line = [] then Ok None else Err EndedWithoutNewline)"
| "read_frame_loop line (b # rest) =
     (if b = CHR 0x0A then Ok (Some line)
      else if length line \<ge> MAX_FRAME_BYTES then Err FrameTooLarge
      else read_frame_loop (line @ [b]) rest)"

definition read_frame :: "string \<Rightarrow> frame_error + string option" where
  "read_frame input = (case read_frame_loop [] input of
      Err e \<Rightarrow> Err e
    | Ok None \<Rightarrow> Ok None
    | Ok (Some line) \<Rightarrow> if valid_utf8 line then Ok (Some line) else Err NotUtf8)"

text \<open>
  \<open>serve_connection\<close>: one request, one reply. The JSON decoder and the printed forms of its errors and of
  the read errors are arguments; a reply that cannot be encoded or written is lost.
\<close>

definition serve_connection :: "(string \<Rightarrow> string + mailbox_request) \<Rightarrow> (frame_error \<Rightarrow> string)
    \<Rightarrow> (string list \<Rightarrow> string list) \<Rightarrow> instant \<Rightarrow> string \<Rightarrow> mailbox \<Rightarrow> (mailbox_response \<times> mailbox) run" where
  "serve_connection from_str show_error order now input m =
     (case read_frame input of
        Ok (Some line) \<Rightarrow> (case from_str line of
            Ok request \<Rightarrow> handle order now request m
          | Err e \<Rightarrow> Returns (response_error (''malformed request: '' @ e), m))
      | Ok None \<Rightarrow> Returns (response_error ''empty request'', m)
      | Err e \<Rightarrow> Returns (response_error (''cannot read request: '' @ show_error e), m))"

section \<open>The invariant\<close>

definition hash_order :: "(string list \<Rightarrow> string list) \<Rightarrow> bool" where
  "hash_order order \<longleftrightarrow> (\<forall>xs. set (order xs) = set xs \<and> length (order xs) = length xs)"

definition mailbox_inv :: "mailbox \<Rightarrow> bool" where
  "mailbox_inv m \<longleftrightarrow> bt_inv (mb_live m) \<and> bt_inv (mb_used m) \<and> distinct (mb_used_order m) \<and>
     set (mb_used_order m) = set (bt_keys (mb_used m)) \<and>
     length (mb_used_order m) \<le> MAX_REMEMBERED_BURNS \<and>
     (\<forall>s. bt_get (mb_live m) s \<noteq> None \<longrightarrow> bt_get (mb_used m) s = None) \<and>
     (\<forall>s se. bt_get (mb_live m) s = Some se \<longrightarrow> length (se_slots se) = 4)"

lemma unit_option_neq [simp]: "x \<noteq> Some () \<longleftrightarrow> x = None"
  by (cases x) auto

lemma slot_index_less [simp]: "slot_index s < 4"
  by (simp add: slot_index_def split: slot.split)

lemma slot_index_inject [simp]: "slot_index s = slot_index t \<longleftrightarrow> s = t"
  by (auto simp: slot_index_def split: slot.splits)

lemma forget_loop_eq:
  "forget_loop ord used =
     (drop (length ord - MAX_REMEMBERED_BURNS) ord,
      fold bt_remove (take (length ord - MAX_REMEMBERED_BURNS) ord) used)"
proof (induction ord used rule: forget_loop.induct)
  case (1 ord used)
  show ?case
  proof (cases "length ord > MAX_REMEMBERED_BURNS")
    case True
    then obtain x xs where "ord = x # xs" by (cases ord) auto
    with True 1 show ?thesis by (subst forget_loop.simps) (simp add: Suc_diff_le less_Suc_eq_le)
  next
    case False
    then show ?thesis by (subst forget_loop.simps) simp
  qed
qed

lemma fold_remove:
  "bt_inv t \<Longrightarrow> bt_inv (fold bt_remove xs t)"
  "bt_get (fold bt_remove xs t) k = (if k \<in> set xs then None else bt_get t k)"
  by (induction xs arbitrary: t) (auto simp: bt_inv_remove bt_get_remove)

lemma used_iff: "mailbox_inv m \<Longrightarrow> bt_get (mb_used m) s = None \<longleftrightarrow> s \<notin> set (mb_used_order m)"
  by (simp add: mailbox_inv_def bt_get_None_iff)

lemma set_drop_distinct: "distinct xs \<Longrightarrow> set (drop n xs) = set xs - set (take n xs)"
proof -
  assume d: "distinct xs"
  have "set (take n xs) \<inter> set (drop n xs) = {}" by (rule set_take_disj_set_drop_if_distinct [OF d order_refl])
  moreover have "set xs = set (take n xs) \<union> set (drop n xs)" by (metis append_take_drop_id set_append)
  ultimately show ?thesis by blast
qed

text \<open>The used ids after one more: the last \<open>MAX_REMEMBERED_BURNS\<close> of the extended list.\<close>

definition last_burns :: "string list \<Rightarrow> string list" where
  "last_burns ord = drop (length ord - MAX_REMEMBERED_BURNS) ord"

lemma remember_used_order:
  assumes "mailbox_inv m"
  shows "mb_used_order (remember_used s m) =
     (if s \<in> set (mb_used_order m) then mb_used_order m else last_burns (mb_used_order m @ [s]))"
    and "mb_live (remember_used s m) = mb_live m"
  using used_iff [OF assms, of s]
  by (auto simp: remember_used_def last_burns_def forget_loop_eq split: option.splits)

lemma last_burns_facts:
  assumes "distinct ord"
  shows "distinct (last_burns ord)" "set (last_burns ord) \<subseteq> set ord"
    "length (last_burns ord) \<le> MAX_REMEMBERED_BURNS" "ord \<noteq> [] \<Longrightarrow> last ord \<in> set (last_burns ord)"
proof -
  show "ord \<noteq> [] \<Longrightarrow> last ord \<in> set (last_burns ord)"
  proof -
    assume "ord \<noteq> []"
    then have less: "length ord - MAX_REMEMBERED_BURNS < length ord"
      by (cases ord) (simp_all add: MAX_REMEMBERED_BURNS_def)
    then have "last_burns ord \<noteq> []" by (simp add: last_burns_def)
    then show ?thesis using last_drop [OF less] last_in_set by (metis last_burns_def)
  qed
qed (use assms in \<open>auto simp: last_burns_def dest: in_set_dropD\<close>)

lemma mailbox_inv_remember:
  assumes inv: "mailbox_inv m" and dead: "bt_get (mb_live m) s = None"
  shows "mailbox_inv (remember_used s m)"
proof (cases "bt_get (mb_used m) s")
  case (Some u)
  then show ?thesis using inv by (simp add: remember_used_def)
next
  case None
  let ?ord = "mb_used_order m @ [s]"
  let ?n = "length ?ord - MAX_REMEMBERED_BURNS"
  let ?used = "fold bt_remove (take ?n ?ord) (bt_insert s () (mb_used m))"
  have m': "remember_used s m = m\<lparr>mb_used := ?used, mb_used_order := drop ?n ?ord\<rparr>"
    using None by (simp add: remember_used_def forget_loop_eq)
  have t: "bt_inv (mb_used m)" "distinct ?ord"
    using inv None used_iff [OF inv, of s] by (auto simp: mailbox_inv_def)
  have get: "bt_get ?used k = (if k \<in> set (take ?n ?ord) then None else if k = s then Some () else bt_get (mb_used m) k)" for k
    using t(1) by (simp add: fold_remove bt_get_insert)
  define T D where "T = take ?n ?ord" and "D = drop ?n ?ord"
  have D: "set D = set ?ord - set T" unfolding T_def D_def by (rule set_drop_distinct [OF t(2)])
  have "k \<in> set D \<longleftrightarrow> k \<in> set (bt_keys ?used)" for k
  proof -
    have "k \<in> set (bt_keys ?used) \<longleftrightarrow> bt_get ?used k \<noteq> None" by (simp only: bt_get_None_iff not_not)
    also have "\<dots> \<longleftrightarrow> k \<notin> set T \<and> (k = s \<or> bt_get (mb_used m) k \<noteq> None)"
      unfolding T_def [symmetric] get [folded T_def] by simp
    also have "\<dots> \<longleftrightarrow> k \<in> set D" using D used_iff [OF inv, of k] by auto
    finally show ?thesis by blast
  qed
  moreover have "bt_get ?used k = None" if "bt_get (mb_live m) k \<noteq> None" for k
    using get [of k] that dead inv by (auto simp: mailbox_inv_def)
  moreover have "bt_inv ?used" using t(1) by (simp add: fold_remove bt_inv_insert)
  moreover have "length D \<le> MAX_REMEMBERED_BURNS" unfolding D_def length_drop by linarith
  moreover have "distinct D" unfolding D_def by (rule distinct_drop [OF t(2)])
  ultimately show ?thesis
    using inv unfolding m' mailbox_inv_def D_def [symmetric] by auto
qed

lemma mailbox_inv_dead:
  "mailbox_inv m \<Longrightarrow> mailbox_inv (m\<lparr>mb_live := bt_remove s (mb_live m)\<rparr>)"
  by (auto simp: mailbox_inv_def bt_inv_remove bt_get_remove)

lemma mailbox_inv_expire: "mailbox_inv m \<Longrightarrow> mailbox_inv (expire s m)"
  unfolding expire_def by (rule mailbox_inv_remember [OF mailbox_inv_dead]) (auto simp: bt_get_remove)

lemma expire_live: "mailbox_inv m \<Longrightarrow> mb_live (expire s m) = bt_remove s (mb_live m)"
  unfolding expire_def using remember_used_order(2) [OF mailbox_inv_dead] by simp

lemma fold_expire:
  assumes "mailbox_inv m"
  shows "mailbox_inv (fold expire ids m)"
    and "bt_get (mb_live (fold expire ids m)) s = (if s \<in> set ids then None else bt_get (mb_live m) s)"
  using assms
  by (induction ids arbitrary: m) (auto simp: mailbox_inv_expire expire_live bt_get_remove)

lemma sweep_facts:
  assumes "mailbox_inv m" and "hash_order order"
  shows "mailbox_inv (mailbox_sweep order now m)"
    and "bt_get (mb_live (mailbox_sweep order now m)) s =
       (case bt_get (mb_live m) s of None \<Rightarrow> None
        | Some se \<Rightarrow> if se_expires_at se \<le> now then None else Some se)"
proof -
  let ?ids = "map fst (filter (\<lambda>(_, se). se_expires_at se \<le> now) (mb_live m))"
  have inv: "bt_inv (mb_live m)" using assms(1) by (simp add: mailbox_inv_def)
  have "s \<in> set (order ?ids) \<longleftrightarrow> (\<exists>se. bt_get (mb_live m) s = Some se \<and> se_expires_at se \<le> now)"
  proof -
    have "set (order ?ids) = set ?ids" using assms(2) by (simp add: hash_order_def)
    then show ?thesis unfolding bt_get_eq_set [OF inv] by force
  qed
  then show "bt_get (mb_live (mailbox_sweep order now m)) s =
       (case bt_get (mb_live m) s of None \<Rightarrow> None
        | Some se \<Rightarrow> if se_expires_at se \<le> now then None else Some se)"
    unfolding mailbox_sweep_def Let_def fold_expire(2) [OF assms(1)] by (auto split: option.splits)
  show "mailbox_inv (mailbox_sweep order now m)"
    unfolding mailbox_sweep_def Let_def by (rule fold_expire(1) [OF assms(1)])
qed

lemma mailbox_inv_new [simp]: "mailbox_inv mailbox_new"
  by (simp add: mailbox_inv_def mailbox_new_def)

lemma mailbox_inv_handle:
  assumes "mailbox_inv m" and "hash_order order" and "handle order now req m = Returns (r, m')"
  shows "mailbox_inv m'"
proof -
  define m1 where "m1 = mailbox_sweep order now m"
  have inv: "mailbox_inv m1" unfolding m1_def by (rule sweep_facts(1) [OF assms(1,2)])
  show ?thesis
  proof (cases req)
    case (Open s ttl)
    with assms(3) inv show ?thesis
      by (auto simp: handle_def handle_open_def m1_def [symmetric] Let_def mailbox_inv_def bt_inv_insert
          bt_get_insert split: if_splits run.splits)
  next
    case (Put s sl p)
    with assms(3) inv show ?thesis
      by (auto simp: handle_def handle_put_def m1_def [symmetric] Let_def mailbox_inv_def bt_inv_insert
          bt_get_insert split: if_splits option.splits)
  next
    case (Get s sl)
    with assms(3) inv show ?thesis by (simp add: handle_def m1_def [symmetric] Let_def)
  next
    case (Burn s)
    have "mailbox_inv (remember_used s (m1\<lparr>mb_live := bt_remove s (mb_live m1)\<rparr>))"
      using mailbox_inv_expire [OF inv, of s] by (simp add: expire_def)
    with Burn assms(3) inv show ?thesis
      by (auto simp: handle_def handle_burn_def m1_def [symmetric] Let_def split: if_splits)
  next
    case (Status s)
    with assms(3) inv show ?thesis by (simp add: handle_def m1_def [symmetric] Let_def)
  qed
qed

end
