(* ===== verification/Step_Systems.thy ===== *)
theory Step_Systems
  imports Main
begin

text \<open>
  Sequences of labelled steps, and the interface through which a component shows that every one of
  its operations keeps an invariant. A label is what an outside observer sees of a step: the request,
  its time and the answer.
\<close>

inductive trace :: "('s \<Rightarrow> 'l \<Rightarrow> 's \<Rightarrow> bool) \<Rightarrow> 's \<Rightarrow> 'l list \<Rightarrow> 's \<Rightarrow> bool"
  for step :: "'s \<Rightarrow> 'l \<Rightarrow> 's \<Rightarrow> bool" where
  trace_nil: "trace step s [] s"
| trace_cons: "step s l s1 \<Longrightarrow> trace step s1 ls s2 \<Longrightarrow> trace step s (l # ls) s2"

inductive_simps trace_Nil_iff [simp]: "trace step s [] s'"
inductive_simps trace_Cons_iff: "trace step s (l # ls) s'"

lemma trace_append: "trace step s (ls @ ls') s' \<longleftrightarrow> (\<exists>s1. trace step s ls s1 \<and> trace step s1 ls' s')"
proof (induction ls arbitrary: s)
  case Nil
  then show ?case by simp
next
  case (Cons l ls)
  then show ?case by (auto simp: trace_Cons_iff)
qed

locale guarded_system =
  fixes step :: "'s \<Rightarrow> 'l \<Rightarrow> 's \<Rightarrow> bool"
    and inv :: "'s \<Rightarrow> bool"
  assumes step_inv: "inv s \<Longrightarrow> step s l s' \<Longrightarrow> inv s'"
begin

lemma trace_inv: "trace step s ls s' \<Longrightarrow> inv s \<Longrightarrow> inv s'"
  by (induction rule: trace.induct) (auto intro: step_inv)

text \<open>
  A property \<open>P\<close> of states that every step with an allowed label keeps, and under which every allowed
  label has the property \<open>Q\<close>.
\<close>

lemma trace_all:
  assumes "trace step s ls s'" and "inv s" and "P s"
    and allowed: "\<forall>l \<in> set ls. ok l"
    and keep: "\<And>s l s'. inv s \<Longrightarrow> P s \<Longrightarrow> ok l \<Longrightarrow> step s l s' \<Longrightarrow> P s' \<and> Q l"
  shows "P s' \<and> (\<forall>l \<in> set ls. Q l)"
  using assms(1-4)
proof (induction rule: trace.induct)
  case (trace_nil s)
  then show ?case by simp
next
  case (trace_cons s l s1 ls s2)
  with keep [of s l s1] step_inv [of s l s1] show ?case by auto
qed

text \<open>
  A bounded resource: every step raises the weight by at most what its label costs, and while the
  weight is at most \<open>n\<close> every step keeps \<open>P\<close>.
\<close>

lemma trace_budget:
  assumes "trace step s ls s'" and "inv s" and "P s"
    and "w s + (\<Sum>l \<leftarrow> ls. cost l) \<le> (n :: nat)"
    and keep: "\<And>s l s'. inv s \<Longrightarrow> P s \<Longrightarrow> w s + cost l \<le> n \<Longrightarrow> step s l s' \<Longrightarrow>
      P s' \<and> w s' \<le> w s + cost l \<and> Q l"
  shows "P s' \<and> (\<forall>l \<in> set ls. Q l)"
  using assms(1-4)
proof (induction rule: trace.induct)
  case (trace_nil s)
  then show ?case by simp
next
  case (trace_cons s l s1 ls s2)
  have le: "w s + cost l \<le> n" using trace_cons.prems(3) by simp
  have k: "P s1 \<and> w s1 \<le> w s + cost l \<and> Q l"
    by (rule keep [OF trace_cons.prems(1,2) le trace_cons.hyps(1)])
  have "w s1 + (\<Sum>l \<leftarrow> ls. cost l) \<le> n" using k trace_cons.prems(3) by simp
  then have "P s2 \<and> (\<forall>l \<in> set ls. Q l)"
    using k step_inv [OF trace_cons.prems(1) trace_cons.hyps(1)] trace_cons.IH by blast
  with k show ?case by simp
qed

end

end
