(* ===== verification/Relay_Mailbox_Properties.thy ===== *)
theory Relay_Mailbox_Properties
  imports Relay_Mailbox Step_Systems
begin

text \<open>
  What the pairing mailbox promises over sequences of requests. A step is one call of \<open>handle\<close> that
  returns; its label is the time of the call, the request and the answer.
\<close>

type_synonym mailbox_label = "instant \<times> mailbox_request \<times> mailbox_response"

definition mailbox_step :: "(string list \<Rightarrow> string list) \<Rightarrow> mailbox \<Rightarrow> mailbox_label \<Rightarrow> mailbox \<Rightarrow> bool" where
  "mailbox_step order m l m' \<longleftrightarrow> (case l of (now, req, r) \<Rightarrow> handle order now req m = Returns (r, m'))"

lemma mailbox_step_iff [simp]:
  "mailbox_step order m (now, req, r) m' \<longleftrightarrow> handle order now req m = Returns (r, m')"
  by (simp add: mailbox_step_def)

definition sorted_order :: "string list \<Rightarrow> string list" where
  "sorted_order xs = xs"

lemma hash_order_sorted [simp]: "hash_order sorted_order"
  by (simp add: hash_order_def sorted_order_def)

interpretation mbx: guarded_system "\<lambda>m l m'. hash_order order \<and> mailbox_step order m l m'" mailbox_inv
  for order
  by unfold_locales (auto intro: mailbox_inv_handle)

lemma trace_guard:
  "hash_order order \<Longrightarrow> trace (\<lambda>m l m'. hash_order order \<and> mailbox_step order m l m') = trace (mailbox_step order)"
  by simp

section \<open>One flight in a slot\<close>

definition holds_flight :: "string \<Rightarrow> slot \<Rightarrow> string \<Rightarrow> instant \<Rightarrow> mailbox \<Rightarrow> bool" where
  "holds_flight s sl p e m \<longleftrightarrow> (\<exists>se. bt_get (mb_live m) s = Some se \<and> se_expires_at se = e \<and>
     se_slots se ! slot_index sl = Some p)"

lemma sweep_holds_flight:
  "mailbox_inv m \<Longrightarrow> hash_order order \<Longrightarrow> now < e \<Longrightarrow> holds_flight s sl p e m \<Longrightarrow>
     holds_flight s sl p e (mailbox_sweep order now m)"
  by (auto simp: holds_flight_def sweep_facts)

lemma remember_live: "mailbox_inv m \<Longrightarrow> mb_live (remember_used t (m\<lparr>mb_live := bt_remove u (mb_live m)\<rparr>))
    = bt_remove u (mb_live m)"
  using remember_used_order(2) [OF mailbox_inv_dead] by simp

lemma handle_keeps_flight:
  assumes inv: "mailbox_inv m" and ord: "hash_order order" and now: "now < e" and nb: "req \<noteq> Burn s"
    and h: "holds_flight s sl p e m" and step: "handle order now req m = Returns (r, m')"
  shows "holds_flight s sl p e m'"
    and "req = Get s sl \<Longrightarrow> r = with_payload (Some p)"
    and "req = Put s sl q \<Longrightarrow> \<not> mr_ok r"
    and "req = Open s ttl \<Longrightarrow> \<not> mr_ok r"
proof -
  define m1 where "m1 = mailbox_sweep order now m"
  have i1: "mailbox_inv m1" unfolding m1_def by (rule sweep_facts(1) [OF inv ord])
  then have bi: "bt_inv (mb_live m1)" by (simp add: mailbox_inv_def)
  have h1: "holds_flight s sl p e m1" unfolding m1_def by (rule sweep_holds_flight [OF inv ord now h])
  then obtain se where se: "bt_get (mb_live m1) s = Some se" "se_expires_at se = e"
    "se_slots se ! slot_index sl = Some p" by (auto simp: holds_flight_def)
  have len: "length (se_slots se) = 4" using i1 se(1) by (auto simp: mailbox_inv_def)
  note facts = se now len bi
  show "holds_flight s sl p e m'"
  proof (cases req)
    case (Open u ttl)
    with step facts show ?thesis
      by (auto simp: handle_def m1_def [symmetric] handle_open_def holds_flight_def bt_get_insert split: if_splits run.splits)
  next
    case (Put u t q)
    with step facts show ?thesis
      by (auto simp: handle_def m1_def [symmetric] handle_put_def holds_flight_def nth_list_update bt_get_insert
          split: if_splits option.splits)
  next
    case (Burn u)
    with step facts nb h1 remember_live [OF i1, of u] show ?thesis
      by (auto simp: handle_def m1_def [symmetric] handle_burn_def holds_flight_def bt_get_remove split: if_splits)
  qed (use step h1 in \<open>auto simp: handle_def m1_def [symmetric]\<close>)
  show "req = Get s sl \<Longrightarrow> r = with_payload (Some p)"
    using step facts by (simp add: handle_def m1_def [symmetric] handle_get_def)
  show "req = Put s sl q \<Longrightarrow> \<not> mr_ok r"
    using step facts by (auto simp: handle_def m1_def [symmetric] handle_put_def response_error_def split: if_splits)
  show "req = Open s ttl \<Longrightarrow> \<not> mr_ok r"
    using step facts by (auto simp: handle_def m1_def [symmetric] handle_open_def response_error_def)
qed

text \<open>
  C13. Flights are write-once. Once a slot of an open session holds a flight, then through any
  sequence of requests by anybody before the expiry and without a burn of that session: the session
  stays open with the same expiry and the same flight, every read of the slot answers with that
  flight, and every write to the slot and every attempt to open the session again is refused.
\<close>

theorem flights_are_write_once:
  assumes "mailbox_inv m" and "hash_order order" and "holds_flight s sl p e m"
    and "trace (mailbox_step order) m ls m'"
    and "\<forall>(now, req, r) \<in> set ls. now < e \<and> req \<noteq> Burn s"
  shows "holds_flight s sl p e m' \<and>
    (\<forall>(now, req, r) \<in> set ls. (req = Get s sl \<longrightarrow> r = with_payload (Some p)) \<and>
       (\<forall>q. req = Put s sl q \<longrightarrow> \<not> mr_ok r) \<and> (\<forall>ttl. req = Open s ttl \<longrightarrow> \<not> mr_ok r))"
proof (rule mbx.trace_all [where order = order and ok = "\<lambda>(now, req, r). now < e \<and> req \<noteq> Burn s" and s = m])
  fix m l m'
  assume inv: "mailbox_inv m" and h: "holds_flight s sl p e m"
    and l: "case l of (now, req, r) \<Rightarrow> now < e \<and> req \<noteq> Burn s"
    and step: "hash_order order \<and> mailbox_step order m l m'"
  obtain now req r where "l = (now, req, r)" by (cases l) auto
  with l step handle_keeps_flight [OF inv _ _ _ h, of order now req r m']
  show "holds_flight s sl p e m' \<and> (case l of (now, req, r) \<Rightarrow>
     (req = Get s sl \<longrightarrow> r = with_payload (Some p)) \<and>
     (\<forall>q. req = Put s sl q \<longrightarrow> \<not> mr_ok r) \<and> (\<forall>ttl. req = Open s ttl \<longrightarrow> \<not> mr_ok r))"
    by auto
qed (use assms trace_guard [OF assms(2)] in auto)

definition demo_mailbox :: mailbox where
  "demo_mailbox = \<lparr> mb_live = [(''s'', \<lparr> se_slots = [Some ''A1'', None, None, None],
     se_expires_at = 300000000000 \<rparr>)], mb_used = [], mb_used_order = [] \<rparr>"

lemma demo_mailbox_inv: "mailbox_inv demo_mailbox"
  by (auto simp: mailbox_inv_def demo_mailbox_def bt_inv_def bt_keys_def)

lemma demo_put: "handle sorted_order 5 (Put ''s'' SlotA ''evil'') demo_mailbox =
    Returns (response_error ''slot already holds a flight'', demo_mailbox)"
  by (simp add: handle_def handle_put_def demo_mailbox_def mailbox_sweep_def sorted_order_def slot_index_def
      MAX_FRAME_BYTES_def)

lemma demo_get: "handle sorted_order 6 (Get ''s'' SlotA) demo_mailbox = Returns (with_payload (Some ''A1''), demo_mailbox)"
  by (simp add: handle_def handle_get_def demo_mailbox_def mailbox_sweep_def sorted_order_def slot_index_def)

theorem flights_are_write_once_witness:
  "holds_flight ''s'' SlotA ''A1'' 300000000000 demo_mailbox"
proof -
  have "trace (mailbox_step sorted_order) demo_mailbox
     [(5, Put ''s'' SlotA ''evil'', response_error ''slot already holds a flight''),
      (6, Get ''s'' SlotA, with_payload (Some ''A1''))] demo_mailbox"
    using demo_put demo_get by (auto simp: trace_Cons_iff)
  from flights_are_write_once [OF demo_mailbox_inv hash_order_sorted _ this, of "''s''" SlotA "''A1''" 300000000000]
  show ?thesis by (simp add: holds_flight_def demo_mailbox_def slot_index_def)
qed

section \<open>A session id is used once\<close>

definition retired_weight :: "string \<Rightarrow> mailbox \<Rightarrow> nat" where
  "retired_weight s m = length (mb_live m) + length (dropWhile (\<lambda>t. t \<noteq> s) (mb_used_order m))"

definition retired :: "string \<Rightarrow> mailbox \<Rightarrow> bool" where
  "retired s m \<longleftrightarrow> s \<in> set (mb_used_order m)"

definition opened :: "mailbox_label \<Rightarrow> nat" where
  "opened l = (case l of (_, Open _ _, r) \<Rightarrow> if mr_ok r then 1 else 0 | _ \<Rightarrow> 0)"

lemma length_remove: "bt_inv t \<Longrightarrow> bt_get t k \<noteq> None \<Longrightarrow> length t = Suc (length (bt_remove k t))"
proof (induction t)
  case Nil
  then show ?case by simp
next
  case (Cons kv t)
  obtain a b where kv: "kv = (a, b)" by force
  show ?case
  proof (cases "a = k")
    case True
    have "\<forall>x \<in> set t. fst x \<noteq> k" using Cons.prems(1) True kv by (auto simp: bt_inv_Cons bt_keys_def)
    then have "bt_remove k t = t" by (auto simp: bt_remove_def filter_id_conv)
    with True kv show ?thesis by (simp add: bt_remove_def)
  next
    case False
    with Cons kv show ?thesis by (auto simp: bt_inv_Cons bt_remove_def)
  qed
qed

lemma length_insert: "length (bt_insert k v t) \<le> Suc (length t)"
  by (induction k v t rule: bt_insert.induct) auto

lemma length_insert_present: "bt_inv t \<Longrightarrow> bt_get t k \<noteq> None \<Longrightarrow> length (bt_insert k v t) = length t"
  unfolding bt_get_None_iff not_not by (induction k v t rule: bt_insert.induct) (auto simp: bt_inv_Cons)

lemma dropWhile_last_burns:
  assumes "s \<in> set xs" and "length (dropWhile (\<lambda>t. t \<noteq> s) xs) \<le> MAX_REMEMBERED_BURNS"
  shows "dropWhile (\<lambda>t. t \<noteq> s) (last_burns xs) = dropWhile (\<lambda>t. t \<noteq> s) xs" and "s \<in> set (last_burns xs)"
proof -
  let ?P = "\<lambda>t. t \<noteq> s"
  define n where "n = length xs - MAX_REMEMBERED_BURNS"
  have split: "xs = takeWhile ?P xs @ dropWhile ?P xs" by simp
  have "length xs = length (takeWhile ?P xs) + length (dropWhile ?P xs)"
    by (subst split) (simp only: length_append)
  then have n: "n \<le> length (takeWhile ?P xs)" using assms(2) unfolding n_def by linarith
  have app: "drop n xs = drop n (takeWhile ?P xs) @ dropWhile ?P xs"
    by (subst split) (simp only: drop_append diff_is_0_eq [THEN iffD2, OF n] drop_0)
  have "x \<in> set (drop n (takeWhile ?P xs)) \<Longrightarrow> ?P x" for x
    by (auto dest!: in_set_dropD set_takeWhileD)
  then have "dropWhile ?P (drop n xs) = dropWhile ?P (dropWhile ?P xs)"
    unfolding app by (rule dropWhile_append2)
  then show "dropWhile ?P (last_burns xs) = dropWhile ?P xs"
    unfolding last_burns_def n_def by (simp only: dropWhile_idem)
  have "s \<in> set (dropWhile ?P xs)" using assms(1) by (metis (mono_tags, lifting) dropWhile_eq_Nil_conv hd_dropWhile list.set_sel(1))
  then show "s \<in> set (last_burns xs)"
    unfolding last_burns_def n_def [symmetric] app by simp
qed

lemma expire_retired:
  assumes inv: "mailbox_inv m" and live: "bt_get (mb_live m) t \<noteq> None" and s: "retired s m"
    and w: "retired_weight s m \<le> MAX_REMEMBERED_BURNS"
  shows "retired s (expire t m)" and "retired_weight s (expire t m) \<le> retired_weight s m"
proof -
  define P where "P = (\<lambda>u. u \<noteq> s)"
  have bi: "bt_inv (mb_live m)" using inv by (simp add: mailbox_inv_def)
  define xs where "xs = mb_used_order m @ [t]"
  have tn: "t \<notin> set (mb_used_order m)" using inv live used_iff [OF inv, of t] by (auto simp: mailbox_inv_def)
  have ord: "mb_used_order (expire t m) = last_burns xs"
    using remember_used_order(1) [OF mailbox_inv_dead [OF inv], of t t] tn by (simp add: expire_def xs_def)
  have lv: "Suc (length (mb_live (expire t m))) = length (mb_live m)"
    unfolding expire_live [OF inv] by (rule length_remove [OF bi live, symmetric])
  have d: "dropWhile P xs = dropWhile P (mb_used_order m) @ [t]"
    unfolding xs_def using s by (simp add: dropWhile_append1 retired_def P_def)
  have l: "length (dropWhile P xs) + length (mb_live (expire t m)) \<le> MAX_REMEMBERED_BURNS"
    unfolding d using w lv by (simp add: retired_weight_def P_def)
  have sx: "s \<in> set xs" using s by (simp add: xs_def retired_def)
  note db = dropWhile_last_burns [OF sx, folded P_def]
  have le: "length (dropWhile P xs) \<le> MAX_REMEMBERED_BURNS" using l by linarith
  show "retired s (expire t m)" unfolding retired_def ord by (rule db(2) [OF le])
  show "retired_weight s (expire t m) \<le> retired_weight s m"
    unfolding retired_weight_def ord P_def [symmetric] db(1) [OF le] using lv by (simp add: d)
qed

lemma fold_expire_retired:
  assumes "mailbox_inv m" and "distinct ids" and "\<forall>t \<in> set ids. bt_get (mb_live m) t \<noteq> None"
    and "retired s m" and "retired_weight s m \<le> MAX_REMEMBERED_BURNS"
  shows "retired s (fold expire ids m) \<and> retired_weight s (fold expire ids m) \<le> retired_weight s m"
  using assms
proof (induction ids arbitrary: m)
  case Nil
  then show ?case by simp
next
  case (Cons t ids)
  note e = expire_retired [OF Cons.prems(1) _ Cons.prems(4,5), of t]
  have live: "bt_get (mb_live m) t \<noteq> None" using Cons.prems(3) by simp
  have "\<forall>u \<in> set ids. bt_get (mb_live (expire t m)) u \<noteq> None"
    using Cons.prems(2,3) by (auto simp: expire_live [OF Cons.prems(1)] bt_get_remove)
  moreover have "retired_weight s (expire t m) \<le> MAX_REMEMBERED_BURNS"
    using e(2) [OF live] Cons.prems(5) by linarith
  ultimately have "retired s (fold expire ids (expire t m)) \<and>
     retired_weight s (fold expire ids (expire t m)) \<le> retired_weight s (expire t m)"
    using Cons.IH [OF mailbox_inv_expire [OF Cons.prems(1)]] Cons.prems(2) e(1) [OF live] by simp
  then show ?case using e(2) [OF live] by simp
qed

lemma sweep_retired:
  assumes inv: "mailbox_inv m" and ord: "hash_order order" and "retired s m"
    and "retired_weight s m \<le> MAX_REMEMBERED_BURNS"
  shows "retired s (mailbox_sweep order now m) \<and> retired_weight s (mailbox_sweep order now m) \<le> retired_weight s m"
proof -
  define ids where "ids = map fst (filter (\<lambda>(_, se). se_expires_at se \<le> now) (mb_live m))"
  have bi: "bt_inv (mb_live m)" using inv by (simp add: mailbox_inv_def)
  then have "distinct (map fst (mb_live m))" by (simp add: bt_inv_def bt_keys_def strict_sorted_iff)
  then have "distinct ids" unfolding ids_def by (rule distinct_map_filter)
  then have "distinct (order ids)"
    using ord unfolding hash_order_def by (metis card_distinct distinct_card)
  moreover have "\<forall>t \<in> set (order ids). bt_get (mb_live m) t \<noteq> None"
  proof -
    have "set (order ids) = set ids" using ord by (simp add: hash_order_def)
    then show ?thesis by (auto simp: ids_def bt_get_None_iff bt_keys_def intro: rev_image_eqI)
  qed
  ultimately show ?thesis
    unfolding mailbox_sweep_def Let_def ids_def [symmetric] by (intro fold_expire_retired assms)
qed

lemma handle_retired:
  assumes inv: "mailbox_inv m" and ord: "hash_order order" and s: "retired s m"
    and w: "retired_weight s m + opened (now, req, r) \<le> MAX_REMEMBERED_BURNS"
    and step: "handle order now req m = Returns (r, m')"
  shows "retired s m' \<and> retired_weight s m' \<le> retired_weight s m + opened (now, req, r) \<and>
     (\<forall>ttl. req = Open s ttl \<longrightarrow> r = response_error ''session has already been used'')"
proof -
  define m1 where "m1 = mailbox_sweep order now m"
  have le: "retired_weight s m \<le> MAX_REMEMBERED_BURNS" using w by linarith
  have i1: "mailbox_inv m1" unfolding m1_def by (rule sweep_facts(1) [OF inv ord])
  have s1: "retired s m1" and w1: "retired_weight s m1 \<le> retired_weight s m"
    using sweep_retired [OF inv ord s le, of now] by (simp_all add: m1_def)
  have bi: "bt_inv (mb_live m1)" using i1 by (simp add: mailbox_inv_def)
  have u: "bt_get (mb_used m1) s \<noteq> None" using used_iff [OF i1, of s] s1 by (simp add: retired_def)
  then have nl: "bt_get (mb_live m1) s = None" using i1 by (auto simp: mailbox_inv_def)
  have refused: "\<forall>ttl. req = Open s ttl \<longrightarrow> r = response_error ''session has already been used''"
    using step nl u by (auto simp: handle_def m1_def [symmetric] handle_open_def)
  have "retired s m' \<and> retired_weight s m' \<le> retired_weight s m1 + opened (now, req, r)"
  proof (cases req)
    case (Open t ttl)
    with step s1 length_insert [of t _ "mb_live m1"] show ?thesis
      by (auto simp: handle_def m1_def [symmetric] handle_open_def retired_def retired_weight_def opened_def
          response_ok_def response_error_def split: if_splits run.splits)
  next
    case (Put t sl p)
    with step s1 length_insert_present [OF bi, of t] show ?thesis
      by (auto simp: handle_def m1_def [symmetric] handle_put_def retired_def retired_weight_def opened_def
          split: if_splits option.splits)
  next
    case (Burn t)
    with step s1 expire_retired [OF i1 _ s1, of t] w1 le show ?thesis
      by (auto simp: handle_def m1_def [symmetric] handle_burn_def opened_def expire_def [symmetric] split: if_splits)
  qed (use step s1 in \<open>auto simp: handle_def m1_def [symmetric] opened_def\<close>)
  with refused w1 show ?thesis by auto
qed

text \<open>
  C30. A session id is single use. Once an id is among the used ones (it was burned or it expired),
  every later attempt to open it is refused as already used, as long as the sessions open now, the
  ids used since it and the sessions started from now on number at most \<open>MAX_REMEMBERED_BURNS\<close>; and
  it is still among the used ones after that.
\<close>

theorem used_id_never_reopens:
  assumes "mailbox_inv m" and "hash_order order" and "retired s m"
    and "trace (mailbox_step order) m ls m'"
    and "retired_weight s m + (\<Sum>l \<leftarrow> ls. opened l) \<le> MAX_REMEMBERED_BURNS"
  shows "retired s m' \<and>
    (\<forall>(now, req, r) \<in> set ls. \<forall>ttl. req = Open s ttl \<longrightarrow> r = response_error ''session has already been used'')"
proof (rule mbx.trace_budget [where order = order and w = "retired_weight s" and cost = opened and s = m])
  fix m l m'
  assume inv: "mailbox_inv m" and h: "retired s m" and w: "retired_weight s m + opened l \<le> MAX_REMEMBERED_BURNS"
    and step: "hash_order order \<and> mailbox_step order m l m'"
  obtain now req r where "l = (now, req, r)" by (cases l) auto
  with w step handle_retired [OF inv _ h, of order now req r m']
  show "retired s m' \<and> retired_weight s m' \<le> retired_weight s m + opened l \<and> (case l of (now, req, r) \<Rightarrow>
     \<forall>ttl. req = Open s ttl \<longrightarrow> r = response_error ''session has already been used'')"
    by auto
qed (use assms trace_guard [OF assms(2)] in auto)

definition burned_mailbox :: mailbox where
  "burned_mailbox = \<lparr> mb_live = [], mb_used = [(''s'', ())], mb_used_order = [''s''] \<rparr>"

theorem used_id_never_reopens_witness:
  "retired ''s'' burned_mailbox \<and>
   handle sorted_order 7 (Open ''s'' 60) burned_mailbox = Returns (response_error ''session has already been used'', burned_mailbox)"
proof -
  have inv: "mailbox_inv burned_mailbox"
    by (auto simp: mailbox_inv_def burned_mailbox_def bt_inv_def bt_keys_def MAX_REMEMBERED_BURNS_def)
  have r: "retired ''s'' burned_mailbox" by (simp add: retired_def burned_mailbox_def)
  have h: "handle sorted_order 7 (Open ''s'' 60) burned_mailbox =
      Returns (response_error ''session has already been used'', burned_mailbox)"
    by (simp add: handle_def handle_open_def burned_mailbox_def mailbox_sweep_def sorted_order_def)
  then have "trace (mailbox_step sorted_order) burned_mailbox
     [(7, Open ''s'' 60, response_error ''session has already been used'')] burned_mailbox"
    by (simp add: trace_Cons_iff)
  from used_id_never_reopens [OF inv hash_order_sorted r this] h
  show ?thesis by (simp add: retired_weight_def burned_mailbox_def opened_def response_error_def MAX_REMEMBERED_BURNS_def)
qed

section \<open>The state stays bounded\<close>

text \<open>
  In every state the mailbox reaches from its empty start, whatever the requests and their
  times: the remembered ids are exactly those in the queue, without repetition and at most
  \<open>MAX_REMEMBERED_BURNS\<close> of them, no id is open and used at once, and every open session has four
  slots; and after any request no session whose expiry has been reached is still open, so no request
  reads or writes a flight of an expired session.
\<close>

theorem mailbox_stays_bounded:
  assumes "hash_order order" and "trace (mailbox_step order) mailbox_new ls m"
  shows "mailbox_inv m \<and> length (mb_used m) \<le> MAX_REMEMBERED_BURNS \<and>
    (\<forall>now s sl p se. bt_get (mb_live m) s = Some se \<and> se_expires_at se \<le> now \<longrightarrow>
       (\<exists>m1 e. handle order now (Get s sl) m = Returns (response_error e, m1) \<and>
          bt_get (mb_live m1) s = None) \<and>
       (length p \<le> MAX_FRAME_BYTES \<longrightarrow> (\<exists>m1 e. handle order now (Put s sl p) m = Returns (response_error e, m1) \<and>
          bt_get (mb_live m1) s = None)))"
proof (intro conjI allI impI)
  show inv: "mailbox_inv m"
    using mbx.trace_inv [of order mailbox_new ls m] assms trace_guard [OF assms(1)] by simp
  have "distinct (bt_keys (mb_used m))" using inv by (simp add: mailbox_inv_def bt_inv_def strict_sorted_iff)
  then have "length (mb_used m) = card (set (bt_keys (mb_used m)))" 
    by (metis bt_keys_def distinct_card length_map)
  also have "\<dots> = length (mb_used_order m)"
    using inv by (metis distinct_card mailbox_inv_def)
  finally show "length (mb_used m) \<le> MAX_REMEMBERED_BURNS" using inv by (simp add: mailbox_inv_def)
  fix now s sl se and p :: string
  assume e: "bt_get (mb_live m) s = Some se \<and> se_expires_at se \<le> now"
  then have gone: "bt_get (mb_live (mailbox_sweep order now m)) s = None"
    using sweep_facts(2) [OF inv assms(1), of now s] by simp
  then show "\<exists>m1 e. handle order now (Get s sl) m = Returns (response_error e, m1) \<and> bt_get (mb_live m1) s = None"
    by (auto simp: handle_def handle_get_def Let_def)
  assume "length p \<le> MAX_FRAME_BYTES"
  with gone show "\<exists>m1 e. handle order now (Put s sl p) m = Returns (response_error e, m1) \<and> bt_get (mb_live m1) s = None"
    by (auto simp: handle_def handle_put_def Let_def)
qed

theorem mailbox_stays_bounded_witness:
  "mailbox_inv \<lparr> mb_live = [(''s'', \<lparr> se_slots = [None, None, None, None], se_expires_at = 60000000000 \<rparr>)],
     mb_used = [], mb_used_order = [] \<rparr>" (is "mailbox_inv ?m")
proof -
  have "handle sorted_order 0 (Open ''s'' 60) mailbox_new = Returns (response_ok, ?m)"
    by (simp add: handle_def handle_open_def mailbox_new_def mailbox_sweep_def sorted_order_def
        instant_add_secs_def INSTANT_MAX_def max_def word_le_nat_alt)
  then have "trace (mailbox_step sorted_order) mailbox_new [(0, Open ''s'' 60, response_ok)] ?m"
    by (simp add: trace_Cons_iff)
  from mailbox_stays_bounded [OF hash_order_sorted this] show ?thesis by blast
qed

section \<open>An unbounded lifetime\<close>

text \<open>
  The lifetime of a session comes from the request and is not bounded: an \<open>Open\<close> of a fresh
  id with the largest \<open>ttl_secs\<close> overflows the addition of the duration to the current instant, at
  every time and in every state, and \<open>handle\<close> panics instead of answering.
\<close>

theorem open_with_huge_ttl_panics:
  assumes "mailbox_inv m" and "hash_order order"
    and "bt_get (mb_live m) s = None" and "bt_get (mb_used (mailbox_sweep order now m)) s = None"
    and "s \<noteq> []" and "length s \<le> 128"
  shows "handle order now (Open s (- 1)) m = Panics"
proof -
  have "bt_get (mb_live (mailbox_sweep order now m)) s = None"
    using sweep_facts(2) [OF assms(1,2), of now s] assms(3) by simp
  moreover have "instant_add_secs now (max (- 1) 1) = Panics"
  proof -
    have "max (- 1) 1 = (- 1 :: u64)" by (simp add: max_absorb1)
    then show ?thesis
      by (simp add: instant_add_secs_def INSTANT_MAX_def unsigned_minus_1_eq_mask mask_eq_exp_minus_1)
  qed
  ultimately show ?thesis using assms(4-6) by (simp add: handle_def handle_open_def)
qed

theorem open_with_huge_ttl_panics_witness: "handle sorted_order 0 (Open ''s'' (- 1)) mailbox_new = Panics"
  using open_with_huge_ttl_panics [OF mailbox_inv_new hash_order_sorted, of "''s''" 0]
  by (simp add: mailbox_new_def mailbox_sweep_def sorted_order_def)

end
