(* ===== verification/Pairing_Code.thy ===== *)
theory Pairing_Code
  imports Relay_Mailbox
begin

text \<open>
  The pairing code, \<open>crates/arreo-core/src/pairing/code.rs\<close>: four words of a fixed list of 256, how a
  typed code is parsed and printed, and the suggestion for a mistyped word, with the errors of
  \<open>crates/arreo-core/src/pairing/mod.rs\<close>. A \<open>char\<close> of Rust is its UTF-8 encoding, as \<open>chars_of\<close> gives it.
\<close>

datatype pairing_error =
    PairEntropy string
  | CodeShape nat nat
  | UnknownWord string "string option"
  | BadInvite string
  | MailboxError string
  | PairTimeout slot
  | SpakeError string
  | CodeMismatch
  | Confirmation
  | PairIdentity string
  | CertificateError

definition hint_suffix :: "(string \<Rightarrow> string) \<Rightarrow> string option \<Rightarrow> string" where
  "hint_suffix debug hint = (case hint of
      Some word \<Rightarrow> '' (did you mean '' @ debug word @ ''?)''
    | None \<Rightarrow> [])"

definition WORD_COUNT :: nat where
  "WORD_COUNT = 256"

definition WORDS_PER_CODE :: nat where
  "WORDS_PER_CODE = 4"

definition WORDS :: "string list" where
  "WORDS = [
    ''amber'', ''anchor'', ''apple'', ''arrow'', ''atlas'', ''autumn'', ''badge'', ''bamboo'',
    ''barrel'', ''basket'', ''beacon'', ''beaver'', ''bishop'', ''bottle'', ''bramble'', ''bridge'',
    ''bronze'', ''brook'', ''brush'', ''bubble'', ''bucket'', ''buffer'', ''bundle'', ''button'',
    ''cactus'', ''camel'', ''candle'', ''canyon'', ''carbon'', ''carpet'', ''castle'', ''cedar'',
    ''cellar'', ''chalk'', ''cherry'', ''circle'', ''citrus'', ''clever'', ''cliff'', ''clover'',
    ''cobalt'', ''cocoa'', ''comet'', ''copper'', ''coral'', ''cotton'', ''cougar'', ''crane'',
    ''crater'', ''cricket'', ''crimson'', ''crystal'', ''cypress'', ''daisy'', ''dapper'', ''delta'',
    ''desert'', ''diamond'', ''dolphin'', ''donkey'', ''dragon'', ''drum'', ''eagle'', ''ember'',
    ''engine'', ''falcon'', ''feather'', ''fiddle'', ''figure'', ''flint'', ''forest'', ''fossil'',
    ''fountain'', ''frost'', ''garden'', ''garnet'', ''geyser'', ''ginger'', ''glacier'', ''granite'',
    ''grape'', ''gravel'', ''grove'', ''guitar'', ''gypsum'', ''hammer'', ''harbor'', ''harvest'',
    ''hazel'', ''helmet'', ''heron'', ''hickory'', ''hollow'', ''honey'', ''hunter'', ''indigo'',
    ''island'', ''ivory'', ''jacket'', ''jaguar'', ''jasper'', ''jungle'', ''juniper'', ''kernel'',
    ''kettle'', ''keypad'', ''kitten'', ''knight'', ''koala'', ''ladder'', ''lagoon'', ''lantern'',
    ''laptop'', ''lattice'', ''lavender'', ''lemon'', ''leopard'', ''level'', ''lilac'', ''linen'',
    ''lizard'', ''lobster'', ''locust'', ''lotus'', ''lumber'', ''lunar'', ''magnet'', ''mango'',
    ''maple'', ''marble'', ''marlin'', ''meadow'', ''medal'', ''melon'', ''mentor'', ''meteor'',
    ''mirror'', ''mitten'', ''monkey'', ''mustard'', ''napkin'', ''nebula'', ''needle'', ''nickel'',
    ''nectar'', ''ninja'', ''noodle'', ''nugget'', ''oasis'', ''ocean'', ''olive'', ''onion'', ''opal'',
    ''orbit'', ''orchid'', ''osprey'', ''otter'', ''oxide'', ''oyster'', ''paddle'', ''palm'',
    ''panda'', ''papaya'', ''parrot'', ''pastel'', ''peach'', ''pebble'', ''pecan'', ''pelican'',
    ''penguin'', ''pepper'', ''petal'', ''pewter'', ''phoenix'', ''piano'', ''pigeon'', ''pillar'',
    ''pilot'', ''piston'', ''pixel'', ''planet'', ''plasma'', ''plateau'', ''plum'', ''pocket'',
    ''polar'', ''pollen'', ''poplar'', ''poppy'', ''portal'', ''potato'', ''prairie'', ''pretzel'',
    ''prism'', ''puffin'', ''pumpkin'', ''puzzle'', ''python'', ''quartz'', ''quill'', ''quilt'',
    ''rabbit'', ''radar'', ''radish'', ''raven'', ''ribbon'', ''riddle'', ''ripple'', ''river'',
    ''robin'', ''rocket'', ''rooster'', ''rose'', ''ruby'', ''rudder'', ''saddle'', ''saffron'',
    ''salmon'', ''sandal'', ''satin'', ''sapling'', ''scarlet'', ''scroll'', ''seabird'', ''sesame'',
    ''shadow'', ''shelter'', ''shovel'', ''shrimp'', ''signal'', ''silver'', ''siren'', ''skate'',
    ''sledge'', ''slipper'', ''smoke'', ''socket'', ''sonnet'', ''sparrow'', ''spider'', ''spring'',
    ''spruce'', ''squirrel'', ''stable'', ''sunset'', ''teapot'', ''tulip'', ''tundra'', ''turbine'',
    ''turtle'', ''unicorn'', ''velvet'', ''violet'', ''walnut'', ''willow'', ''zebra''
  ]"

text \<open>\<open>[u8; WORDS_PER_CODE]\<close>: \<open>code_ok\<close> says that the length is that of the array.\<close>

record code =
  co_indices :: "byte list"

definition code_ok :: "code \<Rightarrow> bool" where
  "code_ok c \<longleftrightarrow> length (co_indices c) = WORDS_PER_CODE"

definition from_indices :: "byte list \<Rightarrow> code" where
  "from_indices indices = \<lparr> co_indices = indices \<rparr>"

text \<open>\<open>getrandom\<close> is the argument: the bytes it filled in, or its error.\<close>

definition random_code :: "string + byte list \<Rightarrow> pairing_error + code" where
  "random_code getrandom = (case getrandom of Err e \<Rightarrow> Err (PairEntropy e) | Ok bytes \<Rightarrow> Ok \<lparr> co_indices = bytes \<rparr>)"

definition is_ascii_alphabetic :: "string \<Rightarrow> bool" where
  "is_ascii_alphabetic c = (case c of [b] \<Rightarrow> is_ascii_lowercase b \<or> is_ascii_uppercase b | _ \<Rightarrow> False)"

text \<open>\<open>str::split_whitespace\<close> on the characters of the text.\<close>

function split_words :: "string list \<Rightarrow> string list" where
  "split_words cs =
     (case dropWhile is_whitespace cs of
        [] \<Rightarrow> []
      | c # rest \<Rightarrow> concat (takeWhile (\<lambda>d. \<not> is_whitespace d) (c # rest))
          # split_words (dropWhile (\<lambda>d. \<not> is_whitespace d) rest))"
  by pat_completeness auto
termination
proof (relation "measure length")
  fix cs c and rest :: "string list"
  assume "dropWhile is_whitespace cs = c # rest"
  then have "length (c # rest) \<le> length cs" using length_dropWhile_le [of is_whitespace cs] by simp
  then show "(dropWhile (\<lambda>d. \<not> is_whitespace d) rest, cs) \<in> measure length"
    using length_dropWhile_le [of "\<lambda>d. \<not> is_whitespace d" rest] by simp
qed simp

declare split_words.simps [simp del]

definition split_whitespace :: "string \<Rightarrow> string list" where
  "split_whitespace s = split_words (chars_of s)"

text \<open>\<open>Iterator::position\<close>.\<close>

fun position :: "('a \<Rightarrow> bool) \<Rightarrow> 'a list \<Rightarrow> nat option" where
  "position p [] = None"
| "position p (x # xs) = (if p x then Some 0 else map_option Suc (position p xs))"

section \<open>The suggestion for an unknown word\<close>

text \<open>
  The two rows of the dynamic program are \<open>prev\<close> and \<open>cur\<close>; the inner loop fills \<open>cur\<close> from left to
  right, and after each row the two are swapped.
\<close>

function edit_row :: "'c \<Rightarrow> 'c list \<Rightarrow> nat list \<Rightarrow> nat \<Rightarrow> nat list \<Rightarrow> nat list" where
  "edit_row ca b prev j cur =
     (if j < length b then
        edit_row ca b prev (j + 1)
          (cur[j + 1 := min (min (prev ! j + (if ca \<noteq> b ! j then 1 else 0)) (prev ! (j + 1) + 1)) (cur ! j + 1)])
      else cur)"
  by pat_completeness auto
termination
  by (relation "measure (\<lambda>(ca, b, prev, j, cur). length b - j)") auto

declare edit_row.simps [simp del]

fun edit_rows :: "nat \<Rightarrow> 'c list \<Rightarrow> 'c list \<Rightarrow> nat list \<Rightarrow> nat list \<Rightarrow> nat list" where
  "edit_rows i [] b prev cur = prev"
| "edit_rows i (ca # a) b prev cur = edit_rows (i + 1) a b (edit_row ca b prev 0 (cur[0 := i + 1])) prev"

definition edit_distance :: "string \<Rightarrow> string \<Rightarrow> nat" where
  "edit_distance a b =
     (let ca = chars_of a; cb = chars_of b
      in edit_rows 0 ca cb [0 ..< length cb + 1] (replicate (length cb + 1) 0) ! length cb)"

definition closer :: "string \<Rightarrow> string \<Rightarrow> (string \<times> nat) option \<Rightarrow> (string \<times> nat) option" where
  "closer word candidate best =
     (let distance = edit_distance word candidate in
      case best of
        None \<Rightarrow> Some (candidate, distance)
      | Some (_, d) \<Rightarrow> if distance < d then Some (candidate, distance) else best)"

definition nearest_word :: "string \<Rightarrow> string option" where
  "nearest_word word =
     (case fold (closer word) WORDS None of
        Some (candidate, distance) \<Rightarrow> if distance \<le> 3 then Some candidate else None
      | None \<Rightarrow> None)"

section \<open>Parsing and printing\<close>

definition normalize_code :: "string \<Rightarrow> string" where
  "normalize_code text = concat (map (\<lambda>c. if is_ascii_alphabetic c then c else '' '')
     (chars_of (to_ascii_lowercase text)))"

fun parse_words :: "string list \<Rightarrow> pairing_error + byte list" where
  "parse_words [] = Ok []"
| "parse_words (word # words) =
     (case position (\<lambda>candidate. candidate = word) WORDS of
        None \<Rightarrow> Err (UnknownWord word (nearest_word word))
      | Some index \<Rightarrow> (case parse_words words of Err e \<Rightarrow> Err e | Ok is \<Rightarrow> Ok (of_nat index # is)))"

definition parse_code :: "string \<Rightarrow> pairing_error + code" where
  "parse_code text =
     (let words = split_whitespace (normalize_code text) in
      if length words \<noteq> WORDS_PER_CODE then Err (CodeShape (length words) WORDS_PER_CODE)
      else case parse_words words of Err e \<Rightarrow> Err e | Ok is \<Rightarrow> Ok \<lparr> co_indices = is \<rparr>)"

fun join_space :: "string list \<Rightarrow> string" where
  "join_space [] = []"
| "join_space [w] = w"
| "join_space (w # ws) = w @ '' '' @ join_space ws"

definition code_words :: "code \<Rightarrow> string list" where
  "code_words c = map (\<lambda>i. WORDS ! unat i) (co_indices c)"

definition phrase :: "code \<Rightarrow> string" where
  "phrase c = join_space (code_words c)"

definition password :: "code \<Rightarrow> string" where
  "password c = phrase c"

text \<open>\<open>usize::trailing_zeros\<close> of a positive number.\<close>

function trailing_zeros :: "nat \<Rightarrow> nat" where
  "trailing_zeros n = (if n = 0 then 64 else if even n then Suc (trailing_zeros (n div 2)) else 0)"
  by pat_completeness auto
termination
  by (relation "measure id") auto

declare trailing_zeros.simps [simp del]

definition entropy_bits :: nat where
  "entropy_bits = trailing_zeros WORD_COUNT * WORDS_PER_CODE"

section \<open>Facts about the list\<close>

lemma length_WORDS [simp]: "length WORDS = 256"
  by (simp add: WORDS_def)

definition plain_word :: "string \<Rightarrow> bool" where
  "plain_word w \<longleftrightarrow> w \<noteq> [] \<and> list_all is_ascii_lowercase w"


lemma lower_letters:
  "list_all is_ascii_lowercase ''abcdefghijklmnopqrstuvwxyz''"
  by (simp add: is_ascii_lowercase_def chcode_def)


lemma WORDS_plain: "list_all plain_word WORDS"
  unfolding WORDS_def plain_word_def using lower_letters by (simp only: list.pred_inject list.distinct simp_thms)

fun swapped_chain :: "'a::linorder \<Rightarrow> 'a list \<Rightarrow> bool" where
  "swapped_chain lo [] = True"
| "swapped_chain lo [x] = (lo < x)"
| "swapped_chain lo (x # y # zs) =
     (if x < y then lo < x \<and> swapped_chain x (y # zs) else lo < y \<and> y < x \<and> swapped_chain x zs)"

lemma swapped_chain_distinct: "swapped_chain lo xs \<Longrightarrow> distinct xs \<and> (\<forall>x \<in> set xs. lo < x)"
proof (induction lo xs rule: swapped_chain.induct)
  case (3 lo x y zs)
  then show ?case by (cases "x < y") (auto dest: less_trans)
qed auto


lemma distinct_remove1_iff: "distinct (remove1 x xs) \<Longrightarrow> x \<notin> set (remove1 x xs) \<Longrightarrow> distinct xs"
  by (induction xs) (auto split: if_splits)

lemma distinct_WORDS: "distinct WORDS"
proof (rule distinct_remove1_iff)
  let ?rest = "remove1 ''nectar'' WORDS"
  have "swapped_chain [] ?rest" by code_simp
  then show "distinct ?rest" using swapped_chain_distinct by blast
  show "''nectar'' \<notin> set ?rest" by code_simp
qed

end
