(* ===== verification/Pairing_Invite.thy ===== *)
theory Pairing_Invite
  imports Pairing_Code Identity_Keys
begin

text \<open>
  The invite a server shows, \<open>crates/arreo-core/src/pairing/flow.rs\<close>, and the address of a mailbox,
  \<open>crates/arreo-core/src/pairing/wire.rs\<close> (the Unix build): printing the invite as a URI and parsing it,
  with the percent encoding it uses. A \<open>Duration\<close> is a number of nanoseconds. The messages of the errors
  are kept without the quoted text they echo. \<open>parse_public_key\<close> slices its text and can panic.
\<close>

type_synonym duration = nat

definition from_secs :: "nat \<Rightarrow> duration" where
  "from_secs n = n * 1000000000"

definition as_secs :: "duration \<Rightarrow> nat" where
  "as_secs d = d div 1000000000"

definition DEFAULT_TTL :: duration where
  "DEFAULT_TTL = from_secs 300"

definition MAILBOX_GRACE :: duration where
  "MAILBOX_GRACE = from_secs 10"

section \<open>Percent encoding\<close>

definition unreserved :: "char \<Rightarrow> bool" where
  "unreserved b \<longleftrightarrow> is_ascii_alphanumeric b \<or> b \<in> set ''-._~''"

definition upper_hex_digit :: "nat \<Rightarrow> char" where
  "upper_hex_digit n = char_of (if n < 10 then 48 + n else 55 + n)"

definition fmt_02X :: "char \<Rightarrow> string" where
  "fmt_02X b = [upper_hex_digit (chcode b div 16), upper_hex_digit (chcode b mod 16)]"

definition percent_encode :: "string \<Rightarrow> string" where
  "percent_encode text = concat (map (\<lambda>b. if unreserved b then [b] else CHR ''%'' # fmt_02X b) text)"

fun percent_decode_loop :: "string \<Rightarrow> string \<Rightarrow> pairing_error + string" where
  "percent_decode_loop out [] = Ok out"
| "percent_decode_loop out (b # rest) =
     (if b = CHR ''%'' then
        (case rest of
           h # l # rest' \<Rightarrow>
             if \<not> valid_utf8 [h, l] then Err (BadInvite ''bad escape'')
             else (case u8_from_str_radix_16 [h, l] of
                 None \<Rightarrow> Err (BadInvite ''bad escape'')
               | Some byte \<Rightarrow> percent_decode_loop (out @ [char_of (unat byte)]) rest')
         | _ \<Rightarrow> Err (BadInvite ''truncated percent escape''))
      else percent_decode_loop (out @ [b]) rest)"

definition percent_decode :: "string \<Rightarrow> pairing_error + string" where
  "percent_decode text = (case percent_decode_loop [] text of
      Err e \<Rightarrow> Err e
    | Ok out \<Rightarrow> if valid_utf8 out then Ok out else Err (BadInvite ''not UTF-8''))"

section \<open>Addresses\<close>

datatype mailbox_addr = UnixAddr string | TcpAddr string

definition parse_addr :: "string \<Rightarrow> pairing_error + mailbox_addr" where
  "parse_addr raw =
     (let text = trim raw in
      if text = [] then Err (BadInvite ''empty mailbox address'')
      else if hd text = CHR ''/'' \<or> hd text = CHR ''.'' then Ok (UnixAddr text)
      else case rsplit_once CHR '':'' text of
          Some (host, port) \<Rightarrow> if host \<noteq> [] \<and> parse_u16 port \<noteq> None then Ok (TcpAddr text)
            else Err (BadInvite ''mailbox address is neither a path nor host:port'')
        | None \<Rightarrow> Err (BadInvite ''mailbox address is neither a path nor host:port''))"

text \<open>\<open>Path::display\<close> of a path made from text is that text.\<close>

definition addr_as_str :: "mailbox_addr \<Rightarrow> string" where
  "addr_as_str a = (case a of UnixAddr path \<Rightarrow> path | TcpAddr host \<Rightarrow> host)"

section \<open>The invite\<close>

record directory_hint =
  dh_account :: string
  dh_relay :: string

record invite =
  iv_session :: string
  iv_mailbox :: mailbox_addr
  iv_server_key :: string
  iv_ttl :: duration
  iv_directory :: "directory_hint option"

definition uri :: "invite \<Rightarrow> string" where
  "uri i = ''arreo://pair?v=1&mb='' @ percent_encode (addr_as_str (iv_mailbox i))
     @ ''&s='' @ percent_encode (iv_session i)
     @ ''&k='' @ percent_encode (iv_server_key i)
     @ ''&ttl='' @ show_nat (as_secs (iv_ttl i))
     @ (case iv_directory i of
          None \<Rightarrow> []
        | Some d \<Rightarrow> ''&a='' @ percent_encode (dh_account d) @ ''&r='' @ percent_encode (dh_relay d))"

fun parse_fields :: "string list \<Rightarrow> (string, string) btree \<Rightarrow> pairing_error + (string, string) btree" where
  "parse_fields [] fs = Ok fs"
| "parse_fields (pair # rest) fs =
     (case split_once CHR ''='' pair of
        None \<Rightarrow> Err (BadInvite ''malformed field in the invite'')
      | Some (key, val) \<Rightarrow> (case percent_decode val of
            Err e \<Rightarrow> Err e
          | Ok v \<Rightarrow> parse_fields rest (bt_insert key v fs)))"

definition parse_ttl :: "string option \<Rightarrow> pairing_error + nat" where
  "parse_ttl field = (case field of
      None \<Rightarrow> Ok (as_secs DEFAULT_TTL)
    | Some raw \<Rightarrow> (case parse_u64 raw of None \<Rightarrow> Err (BadInvite ''bad ttl'') | Some n \<Rightarrow> Ok n))"

definition parse_directory :: "string option \<Rightarrow> string option \<Rightarrow> pairing_error + directory_hint option" where
  "parse_directory a r = (case (a, r) of
      (Some account, Some relay) \<Rightarrow>
        if trim account = [] \<or> trim relay = []
        then Err (BadInvite ''the invite names an account and a relay, but one of them is empty'')
        else Ok (Some \<lparr> dh_account = account, dh_relay = relay \<rparr>)
    | (None, None) \<Rightarrow> Ok None
    | _ \<Rightarrow> Err (BadInvite ''the invite names only one of the account and the relay''))"

definition require :: "string \<Rightarrow> string option \<Rightarrow> pairing_error + string" where
  "require message field = (case field of None \<Rightarrow> Err (BadInvite message) | Some v \<Rightarrow> Ok v)"

definition read_fields :: "(string, string) btree \<Rightarrow> pairing_error + invite" where
  "read_fields fs =
     (case require ''invite has no version'' (bt_get fs ''v'') of Err e \<Rightarrow> Err e
      | Ok version \<Rightarrow>
      if version \<noteq> ''1'' then Err (BadInvite ''unsupported invite version'')
      else case require ''invite has no mailbox'' (bt_get fs ''mb'') of Err e \<Rightarrow> Err e
      | Ok mb \<Rightarrow>
      case parse_addr mb of Err e \<Rightarrow> Err e
      | Ok mailbox \<Rightarrow>
      case require ''invite has no session id'' (bt_get fs ''s'') of Err e \<Rightarrow> Err e
      | Ok session \<Rightarrow>
      case require ''invite has no server key'' (bt_get fs ''k'') of Err e \<Rightarrow> Err e
      | Ok server_key \<Rightarrow>
      case parse_ttl (bt_get fs ''ttl'') of Err e \<Rightarrow> Err e
      | Ok ttl_secs \<Rightarrow>
      case parse_directory (bt_get fs ''a'') (bt_get fs ''r'') of Err e \<Rightarrow> Err e
      | Ok directory \<Rightarrow>
        Ok \<lparr> iv_session = session, iv_mailbox = mailbox, iv_server_key = server_key,
             iv_ttl = from_secs (max ttl_secs 1), iv_directory = directory \<rparr>)"

definition parse_uri :: "string \<Rightarrow> pairing_error + invite" where
  "parse_uri text =
     (let start = ''arreo://pair?'' in
      if \<not> prefix start text then Err (BadInvite ''not an arreo pairing URI'')
      else case parse_fields (split_on CHR ''&'' (drop (length start) text)) [] of
          Err e \<Rightarrow> Err e
        | Ok fs \<Rightarrow> read_fields fs)"

text \<open>A peer's public key: the argument says which 32 bytes are a point of the curve.\<close>

definition parse_public_key :: "(bytes \<Rightarrow> bool) \<Rightarrow> string \<Rightarrow> (pairing_error + verifying_key) run" where
  "parse_public_key point_ok text =
     (let trimmed = trim text in
      if length trimmed \<noteq> 64
        then Returns (Err (PairIdentity (''a public key is 64 hex characters, got '' @ show_nat (length trimmed))))
      else case hex_pairs PublicKey trimmed (map (\<lambda>i. i * 2) [0..<32]) of
          Panics \<Rightarrow> Panics
        | Returns (Err _) \<Rightarrow> Returns (Err (PairIdentity ''public key is not hex''))
        | Returns (Ok bs) \<Rightarrow> Returns (if point_ok bs then Ok bs else Err (PairIdentity ''not an ed25519 point'')))"

definition server_public_key :: "(bytes \<Rightarrow> bool) \<Rightarrow> invite \<Rightarrow> (pairing_error + verifying_key) run" where
  "server_public_key point_ok i = parse_public_key point_ok (iv_server_key i)"

section \<open>Encoding and decoding are inverse\<close>

lemma upper_hex_value: "n < 16 \<Longrightarrow> hex_value (upper_hex_digit n) = Some n"
  by (auto simp: hex_value_def upper_hex_digit_def is_ascii_digit_def)

lemma upper_hex_plain: "n < 16 \<Longrightarrow> chcode (upper_hex_digit n) < 128 \<and> upper_hex_digit n \<noteq> CHR ''+''
    \<and> upper_hex_digit n \<noteq> CHR ''-'' \<and> upper_hex_digit n \<noteq> CHR ''&''"
  by (auto simp: upper_hex_digit_def simp flip: chcode_inject) (auto simp: chcode_def)

lemma chcode_nibbles: "chcode b div 16 < 16" "chcode b mod 16 < 16"
  using chcode_less_256 [of b] by arith+

lemma from_02X: "u8_from_str_radix_16 (fmt_02X b) = Some (of_nat (chcode b))"
proof -
  note n = chcode_nibbles [of b]
  have "16 * (chcode b div 16) + chcode b mod 16 = chcode b" by simp
  moreover have "16 * (chcode b div 16) \<le> 255" using chcode_less_256 [of b] by linarith
  moreover have "chcode b \<le> 255" using chcode_less_256 [of b] by linarith
  ultimately show ?thesis
    using n by (auto simp: fmt_02X_def u8_from_str_radix_16_def upper_hex_value upper_hex_plain)
qed

lemma unreserved_facts: "unreserved b \<Longrightarrow> b \<noteq> CHR ''%'' \<and> b \<noteq> CHR ''&''"
  by (auto simp: unreserved_def is_ascii_alphanumeric_def is_ascii_digit_def is_ascii_lowercase_def
      is_ascii_uppercase_def chcode_def)

lemma decode_encode_loop: "percent_decode_loop out (percent_encode t @ rest) = percent_decode_loop (out @ t) rest"
proof (induction t arbitrary: out)
  case Nil
  then show ?case by (simp add: percent_encode_def)
next
  case (Cons b t)
  have v: "valid_utf8 (fmt_02X b)"
    by (rule valid_utf8_ascii) (auto simp: fmt_02X_def upper_hex_plain chcode_nibbles)
  obtain h l where hl: "fmt_02X b = [h, l]" by (simp add: fmt_02X_def)
  show ?case
  proof (cases "unreserved b")
    case True
    then show ?thesis using Cons [of "out @ [b]"] unreserved_facts [of b] by (simp add: percent_encode_def)
  next
    case False
    then show ?thesis
      using Cons [of "out @ [b]"] v from_02X [of b] byte_chcode [of b] by (simp add: percent_encode_def hl)
  qed
qed

lemma percent_round_trip: "valid_utf8 t \<Longrightarrow> percent_decode (percent_encode t) = Ok t"
  using decode_encode_loop [of "[]" t "[]"] by (simp add: percent_decode_def)

lemma encode_no_amp: "CHR ''&'' \<notin> set (percent_encode t)"
proof (induction t)
  case Nil
  then show ?case by (simp add: percent_encode_def)
next
  case (Cons b t)
  have "CHR ''&'' \<notin> set (fmt_02X b)"
    using upper_hex_plain [OF chcode_nibbles(1), of b] upper_hex_plain [OF chcode_nibbles(2), of b]
    by (auto simp: fmt_02X_def)
  with Cons show ?case using unreserved_facts [of b] by (auto simp: percent_encode_def)
qed

section \<open>The round trip of an invite\<close>

definition invite_ok :: "invite \<Rightarrow> bool" where
  "invite_ok i \<longleftrightarrow> valid_utf8 (addr_as_str (iv_mailbox i)) \<and> parse_addr (addr_as_str (iv_mailbox i)) = Ok (iv_mailbox i) \<and>
     valid_utf8 (iv_session i) \<and> valid_utf8 (iv_server_key i) \<and>
     (\<exists>n. 1 \<le> n \<and> n < 2 ^ 64 \<and> iv_ttl i = from_secs n) \<and>
     (case iv_directory i of None \<Rightarrow> True
      | Some d \<Rightarrow> valid_utf8 (dh_account d) \<and> valid_utf8 (dh_relay d) \<and> trim (dh_account d) \<noteq> [] \<and> trim (dh_relay d) \<noteq> [])"

definition fld :: "string \<Rightarrow> string \<Rightarrow> string" where
  "fld k v = k @ CHR ''='' # percent_encode v"

lemma parse_field:
  "valid_utf8 v \<Longrightarrow> CHR ''='' \<notin> set k \<Longrightarrow> parse_fields (fld k v # rest) fs = parse_fields rest (bt_insert k v fs)"
  by (simp add: fld_def split_once_eq percent_round_trip)

lemma fld_no_amp: "CHR ''&'' \<notin> set k \<Longrightarrow> CHR ''&'' \<notin> set (fld k v)"
  using encode_no_amp by (simp add: fld_def)

lemma encode_digits: "\<forall>c \<in> set s. is_ascii_digit c \<Longrightarrow> percent_encode s = s"
  by (induction s) (auto simp: percent_encode_def unreserved_def is_ascii_alphanumeric_def)

lemma valid_digits: "\<forall>c \<in> set s. is_ascii_digit c \<Longrightarrow> valid_utf8 s"
  by (rule valid_utf8_ascii) (auto simp: is_ascii_digit_def)

lemmas split_fields = split_on_append split_on_plain fld_no_amp

lemma uri_fields:
  "uri i = ''arreo://pair?'' @ fld ''v'' ''1'' @ CHR ''&'' # fld ''mb'' (addr_as_str (iv_mailbox i)) @
     CHR ''&'' # fld ''s'' (iv_session i) @ CHR ''&'' # fld ''k'' (iv_server_key i) @
     CHR ''&'' # fld ''ttl'' (show_nat (as_secs (iv_ttl i))) @
     (case iv_directory i of None \<Rightarrow> []
      | Some d \<Rightarrow> CHR ''&'' # fld ''a'' (dh_account d) @ CHR ''&'' # fld ''r'' (dh_relay d))"
proof -
  have "percent_encode ''1'' = ''1''" by (rule encode_digits) (simp add: is_ascii_digit_def chcode_def)
  then show ?thesis
    using encode_digits [OF show_nat_all_digits, of "as_secs (iv_ttl i)"]
    by (simp add: uri_def fld_def split: option.split)
qed

text \<open>What the fields of a printed invite are after they were inserted one by one.\<close>

lemma read_back:
  assumes ok: "invite_ok i"
    and f: "bt_get fs ''v'' = Some ''1''" "bt_get fs ''mb'' = Some (addr_as_str (iv_mailbox i))"
      "bt_get fs ''s'' = Some (iv_session i)" "bt_get fs ''k'' = Some (iv_server_key i)"
      "bt_get fs ''ttl'' = Some (show_nat (as_secs (iv_ttl i)))"
      "bt_get fs ''a'' = map_option dh_account (iv_directory i)"
      "bt_get fs ''r'' = map_option dh_relay (iv_directory i)"
  shows "read_fields fs = Ok i"
proof -
  obtain n where n: "1 \<le> n" "n < 2 ^ 64" "iv_ttl i = from_secs n" using ok by (auto simp: invite_ok_def)
  have secs: "as_secs (iv_ttl i) = n" by (simp add: n as_secs_def from_secs_def)
  have ttl: "parse_ttl (bt_get fs ''ttl'') = Ok n"
    using parse_unsigned_show [of n "2 ^ 64 - 1"] n(2) by (simp add: f secs parse_ttl_def parse_u64_def)
  have dir: "parse_directory (bt_get fs ''a'') (bt_get fs ''r'') = Ok (iv_directory i)"
    using ok by (cases "iv_directory i") (auto simp: f parse_directory_def invite_ok_def)
  have addr: "parse_addr (addr_as_str (iv_mailbox i)) = Ok (iv_mailbox i)" using ok by (simp add: invite_ok_def)
  have "max n 1 = n" using n by simp
  then show ?thesis unfolding read_fields_def ttl dir using n(3) addr by (simp add: f require_def)
qed

lemma invite_round_trip:
  assumes ok: "invite_ok i"
  shows "parse_uri (uri i) = Ok i"
proof -
  let ?n = "show_nat (as_secs (iv_ttl i))"
  define base where "base = bt_insert ''ttl'' ?n (bt_insert ''k'' (iv_server_key i) (bt_insert ''s'' (iv_session i)
    (bt_insert ''mb'' (addr_as_str (iv_mailbox i)) (bt_insert ''v'' ''1'' []))))"
  have v: "valid_utf8 ''1''" by (rule valid_digits) (simp add: is_ascii_digit_def chcode_def)
  have vs: "valid_utf8 (addr_as_str (iv_mailbox i))" "valid_utf8 (iv_session i)" "valid_utf8 (iv_server_key i)"
    "valid_utf8 ?n"
    using ok valid_digits [OF show_nat_all_digits] by (auto simp: invite_ok_def)
  have bi: "bt_inv base" unfolding base_def by (intro bt_inv_insert bt_inv_Nil)
  have get: "bt_get base ''v'' = Some ''1''" "bt_get base ''mb'' = Some (addr_as_str (iv_mailbox i))"
      "bt_get base ''s'' = Some (iv_session i)" "bt_get base ''k'' = Some (iv_server_key i)"
      "bt_get base ''ttl'' = Some ?n" "bt_get base ''a'' = None" "bt_get base ''r'' = None"
    by (simp_all add: base_def bt_get_insert bt_inv_insert)
  show ?thesis
  proof (cases "iv_directory i")
    case None
    then have "parse_uri (uri i) = read_fields base"
      by (simp add: parse_uri_def uri_fields split_fields parse_field vs v base_def [symmetric] del: parse_fields.simps(2) bt_insert.simps)
    with read_back [OF ok, of base] get None show ?thesis by simp
  next
    case (Some d)
    define fs where "fs = bt_insert ''r'' (dh_relay d) (bt_insert ''a'' (dh_account d) base)"
    have "valid_utf8 (dh_account d)" "valid_utf8 (dh_relay d)" using ok Some by (simp_all add: invite_ok_def)
    then have "parse_uri (uri i) = read_fields fs"
      using Some by (simp add: parse_uri_def uri_fields split_fields parse_field vs v base_def [symmetric] fs_def
        del: parse_fields.simps(2) bt_insert.simps)
    with read_back [OF ok, of fs] get Some bi show ?thesis by (simp add: fs_def bt_get_insert bt_inv_insert)
  qed
qed

lemma missing_ttl_is_defaulted:
  "bt_get fs ''ttl'' = None \<Longrightarrow> read_fields fs = Ok i \<Longrightarrow> iv_ttl i = DEFAULT_TTL"
  by (auto simp: read_fields_def parse_ttl_def DEFAULT_TTL_def as_secs_def from_secs_def
      split: sum.splits if_splits)

end
