(* ===== verification/Pairing_Flow.thy ===== *)
theory Pairing_Flow
  imports Pairing_Invite Identity_Cert
begin

text \<open>
  The two halves of a pairing, \<open>crates/arreo-core/src/pairing/flow.rs\<close>, and the client they talk to the
  mailbox with, \<open>crates/arreo-core/src/pairing/wire.rs\<close>. SPAKE2, SHA-256, HMAC, base64 and MessagePack are
  third-party code and enter as the fields of \<open>pairing_crypto\<close>. The network and the clock enter as the
  fields of \<open>link\<close>, over a world of any type: one exchange of a request for a decoded reply, the current
  instant, and a sleep. Every operation passes the world on. \<open>None\<close> is a wait that never ends,
  \<open>Panics\<close> a panic.
\<close>

section \<open>What the code relies on\<close>

record phone_hello =
  ph_public_key :: string
  ph_name :: string

record 'st pairing_crypto =
  pc_cert :: crypto
  pc_start_a :: "string \<Rightarrow> string \<Rightarrow> string \<Rightarrow> nat \<Rightarrow> 'st \<times> bytes"
  pc_start_b :: "string \<Rightarrow> string \<Rightarrow> string \<Rightarrow> nat \<Rightarrow> 'st \<times> bytes"
  pc_finish :: "'st \<Rightarrow> bytes \<Rightarrow> string + bytes"
  pc_hmac :: "bytes \<Rightarrow> bytes \<Rightarrow> bytes"
  pc_b64_encode :: "bytes \<Rightarrow> string"
  pc_b64_decode :: "string \<Rightarrow> string + bytes"
  pc_hello_to_vec :: "phone_hello \<Rightarrow> string + bytes"
  pc_hello_from_slice :: "bytes \<Rightarrow> string + phone_hello"

record 'w link =
  lk_exchange :: "mailbox_request \<Rightarrow> 'w \<Rightarrow> (pairing_error + mailbox_response) \<times> 'w"
  lk_now :: "'w \<Rightarrow> instant"
  lk_sleep :: "duration \<Rightarrow> 'w \<Rightarrow> 'w"

section \<open>The mailbox client\<close>

definition encode_payload :: "'st pairing_crypto \<Rightarrow> bytes \<Rightarrow> string" where
  "encode_payload K bs = pc_b64_encode K bs"

definition decode_payload :: "'st pairing_crypto \<Rightarrow> string \<Rightarrow> pairing_error + bytes" where
  "decode_payload K t = (case pc_b64_decode K t of
      Err e \<Rightarrow> Err (MailboxError (''malformed payload: '' @ e)) | Ok bs \<Rightarrow> Ok bs)"

definition request :: "'w link \<Rightarrow> mailbox_request \<Rightarrow> 'w \<Rightarrow> (pairing_error + mailbox_response) \<times> 'w" where
  "request L r w = (case lk_exchange L r w of
      (Err e, w') \<Rightarrow> (Err e, w')
    | (Ok response, w') \<Rightarrow>
        if mr_ok response then (Ok response, w')
        else (Err (MailboxError (case mr_error response of None \<Rightarrow> ''refused without a reason'' | Some e \<Rightarrow> e)), w'))"

definition client_open :: "'w link \<Rightarrow> string \<Rightarrow> duration \<Rightarrow> 'w \<Rightarrow> (pairing_error + unit) \<times> 'w" where
  "client_open L session ttl w = (case request L (Open session (of_nat (max (as_secs ttl) 1))) w of
      (Err e, w') \<Rightarrow> (Err e, w') | (Ok _, w') \<Rightarrow> (Ok (), w'))"

definition client_put :: "'st pairing_crypto \<Rightarrow> 'w link \<Rightarrow> string \<Rightarrow> slot \<Rightarrow> bytes \<Rightarrow> 'w \<Rightarrow> (pairing_error + unit) \<times> 'w" where
  "client_put K L session sl payload w = (case request L (Put session sl (encode_payload K payload)) w of
      (Err e, w') \<Rightarrow> (Err e, w') | (Ok _, w') \<Rightarrow> (Ok (), w'))"

definition client_get :: "'st pairing_crypto \<Rightarrow> 'w link \<Rightarrow> string \<Rightarrow> slot \<Rightarrow> 'w \<Rightarrow> (pairing_error + bytes option) \<times> 'w" where
  "client_get K L session sl w = (case request L (Get session sl) w of
      (Err e, w') \<Rightarrow> (Err e, w')
    | (Ok response, w') \<Rightarrow> (case mr_payload response of
          Some t \<Rightarrow> (case decode_payload K t of Err e \<Rightarrow> (Err e, w') | Ok bs \<Rightarrow> (Ok (Some bs), w'))
        | None \<Rightarrow> (Ok None, w')))"

definition client_burn :: "'w link \<Rightarrow> string \<Rightarrow> 'w \<Rightarrow> (pairing_error + unit) \<times> 'w" where
  "client_burn L session w = (case request L (Burn session) w of
      (Err e, w') \<Rightarrow> (Err e, w') | (Ok _, w') \<Rightarrow> (Ok (), w'))"

definition client_ttl_ms :: "'w link \<Rightarrow> string \<Rightarrow> 'w \<Rightarrow> (pairing_error + u64) \<times> 'w" where
  "client_ttl_ms L session w = (case request L (Status session) w of
      (Err e, w') \<Rightarrow> (Err e, w')
    | (Ok response, w') \<Rightarrow> (case mr_ttl_ms response of
          None \<Rightarrow> (Err (MailboxError ''status reply carried no ttl''), w')
        | Some t \<Rightarrow> (Ok t, w')))"

definition POLL_INTERVAL :: duration where
  "POLL_INTERVAL = 50000000"

partial_function (option) wait_for :: "'st pairing_crypto \<Rightarrow> 'w link \<Rightarrow> string \<Rightarrow> slot \<Rightarrow> instant \<Rightarrow> duration \<Rightarrow> 'w
    \<Rightarrow> ((pairing_error + bytes) \<times> 'w) option" where
  [code]: "wait_for K L session sl deadline poll w =
     (case client_get K L session sl w of
        (Err e, w') \<Rightarrow> Some (Err e, w')
      | (Ok (Some payload), w') \<Rightarrow> Some (Ok payload, w')
      | (Ok None, w') \<Rightarrow>
          if lk_now L w' \<ge> deadline then Some (Err (PairTimeout sl), w')
          else wait_for K L session sl deadline poll (lk_sleep L (min poll 200000000) w'))"

section \<open>Keys and tags\<close>

definition LABEL_PHONE :: string where "LABEL_PHONE = ''arreo/pair/v1/phone''"
definition LABEL_SERVER :: string where "LABEL_SERVER = ''arreo/pair/v1/server''"
definition MAC_KEY_LABEL :: string where "MAC_KEY_LABEL = ''arreo/pair/v1/mac''"

definition identity_a :: "invite \<Rightarrow> string" where
  "identity_a i = ''arreo-server:'' @ iv_server_key i"

definition identity_b :: "invite \<Rightarrow> string" where
  "identity_b i = ''arreo-session:'' @ iv_session i"

definition derive_mac_key :: "'st pairing_crypto \<Rightarrow> bytes \<Rightarrow> bytes" where
  "derive_mac_key K shared = sha256 (pc_cert K) (as_bytes MAC_KEY_LABEL @ shared)"

text \<open>\<open>u64::to_be_bytes\<close>.\<close>

definition to_be_bytes :: "u64 \<Rightarrow> bytes" where
  "to_be_bytes n = map (\<lambda>i. ucast (drop_bit (8 * (7 - i)) n)) [0..<8]"

definition mac_input :: "string \<Rightarrow> string \<Rightarrow> bytes \<Rightarrow> bytes" where
  "mac_input label session payload = to_be_bytes (of_nat (length label)) @ as_bytes label
     @ to_be_bytes (of_nat (length session)) @ as_bytes session @ payload"

definition mac :: "'st pairing_crypto \<Rightarrow> bytes \<Rightarrow> string \<Rightarrow> string \<Rightarrow> bytes \<Rightarrow> bytes" where
  "mac K mac_key label session payload = pc_hmac K mac_key (mac_input label session payload)"

definition verify_mac :: "'st pairing_crypto \<Rightarrow> bytes \<Rightarrow> string \<Rightarrow> string \<Rightarrow> bytes \<Rightarrow> bytes \<Rightarrow> bool" where
  "verify_mac K mac_key label session payload tag \<longleftrightarrow> pc_hmac K mac_key (mac_input label session payload) = tag"

definition frame_mac :: "'st pairing_crypto \<Rightarrow> bytes \<Rightarrow> string \<Rightarrow> string \<Rightarrow> bytes \<Rightarrow> bytes" where
  "frame_mac K mac_key label session payload = payload @ mac K mac_key label session payload"

definition split_mac :: "bytes \<Rightarrow> pairing_error + bytes \<times> bytes" where
  "split_mac framed = (if length framed \<le> 32 then Err Confirmation
     else Ok (take (length framed - 32) framed, drop (length framed - 32) framed))"

definition random_session :: "string + bytes \<Rightarrow> pairing_error + string" where
  "random_session getrandom = (case getrandom of Err e \<Rightarrow> Err (PairEntropy e) | Ok bs \<Rightarrow> Ok (hex bs))"

section \<open>The server\<close>

record phone_request =
  pr_public_key :: verifying_key
  pr_name :: string

record 'st pairing_server =
  sv_invite :: invite
  sv_code :: code
  sv_state :: "'st option"
  sv_mac_key :: "bytes option"
  sv_deadline :: instant

text \<open>The last \<open>Duration\<close> and the last \<open>Instant\<close> bound the two additions; past them Rust panics.\<close>

definition DURATION_MAX :: duration where
  "DURATION_MAX = (2 ^ 64 - 1) * 1000000000 + 999999999"

definition begin_pairing :: "'st pairing_crypto \<Rightarrow> 'w link \<Rightarrow> string + bytes \<Rightarrow> string + byte list \<Rightarrow> nat
    \<Rightarrow> verifying_key \<Rightarrow> mailbox_addr \<Rightarrow> duration \<Rightarrow> directory_hint option \<Rightarrow> 'w
    \<Rightarrow> ((pairing_error + 'st pairing_server) \<times> 'w) run" where
  "begin_pairing K L rnd_session rnd_code seed server_identity mailbox ttl directory w =
     (case random_session rnd_session of Err e \<Rightarrow> Returns (Err e, w)
      | Ok session \<Rightarrow>
      case random_code rnd_code of Err e \<Rightarrow> Returns (Err e, w)
      | Ok code \<Rightarrow>
      let invite = \<lparr> iv_session = session, iv_mailbox = mailbox, iv_server_key = hex server_identity,
                     iv_ttl = ttl, iv_directory = directory \<rparr> in
      if ttl + MAILBOX_GRACE > DURATION_MAX then Panics
      else case client_open L session (ttl + MAILBOX_GRACE) w of (Err e, w1) \<Rightarrow> Returns (Err e, w1)
      | (Ok _, w1) \<Rightarrow>
      let (state, flight_a) = pc_start_a K (password code) (identity_a invite) (identity_b invite) seed in
      case client_put K L session SlotA flight_a w1 of (Err e, w2) \<Rightarrow> Returns (Err e, w2)
      | (Ok _, w2) \<Rightarrow>
      if lk_now L w2 + ttl > INSTANT_MAX then Panics
      else Returns (Ok \<lparr> sv_invite = invite, sv_code = code, sv_state = Some state, sv_mac_key = None,
                         sv_deadline = lk_now L w2 + ttl \<rparr>, w2))"

text \<open>\<open>to_string\<close> of the one error \<open>parse_public_key\<close> returns.\<close>

definition identity_error_text :: "pairing_error \<Rightarrow> string" where
  "identity_error_text e = (case e of
      PairIdentity m \<Rightarrow> ''the server'' @ [CHR 0x27] @ ''s identity in the invite is malformed: '' @ m
    | _ \<Rightarrow> [])"

text \<open>\<open>receive\<close> takes the server by reference: the result comes with the server it leaves behind.\<close>

definition confirm_hello :: "'st pairing_crypto \<Rightarrow> 'w link \<Rightarrow> bytes \<Rightarrow> string \<Rightarrow> bytes \<Rightarrow> 'w
    \<Rightarrow> ((pairing_error + phone_request) \<times> 'w) run" where
  "confirm_hello K L mac_key session hello w =
     (case split_mac hello of Err e \<Rightarrow> Returns (Err e, w)
      | Ok (body, tag) \<Rightarrow>
      if \<not> verify_mac K mac_key LABEL_PHONE session body tag then
        (case client_burn L session w of (_, w') \<Rightarrow> Returns (Err CodeMismatch, w'))
      else case pc_hello_from_slice K body of
        Err e \<Rightarrow> Returns (Err (MailboxError (''malformed phone hello: '' @ e)), w)
      | Ok h \<Rightarrow> (case parse_public_key (point_ok (pc_cert K)) (ph_public_key h) of
            Panics \<Rightarrow> Panics
          | Returns (Err e) \<Rightarrow> Returns (Err (PairIdentity (identity_error_text e)), w)
          | Returns (Ok key) \<Rightarrow> Returns (Ok \<lparr> pr_public_key = key, pr_name = ph_name h \<rparr>, w)))"

definition receive :: "'st pairing_crypto \<Rightarrow> 'w link \<Rightarrow> 'st pairing_server \<Rightarrow> 'w
    \<Rightarrow> ((pairing_error + phone_request) \<times> 'st pairing_server \<times> 'w) run option" where
  "receive K L sv w =
     (let session = iv_session (sv_invite sv) in
      case wait_for K L session SlotB (sv_deadline sv) POLL_INTERVAL w of None \<Rightarrow> None
      | Some (Err e, w1) \<Rightarrow> Some (Returns (Err e, sv, w1))
      | Some (Ok flight_b, w1) \<Rightarrow>
      (case sv_state sv of None \<Rightarrow> Some (Returns (Err Confirmation, sv, w1))
      | Some state \<Rightarrow>
      let sv1 = sv\<lparr>sv_state := None\<rparr> in
      case pc_finish K state flight_b of Err e \<Rightarrow> Some (Returns (Err (SpakeError e), sv1, w1))
      | Ok shared \<Rightarrow>
      let mac_key = derive_mac_key K shared; sv2 = sv1\<lparr>sv_mac_key := Some mac_key\<rparr> in
      case wait_for K L session SlotC (sv_deadline sv) POLL_INTERVAL w1 of None \<Rightarrow> None
      | Some (Err e, w2) \<Rightarrow> Some (Returns (Err e, sv2, w2))
      | Some (Ok hello, w2) \<Rightarrow>
          (case confirm_hello K L mac_key session hello w2 of
             Panics \<Rightarrow> Some Panics
           | Returns (r, w3) \<Rightarrow> Some (Returns (r, sv2, w3)))))"

definition complete :: "'st pairing_crypto \<Rightarrow> 'w link \<Rightarrow> 'st pairing_server \<Rightarrow> device_cert \<Rightarrow> 'w
    \<Rightarrow> (pairing_error + unit) \<times> 'w" where
  "complete K L sv cert w =
     (case sv_mac_key sv of None \<Rightarrow> (Err Confirmation, w)
      | Some mac_key \<Rightarrow>
      case cert_encode (pc_cert K) cert of
        Err e \<Rightarrow> (Err (MailboxError ''cannot encode the certificate''), w)
      | Ok bs \<Rightarrow>
      client_put K L (iv_session (sv_invite sv)) SlotD
        (frame_mac K mac_key LABEL_SERVER (iv_session (sv_invite sv)) bs) w)"

definition abandon :: "'w link \<Rightarrow> 'st pairing_server \<Rightarrow> 'w \<Rightarrow> 'w" where
  "abandon L sv w = snd (client_burn L (iv_session (sv_invite sv)) w)"

section \<open>The phone\<close>

text \<open>The device key pair is its public half here; the private half does not appear in the exchange.\<close>

record pairing_phone =
  pp_invite :: invite
  pp_key :: verifying_key
  pp_mac_key :: bytes
  pp_deadline :: instant

record paired_device =
  pd_cert :: device_cert
  pd_key :: verifying_key

definition join :: "'st pairing_crypto \<Rightarrow> 'w link \<Rightarrow> nat \<Rightarrow> invite \<Rightarrow> code \<Rightarrow> verifying_key \<Rightarrow> string \<Rightarrow> 'w
    \<Rightarrow> ((pairing_error + pairing_phone) \<times> 'w) run option" where
  "join K L seed invite code key name w =
     (if lk_now L w + iv_ttl invite > INSTANT_MAX then Some Panics
      else
      let deadline = lk_now L w + iv_ttl invite; session = iv_session invite in
      case wait_for K L session SlotA deadline POLL_INTERVAL w of None \<Rightarrow> None
      | Some (Err e, w1) \<Rightarrow> Some (Returns (Err e, w1))
      | Some (Ok flight_a, w1) \<Rightarrow>
      let (state, flight_b) = pc_start_b K (password code) (identity_a invite) (identity_b invite) seed in
      (case client_put K L session SlotB flight_b w1 of (Err e, w2) \<Rightarrow> Some (Returns (Err e, w2))
      | (Ok _, w2) \<Rightarrow>
      case pc_finish K state flight_a of Err e \<Rightarrow> Some (Returns (Err (SpakeError e), w2))
      | Ok shared \<Rightarrow>
      let mac_key = derive_mac_key K shared;
          hello = \<lparr> ph_public_key = hex key, ph_name = name \<rparr> in
      case pc_hello_to_vec K hello of
        Err e \<Rightarrow> Some (Returns (Err (MailboxError (''cannot encode the hello: '' @ e)), w2))
      | Ok body \<Rightarrow>
      case client_put K L session SlotC (frame_mac K mac_key LABEL_PHONE session body) w2 of
        (Err e, w3) \<Rightarrow> Some (Returns (Err e, w3))
      | (Ok _, w3) \<Rightarrow>
          Some (Returns (Ok \<lparr> pp_invite = invite, pp_key = key, pp_mac_key = mac_key, pp_deadline = deadline \<rparr>, w3))))"

definition await_cert :: "'st pairing_crypto \<Rightarrow> 'w link \<Rightarrow> pairing_phone \<Rightarrow> 'w
    \<Rightarrow> ((pairing_error + paired_device) \<times> 'w) run option" where
  "await_cert K L pp w =
     (let session = iv_session (pp_invite pp) in
      case wait_for K L session SlotD (pp_deadline pp) POLL_INTERVAL w of None \<Rightarrow> None
      | Some (Err e, w1) \<Rightarrow> Some (Returns (Err e, w1))
      | Some (Ok reply, w1) \<Rightarrow>
      (case split_mac reply of Err e \<Rightarrow> Some (Returns (Err e, w1))
      | Ok (body, tag) \<Rightarrow>
      if \<not> verify_mac K (pp_mac_key pp) LABEL_SERVER session body tag then Some (Returns (Err Confirmation, w1))
      else case cert_decode (pc_cert K) body of
        Err e \<Rightarrow> Some (Returns (Err (MailboxError ''malformed certificate''), w1))
      | Ok cert \<Rightarrow>
      case server_public_key (point_ok (pc_cert K)) (pp_invite pp) of
        Panics \<Rightarrow> Some Panics
      | Returns (Err e) \<Rightarrow> Some (Returns (Err e, w1))
      | Returns (Ok server_key) \<Rightarrow>
      case cert_verify (pc_cert K) cert server_key (pp_key pp) of
        Err _ \<Rightarrow> Some (Returns (Err CertificateError, w1))
      | Ok _ \<Rightarrow>
          (case client_burn L session w1 of (_, w2) \<Rightarrow>
             Some (Returns (Ok \<lparr> pd_cert = cert, pd_key = pp_key pp \<rparr>, w2)))))"

end
