(* ===== verification/Pairing_World.thy ===== *)
theory Pairing_World
  imports Pairing_Flow Step_Systems
begin

text \<open>
  The pairing halves against the mailbox of the relay. The world is the mailbox, the clock, and a
  schedule: before each exchange of ours some time passes and any number of requests of other clients
  is handled. Reading the clock takes no time, a sleep takes its duration.
\<close>

record world =
  wd_mailbox :: mailbox
  wd_now :: instant
  wd_schedule :: "(nat \<times> mailbox_request list) list"

definition serve_other :: "(string list \<Rightarrow> string list) \<Rightarrow> instant \<Rightarrow> mailbox_request \<Rightarrow> mailbox \<Rightarrow> mailbox" where
  "serve_other order now r m = (case handle order now r m of Panics \<Rightarrow> m | Returns (_, m') \<Rightarrow> m')"

definition advance :: "(string list \<Rightarrow> string list) \<Rightarrow> world \<Rightarrow> world" where
  "advance order w = (case wd_schedule w of
      [] \<Rightarrow> w
    | (dt, others) # rest \<Rightarrow> w\<lparr>wd_now := wd_now w + dt,
        wd_mailbox := fold (serve_other order (wd_now w + dt)) others (wd_mailbox w), wd_schedule := rest\<rparr>)"

text \<open>A relay that panics closes the connection without an answer.\<close>

definition world_exchange :: "(string list \<Rightarrow> string list) \<Rightarrow> mailbox_request \<Rightarrow> world
    \<Rightarrow> (pairing_error + mailbox_response) \<times> world" where
  "world_exchange order r w0 = (let w = advance order w0 in
     case handle order (wd_now w) r (wd_mailbox w) of
       Panics \<Rightarrow> (Err (MailboxError ''the mailbox closed without answering''), w)
     | Returns (response, m) \<Rightarrow> (Ok response, w\<lparr>wd_mailbox := m\<rparr>))"

definition world_link :: "(string list \<Rightarrow> string list) \<Rightarrow> world link" where
  "world_link order = \<lparr> lk_exchange = world_exchange order, lk_now = wd_now,
     lk_sleep = (\<lambda>d w. w\<lparr>wd_now := wd_now w + d\<rparr>) \<rparr>"

lemma world_link_simps [simp]:
  "lk_exchange (world_link order) = world_exchange order" "lk_now (world_link order) = wd_now"
  "lk_sleep (world_link order) = (\<lambda>d w. w\<lparr>wd_now := wd_now w + d\<rparr>)"
  by (simp_all add: world_link_def)

fun request_session :: "mailbox_request \<Rightarrow> string" where
  "request_session (Open s _) = s"
| "request_session (Put s _ _) = s"
| "request_session (Get s _) = s"
| "request_session (Burn s) = s"
| "request_session (Status s) = s"

section \<open>A session nobody else touches\<close>

text \<open>Requests for other sessions leave an unexpired session as it is.\<close>

lemma handle_other_session:
  assumes inv: "mailbox_inv m" and ord: "hash_order order" and now: "now < se_expires_at se"
    and se: "bt_get (mb_live m) s = Some se" and other: "request_session r \<noteq> s"
    and h: "handle order now r m = Returns (a, m')"
  shows "bt_get (mb_live m') s = Some se"
proof -
  define m1 where "m1 = mailbox_sweep order now m"
  have i1: "mailbox_inv m1" and se1: "bt_get (mb_live m1) s = Some se"
    using sweep_facts [OF inv ord] se now by (auto simp: m1_def)
  have bi: "bt_inv (mb_live m1)" using i1 by (simp add: mailbox_inv_def)
  have rl: "mb_live (remember_used t (m1\<lparr>mb_live := bt_remove u (mb_live m1)\<rparr>)) = bt_remove u (mb_live m1)" for t u
    using remember_used_order(2) [OF mailbox_inv_dead [OF i1]] by simp
  show ?thesis
    using h other se1 bi rl
    by (cases r) (auto simp: handle_def m1_def [symmetric] handle_open_def handle_put_def handle_burn_def bt_get_insert
        bt_get_remove split: if_splits option.splits run.splits)
qed

lemma serve_others:
  assumes "mailbox_inv m" and "hash_order order" and "now < se_expires_at se"
    and "bt_get (mb_live m) s = Some se" and "\<forall>r \<in> set rs. request_session r \<noteq> s"
  shows "mailbox_inv (fold (serve_other order now) rs m) \<and>
     bt_get (mb_live (fold (serve_other order now) rs m)) s = Some se"
  using assms(1,4,5)
proof (induction rs arbitrary: m)
  case (Cons r rs)
  have "mailbox_inv (serve_other order now r m) \<and> bt_get (mb_live (serve_other order now r m)) s = Some se"
    using Cons.prems mailbox_inv_handle [OF Cons.prems(1) assms(2), of now r]
      handle_other_session [OF Cons.prems(1) assms(2,3) Cons.prems(2), of r]
    by (auto simp: serve_other_def split: run.splits)
  with Cons show ?case by simp
qed simp

text \<open>
  \<open>ready s slots e w\<close>: the session \<open>s\<close> is open with these slots until \<open>e\<close>, the schedule does not touch
  it and ends before \<open>e\<close>.
\<close>

definition ready :: "(string list \<Rightarrow> string list) \<Rightarrow> string \<Rightarrow> string option list \<Rightarrow> instant \<Rightarrow> world \<Rightarrow> bool" where
  "ready order s slots e w \<longleftrightarrow> hash_order order \<and> mailbox_inv (wd_mailbox w) \<and>
     bt_get (mb_live (wd_mailbox w)) s = Some \<lparr> se_slots = slots, se_expires_at = e \<rparr> \<and>
     (\<forall>(dt, rs) \<in> set (wd_schedule w). \<forall>r \<in> set rs. request_session r \<noteq> s) \<and>
     wd_now w + (\<Sum>(dt, rs) \<leftarrow> wd_schedule w. dt) < e"

lemma ready_advance: "ready order s slots e w \<Longrightarrow> ready order s slots e (advance order w)"
proof (cases "wd_schedule w")
  case Nil
  then show "ready order s slots e w \<Longrightarrow> ?thesis" by (simp add: advance_def)
next
  case (Cons p rest)
  obtain dt rs where p: "p = (dt, rs)" by force
  assume r: "ready order s slots e w"
  let ?se = "\<lparr> se_slots = slots, se_expires_at = e \<rparr>"
  let ?m = "fold (serve_other order (wd_now w + dt)) rs (wd_mailbox w)"
  have lt: "wd_now w + dt < e" using r Cons p by (simp add: ready_def)
  have "mailbox_inv ?m \<and> bt_get (mb_live ?m) s = Some ?se"
    by (rule serve_others) (use r Cons p lt in \<open>auto simp: ready_def\<close>)
  with r Cons p show ?thesis by (simp add: ready_def advance_def add.assoc)
qed

lemma ready_unexpired: "ready order s slots e w \<Longrightarrow> wd_now w < e"
  by (simp add: ready_def)

lemma ready_swept:
  assumes "ready order s slots e w"
  shows "mailbox_inv (mailbox_sweep order (wd_now w) (wd_mailbox w))"
    and "bt_get (mb_live (mailbox_sweep order (wd_now w) (wd_mailbox w))) s = Some \<lparr> se_slots = slots, se_expires_at = e \<rparr>"
  using assms sweep_facts [of "wd_mailbox w" order] ready_unexpired [OF assms] by (auto simp: ready_def)

lemma exchange_put:
  assumes r: "ready order s slots e w" and free: "slots ! slot_index sl = None" and len: "length p \<le> MAX_FRAME_BYTES"
  shows "\<exists>w'. world_exchange order (Put s sl p) w = (Ok response_ok, w') \<and>
    ready order s (slots[slot_index sl := Some p]) e w'"
proof -
  define w1 where "w1 = advance order w"
  define m1 where "m1 = mailbox_sweep order (wd_now w1) (wd_mailbox w1)"
  have r1: "ready order s slots e w1" unfolding w1_def by (rule ready_advance [OF r])
  let ?se = "\<lparr> se_slots = slots, se_expires_at = e \<rparr>"
  have m1: "mailbox_inv m1" "bt_get (mb_live m1) s = Some ?se"
    using ready_swept [OF r1] by (simp_all add: m1_def)
  define m2 where "m2 = m1\<lparr>mb_live := bt_insert s (?se\<lparr>se_slots := slots[slot_index sl := Some p]\<rparr>) (mb_live m1)\<rparr>"
  have h: "handle order (wd_now w1) (Put s sl p) (wd_mailbox w1) = Returns (response_ok, m2)"
    using m1 free len ready_unexpired [OF r1] by (simp add: handle_def m1_def [symmetric] handle_put_def m2_def)
  have ord: "hash_order order" and inv: "mailbox_inv (wd_mailbox w1)" using r1 by (auto simp: ready_def)
  have "mailbox_inv m2" by (rule mailbox_inv_handle [OF inv ord h])
  moreover have "bt_get (mb_live m2) s = Some \<lparr> se_slots = slots[slot_index sl := Some p], se_expires_at = e \<rparr>"
    using m1(1) by (simp add: m2_def bt_get_insert mailbox_inv_def)
  ultimately have "ready order s (slots[slot_index sl := Some p]) e (w1\<lparr>wd_mailbox := m2\<rparr>)"
    using r1 by (simp add: ready_def)
  then show ?thesis using h by (auto simp: world_exchange_def w1_def Let_def)
qed

lemma exchange_get:
  assumes r: "ready order s slots e w"
  shows "\<exists>w'. world_exchange order (Get s sl) w = (Ok (with_payload (slots ! slot_index sl)), w') \<and> ready order s slots e w'"
proof -
  define w1 where "w1 = advance order w"
  define m1 where "m1 = mailbox_sweep order (wd_now w1) (wd_mailbox w1)"
  have r1: "ready order s slots e w1" unfolding w1_def by (rule ready_advance [OF r])
  have m1: "mailbox_inv m1" "bt_get (mb_live m1) s = Some \<lparr> se_slots = slots, se_expires_at = e \<rparr>"
    using ready_swept [OF r1] by (simp_all add: m1_def)
  have h: "handle order (wd_now w1) (Get s sl) (wd_mailbox w1) = Returns (with_payload (slots ! slot_index sl), m1)"
    using m1 ready_unexpired [OF r1] by (simp add: handle_def m1_def [symmetric] handle_get_def)
  have "ready order s slots e (w1\<lparr>wd_mailbox := m1\<rparr>)" using r1 m1 by (simp add: ready_def)
  then show ?thesis using h by (auto simp: world_exchange_def w1_def Let_def)
qed

text \<open>After a burn by the code's own client the session is not open, whatever else happened.\<close>

lemma exchange_burn:
  assumes "mailbox_inv (wd_mailbox (advance order w))" and "hash_order order"
    and "world_exchange order (Burn s) w = (a, w')"
  shows "bt_get (mb_live (wd_mailbox w')) s = None"
proof -
  define w1 where "w1 = advance order w"
  define m1 where "m1 = mailbox_sweep order (wd_now w1) (wd_mailbox w1)"
  have i1: "mailbox_inv m1" unfolding m1_def w1_def by (rule sweep_facts(1) [OF assms(1,2)])
  have "mb_live (remember_used s (m1\<lparr>mb_live := bt_remove s (mb_live m1)\<rparr>)) = bt_remove s (mb_live m1)"
    using remember_used_order(2) [OF mailbox_inv_dead [OF i1]] by simp
  then show ?thesis
    using assms(3) by (auto simp: world_exchange_def w1_def [symmetric] Let_def handle_def m1_def [symmetric]
        handle_burn_def bt_get_remove split: if_splits)
qed

lemma inv_advance: "hash_order order \<Longrightarrow> mailbox_inv (wd_mailbox w) \<Longrightarrow> mailbox_inv (wd_mailbox (advance order w))"
proof -
  assume ord: "hash_order order"
  have "mailbox_inv (fold (serve_other order now) rs m)" if "mailbox_inv m" for rs now m
    using that
  proof (induction rs arbitrary: m)
    case (Cons r rs)
    have "mailbox_inv (serve_other order now r m)"
      using Cons.prems mailbox_inv_handle [OF Cons.prems ord, of now r] by (auto simp: serve_other_def split: run.splits)
    with Cons show ?case by simp
  qed simp
  then show "mailbox_inv (wd_mailbox w) \<Longrightarrow> ?thesis" by (auto simp: advance_def split: list.splits)
qed

lemma inv_exchange:
  assumes "hash_order order" and "mailbox_inv (wd_mailbox w)" and "world_exchange order r w = (a, w')"
  shows "mailbox_inv (wd_mailbox w')"
proof -
  have "mailbox_inv (wd_mailbox (advance order w))" by (rule inv_advance [OF assms(1,2)])
  then show ?thesis
    using assms(3) mailbox_inv_handle [OF _ assms(1)] by (auto simp: world_exchange_def Let_def split: run.splits)
qed

end
