(* ===== verification/Pairing_Flow_Facts.thy ===== *)
theory Pairing_Flow_Facts
  imports Pairing_World
begin

text \<open>
  The exchange of the four flights, once for every store of flights that answers as the mailbox
  promises: the interface \<open>flight_store\<close>, with the mailbox of the relay as its instance.
\<close>

section \<open>The cryptography, as documented\<close>

text \<open>
  SPAKE2 with one password and one pair of identities agrees on a key; an HMAC-SHA-256 tag has 32 bytes;
  base64 and MessagePack decode what they encoded, and no structure is encoded as nothing.
\<close>

definition pairing_crypto_ok :: "'st pairing_crypto \<Rightarrow> bool" where
  "pairing_crypto_ok K \<longleftrightarrow>
     (\<forall>pw ia ib r r'. \<exists>k. pc_finish K (fst (pc_start_a K pw ia ib r)) (snd (pc_start_b K pw ia ib r')) = Ok k \<and>
        pc_finish K (fst (pc_start_b K pw ia ib r')) (snd (pc_start_a K pw ia ib r)) = Ok k) \<and>
     (\<forall>k bs. length (pc_hmac K k bs) = 32) \<and>
     (\<forall>bs. pc_b64_decode K (pc_b64_encode K bs) = Ok bs) \<and>
     (\<forall>h. \<exists>bs. pc_hello_to_vec K h = Ok bs \<and> bs \<noteq> [] \<and> pc_hello_from_slice K bs = Ok h) \<and>
     (\<forall>c bs. cert_to_vec (pc_cert K) c = Some bs \<longrightarrow> bs \<noteq> [] \<and> cert_from_slice (pc_cert K) bs = Some c)"

definition fits :: "'st pairing_crypto \<Rightarrow> bytes \<Rightarrow> bool" where
  "fits K bs \<longleftrightarrow> length (pc_b64_encode K bs) \<le> MAX_FRAME_BYTES"

lemma crypto_facts:
  assumes "pairing_crypto_ok K"
  shows "length (pc_hmac K k bs) = 32" "decode_payload K (encode_payload K bs) = Ok bs"
    "\<exists>bs. pc_hello_to_vec K h = Ok bs \<and> bs \<noteq> [] \<and> pc_hello_from_slice K bs = Ok h"
  using assms by (auto simp: pairing_crypto_ok_def decode_payload_def encode_payload_def)

lemma spake_agrees:
  assumes "pairing_crypto_ok K"
  obtains k where "pc_finish K (fst (pc_start_a K pw ia ib r)) (snd (pc_start_b K pw ia ib r')) = Ok k"
    "pc_finish K (fst (pc_start_b K pw ia ib r')) (snd (pc_start_a K pw ia ib r)) = Ok k"
  using assms unfolding pairing_crypto_ok_def by blast

lemma split_frame:
  assumes "pairing_crypto_ok K" and "body \<noteq> []"
  shows "split_mac (frame_mac K k label s body) = Ok (body, mac K k label s body)"
    and "verify_mac K k label s body (mac K k label s body)"
  using assms crypto_facts(1) [OF assms(1)]
  by (auto simp: split_mac_def frame_mac_def mac_def verify_mac_def)

lemma parse_own_key:
  assumes "length key = 32" and "P key"
  shows "parse_public_key P (hex key) = Returns (Ok key)"
proof -
  have "hex_pairs PublicKey (hex key) (map (\<lambda>i. i * 2) [0..<32]) = Returns (Ok key)"
    using hex_pairs_hex [of "[]" 0 PublicKey key] assms(1) by (simp add: mult.commute)
  then show ?thesis using assms by (simp add: parse_public_key_def trim_hex)
qed

definition flight :: "'st pairing_crypto \<Rightarrow> bytes \<Rightarrow> string option" where
  "flight K p = Some (encode_payload K p)"

section \<open>The interface\<close>

locale flight_store =
  fixes L :: "'w link" and rdy :: "string option list \<Rightarrow> 'w \<Rightarrow> bool" and s :: string
  assumes put_law: "rdy slots w \<Longrightarrow> slots ! slot_index sl = None \<Longrightarrow> length p \<le> MAX_FRAME_BYTES \<Longrightarrow>
      \<exists>w'. lk_exchange L (Put s sl p) w = (Ok response_ok, w') \<and> rdy (slots[slot_index sl := Some p]) w'"
    and get_law: "rdy slots w \<Longrightarrow>
      \<exists>w'. lk_exchange L (Get s sl) w = (Ok (with_payload (slots ! slot_index sl)), w') \<and> rdy slots w'"
begin

lemma put_ok:
  assumes "rdy slots w" and "slots ! slot_index sl = None" and "fits K p"
  shows "\<exists>w'. client_put K L s sl p w = (Ok (), w') \<and> rdy (slots[slot_index sl := Some (encode_payload K p)]) w'"
proof -
  have "length (encode_payload K p) \<le> MAX_FRAME_BYTES" using assms(3) by (simp add: fits_def encode_payload_def)
  from put_law [OF assms(1,2) this] show ?thesis
    by (auto simp: client_put_def request_def response_ok_def)
qed

lemma wait_ok:
  assumes "rdy slots w" and "pairing_crypto_ok K" and "slots ! slot_index sl = Some (encode_payload K p)"
  shows "\<exists>w'. wait_for K L s sl dl poll w = Some (Ok p, w') \<and> rdy slots w'"
proof -
  from get_law [OF assms(1), of sl] obtain w' where
    w': "lk_exchange L (Get s sl) w = (Ok (with_payload (Some (encode_payload K p))), w')" "rdy slots w'"
    using assms(3) by auto
  then have "client_get K L s sl w = (Ok (Some p), w')"
    by (simp add: client_get_def request_def with_payload_def crypto_facts(2) [OF assms(2)])
  with w'(2) show ?thesis by (subst wait_for.simps) simp
qed

lemma join_ok:
  assumes K: "pairing_crypto_ok K" and r: "rdy [flight K fa, None, None, None] w" and s: "s = iv_session i"
    and fa: "pc_start_a K (password c) (identity_a i) (identity_b i) seed = (sa, fa)"
    and fb: "pc_start_b K (password c) (identity_a i) (identity_b i) seed' = (sb, fb)"
    and ttl: "lk_now L w + iv_ttl i \<le> INSTANT_MAX" and body: "pc_hello_to_vec K \<lparr> ph_public_key = hex key, ph_name = nm \<rparr> = Ok body"
    and k: "pc_finish K sa fb = Ok k" "pc_finish K sb fa = Ok k"
    and fit: "fits K fb" "fits K (frame_mac K (derive_mac_key K k) LABEL_PHONE s body)"
  shows "\<exists>w'. join K L seed' i c key nm w = Some (Returns (Ok \<lparr> pp_invite = i, pp_key = key,
      pp_mac_key = derive_mac_key K k, pp_deadline = lk_now L w + iv_ttl i \<rparr>, w')) \<and>
      rdy [flight K fa, flight K fb, flight K (frame_mac K (derive_mac_key K k) LABEL_PHONE s body), None] w'"
proof -
  from wait_ok [OF r K, of SlotA fa] obtain w1 where
    w1: "wait_for K L s SlotA (lk_now L w + iv_ttl i) POLL_INTERVAL w = Some (Ok fa, w1)" "rdy [flight K fa, None, None, None] w1"
    by (auto simp: slot_index_def flight_def)
  from put_ok [OF w1(2) _ fit(1), of SlotB] obtain w2 where
    w2: "client_put K L s SlotB fb w1 = (Ok (), w2)" "rdy [flight K fa, flight K fb, None, None] w2"
    by (auto simp: slot_index_def flight_def)
  from put_ok [OF w2(2) _ fit(2), of SlotC] obtain w3 where
    w3: "client_put K L s SlotC (frame_mac K (derive_mac_key K k) LABEL_PHONE s body) w2 = (Ok (), w3)"
    "rdy [flight K fa, flight K fb, flight K (frame_mac K (derive_mac_key K k) LABEL_PHONE s body), None] w3"
    by (auto simp: slot_index_def flight_def numeral_2_eq_2)
  show ?thesis using w1(1) w2(1) w3 fb ttl body k(2) s by (simp add: join_def Let_def)
qed

lemma receive_ok:
  assumes K: "pairing_crypto_ok K" and s: "s = iv_session (sv_invite sv)" and st: "sv_state sv = Some sa"
    and r: "rdy [A, flight K fb, flight K (frame_mac K (derive_mac_key K k) LABEL_PHONE s body), D] w"
    and k: "pc_finish K sa fb = Ok k" and body: "body \<noteq> []"
    and hello: "pc_hello_from_slice K body = Ok \<lparr> ph_public_key = hex key, ph_name = nm \<rparr>"
    and key: "length key = 32" "point_ok (pc_cert K) key"
  shows "\<exists>w'. receive K L sv w = Some (Returns (Ok \<lparr> pr_public_key = key, pr_name = nm \<rparr>,
      sv\<lparr>sv_state := None, sv_mac_key := Some (derive_mac_key K k)\<rparr>, w')) \<and>
      rdy [A, flight K fb, flight K (frame_mac K (derive_mac_key K k) LABEL_PHONE s body), D] w'"
proof -
  let ?C = "frame_mac K (derive_mac_key K k) LABEL_PHONE s body"
  from wait_ok [OF r K, of SlotB fb] obtain w1 where
    w1: "wait_for K L s SlotB (sv_deadline sv) POLL_INTERVAL w = Some (Ok fb, w1)" "rdy [A, flight K fb, flight K ?C, D] w1"
    by (auto simp: slot_index_def flight_def)
  from wait_ok [OF w1(2) K, of SlotC ?C] obtain w2 where
    w2: "wait_for K L s SlotC (sv_deadline sv) POLL_INTERVAL w1 = Some (Ok ?C, w2)" "rdy [A, flight K fb, flight K ?C, D] w2"
    by (auto simp: slot_index_def flight_def numeral_2_eq_2)
  have "confirm_hello K L (derive_mac_key K k) s ?C w2 = Returns (Ok \<lparr> pr_public_key = key, pr_name = nm \<rparr>, w2)"
    using split_frame [OF K body] hello parse_own_key [OF key(1), of "point_ok (pc_cert K)"] key(2)
    by (simp add: confirm_hello_def)
  then show ?thesis using w1(1) w2 st k s by (simp add: receive_def Let_def)
qed

lemma finish_ok:
  assumes K: "pairing_crypto_ok K" and s: "s = iv_session (sv_invite sv)" "s = iv_session (pp_invite pp)"
    and r: "rdy [A, B, C, None] w"
    and key: "sv_mac_key sv = Some mk" "pp_mac_key pp = mk"
    and enc: "cert_to_vec (pc_cert K) cert = Some bs" and fit: "fits K (frame_mac K mk LABEL_SERVER s bs)"
    and root: "iv_server_key (pp_invite pp) = hex root" "length root = 32" "point_ok (pc_cert K) root"
    and ver: "cert_verify (pc_cert K) cert root (pp_key pp) = Ok ()"
  shows "\<exists>w1 w2. complete K L sv cert w = (Ok (), w1) \<and> rdy [A, B, C, flight K (frame_mac K mk LABEL_SERVER s bs)] w2 \<and>
      await_cert K L pp w1 = Some (Returns (Ok \<lparr> pd_cert = cert, pd_key = pp_key pp \<rparr>, snd (client_burn L s w2)))"
proof -
  let ?D = "frame_mac K mk LABEL_SERVER s bs"
  have bs: "bs \<noteq> []" "cert_decode (pc_cert K) bs = Ok cert"
    using K enc by (auto simp: pairing_crypto_ok_def cert_decode_def)
  from put_ok [OF r _ fit, of SlotD] obtain w1 where
    w1: "client_put K L s SlotD ?D w = (Ok (), w1)" "rdy [A, B, C, flight K ?D] w1"
    by (auto simp: slot_index_def flight_def numeral_3_eq_3)
  from wait_ok [OF w1(2) K, of SlotD ?D] obtain w2 where
    w2: "wait_for K L s SlotD (pp_deadline pp) POLL_INTERVAL w1 = Some (Ok ?D, w2)" "rdy [A, B, C, flight K ?D] w2"
    by (auto simp: slot_index_def flight_def numeral_3_eq_3)
  have "complete K L sv cert w = (Ok (), w1)" using w1(1) s key enc by (simp add: complete_def cert_encode_def)
  moreover have "await_cert K L pp w1 = Some (Returns (Ok \<lparr> pd_cert = cert, pd_key = pp_key pp \<rparr>, snd (client_burn L s w2)))"
    using w2(1) s(2) [symmetric] key split_frame [OF K bs(1)] bs(2) ver parse_own_key [OF root(2), of "point_ok (pc_cert K)"] root(1,3)
    by (simp add: await_cert_def Let_def server_public_key_def split: prod.split)
  ultimately show ?thesis using w2(2) by blast
qed

end

interpretation mbox: flight_store "world_link order" "\<lambda>slots. ready order s slots e" s for order s e
  by unfold_locales (auto simp: exchange_put exchange_get)

section \<open>Opening a fresh session\<close>

definition absent :: "string \<Rightarrow> mailbox \<Rightarrow> bool" where
  "absent s m \<longleftrightarrow> mailbox_inv m \<and> bt_get (mb_live m) s = None \<and> s \<notin> set (mb_used_order m)"

lemma absent_expire: "absent s m \<Longrightarrow> t \<noteq> s \<Longrightarrow> absent s (expire t m)"
proof -
  assume a: "absent s m" and t: "t \<noteq> s"
  then have inv: "mailbox_inv m" by (simp add: absent_def)
  let ?m = "m\<lparr>mb_live := bt_remove t (mb_live m)\<rparr>"
  have d: "distinct (mb_used_order m)" using inv by (simp add: mailbox_inv_def)
  have "s \<notin> set (mb_used_order (expire t m))"
  proof (cases "t \<in> set (mb_used_order m)")
    case True
    then show ?thesis using remember_used_order(1) [OF mailbox_inv_dead [OF inv], of t t] a by (simp add: expire_def absent_def)
  next
    case False
    then have "set (last_burns (mb_used_order m @ [t])) \<subseteq> insert t (set (mb_used_order m))"
      using last_burns_facts(2) [of "mb_used_order m @ [t]"] d by simp
    then show ?thesis using False remember_used_order(1) [OF mailbox_inv_dead [OF inv], of t t] a t
      by (auto simp: expire_def absent_def)
  qed
  then show ?thesis using a mailbox_inv_expire [OF inv] expire_live [OF inv] by (auto simp: absent_def bt_get_remove)
qed

lemma absent_sweep: "hash_order order \<Longrightarrow> absent s m \<Longrightarrow> absent s (mailbox_sweep order now m)"
proof -
  assume ord: "hash_order order" and a: "absent s m"
  define ids where "ids = map fst (filter (\<lambda>(_, se). se_expires_at se \<le> now) (mb_live m))"
  have "set (order ids) = set ids" using ord by (simp add: hash_order_def)
  moreover have "s \<notin> set ids" using a by (auto simp: ids_def absent_def bt_get_None_iff bt_keys_def)
  ultimately have "s \<notin> set (order ids)" by simp
  moreover have "s \<notin> set xs \<Longrightarrow> absent s m \<Longrightarrow> absent s (fold expire xs m)" for xs m
    by (induction xs arbitrary: m) (auto simp: absent_expire)
  ultimately show ?thesis using a by (simp add: mailbox_sweep_def ids_def [symmetric] Let_def)
qed

lemma absent_handle:
  assumes ord: "hash_order order" and a: "absent s m" and other: "request_session r \<noteq> s"
    and h: "handle order now r m = Returns (x, m')"
  shows "absent s m'"
proof -
  define m1 where "m1 = mailbox_sweep order now m"
  have a1: "absent s m1" unfolding m1_def by (rule absent_sweep [OF ord a])
  have bi: "bt_inv (mb_live m1)" using a1 by (simp add: absent_def mailbox_inv_def)
  have inv: "mailbox_inv m'" using mailbox_inv_handle [OF _ ord h] a by (simp add: absent_def)
  have "bt_get (mb_live m') s = None \<and> s \<notin> set (mb_used_order m')"
  proof (cases r)
    case (Burn t)
    with other absent_expire [OF a1, of t] have "absent s (expire t m1)" by simp
    with Burn h a1 show ?thesis
      by (auto simp: handle_def m1_def [symmetric] handle_burn_def absent_def expire_def [symmetric] split: if_splits)
  qed (use h other a1 bi in \<open>auto simp: handle_def m1_def [symmetric] handle_open_def handle_put_def absent_def bt_get_insert
      split: if_splits option.splits run.splits\<close>)
  with inv show ?thesis by (simp add: absent_def)
qed

lemma absent_others:
  "hash_order order \<Longrightarrow> absent s m \<Longrightarrow> \<forall>r \<in> set rs. request_session r \<noteq> s \<Longrightarrow> absent s (fold (serve_other order now) rs m)"
proof (induction rs arbitrary: m)
  case (Cons r rs)
  have "absent s (serve_other order now r m)"
    using Cons.prems absent_handle [OF Cons.prems(1,2), of r now] by (auto simp: serve_other_def split: run.splits)
  with Cons show ?case by simp
qed simp

definition quiet_for :: "string \<Rightarrow> world \<Rightarrow> bool" where
  "quiet_for s w \<longleftrightarrow> (\<forall>(dt, rs) \<in> set (wd_schedule w). \<forall>r \<in> set rs. request_session r \<noteq> s)"

definition schedule_time :: "world \<Rightarrow> nat" where
  "schedule_time w = (\<Sum>(dt, rs) \<leftarrow> wd_schedule w. dt)"

lemma advance_absent:
  assumes "hash_order order" and "absent s (wd_mailbox w)" and "quiet_for s w"
  shows "absent s (wd_mailbox (advance order w))" and "quiet_for s (advance order w)"
    and "wd_now (advance order w) + schedule_time (advance order w) = wd_now w + schedule_time w"
    and "wd_now w \<le> wd_now (advance order w)"
  using assms by (auto simp: advance_def quiet_for_def schedule_time_def split: list.splits intro!: absent_others)

lemma open_ok:
  assumes ord: "hash_order order" and a: "absent s (wd_mailbox w)" and q: "quiet_for s w"
    and len: "s \<noteq> []" "length s \<le> 128" and d: "1000000000 \<le> d" "d \<le> DURATION_MAX"
    and time: "wd_now w + schedule_time w + d \<le> INSTANT_MAX" and short: "schedule_time w + 1000000000 \<le> d"
  shows "\<exists>w' e. client_open (world_link order) s d w = (Ok (), w') \<and> ready order s [None, None, None, None] e w' \<and>
     e \<le> wd_now w + schedule_time w + d"
proof -
  define w1 where "w1 = advance order w"
  note adv = advance_absent [OF ord a q, folded w1_def]
  define m1 where "m1 = mailbox_sweep order (wd_now w1) (wd_mailbox w1)"
  have a1: "absent s m1" unfolding m1_def by (rule absent_sweep [OF ord adv(1)])
  define n where "n = as_secs d"
  have n: "1 \<le> n" "n < 2 ^ 64" "n * 1000000000 \<le> d" "d < n * 1000000000 + 1000000000"
    using d by (auto simp: n_def as_secs_def DURATION_MAX_def)
  have un: "unat (of_nat n :: u64) = n" using n(2) by (simp add: unat_of_nat)
  have mx: "max (of_nat (max n (Suc 0))) 1 = (of_nat n :: u64)"
    using n(1) un by (simp add: max_def word_le_nat_alt)
  define e where "e = wd_now w1 + n * 1000000000"
  have e: "instant_add_secs (wd_now w1) (of_nat n) = Returns e"
    using time adv(3) n(3) by (simp add: instant_add_secs_def un e_def)
  let ?se = "\<lparr> se_slots = [None, None, None, None], se_expires_at = e \<rparr>"
  define m2 where "m2 = m1\<lparr>mb_live := bt_insert s ?se (mb_live m1)\<rparr>"
  have used: "bt_get (mb_used m1) s = None" using a1 used_iff [of m1 s] by (simp add: absent_def)
  have h: "handle order (wd_now w1) (Open s (of_nat (max n 1))) (wd_mailbox w1) = Returns (response_ok, m2)"
    using a1 used len e by (simp add: handle_def m1_def [symmetric] handle_open_def m2_def mx absent_def)
  have "mailbox_inv m2" by (rule mailbox_inv_handle [OF _ ord h]) (use adv(1) in \<open>simp add: absent_def\<close>)
  moreover have "bt_get (mb_live m2) s = Some ?se"
    using a1 by (simp add: m2_def bt_get_insert absent_def mailbox_inv_def)
  moreover have "wd_now w1 + schedule_time w1 < e" using adv(3,4) short n(4) by (simp add: e_def)
  ultimately have "ready order s [None, None, None, None] e (w1\<lparr>wd_mailbox := m2\<rparr>)"
    using adv(2) ord by (simp add: ready_def quiet_for_def schedule_time_def)
  moreover have "client_open (world_link order) s d w = (Ok (), w1\<lparr>wd_mailbox := m2\<rparr>)"
    using h by (simp add: client_open_def request_def world_exchange_def w1_def [symmetric] n_def [symmetric] response_ok_def)
  moreover have "e \<le> wd_now w + schedule_time w + d" using adv(3) n(3) by (simp add: e_def)
  ultimately show ?thesis by blast
qed

end
