(* ===== verification/Pairing_Code_Properties.thy ===== *)
theory Pairing_Code_Properties
  imports Pairing_Code
begin

text \<open>
  What the pairing code promises: a code that is read out and typed in is the same code, a mistyped
  word is never another code, and the suggestion is the closest word of the list.
\<close>

section \<open>Words and their positions\<close>

lemma position_Some:
  "position p xs = Some i \<longleftrightarrow> i < length xs \<and> p (xs ! i) \<and> (\<forall>j < i. \<not> p (xs ! j))"
proof (induction xs arbitrary: i)
  case (Cons x xs)
  show ?case
  proof (cases i)
    case (Suc k)
    have "(\<forall>j < Suc k. \<not> p ((x # xs) ! j)) \<longleftrightarrow> \<not> p x \<and> (\<forall>j < k. \<not> p (xs ! j))"
      by (auto simp: less_Suc_eq_0_disj)
    with Suc Cons show ?thesis by auto
  qed simp
qed simp

lemma position_nth:
  assumes "distinct xs"
  shows "position (\<lambda>y. y = w) xs = Some i \<longleftrightarrow> i < length xs \<and> xs ! i = w"
proof -
  have "\<forall>j < i. xs ! j \<noteq> w" if "i < length xs" "xs ! i = w"
    using assms that nth_eq_iff_index_eq [OF assms] by fastforce
  then show ?thesis by (auto simp: position_Some)
qed

lemma unat_of_nat_byte: "n < 256 \<Longrightarrow> unat (of_nat n :: byte) = n"
  by (simp add: unat_of_nat)

lemma parse_words_Ok:
  "parse_words words = Ok is \<longleftrightarrow> map (\<lambda>i. WORDS ! unat i) is = words"
proof (induction words arbitrary: "is")
  case Nil
  then show ?case by auto
next
  case (Cons w words)
  show ?case
  proof
    assume "parse_words (w # words) = Ok is"
    then obtain k ks where "position (\<lambda>y. y = w) WORDS = Some k" "parse_words words = Ok ks" "is = of_nat k # ks"
      by (auto split: option.splits sum.splits)
    then show "map (\<lambda>i. WORDS ! unat i) is = w # words"
      using Cons by (auto simp: position_nth [OF distinct_WORDS] unat_of_nat_byte)
  next
    assume eq: "map (\<lambda>i. WORDS ! unat i) is = w # words"
    then obtain k ks where ks: "is = k # ks" "WORDS ! unat k = w" "map (\<lambda>i. WORDS ! unat i) ks = words" by auto
    then have "position (\<lambda>y. y = w) WORDS = Some (unat k)" by (simp add: position_nth [OF distinct_WORDS])
    moreover have "parse_words words = Ok ks" using Cons ks(3) by simp
    ultimately show "parse_words (w # words) = Ok is" by (simp add: ks(1))
  qed
qed

section \<open>Splitting a phrase\<close>

lemma letter_facts:
  assumes "is_ascii_lowercase c"
  shows "\<not> is_whitespace [c]" "is_ascii_alphabetic [c]" "ascii_lower c = c" "chcode c < 128"
  using assms by (auto simp: is_ascii_lowercase_def is_whitespace_def is_ascii_alphabetic_def ascii_lower_def)

lemma space_facts: "is_whitespace '' ''" "ascii_lower CHR '' '' = CHR '' ''" "chcode CHR '' '' < 128"
  "\<not> is_ascii_alphabetic '' ''"
  by (simp_all add: is_whitespace_def ascii_lower_def is_ascii_alphabetic_def is_ascii_lowercase_def
      is_ascii_uppercase_def chcode_def)

abbreviation singles :: "string \<Rightarrow> string list" where
  "singles s \<equiv> map (\<lambda>c. [c]) s"

lemma concat_singles [simp]: "concat (singles s) = s"
  by (induction s) auto

lemma split_words_word:
  assumes "plain_word w"
  shows "split_words (singles w) = [w]"
    and "split_words (singles w @ '' '' # cs) = w # split_words cs"
proof -
  have l: "\<forall>c \<in> set w. is_ascii_lowercase c" using assms by (simp add: plain_word_def list_all_iff)
  obtain c r where w: "w = c # r" using assms by (cases w) (auto simp: plain_word_def)
  have c: "\<not> is_whitespace [c]" using l w by (simp add: letter_facts)
  have tk: "takeWhile (\<lambda>d. \<not> is_whitespace d) (singles r @ '' '' # cs) = singles r"
    "dropWhile (\<lambda>d. \<not> is_whitespace d) (singles r @ '' '' # cs) = '' '' # cs"
    "takeWhile (\<lambda>d. \<not> is_whitespace d) (singles r) = singles r"
    "dropWhile (\<lambda>d. \<not> is_whitespace d) (singles r) = []"
    using l w by (auto simp: takeWhile_append dropWhile_append letter_facts space_facts takeWhile_eq_all_conv
        dropWhile_eq_Nil_conv)
  have sp: "split_words ('' '' # cs) = split_words cs"
    by (subst (1 2) split_words.simps) (simp add: space_facts)
  have nil: "split_words [] = []" by (subst split_words.simps) simp
  show "split_words (singles w) = [w]"
    by (subst split_words.simps) (simp add: w c tk nil)
  show "split_words (singles w @ '' '' # cs) = w # split_words cs"
    by (subst split_words.simps) (simp add: w c tk sp)
qed

lemma split_join:
  "list_all plain_word ws \<Longrightarrow> split_words (singles (join_space ws)) = ws"
proof (induction ws rule: join_space.induct)
  case 1
  then show ?case by (subst split_words.simps) simp
qed (simp_all add: split_words_word)

definition phrase_char :: "char \<Rightarrow> bool" where
  "phrase_char c \<longleftrightarrow> c = CHR '' '' \<or> is_ascii_lowercase c"

lemma join_chars: "list_all plain_word ws \<Longrightarrow> \<forall>c \<in> set (join_space ws). phrase_char c"
  by (induction ws rule: join_space.induct) (auto simp: plain_word_def list_all_iff phrase_char_def)

lemma phrase_char_facts:
  "phrase_char c \<Longrightarrow> ascii_lower c = c" "phrase_char c \<Longrightarrow> chcode c < 128"
  "phrase_char c \<Longrightarrow> (if is_ascii_alphabetic [c] then [c] else '' '') = [c]"
  by (auto simp: phrase_char_def letter_facts space_facts)

lemma normalize_phrase:
  assumes s: "\<forall>c \<in> set s. phrase_char c"
  shows "normalize_code s = s" and "chars_of s = singles s"
proof -
  have low: "to_ascii_lowercase s = s"
    unfolding to_ascii_lowercase_def by (rule map_idI) (rule phrase_char_facts(1) [OF s [rule_format]])
  show ch: "chars_of s = singles s"
    by (rule chars_of_ascii) (use s phrase_char_facts(2) in blast)
  have "map (\<lambda>c. if is_ascii_alphabetic c then c else '' '') (singles s) = singles s"
    unfolding map_map comp_def by (rule map_cong [OF refl]) (rule phrase_char_facts(3) [OF s [rule_format]])
  then show "normalize_code s = s" unfolding normalize_code_def low ch by (simp only: concat_singles)
qed

lemma code_words_plain: "list_all plain_word (code_words c)"
  using WORDS_plain unat_less_byte by (auto simp: code_words_def list_all_iff)

lemma split_phrase: "split_whitespace (normalize_code (phrase c)) = code_words c"
proof -
  note chars = join_chars [OF code_words_plain, of c]
  show ?thesis
    unfolding phrase_def normalize_phrase(1) [OF chars] split_whitespace_def normalize_phrase(2) [OF chars]
    by (rule split_join [OF code_words_plain])
qed

lemma parse_code_Ok:
  "parse_code text = Ok c \<longleftrightarrow> code_ok c \<and> split_whitespace (normalize_code text) = code_words c"
proof -
  define ws where "ws = split_whitespace (normalize_code text)"
  have len: "length (code_words c) = length (co_indices c)" by (simp add: code_words_def)
  have "parse_code text = Ok c \<longleftrightarrow> length ws = WORDS_PER_CODE \<and> parse_words ws = Ok (co_indices c)"
    by (cases c; cases "parse_words ws") (auto simp: parse_code_def Let_def ws_def [symmetric])
  also have "\<dots> \<longleftrightarrow> length ws = WORDS_PER_CODE \<and> code_words c = ws"
    unfolding parse_words_Ok code_words_def ..
  also have "\<dots> \<longleftrightarrow> code_ok c \<and> ws = code_words c" using len by (auto simp: code_ok_def)
  finally show ?thesis unfolding ws_def .
qed

lemma code_words_inject: "code_words c = code_words d \<longleftrightarrow> c = d"
  by (metis code.equality old.unit.exhaust parse_words_Ok code_words_def sum.inject(2))

text \<open>
  A code survives being read out and typed in: the words of the list are 256 distinct ones, a text
  parses to a code exactly when the words it holds, letter case and separators forgiven, are the four
  words of that code, the printed phrase of a code parses to that code, and two codes that differ have
  different SPAKE2 passwords.
\<close>

theorem pairing_code_round_trip:
  "distinct WORDS \<and> length WORDS = WORD_COUNT \<and>
   (parse_code text = Ok c \<longleftrightarrow> code_ok c \<and> split_whitespace (normalize_code text) = code_words c) \<and>
   (parse_code (phrase c) = (if code_ok c then Ok c else Err (CodeShape (length (co_indices c)) WORDS_PER_CODE))) \<and>
   (password c = password d \<longleftrightarrow> c = d)"
proof (intro conjI)
  show "parse_code (phrase c) = (if code_ok c then Ok c else Err (CodeShape (length (co_indices c)) WORDS_PER_CODE))"
  proof (cases "code_ok c")
    case True
    then show ?thesis using parse_code_Ok [of "phrase c" c] split_phrase by simp
  next
    case False
    then show ?thesis by (simp add: parse_code_def split_phrase code_ok_def) (simp add: code_words_def)
  qed
  show "password c = password d \<longleftrightarrow> c = d"
    using split_phrase [of c] split_phrase [of d] code_words_inject [of c d] by (auto simp: password_def)
qed (use distinct_WORDS parse_code_Ok in \<open>simp_all add: WORD_COUNT_def\<close>)

section \<open>The edit distance\<close>

text \<open>One edit: a character inserted, deleted or replaced. The distance is the least number of edits.\<close>

inductive_set one_edit :: "('c list \<times> 'c list) set" where
  edit_insert: "(p @ q, p @ c # q) \<in> one_edit"
| edit_delete: "(p @ c # q, p @ q) \<in> one_edit"
| edit_replace: "(p @ c # q, p @ d # q) \<in> one_edit"

fun lev :: "'c list \<Rightarrow> 'c list \<Rightarrow> nat" where
  "lev [] ys = length ys"
| "lev xs [] = length xs"
| "lev (x # xs) (y # ys) = min (min (lev xs ys + (if x \<noteq> y then 1 else 0)) (lev xs (y # ys) + 1)) (lev (x # xs) ys + 1)"

lemma lev_Nil_right [simp]: "lev xs [] = length xs"
  by (cases xs) auto

lemma lev_delete: "lev (c # q) zs \<le> lev q zs + 1"
  by (cases zs) auto

lemma lev_extend: "lev q (z # zs) \<le> lev q zs + 1"
  by (cases q) auto

lemma lev_insert: "lev q zs \<le> lev (c # q) zs + 1"
proof (induction zs)
  case (Cons z zs)
  then show ?case using lev_extend [of q z zs] by (auto simp: min_def)
qed simp

lemma lev_replace: "lev (c # q) zs \<le> lev (d # q) zs + 1"
proof (induction zs)
  case (Cons z zs)
  then show ?case by (auto simp: min_def)
qed simp

lemma lev_prefix:
  assumes "\<And>zs. lev xs zs \<le> lev ys zs + 1"
  shows "lev (p @ xs) zs \<le> lev (p @ ys) zs + 1"
proof (induction p arbitrary: zs)
  case Nil
  then show ?case using assms by simp
next
  case (Cons a p)
  show ?case
  proof (induction zs)
    case Nil
    then show ?case using Cons.IH [of "[]"] by simp
  next
    case (Cons z zs)
    then show ?case using Cons.IH Cons \<open>\<And>zs. lev (p @ xs) zs \<le> lev (p @ ys) zs + 1\<close> [of zs]
        \<open>\<And>zs. lev (p @ xs) zs \<le> lev (p @ ys) zs + 1\<close> [of "z # zs"] by (auto simp: min_def)
  qed
qed

lemma lev_edit: "(xs, ys) \<in> one_edit \<Longrightarrow> lev xs zs \<le> lev ys zs + 1"
  by (induction rule: one_edit.induct) (intro lev_prefix lev_insert lev_delete lev_replace)+

lemma lev_self [simp]: "lev xs xs = 0"
  by (induction xs) auto

lemma lev_lower: "(xs, ys) \<in> one_edit ^^ n \<Longrightarrow> lev xs ys \<le> n"
proof (induction n arbitrary: xs)
  case (Suc n)
  then obtain us where "(xs, us) \<in> one_edit" "(us, ys) \<in> one_edit ^^ n" by (meson relpow_Suc_E2)
  then show ?case using Suc.IH lev_edit [of xs us ys] by fastforce
qed simp

lemma edit_Cons: "(xs, ys) \<in> one_edit \<Longrightarrow> (a # xs, a # ys) \<in> one_edit"
proof (induction rule: one_edit.induct)
  case (edit_insert p q c)
  show ?case using one_edit.edit_insert [of "a # p" q c] by simp
next
  case (edit_delete p c q)
  show ?case using one_edit.edit_delete [of "a # p" c q] by simp
next
  case (edit_replace p c q d)
  show ?case using one_edit.edit_replace [of "a # p" c q d] by simp
qed

lemma edits_Cons: "(xs, ys) \<in> one_edit ^^ n \<Longrightarrow> (a # xs, a # ys) \<in> one_edit ^^ n"
proof (induction n arbitrary: ys)
  case (Suc n)
  then show ?case by (auto intro: edit_Cons relcompI)
qed simp

lemma edits_first: "(xs, ys) \<in> one_edit \<Longrightarrow> (ys, zs) \<in> one_edit ^^ n \<Longrightarrow> (xs, zs) \<in> one_edit ^^ (n + 1)"
  using relpow_Suc_I2 by fastforce

lemma edits_rev: "(xs, ys) \<in> one_edit ^^ n \<Longrightarrow> (rev xs, rev ys) \<in> one_edit ^^ n"
proof (induction n arbitrary: ys)
  case (Suc n)
  have "(rev us, rev ys) \<in> one_edit" if "(us, ys) \<in> one_edit" for us
    using that
  proof (induction rule: one_edit.induct)
    case (edit_insert p q c)
    show ?case using one_edit.edit_insert [of "rev q" "rev p" c] by simp
  next
    case (edit_delete p c q)
    show ?case using one_edit.edit_delete [of "rev q" c "rev p"] by simp
  next
    case (edit_replace p c q d)
    show ?case using one_edit.edit_replace [of "rev q" c "rev p" d] by simp
  qed
  with Suc show ?case by (auto intro: relcompI)
qed simp

lemma lev_reached: "(xs, ys) \<in> one_edit ^^ lev xs ys"
proof (induction xs ys rule: lev.induct)
  case (1 ys)
  show ?case
  proof (induction ys)
    case (Cons y ys)
    then show ?case using one_edit.edit_insert [of "[]" ys y] by auto
  qed simp
next
  case (2 x xs)
  show ?case
  proof (induction xs arbitrary: x)
    case Nil
    show ?case using one_edit.edit_delete [of "[]" x "[]"] by simp
  next
    case (Cons x' xs)
    show ?case using edits_first [OF one_edit.edit_delete [of "[]" x "x' # xs"]] Cons [of x'] by (simp del: relpow.simps)
  qed
next
  case (3 x xs y ys)
  have a: "(x # xs, y # ys) \<in> one_edit ^^ (lev xs ys + (if x \<noteq> y then 1 else 0))"
    using edits_Cons [OF 3(1), of y] edits_first [OF one_edit.edit_replace [of "[]" x xs y]] by auto
  have b: "(x # xs, y # ys) \<in> one_edit ^^ (lev xs (y # ys) + 1)"
    using edits_first [OF one_edit.edit_delete [of "[]" x xs]] 3(2) by simp
  have c: "(x # xs, y # ys) \<in> one_edit ^^ (lev (x # xs) ys + 1)"
    using 3(3) one_edit.edit_insert [of "[]" ys y] by auto
  show ?case using a b c by (auto simp: min_def)
qed

lemma lev_least: "lev xs ys = (LEAST n. (xs, ys) \<in> one_edit ^^ n)"
  by (rule Least_equality [symmetric]) (auto intro: lev_reached lev_lower)


text \<open>What a row of the dynamic program holds once the prefix \<open>a\<close> has been read.\<close>

definition edit_row_of :: "'c list \<Rightarrow> 'c list \<Rightarrow> nat \<Rightarrow> nat" where
  "edit_row_of a b k = lev (rev a) (rev (take k b))"

definition is_row :: "'c list \<Rightarrow> 'c list \<Rightarrow> nat list \<Rightarrow> bool" where
  "is_row a b r \<longleftrightarrow> length r = length b + 1 \<and> (\<forall>k \<le> length b. r ! k = edit_row_of a b k)"

lemma edit_row_of_simps:
  "edit_row_of [] b k = length (take k b)" "edit_row_of a b 0 = length a"
  "k < length b \<Longrightarrow> edit_row_of (a @ [c]) b (k + 1) =
     min (min (edit_row_of a b k + (if c \<noteq> b ! k then 1 else 0)) (edit_row_of a b (k + 1) + 1)) (edit_row_of (a @ [c]) b k + 1)"
  by (simp_all add: edit_row_of_def take_Suc_conv_app_nth)

lemma edit_row_fills:
  assumes "is_row a b prev" and "length cur = length b + 1" and "j \<le> length b"
    and "\<forall>k \<le> j. cur ! k = edit_row_of (a @ [c]) b k"
  shows "is_row (a @ [c]) b (edit_row c b prev j cur)"
  using assms(2-)
proof (induction "length b - j" arbitrary: j cur)
  case 0
  then show ?case by (subst edit_row.simps) (auto simp: is_row_def)
next
  case (Suc n)
  then have j: "j < length b" by linarith
  define v where "v = min (min (prev ! j + (if c \<noteq> b ! j then 1 else 0)) (prev ! (j + 1) + 1)) (cur ! j + 1)"
  have "v = edit_row_of (a @ [c]) b (j + 1)"
  proof -
    have "prev ! j = edit_row_of a b j" "prev ! (j + 1) = edit_row_of a b (j + 1)" "cur ! j = edit_row_of (a @ [c]) b j"
      using assms(1) j Suc.prems(3) by (auto simp: is_row_def)
    then show ?thesis unfolding v_def edit_row_of_simps(3) [OF j] by (simp only:)
  qed
  then have "\<forall>k \<le> j + 1. (cur[j + 1 := v]) ! k = edit_row_of (a @ [c]) b k"
    using Suc.prems(1,3) j by (auto simp: nth_list_update le_Suc_eq)
  then have "is_row (a @ [c]) b (edit_row c b prev (j + 1) (cur[j + 1 := v]))"
    using Suc.hyps(1) [of "j + 1"] Suc.hyps(2) Suc.prems(1) j by simp
  then show ?case using j by (subst edit_row.simps) (simp add: v_def)
qed

lemma edit_rows_fill:
  assumes "is_row done b prev" and "length cur = length b + 1" and "i = length done"
  shows "is_row (done @ a) b (edit_rows i a b prev cur)"
  using assms
proof (induction a arbitrary: "done" prev cur i)
  case (Cons c a)
  have "(cur[0 := i + 1]) ! 0 = edit_row_of (done @ [c]) b 0"
    using Cons.prems(2,3) by (cases cur) (simp_all add: edit_row_of_simps(2))
  then have "is_row (done @ [c]) b (edit_row c b prev 0 (cur[0 := i + 1]))"
    using Cons.prems(2) by (intro edit_row_fills [OF Cons.prems(1)]) auto
  moreover have "length prev = length b + 1" using Cons.prems(1) by (simp add: is_row_def)
  ultimately show ?case using Cons.IH [of "done @ [c]" _ prev "i + 1"] Cons.prems(3) by simp
qed simp

lemma edit_distance_lev: "edit_distance s t = lev (rev (chars_of s)) (rev (chars_of t))"
proof -
  have "is_row [] (chars_of t) [0 ..< length (chars_of t) + 1]"
    by (auto simp: is_row_def edit_row_of_simps simp del: upt_Suc)
  then have "is_row (chars_of s) (chars_of t) (edit_rows 0 (chars_of s) (chars_of t) [0 ..< length (chars_of t) + 1]
      (replicate (length (chars_of t) + 1) 0))"
    using edit_rows_fill [of "[]" "chars_of t" _ _ 0 "chars_of s"] by simp
  then show ?thesis by (simp add: edit_distance_def is_row_def edit_row_of_def)
qed

lemma edit_distance_least:
  "edit_distance s t = (LEAST n. (chars_of s, chars_of t) \<in> one_edit ^^ n)"
proof -
  have "(rev xs, rev ys) \<in> one_edit ^^ n \<longleftrightarrow> (xs, ys) \<in> one_edit ^^ n" for xs ys :: "string list" and n
    using edits_rev [of xs ys n] edits_rev [of "rev xs" "rev ys" n] by auto
  then show ?thesis unfolding edit_distance_lev lev_least by simp
qed

lemma fold_closer:
  assumes "fold (closer w) xs (Some (c0, edit_distance w c0)) = Some (c, d)"
  shows "d = edit_distance w c \<and> c \<in> insert c0 (set xs) \<and> (\<forall>x \<in> insert c0 (set xs). d \<le> edit_distance w x)"
  using assms
proof (induction xs arbitrary: c0)
  case (Cons x xs)
  show ?case
  proof (cases "edit_distance w x < edit_distance w c0")
    case True
    then have "fold (closer w) xs (Some (x, edit_distance w x)) = Some (c, d)"
      using Cons.prems by (simp add: closer_def [of w x])
    from Cons.IH [OF this] True show ?thesis by auto
  next
    case False
    then have "fold (closer w) xs (Some (c0, edit_distance w c0)) = Some (c, d)"
      using Cons.prems by (simp add: closer_def [of w x])
    from Cons.IH [OF this] False show ?thesis by auto
  qed
qed simp

lemma fold_closer_Some: "\<exists>c d. fold (closer w) xs (Some p) = Some (c, d)"
proof (induction xs arbitrary: p)
  case (Cons x xs)
  have "\<exists>q. closer w x (Some p) = Some q" by (cases p) (auto simp: closer_def Let_def)
  with Cons show ?case by auto
qed (cases p; simp)

text \<open>
  The suggestion for an unknown word. \<open>edit_distance\<close>, which keeps two rows and swaps them, is the
  least number of single-character insertions, deletions and replacements that turn one word into the
  other; \<open>nearest_word\<close> suggests a word exactly when the list has one within three edits, and then one
  that no other word of the list beats.
\<close>

theorem nearest_word_is_nearest:
  "edit_distance s t = (LEAST n. (chars_of s, chars_of t) \<in> one_edit ^^ n) \<and>
   (case nearest_word w of
      Some c \<Rightarrow> c \<in> set WORDS \<and> edit_distance w c \<le> 3 \<and> (\<forall>x \<in> set WORDS. edit_distance w c \<le> edit_distance w x)
    | None \<Rightarrow> \<forall>x \<in> set WORDS. 3 < edit_distance w x)"
proof
  obtain x xs where ws: "WORDS = x # xs" by (cases WORDS) (use length_WORDS in auto)
  obtain c d where cd: "fold (closer w) xs (Some (x, edit_distance w x)) = Some (c, d)"
    using fold_closer_Some by blast
  then have "fold (closer w) WORDS None = Some (c, d)" by (simp add: ws closer_def [of w x])
  with fold_closer [OF cd] show "case nearest_word w of
      Some c \<Rightarrow> c \<in> set WORDS \<and> edit_distance w c \<le> 3 \<and> (\<forall>x \<in> set WORDS. edit_distance w c \<le> edit_distance w x)
    | None \<Rightarrow> \<forall>x \<in> set WORDS. 3 < edit_distance w x"
    by (auto simp: nearest_word_def ws)
qed (rule edit_distance_least)

theorem nearest_word_is_nearest_witness:
  "edit_distance ''kitten'' ''sitting'' = 3 \<and>
   edit_distance ''kitten'' ''sitting'' = (LEAST n. (chars_of ''kitten'', chars_of ''sitting'') \<in> one_edit ^^ n)"
proof
  show "edit_distance ''kitten'' ''sitting'' = 3" by code_simp
  show "edit_distance ''kitten'' ''sitting'' = (LEAST n. (chars_of ''kitten'', chars_of ''sitting'') \<in> one_edit ^^ n)"
    using nearest_word_is_nearest [of "''kitten''" "''sitting''"] by blast
qed

theorem pairing_code_round_trip_witness:
  "parse_code (phrase \<lparr> co_indices = [0, 1, 2, 255] \<rparr>) = Ok \<lparr> co_indices = [0, 1, 2, 255] \<rparr>"
  using pairing_code_round_trip [of _ "\<lparr> co_indices = [0, 1, 2, 255] \<rparr>"]
  by (simp add: code_ok_def WORDS_PER_CODE_def)

end
