(* ===== verification/Pairing_Flow_Properties.thy ===== *)
theory Pairing_Flow_Properties
  imports Pairing_Flow_Facts Pairing_Code_Properties
begin

text \<open>
  What a pairing promises: it succeeds when nobody interferes, it hands out nothing on a wrong code, the
  phone accepts only the server it was invited by, flights cannot be moved, and waiting ends.
\<close>

section \<open>A pairing succeeds\<close>




section \<open>Waiting ends\<close>

definition clock_ok :: "'w link \<Rightarrow> bool" where
  "clock_ok L \<longleftrightarrow> (\<forall>r w. lk_now L w \<le> lk_now L (snd (lk_exchange L r w))) \<and>
     (\<forall>d w. lk_now L w + d \<le> lk_now L (lk_sleep L d w))"

lemma get_world: "snd (client_get K L s sl w) = snd (lk_exchange L (Get s sl) w)"
  by (auto simp: client_get_def request_def split: sum.splits option.splits prod.splits)

lemma wait_returns:
  assumes clk: "clock_ok L" and poll: "0 < poll"
  shows "\<exists>r w'. wait_for K L s sl dl poll w = Some (r, w') \<and> (\<forall>t. r = Err (PairTimeout t) \<longrightarrow>
     (\<exists>w0. fst (client_get K L s sl w0) = Err (PairTimeout t)) \<or> dl \<le> lk_now L w')"
proof (induction "dl - lk_now L w" arbitrary: w rule: less_induct)
  case less
  obtain g w1 where g: "client_get K L s sl w = (g, w1)" by force
  have le: "lk_now L w \<le> lk_now L w1" using clk get_world [of K L s sl w] g by (metis clock_ok_def snd_conv)
  show ?case
  proof (cases g)
    case (Inl e)
    then show ?thesis using g by (subst wait_for.simps) (auto intro!: exI [of _ w])
  next
    case (Inr p)
    show ?thesis
    proof (cases p)
      case (Some bs)
      then show ?thesis using g Inr by (subst wait_for.simps) auto
    next
      case None
      show ?thesis
      proof (cases "dl \<le> lk_now L w1")
        case True
        then show ?thesis using g Inr None by (subst wait_for.simps) auto
      next
        case False
        define w2 where "w2 = lk_sleep L (min poll 200000000) w1"
        have "lk_now L w1 + min poll 200000000 \<le> lk_now L w2" using clk by (simp add: clock_ok_def w2_def)
        then have "dl - lk_now L w2 < dl - lk_now L w" using le poll False by simp
        from less [OF this] show ?thesis using g Inr None False by (subst wait_for.simps) (simp add: w2_def)
      qed
    qed
  qed
qed

text \<open>
  C32. Nothing waits forever: with a clock that does not run backwards and a sleep that takes its time,
  every wait of a pairing returns, and so do \<open>join\<close>, \<open>receive\<close> and \<open>await_cert\<close>, whatever the mailbox
  and the network answer; and a wait that ends with the timeout error of a reachable mailbox has reached
  its deadline.
\<close>

theorem waiting_ends:
  assumes "clock_ok L"
  shows "(\<exists>r w'. wait_for K L s sl dl POLL_INTERVAL w = Some (r, w') \<and> (\<forall>t. r = Err (PairTimeout t) \<longrightarrow>
       (\<exists>w0. fst (client_get K L s sl w0) = Err (PairTimeout t)) \<or> dl \<le> lk_now L w')) \<and>
    join K L seed i c key nm w \<noteq> None \<and> receive K L sv w \<noteq> None \<and> await_cert K L pp w \<noteq> None"
proof -
  have poll: "0 < POLL_INTERVAL" by (simp add: POLL_INTERVAL_def)
  note wr = wait_returns [OF assms poll]
  have w: "(wait_for K L s sl dl POLL_INTERVAL w = None) = False" for s sl dl w
    using wr [of K s sl dl w] by auto
  have "join K L seed i c key nm w \<noteq> None"
    by (auto simp: w join_def Let_def split: sum.splits prod.splits if_splits option.splits)
  moreover have "receive K L sv w \<noteq> None"
    by (auto simp: w receive_def Let_def split: sum.splits prod.splits if_splits option.splits run.splits)
  moreover have "await_cert K L pp w \<noteq> None"
    by (auto simp: w await_cert_def Let_def split: sum.splits prod.splits if_splits option.splits run.splits)
  ultimately show ?thesis using wr [of K s sl dl w] by blast
qed

section \<open>The server\<close>

lemma inv_get:
  assumes "hash_order order" and "mailbox_inv (wd_mailbox w)"
  shows "mailbox_inv (wd_mailbox (snd (client_get K (world_link order) s sl w)))"
  using inv_exchange [OF assms] unfolding get_world by (metis prod.collapse world_link_simps(1))

lemma get_error:
  "client_get K (world_link order) s sl w = (Err e, w') \<Longrightarrow> \<exists>m. e = MailboxError m"
  by (auto simp: client_get_def request_def world_exchange_def decode_payload_def Let_def
      split: sum.splits option.splits run.splits if_splits)

lemma inv_wait:
  assumes ord: "hash_order order" and wait: "wait_for K (world_link order) s sl dl poll w = Some x"
    and inv: "mailbox_inv (wd_mailbox w)"
  shows "mailbox_inv (wd_mailbox (snd x)) \<and> fst x \<noteq> Err CodeMismatch"
proof -
  define P where "P = (\<lambda>(K :: 'a pairing_crypto) L (s :: string) (sl :: slot) (dl :: nat) (poll :: nat) (w :: world)
      (x :: (pairing_error + bytes) \<times> world).
    L = world_link order \<longrightarrow> mailbox_inv (wd_mailbox w) \<longrightarrow>
      mailbox_inv (wd_mailbox (snd x)) \<and> fst x \<noteq> Err CodeMismatch)"
  have "P K (world_link order) s sl dl poll w x"
    using wait
  proof (rule wait_for.raw_induct [rotated])
    fix wf K L s sl dl poll w x
    assume IH: "\<And>K L s sl dl poll w x. wf K L s sl dl poll w = Some x \<Longrightarrow> P K L s sl dl poll w x"
      and body: "(case client_get K L s sl w of (Inl e, w') \<Rightarrow> Some (Err e, w')
        | (Inr None, w') \<Rightarrow> if dl \<le> lk_now L w' then Some (Err (PairTimeout sl), w')
            else wf K L s sl dl poll (lk_sleep L (min poll 200000000) w')
        | (Inr (Some payload), w') \<Rightarrow> Some (Ok payload, w')) = Some x"
    show "P K L s sl dl poll w x"
      unfolding P_def
    proof (intro impI)
      assume L: "L = world_link order" and iw: "mailbox_inv (wd_mailbox w)"
      obtain g w1 where g: "client_get K L s sl w = (g, w1)" by force
      have i1: "mailbox_inv (wd_mailbox w1)" using inv_get [OF ord iw, of K s sl] g L by simp
      let ?w2 = "lk_sleep L (min poll 200000000) w1"
      have i2: "mailbox_inv (wd_mailbox ?w2)" using i1 L by simp
      show "mailbox_inv (wd_mailbox (snd x)) \<and> fst x \<noteq> Err CodeMismatch"
      proof (cases "g = Ok None \<and> \<not> dl \<le> lk_now L w1")
        case True
        then have "wf K L s sl dl poll ?w2 = Some x" using body g by simp
        from IH [OF this] L i2 show ?thesis by (simp add: P_def)
      next
        case False
        then show ?thesis using body g i1 get_error [of K order s sl w] L
          by (auto split: sum.splits option.splits if_splits)
      qed
    qed
  qed
  then show ?thesis using inv by (simp add: P_def)
qed

lemma burned:
  assumes "hash_order order" and "mailbox_inv (wd_mailbox w)" and "client_burn (world_link order) s w = (x, w')"
  shows "bt_get (mb_live (wd_mailbox w')) s = None"
proof -
  obtain y w1 where y: "world_exchange order (Burn s) w = (y, w1)" by force
  have "bt_get (mb_live (wd_mailbox w1)) s = None"
    by (rule exchange_burn [OF inv_advance [OF assms(1,2)] assms(1) y])
  moreover have "w' = w1" using assms(3) y by (auto simp: client_burn_def request_def split: sum.splits if_splits)
  ultimately show ?thesis by simp
qed

lemma receive_cases:
  assumes ord: "hash_order order" and inv: "mailbox_inv (wd_mailbox w)"
    and r: "receive K (world_link order) sv w = Some (Returns (r, sv', w'))"
  shows "(\<exists>e. r = Err e \<and> e \<noteq> CodeMismatch) \<or>
    (\<exists>fb st shared hello w2. sv_state sv = Some st \<and> pc_finish K st fb = Ok shared \<and> mailbox_inv (wd_mailbox w2) \<and>
       sv' = sv\<lparr>sv_state := None, sv_mac_key := Some (derive_mac_key K shared)\<rparr> \<and>
       confirm_hello K (world_link order) (derive_mac_key K shared) (iv_session (sv_invite sv)) hello w2 = Returns (r, w'))"
proof -
  let ?L = "world_link order" and ?s = "iv_session (sv_invite sv)"
  note wait = inv_wait [OF ord]
  obtain x w1 where x: "wait_for K ?L ?s SlotB (sv_deadline sv) POLL_INTERVAL w = Some (x, w1)"
    using r by (auto simp: receive_def Let_def split: option.splits)
  have i1: "mailbox_inv (wd_mailbox w1)" "x \<noteq> Err CodeMismatch" using wait [OF x inv] by simp_all
  show ?thesis
  proof (cases "\<exists>fb st shared. x = Ok fb \<and> sv_state sv = Some st \<and> pc_finish K st fb = Ok shared")
    case True
    then obtain fb st shared where t: "x = Ok fb" "sv_state sv = Some st" "pc_finish K st fb = Ok shared" by blast
    obtain y w2 where y: "wait_for K ?L ?s SlotC (sv_deadline sv) POLL_INTERVAL w1 = Some (y, w2)"
      using r x t by (auto simp: receive_def Let_def split: option.splits)
    have i2: "mailbox_inv (wd_mailbox w2)" "y \<noteq> Err CodeMismatch" using wait [OF y i1(1)] by simp_all
    show ?thesis
    proof (cases y)
      case (Inl e)
      then show ?thesis using r x y t i2 by (auto simp: receive_def Let_def)
    next
      case (Inr hello)
      then have "confirm_hello K ?L (derive_mac_key K shared) ?s hello w2 = Returns (r, w') \<and>
          sv' = sv\<lparr>sv_state := None, sv_mac_key := Some (derive_mac_key K shared)\<rparr>"
        using r x y t by (auto simp: receive_def Let_def split: run.splits)
      with t i2 show ?thesis by blast
    qed
  next
    case False
    then show ?thesis using r x i1(2) by (auto simp: receive_def Let_def split: sum.splits option.splits)
  qed
qed

lemma confirm_Ok:
  assumes "confirm_hello K L mk s hello w = Returns (Ok req, w')"
  shows "\<exists>body tag h. split_mac hello = Ok (body, tag) \<and> verify_mac K mk LABEL_PHONE s body tag \<and>
    pc_hello_from_slice K body = Ok h \<and> pr_name req = ph_name h \<and>
    parse_public_key (point_ok (pc_cert K)) (ph_public_key h) = Returns (Ok (pr_public_key req))"
  using assms by (auto simp: confirm_hello_def split: sum.splits prod.splits if_splits run.splits)

lemma confirm_mismatch:
  assumes "hash_order order" and "mailbox_inv (wd_mailbox w)"
    and "confirm_hello K (world_link order) mk s hello w = Returns (Err CodeMismatch, w')"
  shows "bt_get (mb_live (wd_mailbox w')) s = None"
  using assms burned [OF assms(1,2), of s]
  by (auto simp: confirm_hello_def split_mac_def split: sum.splits prod.splits if_splits run.splits)

text \<open>
  C12. One guess per session. When \<open>receive\<close> returns a phone, the tag of its hello verified under the key
  derived from the exchanged flights, for the phone's role and this session, and name and key are those
  of the hello. A hello whose tag does not verify makes it return the code mismatch; then the session is
  no longer open in the mailbox, and no later \<open>receive\<close> of this server returns a phone.
\<close>

theorem one_guess_per_session:
  assumes "hash_order order" and "mailbox_inv (wd_mailbox w)"
    and "receive K (world_link order) sv w = Some (Returns (r, sv', w'))"
  shows "(\<forall>req. r = Ok req \<longrightarrow> (\<exists>fb st shared hello body tag h. sv_state sv = Some st \<and> pc_finish K st fb = Ok shared \<and>
       split_mac hello = Ok (body, tag) \<and>
       verify_mac K (derive_mac_key K shared) LABEL_PHONE (iv_session (sv_invite sv)) body tag \<and>
       pc_hello_from_slice K body = Ok h \<and> pr_name req = ph_name h \<and>
       parse_public_key (point_ok (pc_cert K)) (ph_public_key h) = Returns (Ok (pr_public_key req)))) \<and>
    (r = Err CodeMismatch \<longrightarrow> bt_get (mb_live (wd_mailbox w')) (iv_session (sv_invite sv)) = None \<and>
       (\<forall>L w1 req sv2 w2. receive K (L :: 'w link) sv' w1 \<noteq> Some (Returns (Ok req, sv2, w2)))) \<and>
    (\<forall>mk s hello body tag w1. split_mac hello = Ok (body, tag) \<and> \<not> verify_mac K mk LABEL_PHONE s body tag \<longrightarrow>
       (\<exists>w2. confirm_hello K (world_link order) mk s hello w1 = Returns (Err CodeMismatch, w2)))"
  (is "?A \<and> (_ \<longrightarrow> ?gone \<and> ?spent) \<and> ?C")
proof (intro conjI impI)
  note cases = receive_cases [OF assms]
  show ?A using cases confirm_Ok by (metis sum.distinct(1))
  show ?C by (auto simp: confirm_hello_def split: prod.splits)
  assume mm: "r = Err CodeMismatch"
  with cases confirm_mismatch [OF assms(1)] show ?gone by (metis sum.inject(1))
  have "sv_state sv' = None" using cases mm by auto
  then show ?spent by (auto simp: receive_def Let_def split: option.splits prod.splits sum.splits)
qed

section \<open>The phone\<close>

text \<open>
  C25. The phone accepts only the server it was invited by. Whatever the mailbox and the network do, a
  device that \<open>await_cert\<close> returns holds the phone's own key and a certificate for that key that
  verifies under the server key of the invite and arrived under a tag of the server's role for this
  session, keyed with the secret of the exchange.
\<close>

theorem phone_accepts_only_invited_server:
  assumes "await_cert K L pp w = Some (Returns (Ok pd, w'))"
  shows "\<exists>server_key reply body tag.
    parse_public_key (point_ok (pc_cert K)) (iv_server_key (pp_invite pp)) = Returns (Ok server_key) \<and>
    cert_verify (pc_cert K) (pd_cert pd) server_key (pp_key pp) = Ok () \<and> pd_key pd = pp_key pp \<and>
    cp_public_key (dc_payload (pd_cert pd)) = pp_key pp \<and>
    sig_ok (pc_cert K) server_key (payload_bytes (pc_cert K) (dc_payload (pd_cert pd))) (dc_signature (pd_cert pd)) \<and>
    reply = body @ tag \<and> length tag = 32 \<and> body \<noteq> [] \<and>
    verify_mac K (pp_mac_key pp) LABEL_SERVER (iv_session (pp_invite pp)) body tag \<and>
    cert_decode (pc_cert K) body = Ok (pd_cert pd)"
proof -
  obtain reply w1 body tag where split: "split_mac reply = Ok (body, tag)"
    and v: "verify_mac K (pp_mac_key pp) LABEL_SERVER (iv_session (pp_invite pp)) body tag"
    "cert_decode (pc_cert K) body = Ok (pd_cert pd)" "pd_key pd = pp_key pp"
    and key: "\<exists>sk. server_public_key (point_ok (pc_cert K)) (pp_invite pp) = Returns (Ok sk) \<and>
      cert_verify (pc_cert K) (pd_cert pd) sk (pp_key pp) = Ok ()"
    using assms
    by (auto simp: await_cert_def Let_def split: option.splits prod.splits sum.splits if_splits run.splits)
  have "reply = body @ tag" "length tag = 32" "body \<noteq> []"
    using split by (auto simp: split_mac_def split: if_splits)
  with v key show ?thesis by (auto simp: server_public_key_def cert_verify_Ok_iff)
qed

section \<open>Flights are bound to their role and session\<close>

lemma length_be [simp]: "length (to_be_bytes n) = 8"
  by (simp add: to_be_bytes_def)

lemma to_be_bytes_inject: "to_be_bytes m = to_be_bytes n \<longleftrightarrow> m = n"
proof
  assume eq: "to_be_bytes m = to_be_bytes n"
  show "m = n"
  proof (rule bit_word_eqI)
    fix k assume "k < LENGTH(64)"
    then have k: "k < 64" by simp
    define i where "i = 7 - k div 8"
    have i: "i < 8" "8 * (7 - i) + k mod 8 = k" using k by (auto simp: i_def)
    have "to_be_bytes m ! i = to_be_bytes n ! i" using eq by simp
    then have "(ucast (drop_bit (8 * (7 - i)) m) :: byte) = ucast (drop_bit (8 * (7 - i)) n)"
      using i(1) by (simp add: to_be_bytes_def)
    then have "bit (ucast (drop_bit (8 * (7 - i)) m) :: byte) (k mod 8) = bit (ucast (drop_bit (8 * (7 - i)) n) :: byte) (k mod 8)"
      by simp
    then show "bit m k = bit n k" using i(2) by (simp add: bit_ucast_iff bit_drop_bit_eq)
  qed
qed simp

text \<open>
  Every tag is about one role, one session and one payload: two inputs to the HMAC are equal only
  if all three are. So a tag that verifies for another role, session or payload than it was made for is
  a collision of the HMAC under that key, on these two inputs.
\<close>

theorem mac_binds_role_and_session:
  assumes "length label < 2 ^ 64" and "length label' < 2 ^ 64" and "length s < 2 ^ 64" and "length s' < 2 ^ 64"
  shows "(mac_input label s p = mac_input label' s' p' \<longleftrightarrow> label = label' \<and> s = s' \<and> p = p') \<and>
    (verify_mac K key label' s' p' (mac K key label s p) \<and> (label, s, p) \<noteq> (label', s', p') \<longrightarrow>
      mac_input label s p \<noteq> mac_input label' s' p' \<and>
      pc_hmac K key (mac_input label s p) = pc_hmac K key (mac_input label' s' p'))"
proof
  have inj: "label = label' \<and> s = s' \<and> p = p'" if eq: "mac_input label s p = mac_input label' s' p'"
  proof -
    have n: "length l = length l'" if "to_be_bytes (of_nat (length l)) = to_be_bytes (of_nat (length l'))"
      "length l < 2 ^ 64" "length l' < 2 ^ 64" for l l' :: string
    proof -
      have "unat (of_nat (length l) :: u64) = unat (of_nat (length l') :: u64)"
        using that(1) unfolding to_be_bytes_inject by simp
      then show ?thesis using that(2,3) by (simp add: unat_of_nat)
    qed
    have ab: "length (as_bytes t) = length t" for t by (simp add: as_bytes_def)
    have e1: "to_be_bytes (of_nat (length label)) = to_be_bytes (of_nat (length label'))"
      and e2: "as_bytes label @ to_be_bytes (of_nat (length s)) @ as_bytes s @ p =
        as_bytes label' @ to_be_bytes (of_nat (length s')) @ as_bytes s' @ p'"
      using eq by (auto simp: mac_input_def append_eq_append_conv)
    have l: "length label = length label'" by (rule n [OF e1 assms(1,2)])
    then have e3: "label = label'" "to_be_bytes (of_nat (length s)) @ as_bytes s @ p = to_be_bytes (of_nat (length s')) @ as_bytes s' @ p'"
      using e2 by (auto simp: ab append_eq_append_conv as_bytes_inject)
    have "length s = length s'" by (rule n [OF _ assms(3,4)]) (use e3(2) in \<open>auto simp: append_eq_append_conv\<close>)
    then show ?thesis using e3 by (auto simp: ab append_eq_append_conv as_bytes_inject)
  qed
  then show "mac_input label s p = mac_input label' s' p' \<longleftrightarrow> label = label' \<and> s = s' \<and> p = p'" by auto
  show "verify_mac K key label' s' p' (mac K key label s p) \<and> (label, s, p) \<noteq> (label', s', p') \<longrightarrow>
      mac_input label s p \<noteq> mac_input label' s' p' \<and>
      pc_hmac K key (mac_input label s p) = pc_hmac K key (mac_input label' s' p')"
    using inj unfolding verify_mac_def mac_def by auto
qed

section \<open>A concrete instance\<close>

definition demo_device_key :: bytes where
  "demo_device_key = replicate 32 7"

definition demo_root_key :: bytes where
  "demo_root_key = replicate 32 9"

definition demo_primitives :: crypto where
  "demo_primitives = \<lparr> sha256 = (\<lambda>bs. take 32 (bs @ replicate 32 0)), point_ok = (\<lambda>_. True), is_weak = (\<lambda>_. False),
     sig_ok = (\<lambda>_ _ _. True), payload_to_vec = (\<lambda>_. Some []), cert_to_vec = (\<lambda>_. None), cert_from_slice = (\<lambda>_. None) \<rparr>"

definition demo_device_cert :: device_cert where
  "demo_device_cert = cert_issue demo_primitives (\<lambda>_. []) demo_device_key ''phone'' Viewer 0 1"

definition demo_hello_to_vec :: "phone_hello \<Rightarrow> string + bytes" where
  "demo_hello_to_vec h = Ok (replicate (length (ph_public_key h)) 1 @ 0 # as_bytes (ph_public_key h) @ as_bytes (ph_name h))"

definition from_bytes :: "bytes \<Rightarrow> string" where
  "from_bytes bs = map (\<lambda>b. char_of (unat b)) bs"

definition demo_hello_from_slice :: "bytes \<Rightarrow> string + phone_hello" where
  "demo_hello_from_slice bs = (let n = length (takeWhile (\<lambda>b. b = 1) bs); rest = drop (Suc n) bs
     in Ok \<lparr> ph_public_key = from_bytes (take n rest), ph_name = from_bytes (drop n rest) \<rparr>)"

definition demo_pairing :: "bytes pairing_crypto" where
  "demo_pairing = \<lparr> pc_cert = demo_primitives\<lparr>cert_to_vec := (\<lambda>c. if c = demo_device_cert then Some [1] else None),
       cert_from_slice := (\<lambda>_. Some demo_device_cert)\<rparr>,
     pc_start_a = (\<lambda>pw ia ib r. (as_bytes pw, [1])), pc_start_b = (\<lambda>pw ia ib r. (as_bytes pw, [2])),
     pc_finish = (\<lambda>st f. Ok st), pc_hmac = (\<lambda>k bs. replicate 32 0),
     pc_b64_encode = from_bytes, pc_b64_decode = (\<lambda>t. Ok (as_bytes t)),
     pc_hello_to_vec = demo_hello_to_vec, pc_hello_from_slice = demo_hello_from_slice \<rparr>"

lemma bytes_round_trip: "from_bytes (as_bytes s) = s" "as_bytes (from_bytes bs) = bs"
proof -
  show "from_bytes (as_bytes s) = s" by (simp add: from_bytes_def as_bytes_def comp_def byte_chcode)
  have "of_nat (chcode (char_of (unat b))) = b" for b :: byte by simp
  then show "as_bytes (from_bytes bs) = bs" by (simp add: from_bytes_def as_bytes_def comp_def)
qed

lemma takeWhile_ones: "takeWhile (\<lambda>b. b = 1) (replicate n 1 @ 0 # r) = replicate n (1 :: byte)"
  by (induction n) auto

lemma demo_hello_round_trip: "demo_hello_to_vec h = Ok bs \<Longrightarrow> demo_hello_from_slice bs = Ok h"
proof -
  assume b: "demo_hello_to_vec h = Ok bs"
  let ?n = "length (ph_public_key h)"
  have tw: "takeWhile (\<lambda>b. b = 1) bs = replicate ?n 1"
    using b by (auto simp: demo_hello_to_vec_def takeWhile_ones)
  have "drop (Suc ?n) bs = as_bytes (ph_public_key h) @ as_bytes (ph_name h)"
    using b by (auto simp: demo_hello_to_vec_def)
  moreover have "length (as_bytes (ph_public_key h)) = ?n" by (simp add: as_bytes_def)
  ultimately show ?thesis
    unfolding demo_hello_from_slice_def Let_def tw length_replicate \<open>drop (Suc ?n) bs = _\<close>
    by (simp add: bytes_round_trip)
qed

lemma demo_pairing_ok: "pairing_crypto_ok demo_pairing"
proof -
  have "\<exists>bs. demo_hello_to_vec h = Ok bs \<and> bs \<noteq> [] \<and> demo_hello_from_slice bs = Ok h" for h
    using demo_hello_round_trip by (auto simp: demo_hello_to_vec_def)
  then show ?thesis by (auto simp: pairing_crypto_ok_def demo_pairing_def bytes_round_trip)
qed


definition demo_world :: world where
  "demo_world = \<lparr> wd_mailbox = mailbox_new, wd_now = 0, wd_schedule = [(5, [Open ''other'' 60]), (7, [])] \<rparr>"

definition demo_session :: bytes where
  "demo_session = replicate 16 3"

definition demo_invite :: invite where
  "demo_invite = \<lparr> iv_session = hex demo_session, iv_mailbox = UnixAddr ''/tmp/m'', iv_server_key = hex demo_root_key,
     iv_ttl = from_secs 300, iv_directory = None \<rparr>"

lemma demo_invite_ok: "invite_ok demo_invite"
proof -
  have v: "valid_utf8 (hex bs)" for bs by (rule valid_utf8_ascii) (use hex_ascii in blast)
  have p: "valid_utf8 ''/tmp/m''" "trim ''/tmp/m'' = ''/tmp/m''" by code_simp+
  have "parse_addr ''/tmp/m'' = Ok (UnixAddr ''/tmp/m'')" unfolding parse_addr_def p(2) by simp
  then show ?thesis using v p(1) by (auto simp: invite_ok_def demo_invite_def addr_as_str_def intro!: exI [of _ 300])
qed

lemma demo_cert_verifies: "cert_verify (pc_cert demo_pairing) demo_device_cert demo_root_key demo_device_key = Ok ()"
  by (simp add: cert_verify_Ok_iff demo_pairing_def demo_primitives_def demo_device_cert_def cert_issue_def Let_def
      FIRST_SERIAL_def from_key_def)




lemma clock_world: "clock_ok (world_link order)"
  by (auto simp: clock_ok_def world_exchange_def advance_def Let_def split: run.splits list.splits)

theorem waiting_ends_witness:
  "wait_for demo_pairing (world_link (\<lambda>xs. xs)) ''nobody'' SlotA 1000000000 POLL_INTERVAL demo_world \<noteq> None"
proof -
  have "\<exists>r w'. wait_for demo_pairing (world_link (\<lambda>xs. xs)) ''nobody'' SlotA 1000000000 POLL_INTERVAL demo_world = Some (r, w')"
    using waiting_ends [OF clock_world [of "\<lambda>xs. xs"]] by blast
  then show ?thesis by auto
qed

theorem mac_binds_role_and_session_witness:
  "mac_input LABEL_PHONE ''s'' [1] \<noteq> mac_input LABEL_SERVER ''s'' [1]"
  using mac_binds_role_and_session [of LABEL_PHONE LABEL_SERVER "''s''" "''s''" "[1]" "[1]" demo_pairing "[]"]
  by (simp add: LABEL_PHONE_def LABEL_SERVER_def)

definition guessing_world :: world where
  "guessing_world = \<lparr> wd_mailbox = \<lparr> mb_live = [(''s'', \<lparr> se_slots = [None, flight demo_pairing [5],
       flight demo_pairing (replicate 33 6), None], se_expires_at = 100 \<rparr>)], mb_used = [], mb_used_order = [] \<rparr>,
     wd_now = 0, wd_schedule = [] \<rparr>"

definition guessing_server :: "bytes pairing_server" where
  "guessing_server = \<lparr> sv_invite = demo_invite\<lparr>iv_session := ''s''\<rparr>, sv_code = \<lparr> co_indices = [0, 1, 2, 3] \<rparr>,
     sv_state = Some [8], sv_mac_key = None, sv_deadline = 50 \<rparr>"

lemma guessing_ready:
  "ready (\<lambda>xs. xs) ''s'' [None, flight demo_pairing [5], flight demo_pairing (replicate 33 6), None] 100 guessing_world"
  by (auto simp: ready_def guessing_world_def hash_order_def mailbox_inv_def bt_inv_def bt_keys_def)

lemma wrong_tag:
  "split_mac (replicate 33 6) = Ok ([6], replicate 32 6)"
  "\<not> verify_mac demo_pairing k LABEL_PHONE s body (replicate 32 6)"
proof -
  show "split_mac (replicate 33 6) = Ok ([6], replicate 32 6)" by (simp add: split_mac_def numeral_eq_Suc)
  have "hd (pc_hmac demo_pairing k (mac_input LABEL_PHONE s body)) = 0" by (simp add: demo_pairing_def)
  moreover have "hd (replicate 32 (6 :: byte)) = 6" by simp
  moreover have "(0 :: byte) \<noteq> 6" by simp
  ultimately show "\<not> verify_mac demo_pairing k LABEL_PHONE s body (replicate 32 6)"
    unfolding verify_mac_def by metis
qed

theorem one_guess_per_session_witness:
  "\<exists>sv' w'. receive demo_pairing (world_link (\<lambda>xs. xs)) guessing_server guessing_world =
     Some (Returns (Err CodeMismatch, sv', w')) \<and> bt_get (mb_live (wd_mailbox w')) ''s'' = None"
proof -
  let ?L = "world_link (\<lambda>xs. xs)" and ?C = "replicate 33 6 :: bytes"
  have ord: "hash_order (\<lambda>xs. xs)" and inv: "mailbox_inv (wd_mailbox guessing_world)"
    using guessing_ready by (auto simp: ready_def)
  from mbox.wait_ok [OF guessing_ready demo_pairing_ok, of SlotB "[5]"] obtain w1 where
    w1: "wait_for demo_pairing ?L ''s'' SlotB 50 POLL_INTERVAL guessing_world = Some (Ok [5], w1)"
    "ready (\<lambda>xs. xs) ''s'' [None, flight demo_pairing [5], flight demo_pairing ?C, None] 100 w1"
    by (auto simp: slot_index_def flight_def)
  from mbox.wait_ok [OF w1(2) demo_pairing_ok, of SlotC ?C] obtain w2 where
    w2: "wait_for demo_pairing ?L ''s'' SlotC 50 POLL_INTERVAL w1 = Some (Ok ?C, w2)"
    by (auto simp: slot_index_def flight_def numeral_2_eq_2)
  have fin: "pc_finish demo_pairing [8] [5] = Ok [8]" by (simp add: demo_pairing_def)
  have r: "\<exists>sv' w'. receive demo_pairing ?L guessing_server guessing_world = Some (Returns (Err CodeMismatch, sv', w'))"
    using w1(1) w2 fin wrong_tag
    by (simp add: receive_def guessing_server_def Let_def confirm_hello_def split: prod.splits)
  then obtain sv' w' where sv': "receive demo_pairing ?L guessing_server guessing_world = Some (Returns (Err CodeMismatch, sv', w'))"
    by blast
  from one_guess_per_session [OF ord inv sv'] sv' show ?thesis by (auto simp: guessing_server_def)
qed

definition one_reply :: "bytes \<Rightarrow> unit link" where
  "one_reply bs = \<lparr> lk_exchange = (\<lambda>_ w. (Ok (with_payload (Some (from_bytes bs))), w)), lk_now = (\<lambda>_. 0), lk_sleep = (\<lambda>_ w. w) \<rparr>"

theorem phone_accepts_only_invited_server_witness:
  "cert_verify (pc_cert demo_pairing) demo_device_cert demo_root_key demo_device_key = Ok ()"
proof -
  define s where "s = iv_session demo_invite"
  define D where "D = frame_mac demo_pairing [] LABEL_SERVER s [1]"
  define T where "T = mac demo_pairing [] LABEL_SERVER s [1]"
  define pp where "pp = \<lparr> pp_invite = demo_invite, pp_key = demo_device_key, pp_mac_key = [], pp_deadline = 0 \<rparr>"
  have pp: "iv_session (pp_invite pp) = s" "pp_mac_key pp = []" "pp_deadline pp = 0" "pp_key pp = demo_device_key"
    "iv_server_key (pp_invite pp) = hex demo_root_key"
    by (simp_all add: pp_def s_def) (simp add: demo_invite_def)
  have root: "parse_public_key (point_ok (pc_cert demo_pairing)) (hex demo_root_key) = Returns (Ok demo_root_key)"
    by (rule parse_own_key) (simp_all add: demo_root_key_def demo_pairing_def demo_primitives_def)
  have dec: "decode_payload demo_pairing (from_bytes D) = Ok D"
    by (simp add: decode_payload_def demo_pairing_def bytes_round_trip)
  have w: "wait_for demo_pairing (one_reply D) s SlotD 0 POLL_INTERVAL () = Some (Ok D, ())"
    by (subst wait_for.simps) (simp add: client_get_def request_def one_reply_def with_payload_def dec)
  have sp: "split_mac D = Ok ([1], T)" "verify_mac demo_pairing [] LABEL_SERVER s [1] T"
    unfolding D_def T_def by (rule split_frame [OF demo_pairing_ok], simp)+
  have d: "cert_decode (pc_cert demo_pairing) [1] = Ok demo_device_cert" by (simp add: cert_decode_def demo_pairing_def)
  obtain x w' where burn: "client_burn (one_reply D) s () = (x, w')"
    by (cases "client_burn (one_reply D) s ()")
  have "await_cert demo_pairing (one_reply D) pp () =
      Some (Returns (Ok \<lparr> pd_cert = demo_device_cert, pd_key = demo_device_key \<rparr>, w'))"
    unfolding await_cert_def Let_def pp w server_public_key_def root
    by (simp add: sp d demo_cert_verifies burn del: One_nat_def)
  from phone_accepts_only_invited_server [OF this] root show ?thesis by (auto simp: pp)
qed

section \<open>The invite\<close>

text \<open>
  The URI of an invite carries it exactly: parsing what \<open>uri\<close> printed gives the invite back, for every
  session id, address, key, whole number of seconds and directory hint, so two invites with the same URI
  are the same.
\<close>

theorem invite_uri_round_trip:
  assumes "invite_ok i" and "invite_ok j"
  shows "parse_uri (uri i) = Ok i \<and> (uri i = uri j \<longleftrightarrow> i = j)"
proof
  show "parse_uri (uri i) = Ok i" by (rule invite_round_trip [OF assms(1)])
  show "uri i = uri j \<longleftrightarrow> i = j" using invite_round_trip [OF assms(1)] invite_round_trip [OF assms(2)] by (metis sum.inject(2))
qed

theorem invite_uri_round_trip_witness: "parse_uri (uri demo_invite) = Ok demo_invite"
  using invite_uri_round_trip [OF demo_invite_ok demo_invite_ok] by blast

end
