(* ===== verification/Proto_Codec.thy ===== *)
theory Proto_Codec
  imports Text_Utf8
begin

text \<open>
  The wire codec, \<open>crates/arreo-core/src/proto/codec.rs\<close>: length-prefixed frames, the reader of the \<open>op\<close>
  tag of a frame that could not be decoded, and version negotiation. The messages and their MessagePack
  encoding (\<open>rmp_serde\<close>) are arguments. \<open>&bytes[..n]\<close> past the end is a panic, \<open>rest.get(n..)\<close> is
  \<open>None\<close>. The recursion of \<open>skip_value\<close> takes fuel, its depth; out of fuel is the outer \<open>None\<close>.
\<close>

section \<open>Frames\<close>

datatype codec_error =
    CodecEncode string
  | CodecDecode string
  | CodecVersion nat "nat list"
  | CodecTruncated nat nat

definition FRAME_BUDGET :: nat where
  "FRAME_BUDGET = 1024 * 1024"

definition encode :: "('m \<Rightarrow> string + bytes) \<Rightarrow> 'm \<Rightarrow> codec_error + bytes" where
  "encode to_vec message = (case to_vec message of Err e \<Rightarrow> Err (CodecEncode e) | Ok bs \<Rightarrow> Ok bs)"

definition decode :: "(bytes \<Rightarrow> string + 'm) \<Rightarrow> bytes \<Rightarrow> codec_error + 'm" where
  "decode from_slice bs = (case from_slice bs of Err e \<Rightarrow> Err (CodecDecode e) | Ok message \<Rightarrow> Ok message)"

definition decode_borrowed :: "(bytes \<Rightarrow> string + 'm) \<Rightarrow> bytes \<Rightarrow> codec_error + 'm" where
  "decode_borrowed from_slice bs = decode from_slice bs"

text \<open>The length is cast to \<open>u32\<close>: it wraps.\<close>

definition encode_frame :: "('m \<Rightarrow> string + bytes) \<Rightarrow> 'm \<Rightarrow> codec_error + bytes" where
  "encode_frame to_vec message = (case encode to_vec message of
      Err e \<Rightarrow> Err e
    | Ok body \<Rightarrow> Ok (to_le_bytes (length body mod 2 ^ 32) @ body))"

definition frame_body_len :: "bytes \<Rightarrow> codec_error + nat" where
  "frame_body_len buffer =
     (if length buffer < 4 then Err (CodecTruncated 4 (length buffer))
      else let len = from_le_bytes buffer in
        if len > FRAME_BUDGET
        then Err (CodecDecode (''frame declares '' @ show_nat len @ '' bytes, over the '' @ show_nat FRAME_BUDGET
          @ ''-byte budget''))
        else Ok len)"

definition decode_frame_full :: "(bytes \<Rightarrow> string + 'm) \<Rightarrow> bytes \<Rightarrow> codec_error + 'm \<times> nat \<times> bytes" where
  "decode_frame_full from_slice buffer = (case frame_body_len buffer of
      Err e \<Rightarrow> Err e
    | Ok len \<Rightarrow>
        if length buffer < 4 + len then Err (CodecTruncated (4 + len) (length buffer))
        else let body = take len (drop 4 buffer) in
          case decode from_slice body of Err e \<Rightarrow> Err e | Ok message \<Rightarrow> Ok (message, 4 + len, body))"

definition decode_frame :: "(bytes \<Rightarrow> string + 'm) \<Rightarrow> bytes \<Rightarrow> codec_error + 'm \<times> nat" where
  "decode_frame from_slice buffer = (case decode_frame_full from_slice buffer of
      Err e \<Rightarrow> Err e | Ok (message, consumed, _) \<Rightarrow> Ok (message, consumed))"

section \<open>Reading the tag of an undecodable frame\<close>

datatype direction = Request | Event

definition be16 :: "bytes \<Rightarrow> nat" where
  "be16 bs = 2 ^ 8 * unat (bs ! 0) + unat (bs ! 1)"

definition be32 :: "bytes \<Rightarrow> nat" where
  "be32 bs = 2 ^ 24 * unat (bs ! 0) + 2 ^ 16 * unat (bs ! 1) + 2 ^ 8 * unat (bs ! 2) + unat (bs ! 3)"

definition str_of_bytes :: "bytes \<Rightarrow> string" where
  "str_of_bytes bs = map (\<lambda>b. char_of (unat b)) bs"

definition decode_str :: "bytes \<Rightarrow> (string \<times> bytes) option" where
  "decode_str bs = (case bs of [] \<Rightarrow> None | first # rest \<Rightarrow>
     (let b = unat first; header =
        (if 0xa0 \<le> b \<and> b \<le> 0xbf then Some (b mod 0x20, rest)
         else if b = 0xd9 then (if rest = [] then None else Some (unat (rest ! 0), drop 1 rest))
         else if b = 0xda then (if length rest < 2 then None else Some (be16 rest, drop 2 rest))
         else if b = 0xdb then (if length rest < 4 then None else Some (be32 rest, drop 4 rest))
         else None)
      in case header of None \<Rightarrow> None
       | Some (len, body) \<Rightarrow>
           if length body < len then None
           else if valid_utf8 (str_of_bytes (take len body)) then Some (str_of_bytes (take len body), drop len body)
           else None))"

text \<open>\<open>Some((&bytes[..n], rest.get(k..)?))\<close>: the slice is evaluated first.\<close>

definition skip_bytes :: "bytes \<Rightarrow> nat \<Rightarrow> bytes \<Rightarrow> nat \<Rightarrow> bytes option run" where
  "skip_bytes bs n rest k = (if n > length bs then Panics
     else Returns (if k \<le> length rest then Some (drop k rest) else None))"

fun skip_times :: "(bytes \<Rightarrow> bytes option run option) \<Rightarrow> nat \<Rightarrow> bytes \<Rightarrow> bytes option run option" where
  "skip_times skip 0 cursor = Some (Returns (Some cursor))"
| "skip_times skip (Suc n) cursor = (case skip cursor of
      Some (Returns (Some c)) \<Rightarrow> skip_times skip n c
    | r \<Rightarrow> r)"

text \<open>
  \<open>skip_len w a\<close>: a length of \<open>w\<close> bytes follows the first byte, then \<open>a\<close> bytes and that many. (With \<open>w = 1\<close>
  the code reads it by \<open>rest.first()?\<close>.)
\<close>

definition read_len :: "nat \<Rightarrow> bytes \<Rightarrow> nat option" where
  "read_len w rest = (if length rest < w then None
     else Some (if w = 1 then unat (rest ! 0) else if w = 2 then be16 rest else be32 rest))"

definition skip_len :: "nat \<Rightarrow> nat \<Rightarrow> bytes \<Rightarrow> bytes \<Rightarrow> bytes option run option" where
  "skip_len w a bs rest = (case read_len w rest of
      None \<Rightarrow> Some (Returns None)
    | Some len \<Rightarrow> Some (skip_bytes bs (1 + w + a + len) rest (w + a + len)))"

text \<open>Arrays skip \<open>per = 1\<close> value for each element, maps \<open>per = 2\<close>.\<close>

definition skip_many :: "(bytes \<Rightarrow> bytes option run option) \<Rightarrow> nat \<Rightarrow> nat \<Rightarrow> bytes \<Rightarrow> bytes option run option" where
  "skip_many skip w per rest = (case read_len w rest of
      None \<Rightarrow> Some (Returns None)
    | Some count \<Rightarrow> skip_times skip (per * count) (drop w rest))"

definition skip_step :: "(bytes \<Rightarrow> bytes option run option) \<Rightarrow> bytes \<Rightarrow> bytes option run option" where
  "skip_step skip bs = (case bs of [] \<Rightarrow> Some (Returns None) | first # rest \<Rightarrow>
     (let b = unat first in
      if b = 0xc0 \<or> b = 0xc2 \<or> b = 0xc3 then Some (Returns (Some rest))
      else if b \<le> 0x7f \<or> 0xe0 \<le> b then Some (Returns (Some rest))
      else if b = 0xcc \<or> b = 0xd0 then Some (skip_bytes bs 2 rest 1)
      else if b = 0xcd \<or> b = 0xd1 then Some (skip_bytes bs 3 rest 2)
      else if b = 0xca then Some (skip_bytes bs 5 rest 4)
      else if b = 0xce \<or> b = 0xd2 then Some (skip_bytes bs 5 rest 4)
      else if b = 0xcb \<or> b = 0xd3 then Some (skip_bytes bs 9 rest 8)
      else if b = 0xcf then Some (skip_bytes bs 9 rest 8)
      else if 0xa0 \<le> b \<and> b \<le> 0xbf then Some (skip_bytes bs (1 + b mod 0x20) rest (b mod 0x20))
      else if b = 0xd9 then skip_len 1 0 bs rest
      else if b = 0xda then skip_len 2 0 bs rest
      else if b = 0xdb then skip_len 4 0 bs rest
      else if b = 0xc4 then skip_len 1 0 bs rest
      else if b = 0xc5 then skip_len 2 0 bs rest
      else if b = 0xc6 then skip_len 4 0 bs rest
      else if 0x90 \<le> b \<and> b \<le> 0x9f then skip_times skip (b mod 0x10) rest
      else if b = 0xdc then skip_many skip 2 1 rest
      else if b = 0xdd then skip_many skip 4 1 rest
      else if 0x80 \<le> b \<and> b \<le> 0x8f then skip_times skip (2 * (b mod 0x10)) rest
      else if b = 0xde then skip_many skip 2 2 rest
      else if b = 0xdf then skip_many skip 4 2 rest
      else if b = 0xd4 then Some (skip_bytes bs 3 rest 2)
      else if b = 0xd5 then Some (skip_bytes bs 4 rest 3)
      else if b = 0xd6 then Some (skip_bytes bs 6 rest 5)
      else if b = 0xd7 then Some (skip_bytes bs 10 rest 9)
      else if b = 0xd8 then Some (skip_bytes bs 18 rest 17)
      else if b = 0xc7 then skip_len 1 1 bs rest
      else if b = 0xc8 then skip_len 2 1 bs rest
      else if b = 0xc9 then skip_len 4 1 bs rest
      else Some (Returns None)))"

primrec skip_value :: "nat \<Rightarrow> bytes \<Rightarrow> bytes option run option" where
  "skip_value 0 = (\<lambda>bs. None)"
| "skip_value (Suc fuel) = skip_step (skip_value fuel)"

fun find_op :: "(bytes \<Rightarrow> bytes option run option) \<Rightarrow> nat \<Rightarrow> bytes \<Rightarrow> string option run option" where
  "find_op skip 0 cursor = Some (Returns None)"
| "find_op skip (Suc count) cursor = (case decode_str cursor of
      None \<Rightarrow> Some (Returns None)
    | Some (key, after_key) \<Rightarrow>
        if key = ''op'' then Some (Returns (map_option fst (decode_str after_key)))
        else (case skip after_key of
            Some (Returns (Some c)) \<Rightarrow> find_op skip count c
          | Some (Returns None) \<Rightarrow> Some (Returns None)
          | Some Panics \<Rightarrow> Some Panics
          | None \<Rightarrow> None))"

definition head_count :: "nat \<Rightarrow> nat \<Rightarrow> nat \<Rightarrow> bytes \<Rightarrow> (nat \<times> bytes) option" where
  "head_count b lo w16 rest =
     (if lo \<le> b \<and> b \<le> lo + 0x0f then Some (b mod 0x10, rest)
      else if b = w16 then (if length rest < 2 then None else Some (be16 rest, drop 2 rest))
      else if length rest < 4 then None else Some (be32 rest, drop 4 rest))"

definition decode_op_tag :: "bytes \<Rightarrow> string option run option" where
  "decode_op_tag bs = (case bs of [] \<Rightarrow> Some (Returns None) | first # rest \<Rightarrow>
     (let b = unat first in
      if (0x90 \<le> b \<and> b \<le> 0x9f) \<or> b = 0xdc \<or> b = 0xdd then
        (case head_count b 0x90 0xdc rest of
           None \<Rightarrow> Some (Returns None)
         | Some (len, after_len) \<Rightarrow>
             if len < 1 then Some (Returns None) else Some (Returns (map_option fst (decode_str after_len))))
      else if (0x80 \<le> b \<and> b \<le> 0x8f) \<or> b = 0xde \<or> b = 0xdf then
        (case head_count b 0x80 0xde rest of
           None \<Rightarrow> Some (Returns None)
         | Some (count, cursor) \<Rightarrow> find_op (skip_value (length bs)) count cursor)
      else Some (Returns None)))"

definition decode_op_for_error :: "bytes \<Rightarrow> string option run option" where
  "decode_op_for_error bs = decode_op_tag bs"

definition request_ops :: "string list" where
  "request_ops = [''hello'', ''resume'', ''spawn'', ''spawn_worktree'', ''attach'', ''send'', ''resize'', ''kill'',
     ''read'', ''wait'', ''split'', ''metrics_req'', ''panes'', ''handoff'', ''sync'', ''notify_act'', ''theme'']"

definition event_ops :: "string list" where
  "event_ops = [''welcome'', ''snapshot'', ''delta'', ''error'', ''state_event'', ''metrics'', ''metrics_series'',
     ''ok'', ''exited'', ''handoff_ready'', ''sync_reply'', ''notify_act_reply'', ''theme_reply'', ''notify_push'']"

definition direction_of :: "string \<Rightarrow> direction" where
  "direction_of op = (if op \<in> set request_ops then Request else if op \<in> set event_ops then Event else Request)"

definition classify_op :: "bytes \<Rightarrow> direction option run option" where
  "classify_op bs = (case decode_op_tag bs of
      None \<Rightarrow> None
    | Some Panics \<Rightarrow> Some Panics
    | Some (Returns op) \<Rightarrow> Some (Returns (map_option direction_of op)))"

section \<open>Versions\<close>

definition client_versions_from :: "nat \<Rightarrow> nat list" where
  "client_versions_from version = (if version = 0 then [version] else [version, version - 1])"

definition PROTO_VERSION :: nat where
  "PROTO_VERSION = 0"

definition client_versions :: "nat list" where
  "client_versions = client_versions_from PROTO_VERSION"

definition negotiate :: "nat \<Rightarrow> nat list \<Rightarrow> codec_error + nat" where
  "negotiate server wants =
     (case filter (\<lambda>v. v = server \<or> v = server - 1) wants of
        [] \<Rightarrow> Err (CodecVersion server wants)
      | v # vs \<Rightarrow> Ok (fold max vs v))"

end
