(* ===== verification/Proto_Codec_Facts.thy ===== *)
theory Proto_Codec_Facts
  imports Proto_Codec
begin

text \<open>
  The MessagePack format as its specification gives it, and that \<open>skip_value\<close> steps over exactly one value
  of it; then the frames.
\<close>

section \<open>MessagePack\<close>

text \<open>
  What follows the first byte of a value: \<open>Fixed k\<close>, \<open>k\<close> bytes; \<open>Sized w a\<close>, a length of \<open>w\<close> bytes, then \<open>a\<close>
  bytes and that many; \<open>Items n\<close>, \<open>n\<close> values; \<open>Counted w per\<close>, a count of \<open>w\<close> bytes, then \<open>per\<close> values for
  each.
\<close>

datatype mp_class = Fixed nat | Sized nat nat | Items nat | Counted nat nat | Unused

definition mp_class_of :: "nat \<Rightarrow> mp_class" where
  "mp_class_of b =
     (if b \<le> 0x7f \<or> 0xe0 \<le> b then Fixed 0
      else if b \<le> 0x8f then Items (2 * (b mod 16))
      else if b \<le> 0x9f then Items (b mod 16)
      else if b \<le> 0xbf then Fixed (b mod 32)
      else [Fixed 0, Unused, Fixed 0, Fixed 0, Sized 1 0, Sized 2 0, Sized 4 0, Sized 1 1, Sized 2 1, Sized 4 1,
        Fixed 4, Fixed 8, Fixed 1, Fixed 2, Fixed 4, Fixed 8, Fixed 1, Fixed 2, Fixed 4, Fixed 8,
        Fixed 2, Fixed 3, Fixed 5, Fixed 9, Fixed 17, Sized 1 0, Sized 2 0, Sized 4 0,
        Counted 2 1, Counted 4 1, Counted 2 2, Counted 4 2] ! (b - 0xc0))"

definition be_number :: "bytes \<Rightarrow> nat" where
  "be_number ls = fold (\<lambda>b n. 256 * n + unat b) ls 0"

inductive mp :: "bytes \<Rightarrow> bool" and mps :: "nat \<Rightarrow> bytes \<Rightarrow> bool" where
  mp_fixed: "mp_class_of (unat b) = Fixed k \<Longrightarrow> length xs = k \<Longrightarrow> mp (b # xs)"
| mp_sized: "mp_class_of (unat b) = Sized w a \<Longrightarrow> length ls = w \<Longrightarrow> length xs = a + be_number ls \<Longrightarrow> mp (b # ls @ xs)"
| mp_items: "mp_class_of (unat b) = Items n \<Longrightarrow> mps n vs \<Longrightarrow> mp (b # vs)"
| mp_counted: "mp_class_of (unat b) = Counted w per \<Longrightarrow> length ls = w \<Longrightarrow> mps (per * be_number ls) vs \<Longrightarrow> mp (b # ls @ vs)"
| mps_nil: "mps 0 []"
| mps_cons: "mp v \<Longrightarrow> mps n vs \<Longrightarrow> mps (Suc n) (v @ vs)"

inductive_cases mps_SucE: "mps (Suc n) cs"

lemma skip_step_class:
  "skip_step skip (first # rest) = (case mp_class_of (unat first) of
      Fixed k \<Rightarrow> Some (skip_bytes (first # rest) (1 + k) rest k)
    | Sized w a \<Rightarrow> skip_len w a (first # rest) rest
    | Items n \<Rightarrow> skip_times skip n rest
    | Counted w per \<Rightarrow> skip_many skip w per rest
    | Unused \<Rightarrow> Some (Returns None))"
proof -
  define b where "b = unat first"
  have b: "b < 256" by (simp add: b_def)
  consider "b \<le> 0x7f" | "0x80 \<le> b \<and> b \<le> 0x8f" | "0x90 \<le> b \<and> b \<le> 0x9f" | "0xa0 \<le> b \<and> b \<le> 0xbf"
    | "0xe0 \<le> b" | "0xc0 \<le> b \<and> b \<le> 0xdf" using b by linarith
  then show ?thesis
  proof cases
    case 6
    then have "b \<in> set [0xc0..<0xe0]" unfolding set_upt by simp
    then show ?thesis unfolding skip_step_def b_def [symmetric] Let_def
      by (auto simp: upt_rec mp_class_of_def skip_bytes_def b_def [symmetric])
  qed (auto simp: skip_step_def b_def [symmetric] mp_class_of_def skip_bytes_def)
qed

lemma be_number_read:
  "length ls = w \<Longrightarrow> w \<in> {1, 2, 4} \<Longrightarrow> read_len w (ls @ xs) = Some (be_number ls)"
  "read_len w rest = Some n \<Longrightarrow> w \<in> {1, 2, 4} \<Longrightarrow> w \<le> length rest \<and> n = be_number (take w rest)"
proof -
  have r: "read_len w (ls @ xs) = Some (be_number ls)" if len: "length ls = w" "w \<in> {1, 2, 4}" for ls xs and w :: nat
  proof -
    consider a where "ls = [a]" "w = 1" | a b where "ls = [a, b]" "w = 2" | a b c d where "ls = [a, b, c, d]" "w = 4"
      using len by (auto simp: length_Suc_conv numeral_eq_Suc)
    then show ?thesis by cases (auto simp: read_len_def be16_def be32_def be_number_def)
  qed
  show "length ls = w \<Longrightarrow> w \<in> {1, 2, 4} \<Longrightarrow> read_len w (ls @ xs) = Some (be_number ls)" by (rule r)
  assume n: "read_len w rest = Some n" "w \<in> {1, 2, 4}"
  then have le: "w \<le> length rest" by (auto simp: read_len_def split: if_splits)
  moreover have "read_len w (take w rest @ drop w rest) = Some (be_number (take w rest))"
    by (rule r) (use le n in auto)
  ultimately show "w \<le> length rest \<and> n = be_number (take w rest)" using n(1) by simp
qed

lemma class_widths:
  "mp_class_of b = Sized w a \<Longrightarrow> w \<in> {1, 2, 4}" "mp_class_of b = Counted w per \<Longrightarrow> w \<in> {1, 2, 4}"
proof -
  have "b \<in> set [0xc0..<0xe0]" if "mp_class_of b = Sized w a \<or> mp_class_of b = Counted w per"
  proof (rule ccontr)
    assume "b \<notin> set [0xc0..<0xe0]"
    then have "b < 0xc0 \<or> 0xe0 \<le> b" unfolding set_upt by simp linarith
    then show False using that by (auto simp: mp_class_of_def split: if_splits)
  qed
  then show "mp_class_of b = Sized w a \<Longrightarrow> w \<in> {1, 2, 4}" "mp_class_of b = Counted w per \<Longrightarrow> w \<in> {1, 2, 4}"
    by (auto simp: upt_rec mp_class_of_def)
qed

lemma class_fixed_le: "mp_class_of b = Fixed k \<Longrightarrow> k \<le> 31"
proof (cases "0xc0 \<le> b \<and> b < 0xe0")
  case True
  assume f: "mp_class_of b = Fixed k"
  have "b \<in> set [0xc0..<0xe0]" unfolding set_upt using True by simp
  then show ?thesis using f by (auto simp: upt_rec mp_class_of_def)
next
  case False
  have "b mod 32 \<le> 31" using mod_less_divisor [of 32 b] by linarith
  then show "mp_class_of b = Fixed k \<Longrightarrow> ?thesis" using False by (auto simp: mp_class_of_def split: if_splits)
qed

section \<open>Stepping over one value\<close>

lemma skip_forward:
  "mp v \<Longrightarrow> length v \<le> fuel \<Longrightarrow> skip_value fuel (v @ rest) = Some (Returns (Some rest))"
  "mps n vs \<Longrightarrow> length vs \<le> fuel \<Longrightarrow> skip_times (skip_value fuel) n (vs @ rest) = Some (Returns (Some rest))"
proof (induction arbitrary: fuel rest and fuel rest rule: mp_mps.inducts)
  case (mp_fixed b k xs)
  then obtain f where "fuel = Suc f" by (cases fuel) auto
  with mp_fixed show ?case by (simp add: skip_step_class skip_bytes_def)
next
  case (mp_sized b w a ls xs)
  then obtain f where f: "fuel = Suc f" by (cases fuel) auto
  have "read_len w (ls @ xs @ rest) = Some (be_number ls)"
    using be_number_read(1) [OF mp_sized(2)] class_widths(1) [OF mp_sized(1)] by simp
  with mp_sized f show ?case by (simp add: skip_step_class skip_len_def skip_bytes_def)
next
  case (mp_items b n vs)
  then obtain f where f: "fuel = Suc f" by (cases fuel) auto
  with mp_items show ?case by (simp add: skip_step_class)
next
  case (mp_counted b w per ls vs)
  then obtain f where f: "fuel = Suc f" by (cases fuel) auto
  have "read_len w (ls @ vs @ rest) = Some (be_number ls)"
    using be_number_read(1) [OF mp_counted(2)] class_widths(2) [OF mp_counted(1)] by simp
  with mp_counted f show ?case by (simp add: skip_step_class skip_many_def)
qed simp_all

lemma skip_times_back:
  assumes bk: "\<And>bs rest. skip bs = Some (Returns (Some rest)) \<Longrightarrow> \<exists>v. bs = v @ rest \<and> mp v"
  shows "skip_times skip n bs = Some (Returns (Some rest)) \<Longrightarrow> \<exists>vs. bs = vs @ rest \<and> mps n vs"
proof (induction n arbitrary: bs)
  case 0
  then show ?case by (auto intro: mps_nil)
next
  case (Suc n)
  then obtain c where c: "skip bs = Some (Returns (Some c))" "skip_times skip n c = Some (Returns (Some rest))"
    by (auto split: option.splits run.splits)
  from bk [OF c(1)] Suc.IH [OF c(2)] obtain v vs where "bs = v @ vs @ rest" "mp v" "mps n vs" by blast
  then show ?case by (intro exI [of _ "v @ vs"]) (simp add: mps_cons)
qed

lemma skip_back: "skip_value fuel bs = Some (Returns (Some rest)) \<Longrightarrow> \<exists>v. bs = v @ rest \<and> mp v"
proof (induction fuel arbitrary: bs rest)
  case 0
  then show ?case by simp
next
  case (Suc fuel)
  obtain b xs where bs: "bs = b # xs" using Suc.prems by (cases bs) (auto simp: skip_step_def)
  have times: "\<exists>vs. bs = vs @ rest \<and> mps n vs" if "skip_times (skip_value fuel) n bs = Some (Returns (Some rest))" for n bs rest
    using that by (rule skip_times_back [rotated]) (rule Suc.IH)
  show ?case
  proof (cases "mp_class_of (unat b)")
    case (Fixed k)
    then have "k \<le> length xs \<and> rest = drop k xs"
      using Suc.prems bs by (auto simp: skip_step_class skip_bytes_def split: if_splits)
    then show ?thesis using mp_fixed [OF Fixed, of "take k xs"] bs by (intro exI [of _ "b # take k xs"]) auto
  next
    case (Sized w a)
    then obtain len where len: "read_len w xs = Some len" "w + a + len \<le> length xs" "rest = drop (w + a + len) xs"
      using Suc.prems bs by (auto simp: skip_step_class skip_len_def skip_bytes_def split: if_splits option.splits)
    have w: "w \<le> length xs" "len = be_number (take w xs)"
      using be_number_read(2) [OF len(1) class_widths(1) [OF Sized]] by auto
    have "mp (b # take w xs @ take (a + len) (drop w xs))"
      by (rule mp_sized [OF Sized]) (use len(2) w in auto)
    moreover have "bs = (b # take w xs @ take (a + len) (drop w xs)) @ rest"
      using bs len(2,3) by (simp add: add.assoc) (metis append_take_drop_id drop_drop add.commute add.assoc)
    ultimately show ?thesis by blast
  next
    case (Items n)
    then have "skip_times (skip_value fuel) n xs = Some (Returns (Some rest))" using Suc.prems bs by (simp add: skip_step_class)
    from times [OF this] show ?thesis using mp_items [OF Items] bs by (metis append_Cons)
  next
    case (Counted w per)
    then obtain n where n: "read_len w xs = Some n" "skip_times (skip_value fuel) (per * n) (drop w xs) = Some (Returns (Some rest))"
      using Suc.prems bs by (auto simp: skip_step_class skip_many_def split: option.splits)
    have w: "w \<le> length xs" "n = be_number (take w xs)"
      using be_number_read(2) [OF n(1) class_widths(2) [OF Counted]] by auto
    from times [OF n(2)] obtain vs where vs: "drop w xs = vs @ rest" "mps (per * n) vs" by blast
    have "mp (b # take w xs @ vs)" by (rule mp_counted [OF Counted]) (use vs w in auto)
    moreover have "bs = (b # take w xs @ vs) @ rest" using bs vs(1) by (metis append_Cons append.assoc append_take_drop_id)
    ultimately show ?thesis by blast
  next
    case Unused
    then show ?thesis using Suc.prems bs by (simp add: skip_step_class)
  qed
qed

lemma mp_nonempty: "mp v \<Longrightarrow> v \<noteq> []"
  by (erule mp.cases) auto

lemma skip_times_fuel:
  assumes "\<And>bs. length bs < m \<Longrightarrow> skip bs \<noteq> None"
    and "\<And>bs rest. skip bs = Some (Returns (Some rest)) \<Longrightarrow> length rest \<le> length bs"
  shows "length bs < m \<Longrightarrow> skip_times skip n bs \<noteq> None"
proof (induction n arbitrary: bs)
  case (Suc n)
  show ?case
  proof (cases "\<exists>c. skip bs = Some (Returns (Some c))")
    case True
    then obtain c where c: "skip bs = Some (Returns (Some c))" by blast
    then show ?thesis using Suc assms(2) [OF c] by auto
  next
    case False
    then show ?thesis using assms(1) [OF Suc.prems] by (auto split: option.splits run.splits)
  qed
qed simp

lemma skip_terminates: "length bs < fuel \<Longrightarrow> skip_value fuel bs \<noteq> None"
proof (induction fuel arbitrary: bs)
  case (Suc fuel)
  have le: "length rest \<le> length bs" if "skip_value fuel bs = Some (Returns (Some rest))" for bs rest
    using skip_back [OF that] by auto
  have times: "skip_times (skip_value fuel) n bs \<noteq> None" if "length bs < fuel" for n bs
    using that by (rule skip_times_fuel [rotated 2]) (use Suc.IH le in blast)+
  show ?case
  proof (cases bs)
    case Nil
    then show ?thesis by (simp add: skip_step_def)
  next
    case (Cons b xs)
    then have "length xs < fuel" "length (drop w xs) < fuel" for w using Suc.prems by auto
    then show ?thesis using Cons times
      by (auto simp: skip_step_class skip_len_def skip_many_def split: mp_class.splits option.splits)
  qed
qed simp

end
