(* ===== verification/Daemon_Read.thy ===== *)
theory Daemon_Read
  imports Proto_Codec_Facts
begin

text \<open>
  How the daemon reads one message from a client, \<open>read_message\<close> and its helpers in
  \<open>crates/arreo-server/src/daemon.rs\<close>. The socket is the list of what its reads will return, an I/O error or
  a chunk of bytes; the end of the list is the end of the stream. The decoder of a message, the
  \<open>Message::Error\<close> it builds and the quoting of \<open>{:?}\<close> are arguments.
\<close>

datatype daemon_error = DaemonIo string | ClientClosed

record read_state =
  rd_buf :: bytes
  rd_chunks :: "(string + bytes) list"
  rd_unknown_events :: u64
  rd_garbage_frames :: u64

definition op_tag :: "bytes \<Rightarrow> string run option" where
  "op_tag body = (case decode_op_for_error body of
      None \<Rightarrow> None
    | Some Panics \<Rightarrow> Some Panics
    | Some (Returns op) \<Rightarrow> Some (Returns (case op of None \<Rightarrow> ''unknown'' | Some t \<Rightarrow> t)))"

definition break_unknown_request :: "(string \<Rightarrow> string) \<Rightarrow> (nat \<Rightarrow> string \<Rightarrow> 'm) \<Rightarrow> string \<Rightarrow> 'm option" where
  "break_unknown_request debug mk_error op = Some (mk_error PROTO_VERSION
     (''unknown request '' @ debug op @ '' (server speaks protocol '' @ show_nat PROTO_VERSION @ '')''))"

definition count_unknown_event :: "read_state \<Rightarrow> read_state" where
  "count_unknown_event st = st\<lparr>rd_unknown_events := rd_unknown_events st + 1\<rparr>"

definition break_garbage_frame :: "read_state \<Rightarrow> read_state" where
  "break_garbage_frame st = st\<lparr>rd_garbage_frames := rd_garbage_frames st + 1\<rparr>"

text \<open>What becomes of a complete frame that does not decode: an answer, or nothing, and the counters.\<close>

definition undecodable :: "(string \<Rightarrow> string) \<Rightarrow> (nat \<Rightarrow> string \<Rightarrow> 'm) \<Rightarrow> bytes \<Rightarrow> read_state \<Rightarrow> ('m option \<times> read_state) run option" where
  "undecodable debug mk_error body st = (case classify_op body of
      None \<Rightarrow> None
    | Some Panics \<Rightarrow> Some Panics
    | Some (Returns (Some Request)) \<Rightarrow> (case op_tag body of
          None \<Rightarrow> None
        | Some Panics \<Rightarrow> Some Panics
        | Some (Returns op) \<Rightarrow> Some (Returns (break_unknown_request debug mk_error op, st)))
    | Some (Returns (Some Event)) \<Rightarrow> Some (Returns (None, count_unknown_event st))
    | Some (Returns None) \<Rightarrow> Some (Returns (None, break_garbage_frame st)))"

definition is_truncated :: "codec_error \<Rightarrow> bool" where
  "is_truncated e = (case e of CodecTruncated _ _ \<Rightarrow> True | _ \<Rightarrow> False)"

text \<open>The complete frame at the front of the buffer that the loop has to classify, if there is one.\<close>

definition complete_frame :: "bytes \<Rightarrow> nat option" where
  "complete_frame buf = (case frame_body_len buf of
      Err _ \<Rightarrow> None | Ok len \<Rightarrow> if length buf \<ge> 4 + len then Some len else None)"

lemma undecodable_keeps:
  "undecodable debug mk_error body st = Some (Returns (r, st')) \<Longrightarrow> rd_buf st' = rd_buf st \<and> rd_chunks st' = rd_chunks st"
  by (auto simp: undecodable_def count_unknown_event_def break_garbage_frame_def
      split: option.splits run.splits direction.splits)

lemma complete_frame_le: "complete_frame buf = Some len \<Longrightarrow> 4 + len \<le> length buf"
  by (auto simp: complete_frame_def split: sum.splits if_splits)

function read_message :: "(bytes \<Rightarrow> string + 'm) \<Rightarrow> (string \<Rightarrow> string) \<Rightarrow> (nat \<Rightarrow> string \<Rightarrow> 'm) \<Rightarrow> read_state
    \<Rightarrow> ((daemon_error + 'm) \<times> read_state) run option" where
  "read_message from_slice debug mk_error st =
     (let buf = rd_buf st;
          more = (case rd_chunks st of
              [] \<Rightarrow> Some (Returns (Err ClientClosed, st))
            | Err e # cs \<Rightarrow> Some (Returns (Err (DaemonIo e), st\<lparr>rd_chunks := cs\<rparr>))
            | Ok chunk # cs \<Rightarrow>
                if chunk = [] then Some (Returns (Err ClientClosed, st\<lparr>rd_chunks := cs\<rparr>))
                else read_message from_slice debug mk_error (st\<lparr>rd_buf := buf @ chunk, rd_chunks := cs\<rparr>))
      in case decode_frame from_slice buf of
        Ok (message, consumed) \<Rightarrow> Some (Returns (Ok message, st\<lparr>rd_buf := drop consumed buf\<rparr>))
      | Err e \<Rightarrow>
          if is_truncated e then more
          else (case complete_frame buf of
              None \<Rightarrow> more
            | Some len \<Rightarrow>
                (case undecodable debug mk_error (take len (drop 4 buf)) st of
                   None \<Rightarrow> None
                 | Some Panics \<Rightarrow> Some Panics
                 | Some (Returns (Some message, st1)) \<Rightarrow> Some (Returns (Ok message, st1\<lparr>rd_buf := drop (4 + len) buf\<rparr>))
                 | Some (Returns (None, st1)) \<Rightarrow>
                     read_message from_slice debug mk_error (st1\<lparr>rd_buf := drop (4 + len) buf\<rparr>))))"
  by pat_completeness auto
termination
  by (relation "measures [\<lambda>(_, _, _, st). length (rd_chunks st), \<lambda>(_, _, _, st). length (rd_buf st)]")
    (auto dest!: undecodable_keeps dest: complete_frame_le)

declare read_message.simps [simp del]

end
