(* ===== verification/Proto_Properties.thy ===== *)
theory Proto_Properties
  imports Daemon_Read
begin

text \<open>
  What the wire promises: frames survive any chunking, the two versions a build speaks are enough for the
  window of one, and stepping over a value follows the format; and the two ways a peer can stop a daemon.
\<close>

section \<open>Frames\<close>

definition codec_inverse :: "('m \<Rightarrow> string + bytes) \<Rightarrow> (bytes \<Rightarrow> string + 'm) \<Rightarrow> bool" where
  "codec_inverse to_vec from_slice \<longleftrightarrow> (\<forall>m bs. to_vec m = Ok bs \<longrightarrow> from_slice bs = Ok m)"

lemma encode_frame_Ok:
  "encode_frame to_vec m = Ok f \<longleftrightarrow> (\<exists>body. to_vec m = Ok body \<and> f = to_le_bytes (length body mod 2 ^ 32) @ body)"
  by (auto simp: encode_frame_def encode_def split: sum.splits)

lemma frame_decodes:
  assumes "codec_inverse to_vec from_slice" and "to_vec m = Ok body" and "length body \<le> FRAME_BUDGET"
  shows "decode_frame from_slice ((to_le_bytes (length body mod 2 ^ 32) @ body) @ rest) = Ok (m, 4 + length body)"
proof -
  have lt: "length body < 2 ^ 32" using assms(3) by (simp add: FRAME_BUDGET_def)
  then have "length body mod 2 ^ 32 = length body" by simp
  then show ?thesis
    using assms le_round_trip [OF lt, of "body @ rest"]
    by (simp add: decode_frame_def decode_frame_full_def frame_body_len_def decode_def codec_inverse_def)
qed

lemma frame_prefix:
  assumes "length body \<le> FRAME_BUDGET" and "k < 4 + length body"
  shows "\<exists>want. decode_frame from_slice (take k (to_le_bytes (length body mod 2 ^ 32) @ body)) = Err (CodecTruncated want k) \<and>
    k < want \<and> want \<le> 4 + length body"
proof (cases "k < 4")
  case True
  then show ?thesis using assms by (simp add: decode_frame_def decode_frame_full_def frame_body_len_def)
next
  case False
  have lt: "length body < 2 ^ 32" using assms(1) by (simp add: FRAME_BUDGET_def)
  have t: "take k (to_le_bytes (length body) @ body) = to_le_bytes (length body) @ take (k - 4) body" using False by simp
  have "frame_body_len (to_le_bytes (length body) @ take (k - 4) body) = Ok (length body)"
    using le_round_trip [OF lt] assms(1) by (simp add: frame_body_len_def)
  then show ?thesis using lt t assms(2) False by (simp add: decode_frame_def decode_frame_full_def)
qed

lemma more_bytes:
  assumes "decode_frame from_slice (rd_buf st) = Err (CodecTruncated a b)" and "rd_chunks st = Ok c # cs" and "c \<noteq> []"
  shows "read_message from_slice debug mk_error st = read_message from_slice debug mk_error (st\<lparr>rd_buf := rd_buf st @ c, rd_chunks := cs\<rparr>)"
  using assms by (subst read_message.simps) (simp add: is_truncated_def)

definition chunk_bytes :: "(string + bytes) list \<Rightarrow> bytes" where
  "chunk_bytes cs = concat (map (\<lambda>c. case c of Err _ \<Rightarrow> [] | Ok bs \<Rightarrow> bs) cs)"

definition live_chunk :: "string + bytes \<Rightarrow> bool" where
  "live_chunk c \<longleftrightarrow> (case c of Err _ \<Rightarrow> False | Ok bs \<Rightarrow> bs \<noteq> [])"

lemma read_any_chunking:
  assumes codec: "codec_inverse to_vec from_slice" and body: "to_vec m = Ok body" "length body \<le> FRAME_BUDGET"
    and f: "f = to_le_bytes (length body mod 2 ^ 32) @ body"
  shows "rd_buf st @ chunk_bytes (rd_chunks st) = f @ rest \<Longrightarrow> list_all live_chunk (rd_chunks st) \<Longrightarrow>
    \<exists>buf cs. read_message from_slice debug mk_error st = Some (Returns (Ok m, st\<lparr>rd_buf := buf, rd_chunks := cs\<rparr>)) \<and>
      buf @ chunk_bytes cs = rest \<and> list_all live_chunk cs"
proof (induction "rd_chunks st" arbitrary: st)
  case Nil
  then have "decode_frame from_slice (rd_buf st) = Ok (m, length f)"
    using frame_decodes [OF codec body, of rest] by (simp add: chunk_bytes_def f)
  moreover have "drop (length f) (rd_buf st) = rest" using Nil by (simp add: chunk_bytes_def)
  ultimately have "read_message from_slice debug mk_error st = Some (Returns (Ok m, st\<lparr>rd_buf := rest\<rparr>))"
    by (subst read_message.simps) simp
  moreover have "st\<lparr>rd_buf := rest\<rparr> = st\<lparr>rd_buf := rest, rd_chunks := []\<rparr>" using Nil.hyps by (cases st) simp
  ultimately show ?case by (intro exI [of _ rest] exI [of _ "[]"]) (simp add: chunk_bytes_def)
next
  case (Cons c cs)
  show ?case
  proof (cases "length f \<le> length (rd_buf st)")
    case True
    then obtain r where r: "rd_buf st = f @ r" "r @ chunk_bytes (rd_chunks st) = rest"
      using Cons.prems(1) by (auto simp: append_eq_append_conv_if append_eq_append_conv2 split: if_splits)
        (metis append_eq_append_conv_if append_take_drop_id)
    have "decode_frame from_slice (rd_buf st) = Ok (m, length f)"
      using frame_decodes [OF codec body, of r] r(1) by (simp add: f)
    then show ?thesis using r Cons.prems(2)
      by (subst read_message.simps) (auto intro!: exI [of _ r] exI [of _ "rd_chunks st"])
  next
    case False
    obtain bs where bs: "c = Ok bs" "bs \<noteq> []" using Cons.prems(2) Cons.hyps(2) by (cases c) (auto simp: live_chunk_def simp flip: Cons.hyps(2))
    have "rd_buf st = take (length (rd_buf st)) f"
      using Cons.prems(1) False by (metis append_eq_conv_conj take_append take_all diff_is_0_eq' le_cases take0 append_Nil2 not_le)
    then obtain a b where "decode_frame from_slice (rd_buf st) = Err (CodecTruncated a b)"
      using frame_prefix [OF body(2), of "length (rd_buf st)" from_slice] False by (auto simp: f)
    from more_bytes [OF this, of bs cs] have step: "read_message from_slice debug mk_error st =
        read_message from_slice debug mk_error (st\<lparr>rd_buf := rd_buf st @ bs, rd_chunks := cs\<rparr>)"
      using bs Cons.hyps(2) by simp
    have "(rd_buf st @ bs) @ chunk_bytes cs = f @ rest" "list_all live_chunk cs"
      using Cons.prems bs(1) unfolding Cons.hyps(2) [symmetric] by (simp_all add: chunk_bytes_def)
    with Cons.hyps(1) [of "st\<lparr>rd_buf := rd_buf st @ bs, rd_chunks := cs\<rparr>"] show ?thesis by (simp add: step)
  qed
qed

text \<open>
  C20. A frame survives any chunking of the stream. For a message whose encoding is within the budget: a
  buffer that starts with its frame decodes to it and to its exact length, every proper prefix is
  reported as truncated with a length it still needs, and whatever the sizes of the chunks the stream
  delivers, the daemon reads exactly this message and leaves exactly the bytes after it. No declared
  length over the budget is ever accepted; in particular the frame of a longer message, which
  \<open>encode_frame\<close> does produce, is refused.
\<close>

theorem frames_survive_chunking:
  assumes "codec_inverse to_vec from_slice" and "encode_frame to_vec m = Ok f" and "length f \<le> 4 + FRAME_BUDGET"
    and "rd_buf st @ chunk_bytes (rd_chunks st) = f @ rest" and "list_all live_chunk (rd_chunks st)"
  shows "decode_frame from_slice (f @ rest) = Ok (m, length f) \<and>
    (\<forall>k < length f. \<exists>want. decode_frame from_slice (take k f) = Err (CodecTruncated want k) \<and> k < want \<and> want \<le> length f) \<and>
    (\<exists>buf cs. read_message from_slice debug mk_error st = Some (Returns (Ok m, st\<lparr>rd_buf := buf, rd_chunks := cs\<rparr>)) \<and>
      buf @ chunk_bytes cs = rest) \<and>
    (\<forall>buffer n. frame_body_len buffer = Ok n \<longrightarrow> n \<le> FRAME_BUDGET) \<and>
    (\<forall>m' f'. encode_frame to_vec m' = Ok f' \<and> 4 + FRAME_BUDGET < length f' \<and> length f' < 2 ^ 32 \<longrightarrow>
      (\<exists>e. decode_frame from_slice f' = Err (CodecDecode e)))"
proof (intro conjI)
  obtain body where body: "to_vec m = Ok body" "f = to_le_bytes (length body mod 2 ^ 32) @ body"
    using assms(2) by (auto simp: encode_frame_Ok)
  have len: "length body \<le> FRAME_BUDGET" using assms(3) body(2) by simp
  show "decode_frame from_slice (f @ rest) = Ok (m, length f)"
    using frame_decodes [OF assms(1) body(1) len] body(2) by simp
  show "\<forall>k < length f. \<exists>want. decode_frame from_slice (take k f) = Err (CodecTruncated want k) \<and> k < want \<and> want \<le> length f"
    using frame_prefix [OF len, of _ from_slice] body(2) by simp
  show "\<exists>buf cs. read_message from_slice debug mk_error st = Some (Returns (Ok m, st\<lparr>rd_buf := buf, rd_chunks := cs\<rparr>)) \<and>
      buf @ chunk_bytes cs = rest"
    using read_any_chunking [OF assms(1) body(1) len body(2) assms(4,5)] by blast
  show "\<forall>buffer n. frame_body_len buffer = Ok n \<longrightarrow> n \<le> FRAME_BUDGET"
    by (auto simp: frame_body_len_def Let_def split: if_splits)
  show "\<forall>m' f'. encode_frame to_vec m' = Ok f' \<and> 4 + FRAME_BUDGET < length f' \<and> length f' < 2 ^ 32 \<longrightarrow>
      (\<exists>e. decode_frame from_slice f' = Err (CodecDecode e))"
  proof (intro allI impI)
    fix m' f' assume h: "encode_frame to_vec m' = Ok f' \<and> 4 + FRAME_BUDGET < length f' \<and> length f' < 2 ^ 32"
    then obtain b where b: "f' = to_le_bytes (length b mod 2 ^ 32) @ b" by (auto simp: encode_frame_Ok)
    then have "length b < 2 ^ 32" "FRAME_BUDGET < length b" using h by simp_all
    then show "\<exists>e. decode_frame from_slice f' = Err (CodecDecode e)"
      using le_round_trip [of "length b" b] b by (simp add: decode_frame_def decode_frame_full_def frame_body_len_def Let_def)
  qed
qed

section \<open>The tag of an undecodable frame\<close>

lemma decode_str_skip:
  assumes "decode_str bs = Some (k, rest)" and "0 < fuel"
  shows "skip_value fuel bs = Some (Returns (Some rest))"
proof -
  obtain f where f: "fuel = Suc f" using assms(2) by (cases fuel) auto
  obtain first xs where bs: "bs = first # xs" using assms(1) by (cases bs) (auto simp: decode_str_def)
  define b where "b = unat first"
  have "0xa0 \<le> b \<and> b \<le> 0xbf \<or> b = 0xd9 \<or> b = 0xda \<or> b = 0xdb"
    using assms(1) by (auto simp: decode_str_def bs b_def [symmetric] Let_def split: if_splits)
  then show ?thesis
    using assms(1) unfolding f bs skip_value.simps skip_step_class
    by (auto simp: decode_str_def b_def [symmetric] Let_def mp_class_of_def skip_bytes_def skip_len_def read_len_def
        add.commute simp flip: length_greater_0_conv split: if_splits option.splits)
qed

lemma mps_step:
  assumes "mps (Suc n) cs" and "length cs \<le> fuel"
  obtains c where "skip_value fuel cs = Some (Returns (Some c))" "mps n c" "length c \<le> fuel"
proof -
  from assms(1) obtain v vs where "cs = v @ vs" "mp v" "mps n vs" by (rule mps_SucE) auto
  then show thesis using that [of vs] skip_forward(1) [of v fuel vs] assms(2) by simp
qed

lemma find_op_returns:
  "mps (2 * count) cursor \<Longrightarrow> length cursor \<le> fuel \<Longrightarrow> 0 < fuel \<Longrightarrow> \<exists>r. find_op (skip_value fuel) count cursor = Some (Returns r)"
proof (induction count arbitrary: cursor)
  case (Suc count)
  show ?case
  proof (cases "decode_str cursor")
    case (Some p)
    obtain key rest where p: "p = (key, rest)" by force
    have "mps (Suc (Suc (2 * count))) cursor" using Suc.prems(1) by simp
    from mps_step [OF this Suc.prems(2)] obtain c where c: "skip_value fuel cursor = Some (Returns (Some c))"
      "mps (Suc (2 * count)) c" "length c \<le> fuel" by blast
    have rest: "rest = c" using decode_str_skip [of cursor key rest fuel] Some p Suc.prems(3) c(1) by simp
    from mps_step [OF c(2,3)] obtain d where d: "skip_value fuel c = Some (Returns (Some d))" "mps (2 * count) d" "length d \<le> fuel"
      by blast
    then show ?thesis using Suc.IH [OF d(2,3) Suc.prems(3)] Some p rest by simp
  qed simp
qed simp

lemma tag_of_value_returns:
  assumes "mp v"
  shows "\<exists>r. decode_op_tag v = Some (Returns r)"
proof -
  obtain first xs where v: "v = first # xs" using mp_nonempty [OF assms] by (cases v) auto
  define b where "b = unat first"
  show ?thesis
  proof (cases "(0x80 \<le> b \<and> b \<le> 0x8f) \<or> b = 0xde \<or> b = 0xdf")
    case False
    then show ?thesis by (auto simp: decode_op_tag_def v b_def [symmetric] Let_def split: option.splits)
  next
    case True
    have cls: "mp_class_of b = (if b \<le> 0x8f then Items (2 * (b mod 16)) else if b = 0xde then Counted 2 2 else Counted 4 2)"
      using True by (auto simp: mp_class_of_def)
    have read: "be16 (ls @ vs) = be_number ls" if "length ls = 2" for ls vs
      using be_number_read(1) [OF that, of vs] that by (simp add: read_len_def)
    have read4: "be32 (ls @ vs) = be_number ls" if "length ls = 4" for ls vs
      using be_number_read(1) [OF that, of vs] that by (simp add: read_len_def)
    have "\<exists>count cursor. head_count b 0x80 0xde xs = Some (count, cursor) \<and> mps (2 * count) cursor \<and> length cursor \<le> length v"
      using assms
    proof (cases rule: mp.cases)
      case (mp_items b' n vs)
      then show ?thesis using True cls v unfolding b_def by (auto simp: head_count_def split: if_splits)
    next
      case (mp_counted b' w per ls vs)
      then show ?thesis using True cls v read read4 unfolding b_def by (auto simp: head_count_def split: if_splits)
    qed (use cls v in \<open>auto simp: b_def split: if_splits\<close>)
    then obtain count cursor where c: "head_count b 0x80 0xde xs = Some (count, cursor)" "mps (2 * count) cursor" "length cursor \<le> length v"
      by blast
    have "0 < length v" by (simp add: v)
    from find_op_returns [OF c(2,3) this] c(1) True show ?thesis
      by (auto simp: decode_op_tag_def v b_def [symmetric] Let_def)
  qed
qed

text \<open>
  C21. The hand-written reader follows the MessagePack format: in front of any bytes it steps over exactly
  one value, it only ever steps over one well-formed value, it needs no more depth than the input has
  bytes, and the tag of a frame that is one complete value is read without a panic.
\<close>

theorem skip_value_is_messagepack:
  "(mp v \<longrightarrow> skip_value (length (v @ rest)) (v @ rest) = Some (Returns (Some rest))) \<and>
   (skip_value fuel bs = Some (Returns (Some rest)) \<longrightarrow> (\<exists>v. bs = v @ rest \<and> mp v)) \<and>
   (length bs < fuel \<longrightarrow> skip_value fuel bs \<noteq> None) \<and>
   (mp v \<longrightarrow> (\<exists>d. classify_op v = Some (Returns d)))"
proof (intro conjI impI)
  show "mp v \<Longrightarrow> skip_value (length (v @ rest)) (v @ rest) = Some (Returns (Some rest))"
    by (erule skip_forward(1)) simp
  show "skip_value fuel bs = Some (Returns (Some rest)) \<Longrightarrow> \<exists>v. bs = v @ rest \<and> mp v" by (rule skip_back)
  show "length bs < fuel \<Longrightarrow> skip_value fuel bs \<noteq> None" by (rule skip_terminates)
  show "mp v \<Longrightarrow> \<exists>d. classify_op v = Some (Returns d)"
    using tag_of_value_returns [of v] by (auto simp: classify_op_def)
qed

lemma mp_true: "mp [0xc3]"
  by (rule mp_fixed [of _ 0]) (simp_all add: mp_class_of_def)

theorem skip_value_is_messagepack_witness:
  "skip_value 3 [0xc3, 1, 2] = Some (Returns (Some [1, 2]))"
  using skip_value_is_messagepack [of "[0xc3]" "[1, 2]" 0 "[]"] mp_true by (simp add: numeral_3_eq_3 eval_nat_numeral)

lemma decode_fixstr:
  assumes "unat c = 160 + length key" and "length key < 32" and "valid_utf8 (str_of_bytes key)"
  shows "decode_str (c # key @ rest) = Some (str_of_bytes key, rest)"
proof -
  have "(160 + length key) mod 32 = length key" using assms(2) by (simp add: mod_add_eq [symmetric])
  then show ?thesis using assms by (simp add: decode_str_def)
qed

lemma skip_short:
  assumes "mp_class_of (unat h) = Fixed k" and "length tail < k" and "0 < f"
  shows "skip_value f (h # tail) = Some Panics"
  using assms by (cases f) (simp_all add: skip_step_class skip_bytes_def)

lemma map_with_short_value_panics:
  assumes "unat c = 160 + length key" "length key < 32" and "valid_utf8 (str_of_bytes key)" and "str_of_bytes key \<noteq> ''op''"
    and "mp_class_of (unat h) = Fixed k" and "length tail < k"
  shows "classify_op (0x81 # c # key @ h # tail) = Some Panics"
proof -
  have "find_op (skip_value f) (Suc 0) (c # key @ h # tail) = Some Panics" if "0 < f" for f
    using decode_fixstr [OF assms(1-3), of "h # tail"] skip_short [OF assms(5,6) that] assms(4) by simp
  then show ?thesis by (simp add: classify_op_def decode_op_tag_def head_count_def del: skip_value.simps find_op.simps)
qed

text \<open>
  C35. A truncated value stops the daemon. A complete frame whose body is a map of one entry, with a short key
  other than \<open>op\<close> and a value of fixed size that is cut off, is not garbage to be counted: the reader
  slices past the end of the body, \<open>classify_op\<close> panics, and so does \<open>read_message\<close>, for every such key and
  every decoder that refuses the frame.
\<close>

theorem truncated_value_stops_daemon:
  assumes "unat c = 160 + length key" and "length key < 32" and "valid_utf8 (str_of_bytes key)" and "str_of_bytes key \<noteq> ''op''"
    and "mp_class_of (unat h) = Fixed k" and "length tail < k" and "body = 0x81 # c # key @ h # tail" and "from_slice body = Err e"
    and "rd_buf st = to_le_bytes (length body) @ body @ rest"
  shows "classify_op body = Some Panics \<and> read_message from_slice debug mk_error st = Some Panics"
proof
  show c: "classify_op body = Some Panics" unfolding assms(7) by (rule map_with_short_value_panics [OF assms(1-6)])
  have "k \<le> 31" by (rule class_fixed_le [OF assms(5)])
  then have len: "length body < 2 ^ 32" "length body \<le> FRAME_BUDGET"
    using assms(2,6) by (simp_all add: assms(7) FRAME_BUDGET_def)
  have flen: "frame_body_len (rd_buf st) = Ok (length body)"
    using le_round_trip [OF len(1), of "body @ rest"] len(2) by (simp add: frame_body_len_def assms(9))
  then have "decode_frame from_slice (rd_buf st) = Err (CodecDecode e)"
    using assms(8) by (simp add: decode_frame_def decode_frame_full_def decode_def assms(9))
  moreover have "complete_frame (rd_buf st) = Some (length body)" using flen by (simp add: complete_frame_def assms(9))
  moreover have "take (length body) (drop 4 (rd_buf st)) = body" by (simp add: assms(9))
  ultimately show "read_message from_slice debug mk_error st = Some Panics"
    using c by (subst read_message.simps) (simp add: is_truncated_def undecodable_def)
qed

definition refusing_decoder :: "bytes \<Rightarrow> string + nat" where
  "refusing_decoder bs = Err ''unknown variant''"

theorem truncated_value_stops_daemon_witness:
  "read_message refusing_decoder (\<lambda>s. s) (\<lambda>v t. 0)
     \<lparr> rd_buf = [4, 0, 0, 0, 0x81, 0xa1, 0x78, 0xcc], rd_chunks = [], rd_unknown_events = 0, rd_garbage_frames = 0 \<rparr> = Some Panics"
proof -
  have "valid_utf8 (str_of_bytes [0x78])" by code_simp
  then show ?thesis
    using truncated_value_stops_daemon [of "0xa1" "[0x78]" "0xcc" 1 "[]" "[0x81, 0xa1, 0x78, 0xcc]" refusing_decoder "''unknown variant''"
        "\<lparr> rd_buf = [4, 0, 0, 0, 0x81, 0xa1, 0x78, 0xcc], rd_chunks = [], rd_unknown_events = 0, rd_garbage_frames = 0 \<rparr>" "[]"
        "\<lambda>s. s" "\<lambda>v t. 0"]
    by (simp add: str_of_bytes_def mp_class_of_def refusing_decoder_def to_le_bytes_def)
qed

section \<open>A frame over the budget\<close>

text \<open>
  A declared length over the budget is refused by \<open>frame_body_len\<close>, but the daemon does not act on the
  refusal: after such a header it reads on until the client closes, and everything the client sends
  stays in the buffer.
\<close>

theorem oversized_frame_is_buffered_forever:
  assumes "4 \<le> length (rd_buf st)" and "FRAME_BUDGET < from_le_bytes (rd_buf st)" and "list_all live_chunk (rd_chunks st)"
  shows "read_message from_slice debug mk_error st =
    Some (Returns (Err ClientClosed, st\<lparr>rd_buf := rd_buf st @ chunk_bytes (rd_chunks st), rd_chunks := []\<rparr>))"
  using assms
proof (induction "rd_chunks st" arbitrary: st)
  case Nil
  then show ?case
    by (subst read_message.simps) (simp add: decode_frame_def decode_frame_full_def frame_body_len_def is_truncated_def
        complete_frame_def chunk_bytes_def Let_def split: list.splits)
next
  case (Cons c cs)
  obtain bs where bs: "c = Ok bs" "bs \<noteq> []" using Cons.prems(3) by (cases c) (auto simp: live_chunk_def simp flip: Cons.hyps(2))
  let ?st = "st\<lparr>rd_buf := rd_buf st @ bs, rd_chunks := cs\<rparr>"
  have "from_le_bytes (rd_buf st @ bs) = from_le_bytes (rd_buf st)"
    using Cons.prems(1) by (auto simp: from_le_bytes_def nth_append)
  then have "read_message from_slice debug mk_error ?st =
      Some (Returns (Err ClientClosed, ?st\<lparr>rd_buf := (rd_buf st @ bs) @ chunk_bytes cs, rd_chunks := []\<rparr>))"
    using Cons.hyps(1) [of ?st] Cons.prems by (simp flip: Cons.hyps(2))
  moreover have "read_message from_slice debug mk_error st = read_message from_slice debug mk_error ?st"
    using Cons.prems(1,2) bs by (subst read_message.simps) (simp add: decode_frame_def decode_frame_full_def frame_body_len_def
        is_truncated_def complete_frame_def Let_def Cons.hyps(2) [symmetric])
  moreover have "chunk_bytes (rd_chunks st) = bs @ chunk_bytes cs" by (simp add: chunk_bytes_def bs(1) flip: Cons.hyps(2))
  ultimately show ?case by simp
qed

theorem oversized_frame_is_buffered_forever_witness:
  "read_message refusing_decoder (\<lambda>s. s) (\<lambda>v t. 0)
     \<lparr> rd_buf = [0, 0, 0, 1], rd_chunks = [Ok [9, 9]], rd_unknown_events = 0, rd_garbage_frames = 0 \<rparr> =
   Some (Returns (Err ClientClosed,
     \<lparr> rd_buf = [0, 0, 0, 1, 9, 9], rd_chunks = [], rd_unknown_events = 0, rd_garbage_frames = 0 \<rparr>))"
  using oversized_frame_is_buffered_forever [of "\<lparr> rd_buf = [0, 0, 0, 1], rd_chunks = [Ok [9, 9]], rd_unknown_events = 0,
    rd_garbage_frames = 0 \<rparr>" refusing_decoder "\<lambda>s. s" "\<lambda>v t. 0"]
  by (simp add: from_le_bytes_def FRAME_BUDGET_def live_chunk_def chunk_bytes_def)

section \<open>Versions\<close>

lemma fold_max_greatest: "fold max vs v = Max (insert v (set vs))" for v :: nat
  using Max.set_eq_fold [of v vs] by simp

text \<open>
  The window of one version. Against any offer the server agrees exactly on the greatest version
  among its own and its predecessor that was offered, and refuses naming the offer when there is none;
  so a server and a client that each speak a version and its predecessor agree iff they are at most one
  version apart, and then on the older of the two.
\<close>

theorem versions_agree_within_one:
  "(case negotiate server wants of
      Ok v \<Rightarrow> v \<in> set wants \<and> v \<in> {server - 1, server} \<and> (\<forall>u \<in> set wants. u \<in> {server - 1, server} \<longrightarrow> u \<le> v)
    | Err e \<Rightarrow> e = CodecVersion server wants \<and> (\<forall>u \<in> set wants. u \<notin> {server - 1, server})) \<and>
   negotiate server (client_versions_from client) =
     (if client \<le> server + 1 \<and> server \<le> client + 1 then Ok (min client server)
      else Err (CodecVersion server (client_versions_from client)))"
proof
  let ?P = "\<lambda>v. v = server \<or> v = server - 1"
  show "case negotiate server wants of
      Ok v \<Rightarrow> v \<in> set wants \<and> v \<in> {server - 1, server} \<and> (\<forall>u \<in> set wants. u \<in> {server - 1, server} \<longrightarrow> u \<le> v)
    | Err e \<Rightarrow> e = CodecVersion server wants \<and> (\<forall>u \<in> set wants. u \<notin> {server - 1, server})"
  proof (cases "filter ?P wants")
    case Nil
    then show ?thesis by (auto simp: negotiate_def filter_empty_conv)
  next
    case (Cons v vs)
    have s: "insert v (set vs) = {u \<in> set wants. ?P u}" using arg_cong [OF Cons, of set] by simp
    define M where "M = Max {u \<in> set wants. ?P u}"
    have M: "M \<in> {u \<in> set wants. ?P u}" "\<forall>u \<in> {u \<in> set wants. ?P u}. u \<le> M"
      using Max_in [of "{u \<in> set wants. ?P u}"] s by (auto simp: M_def)
    have "negotiate server wants = Ok M" by (simp only: negotiate_def Cons list.case fold_max_greatest s M_def)
    with M show ?thesis by auto
  qed
  show "negotiate server (client_versions_from client) =
     (if client \<le> server + 1 \<and> server \<le> client + 1 then Ok (min client server)
      else Err (CodecVersion server (client_versions_from client)))"
    by (auto simp: negotiate_def client_versions_from_def min_def max_def)
qed

theorem versions_agree_within_one_witness: "negotiate 3 (client_versions_from 4) = Ok 3"
  using versions_agree_within_one [of 3 "[]" 4] by simp

definition unary_to_vec :: "nat \<Rightarrow> string + bytes" where
  "unary_to_vec n = Ok (replicate n 1)"

definition unary_from_slice :: "bytes \<Rightarrow> string + nat" where
  "unary_from_slice bs = Ok (length bs)"

theorem frames_survive_chunking_witness:
  "decode_frame unary_from_slice ([2, 0, 0, 0, 1, 1] @ [7]) = Ok (2, 6)"
proof -
  have c: "codec_inverse unary_to_vec unary_from_slice" by (auto simp: codec_inverse_def unary_to_vec_def unary_from_slice_def)
  have f: "encode_frame unary_to_vec 2 = Ok [2, 0, 0, 0, 1, 1]"
  proof -
    have "unary_to_vec 2 = Ok [1, 1]" by (simp add: unary_to_vec_def numeral_2_eq_2)
    then show ?thesis by (simp add: encode_frame_def encode_def to_le_bytes_def)
  qed
  show ?thesis
    using frames_survive_chunking [OF c f, of "\<lparr> rd_buf = [2, 0], rd_chunks = [Ok [0, 0, 1], Ok [1, 7]], rd_unknown_events = 0,
      rd_garbage_frames = 0 \<rparr>" "[7]"]
    by (simp add: FRAME_BUDGET_def chunk_bytes_def live_chunk_def)
qed

end
