(* ===== verification/Mesh_Directory.thy ===== *)
theory Mesh_Directory
  imports Identity_Cert Text_Utf8
begin

text \<open>
  The vocabulary of the machine directory, \<open>crates/arreo-core/src/mesh/directory.rs\<close>: machine ids,
  machine names and the suffix a taken name gets, the presence rule, the export format with its parser,
  and the mirror a server keeps. An \<open>i64\<close> is an \<open>int\<close> with saturation and wrap-around written out. A
  \<open>Name\<close> and a \<open>MachineId\<close> are the strings they wrap.
\<close>

section \<open>Signed 64-bit numbers\<close>

definition i64_min :: int where
  "i64_min = - (2 ^ 63)"

definition i64_max :: int where
  "i64_max = 2 ^ 63 - 1"

definition is_i64 :: "int \<Rightarrow> bool" where
  "is_i64 x \<longleftrightarrow> i64_min \<le> x \<and> x \<le> i64_max"

definition saturating_sub_i64 :: "int \<Rightarrow> int \<Rightarrow> int" where
  "saturating_sub_i64 a b = max i64_min (min i64_max (a - b))"

text \<open>Unchecked \<open>+\<close> of a release build.\<close>

definition wrapping_add_i64 :: "int \<Rightarrow> int \<Rightarrow> int" where
  "wrapping_add_i64 a b = (a + b + 2 ^ 63) mod 2 ^ 64 - 2 ^ 63"

text \<open>\<open>i64::to_string\<close> and \<open>str::parse::<i64>\<close>.\<close>

definition show_i64 :: "int \<Rightarrow> string" where
  "show_i64 n = (if n < 0 then CHR ''-'' # show_nat (nat (- n)) else show_nat (nat n))"

definition parse_i64 :: "string \<Rightarrow> int option" where
  "parse_i64 s = (case s of
      [] \<Rightarrow> None
    | [c] \<Rightarrow> if c = CHR ''+'' \<or> c = CHR ''-'' then None else map_option int (dec_number (2 ^ 63 - 1) 0 s)
    | c # r \<Rightarrow>
        if c = CHR ''-'' then map_option (\<lambda>n. - int n) (dec_number (2 ^ 63) 0 r)
        else map_option int (dec_number (2 ^ 63 - 1) 0 (if c = CHR ''+'' then r else s)))"

definition parse_u32 :: "string \<Rightarrow> nat option" where
  "parse_u32 s = parse_unsigned (2 ^ 32 - 1) s"

section \<open>Constants and errors\<close>

definition NAME_MAX :: nat where "NAME_MAX = 32"
definition HEARTBEAT_SECS :: nat where "HEARTBEAT_SECS = 30"
definition ONLINE_WINDOW_SECS :: nat where "ONLINE_WINDOW_SECS = 90"
definition STALE_AFTER_SECS :: nat where "STALE_AFTER_SECS = 30 * 24 * 60 * 60"
definition TOMBSTONE_SECS :: nat where "TOMBSTONE_SECS = 30 * 24 * 60 * 60"
definition JOIN_TICKET_SECS :: nat where "JOIN_TICKET_SECS = 5 * 60"

datatype directory_error =
    BadMachineId string
  | InvalidName string
  | NameTaken string
  | NoSuchMachine string
  | NoSuchName string
  | Ticket string

section \<open>Machine ids and names\<close>

type_synonym machine_id = string
type_synonym name = string

definition machine_id_from_key :: "crypto \<Rightarrow> verifying_key \<Rightarrow> machine_id" where
  "machine_id_from_key C key = from_key C key"

definition machine_id_parse :: "string \<Rightarrow> directory_error + machine_id" where
  "machine_id_parse text =
     (let trimmed = trim text in
      if length trimmed \<noteq> 32 \<or> \<not> list_all is_ascii_hexdigit trimmed
      then Err (BadMachineId trimmed) else Ok (to_ascii_lowercase trimmed))"

definition name_char :: "char \<Rightarrow> bool" where
  "name_char b \<longleftrightarrow> is_ascii_lowercase b \<or> is_ascii_digit b \<or> b = CHR ''-''"

definition name_parse :: "string \<Rightarrow> directory_error + name" where
  "name_parse text =
     (let lowered = to_ascii_lowercase (trim text) in
      if lowered = [] \<or> NAME_MAX < length lowered \<or> \<not> list_all name_char lowered \<or> prefix ''-'' lowered
      then Err (InvalidName (trim text)) else Ok lowered)"

definition with_suffix :: "name \<Rightarrow> nat \<Rightarrow> name" where
  "with_suffix nm ordinal =
     (let suffix = ''-'' @ show_nat ordinal;
          keep = NAME_MAX - length suffix;
          base = take (min (length nm) keep) nm
      in base @ suffix)"

section \<open>Presence\<close>

datatype presence = Online | Offline | Stale

definition presence_as_str :: "presence \<Rightarrow> string" where
  "presence_as_str p = (case p of Online \<Rightarrow> ''online'' | Offline \<Rightarrow> ''offline'' | Stale \<Rightarrow> ''stale'')"

definition presence_parse :: "string \<Rightarrow> presence option" where
  "presence_parse text =
     (if text = ''online'' then Some Online
      else if text = ''offline'' then Some Offline
      else if text = ''stale'' then Some Stale else None)"

definition age_ms :: "int \<Rightarrow> int \<Rightarrow> int" where
  "age_ms last_seen now = max (saturating_sub_i64 now last_seen) 0"

definition presence_of :: "int \<Rightarrow> int \<Rightarrow> presence" where
  "presence_of last_seen now =
     (let age = max (saturating_sub_i64 now last_seen) 0; age_secs = age div 1000 in
      if int STALE_AFTER_SECS < age_secs then Stale
      else if age_secs \<le> int ONLINE_WINDOW_SECS then Online else Offline)"

section \<open>Rows and the export\<close>

record machine_row =
  mr_machine_id :: machine_id
  mr_name :: name
  mr_name_conflict :: bool
  mr_presence :: presence
  mr_last_seen_ms :: int
  mr_proto_version :: nat
  mr_tombstone_until_ms :: "int option"
  mr_daemon_key :: "string option"

definition tombstone_active :: "machine_row \<Rightarrow> int \<Rightarrow> bool" where
  "tombstone_active r now = (case mr_tombstone_until_ms r of None \<Rightarrow> False | Some until \<Rightarrow> now < until)"

definition TAB :: char where "TAB = CHR 0x09"
definition CARRIAGE :: char where "CARRIAGE = CHR 0x0D"

definition export_fields :: "machine_row \<Rightarrow> string list" where
  "export_fields r =
     [mr_machine_id r, mr_name r, if mr_name_conflict r then ''conflict'' else ''ok'',
      presence_as_str (mr_presence r), show_i64 (mr_last_seen_ms r), show_nat (mr_proto_version r),
      case mr_tombstone_until_ms r of None \<Rightarrow> [] | Some v \<Rightarrow> show_i64 v,
      case mr_daemon_key r of None \<Rightarrow> [] | Some k \<Rightarrow> k]"

fun join_fields :: "string list \<Rightarrow> string" where
  "join_fields [] = []"
| "join_fields [f] = f @ [NEWLINE]"
| "join_fields (f # fs) = f @ [TAB] @ join_fields fs"

definition export_rows :: "machine_row list \<Rightarrow> string" where
  "export_rows rows = concat (map (\<lambda>r. join_fields (export_fields r)) (sort_key mr_machine_id rows))"

text \<open>
  \<open>str::lines\<close>: a line that ends in a newline loses it and one carriage return before it; a rest with
  no newline is a line of its own, unless it is empty.
\<close>

definition strip_cr :: "string \<Rightarrow> string" where
  "strip_cr l = (if l \<noteq> [] \<and> last l = CARRIAGE then butlast l else l)"

definition str_lines :: "string \<Rightarrow> string list" where
  "str_lines t = (let parts = split_on NEWLINE t in
     map strip_cr (butlast parts) @ (if last parts = [] then [] else [last parts]))"

definition parse_tombstone_field :: "string \<Rightarrow> int option option" where
  "parse_tombstone_field f = (if f = [] then Some None else map_option Some (parse_i64 f))"

definition parse_key_field :: "string \<Rightarrow> string option" where
  "parse_key_field f = (if trim f = [] then None else Some (trim f))"

definition parse_fields_of :: "string list \<Rightarrow> machine_row option" where
  "parse_fields_of fs =
     (if length fs \<noteq> 7 \<and> length fs \<noteq> 8 then None
      else case machine_id_parse (fs ! 0) of Err _ \<Rightarrow> None | Ok mid \<Rightarrow>
        (case name_parse (fs ! 1) of Err _ \<Rightarrow> None | Ok nm \<Rightarrow>
         (case (if fs ! 2 = ''conflict'' then Some True
                else if fs ! 2 = ''ok'' then Some False else None) of None \<Rightarrow> None | Some conflict \<Rightarrow>
         (case presence_parse (fs ! 3) of None \<Rightarrow> None | Some pres \<Rightarrow>
         (case parse_i64 (fs ! 4) of None \<Rightarrow> None | Some seen \<Rightarrow>
         (case parse_u32 (fs ! 5) of None \<Rightarrow> None | Some proto \<Rightarrow>
         (case parse_tombstone_field (fs ! 6) of None \<Rightarrow> None | Some tomb \<Rightarrow>
           Some \<lparr> mr_machine_id = mid, mr_name = nm, mr_name_conflict = conflict, mr_presence = pres,
             mr_last_seen_ms = seen, mr_proto_version = proto, mr_tombstone_until_ms = tomb,
             mr_daemon_key = (if length fs = 8 then parse_key_field (fs ! 7) else None) \<rparr>)))))))"

fun parse_lines :: "string list \<Rightarrow> machine_row list option" where
  "parse_lines [] = Some []"
| "parse_lines (line # ls) =
     (if line = [] then parse_lines ls
      else case parse_fields_of (split_on TAB line) of
          None \<Rightarrow> None
        | Some r \<Rightarrow> map_option (Cons r) (parse_lines ls))"

definition parse_export :: "string \<Rightarrow> machine_row list option" where
  "parse_export text = parse_lines (str_lines text)"

section \<open>The mirror of a server\<close>

record cached_machine =
  cm_machine_id :: machine_id
  cm_presence :: presence
  cm_last_seen_ms :: int
  cm_proto_version :: nat
  cm_name_conflict :: bool
  cm_tombstone_until_ms :: "int option"

record directory_cache =
  cache_as_of_ms :: int
  cache_rows :: "(string, cached_machine) btree"

definition cache_new :: directory_cache where
  "cache_new = \<lparr> cache_as_of_ms = 0, cache_rows = [] \<rparr>"

definition cached_of :: "machine_row \<Rightarrow> cached_machine" where
  "cached_of r = \<lparr> cm_machine_id = mr_machine_id r, cm_presence = mr_presence r,
     cm_last_seen_ms = mr_last_seen_ms r, cm_proto_version = mr_proto_version r,
     cm_name_conflict = mr_name_conflict r, cm_tombstone_until_ms = mr_tombstone_until_ms r \<rparr>"

definition mirror :: "machine_row list \<Rightarrow> int \<Rightarrow> directory_cache \<Rightarrow> directory_cache" where
  "mirror rows as_of c =
     c\<lparr> cache_as_of_ms := as_of,
        cache_rows := fold (\<lambda>(k, v). bt_insert k v) (map (\<lambda>r. (mr_name r, cached_of r)) rows) [] \<rparr>"

definition cache_lookup :: "directory_cache \<Rightarrow> name \<Rightarrow> cached_machine option" where
  "cache_lookup c nm = bt_get (cache_rows c) nm"

definition cache_resolve_known :: "directory_cache \<Rightarrow> machine_id \<Rightarrow> cached_machine option" where
  "cache_resolve_known c mid = find (\<lambda>m. cm_machine_id m = mid) (bt_values (cache_rows c))"

definition cache_len :: "directory_cache \<Rightarrow> nat" where
  "cache_len c = length (cache_rows c)"

text \<open>
  \<open>default_machine_name\<close>: the contents of \<open>/etc/hostname\<close> and the variable \<open>HOSTNAME\<close>, where they can
  be read, are arguments.
\<close>

definition default_machine_name :: "string option \<Rightarrow> string option \<Rightarrow> string" where
  "default_machine_name hostname_file hostname_var =
     (case hostname_file of
        Some text \<Rightarrow> if trim text \<noteq> [] then trim text
          else (case hostname_var of Some v \<Rightarrow> if v \<noteq> [] then v else ''machine'' | None \<Rightarrow> ''machine'')
      | None \<Rightarrow> (case hostname_var of Some v \<Rightarrow> if v \<noteq> [] then v else ''machine'' | None \<Rightarrow> ''machine''))"

section \<open>Facts\<close>

subsection \<open>Names\<close>

text \<open>The name rule, \<open>[a-z0-9][a-z0-9-]{0,31}\<close>.\<close>

definition name_ok :: "string \<Rightarrow> bool" where
  "name_ok s \<longleftrightarrow> s \<noteq> [] \<and> length s \<le> 32 \<and> list_all name_char s \<and> hd s \<noteq> CHR ''-''"

lemma name_char_visible: "name_char c \<Longrightarrow> 32 < chcode c \<and> chcode c < 128"
  by (auto simp: name_char_def is_ascii_lowercase_def is_ascii_digit_def chcode_def)

lemma name_char_lower: "name_char c \<Longrightarrow> ascii_lower c = c"
  by (auto simp: name_char_def is_ascii_lowercase_def is_ascii_digit_def ascii_lower_def chcode_def)

lemma name_parse_iff: "name_parse t = Ok n \<longleftrightarrow> n = to_ascii_lowercase (trim t) \<and> name_ok n"
  by (cases "to_ascii_lowercase (trim t)") (auto simp: name_parse_def name_ok_def NAME_MAX_def Let_def)

lemma name_parse_ok: "name_ok n \<Longrightarrow> name_parse n = Ok n"
proof -
  assume n: "name_ok n"
  then have "trim n = n"
    by (intro trim_visible name_char_visible) (auto simp: name_ok_def list_all_iff)
  moreover have "to_ascii_lowercase n = n"
    using n by (auto simp: name_ok_def list_all_iff to_ascii_lowercase_def name_char_lower intro: map_idI)
  ultimately show ?thesis using n by (simp add: name_parse_iff)
qed

lemma length_show_nat: "n < 10 ^ Suc d \<Longrightarrow> length (show_nat n) \<le> Suc d"
proof (induction d arbitrary: n)
  case 0
  then show ?case by (subst show_nat.simps) simp
next
  case (Suc d)
  have "length (show_nat (n div 10)) \<le> Suc d"
    using Suc.prems by (intro Suc.IH) (simp add: less_mult_imp_div_less)
  then show ?case by (subst show_nat.simps) simp
qed

lemma digit_name_char: "is_ascii_digit c \<Longrightarrow> name_char c"
  by (simp add: name_char_def)

lemma name_ok_with_suffix:
  assumes n: "name_ok n" and k: "k < 10 ^ 29"
  shows "name_ok (with_suffix n k)"
proof -
  have l: "length (show_nat k) \<le> 29"
    using length_show_nat [of k 28] k by simp
  define m where "m = min (length n) (32 - Suc (length (show_nat k)))"
  have m: "0 < m" "m + Suc (length (show_nat k)) \<le> 32"
    using n l by (auto simp: m_def name_ok_def)
  have "with_suffix n k = take m n @ CHR ''-'' # show_nat k"
    by (simp add: with_suffix_def Let_def NAME_MAX_def m_def)
  moreover have "take m n \<noteq> []" "hd (take m n) = hd n" "length (take m n) \<le> m"
    using m n by (auto simp: name_ok_def)
  moreover have "list_all name_char (show_nat k)"
    using show_nat_all_digits by (auto simp: list_all_iff digit_name_char)
  moreover have "list_all name_char (take m n)"
    using n by (auto simp: name_ok_def list_all_iff dest: in_set_takeD)
  moreover have "name_char (CHR ''-'')" by (simp add: name_char_def)
  ultimately show ?thesis
    using n m unfolding name_ok_def by simp
qed

text \<open>The slice of \<open>with_suffix\<close> never panics: a name is ASCII.\<close>

lemma with_suffix_slice: "name_ok n \<Longrightarrow> slice n 0 (min (length n) k) = Returns (take (min (length n) k) n)"
  by (subst slice_ascii) (auto simp: name_ok_def list_all_iff dest!: name_char_visible)

lemma show_nat_inject: "show_nat i = show_nat j \<Longrightarrow> i = j"
  by (metis dec_number_show max.cobounded1 max.cobounded2 option.inject)

lemma trailing_digits:
  "\<forall>c \<in> set s. is_ascii_digit c \<Longrightarrow> takeWhile is_ascii_digit (rev (b @ CHR ''-'' # s)) = rev s"
  by (simp add: takeWhile_append is_ascii_digit_def chcode_def)

lemma with_suffix_inject: "with_suffix n i = with_suffix m j \<Longrightarrow> i = j"
proof -
  assume h: "with_suffix n i = with_suffix m j"
  have d: "takeWhile is_ascii_digit (rev (with_suffix x k)) = rev (show_nat k)" for x k
    using trailing_digits [OF show_nat_all_digits] by (simp add: with_suffix_def Let_def)
  show ?thesis using d [of n i] d [of m j] h show_nat_inject by simp
qed

subsection \<open>Machine ids\<close>

lemma machine_id_parse_canonical: "canonical_id d \<Longrightarrow> machine_id_parse d = Ok d"
proof -
  assume d: "canonical_id d"
  then have "trim d = d"
    by (intro trim_visible) (auto simp: canonical_id_def dest: hexdigit_visible)
  moreover have "to_ascii_lowercase d = d"
    using d by (auto simp: canonical_id_def to_ascii_lowercase_def intro: map_idI)
  ultimately show ?thesis using d by (auto simp: machine_id_parse_def canonical_id_def list_all_iff)
qed

lemma machine_id_parse_result: "machine_id_parse t = Ok d \<Longrightarrow> canonical_id d"
  by (auto simp: machine_id_parse_def canonical_id_def to_ascii_lowercase_def Let_def list_all_iff
      hexdigit_lower split: if_splits)

subsection \<open>Presence\<close>

lemma presence_parse_as_str: "presence_parse (presence_as_str p) = Some p"
  by (cases p) (simp_all add: presence_parse_def presence_as_str_def)

lemma is_i64_bounds: "is_i64 x \<longleftrightarrow> - 9223372036854775808 \<le> x \<and> x \<le> 9223372036854775807"
  by (simp add: is_i64_def i64_min_def i64_max_def)

subsection \<open>Numbers\<close>

lemma parse_i64_show: "is_i64 n \<Longrightarrow> parse_i64 (show_i64 n) = Some n"
proof (cases "n < 0")
  case True
  assume n: "is_i64 n"
  obtain c r where cr: "show_nat (nat (- n)) = c # r"
    using show_nat_ne by (cases "show_nat (nat (- n))") auto
  have "dec_number (2 ^ 63) 0 (show_nat (nat (- n))) = Some (nat (- n))"
    using n by (intro dec_number_show) (simp add: is_i64_bounds nat_le_iff)
  with True cr show ?thesis by (simp add: parse_i64_def show_i64_def)
next
  case False
  assume n: "is_i64 n"
  obtain c r where cr: "show_nat (nat n) = c # r"
    using show_nat_ne by (cases "show_nat (nat n)") auto
  have "is_ascii_digit c" using show_nat_all_digits [of "nat n"] cr by simp
  then have "c \<noteq> CHR ''+'' \<and> c \<noteq> CHR ''-''" by (auto simp: is_ascii_digit_def chcode_def)
  moreover have "dec_number (2 ^ 63 - 1) 0 (show_nat (nat n)) = Some (nat n)"
    using n by (intro dec_number_show) (simp add: is_i64_bounds nat_le_iff)
  ultimately show ?thesis using False cr by (cases r) (auto simp: parse_i64_def show_i64_def)
qed

subsection \<open>The export\<close>

definition row_ok :: "machine_row \<Rightarrow> bool" where
  "row_ok r \<longleftrightarrow> canonical_id (mr_machine_id r) \<and> name_ok (mr_name r) \<and> is_i64 (mr_last_seen_ms r)
     \<and> mr_proto_version r < 2 ^ 32 \<and> (\<forall>t. mr_tombstone_until_ms r = Some t \<longrightarrow> is_i64 t)
     \<and> (\<forall>k. mr_daemon_key r = Some k \<longrightarrow> k \<noteq> [] \<and> list_all is_ascii_hexdigit k)"

definition visible :: "string \<Rightarrow> bool" where
  "visible s \<longleftrightarrow> (\<forall>c \<in> set s. 32 < chcode c \<and> chcode c < 128)"

lemma visible_simps [simp]:
  "visible []" "visible (c # s) \<longleftrightarrow> 32 < chcode c \<and> chcode c < 128 \<and> visible s"
  by (auto simp: visible_def)

lemma visible_no_layout: "visible s \<Longrightarrow> TAB \<notin> set s \<and> NEWLINE \<notin> set s \<and> CARRIAGE \<notin> set s"
  by (auto simp: visible_def TAB_def CARRIAGE_def chcode_def)

lemma visible_trim: "visible s \<Longrightarrow> trim s = s"
  by (intro trim_visible) (auto simp: visible_def)

lemma visible_show_nat: "visible (show_nat n)"
  using show_nat_all_digits [of n] by (auto simp: visible_def is_ascii_digit_def)

lemma visible_show_i64: "visible (show_i64 n)"
  using visible_show_nat by (simp add: show_i64_def chcode_def)

lemma visible_hex: "list_all is_ascii_hexdigit k \<Longrightarrow> visible k"
  by (auto simp: visible_def list_all_iff dest: hexdigit_visible)

lemma visible_name: "name_ok n \<Longrightarrow> visible n"
  by (auto simp: visible_def name_ok_def list_all_iff dest: name_char_visible)

lemma visible_id: "canonical_id d \<Longrightarrow> visible d"
  by (auto simp: visible_def canonical_id_def dest: hexdigit_visible)

lemma visible_presence: "visible (presence_as_str p)"
  by (cases p) (simp_all add: presence_as_str_def chcode_def)

lemma visible_export_fields: "row_ok r \<Longrightarrow> \<forall>f \<in> set (export_fields r). visible f"
  by (auto simp: export_fields_def row_ok_def visible_show_nat visible_show_i64 visible_hex visible_name
      visible_id visible_presence chcode_def split: option.splits)

lemma show_i64_ne: "show_i64 n \<noteq> []"
  by (simp add: show_i64_def show_nat_ne)

lemma nth_eight [simp]:
  "[a, b, c, d, e, f, g, h] ! 0 = a" "[a, b, c, d, e, f, g, h] ! 1 = b" "[a, b, c, d, e, f, g, h] ! 2 = c"
  "[a, b, c, d, e, f, g, h] ! 3 = d" "[a, b, c, d, e, f, g, h] ! 4 = e" "[a, b, c, d, e, f, g, h] ! 5 = f"
  "[a, b, c, d, e, f, g, h] ! 6 = g" "[a, b, c, d, e, f, g, h] ! 7 = h"
  by (simp_all add: numeral_eq_Suc)

lemma parse_tombstone_export:
  "(\<forall>t. tomb = Some t \<longrightarrow> is_i64 t) \<Longrightarrow>
     parse_tombstone_field (case tomb of None \<Rightarrow> [] | Some v \<Rightarrow> show_i64 v) = Some tomb"
  by (cases tomb) (simp_all add: parse_tombstone_field_def show_i64_ne parse_i64_show)

lemma parse_key_export:
  "(\<forall>k. key = Some k \<longrightarrow> k \<noteq> [] \<and> list_all is_ascii_hexdigit k) \<Longrightarrow>
     parse_key_field (case key of None \<Rightarrow> [] | Some k \<Rightarrow> k) = key"
  using visible_trim [of "[]"]
  by (cases key) (simp_all add: parse_key_field_def visible_trim visible_hex)

lemma parse_export_fields: "row_ok r \<Longrightarrow> parse_fields_of (export_fields r) = Some r"
proof -
  assume r: "row_ok r"
  have "machine_id_parse (mr_machine_id r) = Ok (mr_machine_id r)" "name_parse (mr_name r) = Ok (mr_name r)"
    "parse_i64 (show_i64 (mr_last_seen_ms r)) = Some (mr_last_seen_ms r)"
    "parse_u32 (show_nat (mr_proto_version r)) = Some (mr_proto_version r)"
    using r by (simp_all add: row_ok_def machine_id_parse_canonical name_parse_ok parse_i64_show
        parse_u32_def parse_unsigned_show)
  moreover note parse_tombstone_export [of "mr_tombstone_until_ms r"] parse_key_export [of "mr_daemon_key r"]
  ultimately show ?thesis
    using r unfolding parse_fields_of_def export_fields_def nth_eight row_ok_def
    by (cases "mr_name_conflict r") (simp_all add: presence_parse_as_str)
qed

lemma join_fields_line:
  "fs \<noteq> [] \<Longrightarrow> \<forall>f \<in> set fs. visible f \<Longrightarrow>
     \<exists>l. join_fields fs = l @ [NEWLINE] \<and> split_on TAB l = fs \<and> NEWLINE \<notin> set l \<and> CARRIAGE \<notin> set l
       \<and> (l = [] \<longrightarrow> fs = [[]])"
proof (induction fs rule: join_fields.induct)
  case (2 f)
  then show ?case
    by (intro exI [of _ f]) (auto simp: split_on_plain dest!: visible_no_layout)
next
  case (3 f g fs)
  then obtain l where l: "join_fields (g # fs) = l @ [NEWLINE]" "split_on TAB l = g # fs"
    "NEWLINE \<notin> set l" "CARRIAGE \<notin> set l" by auto
  have f: "TAB \<notin> set f" "NEWLINE \<notin> set f" "CARRIAGE \<notin> set f"
    using 3 visible_no_layout by auto
  have "split_on TAB (f @ TAB # l) = f # g # fs" using split_on_append [OF f(1)] l by simp
  moreover have "NEWLINE \<noteq> TAB" "CARRIAGE \<noteq> TAB"
    by (simp_all add: TAB_def CARRIAGE_def)
  ultimately show ?case using l f by (intro exI [of _ "f @ TAB # l"]) auto
qed simp

lemma str_lines_step:
  assumes "NEWLINE \<notin> set l" and "CARRIAGE \<notin> set l"
  shows "str_lines (l @ NEWLINE # t) = l # str_lines t"
proof -
  have "strip_cr l = l" using assms(2) by (auto simp: strip_cr_def dest: last_in_set)
  then show ?thesis
    using split_on_append [OF assms(1)] split_on_ne [of NEWLINE t] by (simp add: str_lines_def Let_def)
qed

lemma parse_lines_export:
  "\<forall>r \<in> set rs. row_ok r \<Longrightarrow>
     parse_lines (str_lines (concat (map (\<lambda>r. join_fields (export_fields r)) rs))) = Some rs"
proof (induction rs)
  case Nil
  show ?case by (simp add: str_lines_def)
next
  case (Cons r rs)
  have r: "row_ok r" using Cons.prems by simp
  have ne: "export_fields r \<noteq> []" "export_fields r \<noteq> [[]]" by (simp_all add: export_fields_def)
  obtain l where l: "join_fields (export_fields r) = l @ [NEWLINE]" "split_on TAB l = export_fields r"
    "NEWLINE \<notin> set l" "CARRIAGE \<notin> set l" "l \<noteq> []"
    using join_fields_line [OF ne(1) visible_export_fields [OF r]] ne(2) by auto
  with Cons show ?case by (simp add: str_lines_step parse_export_fields [OF r])
qed

end
