(* ===== verification/Relay_Directory.thy ===== *)
theory Relay_Directory
  imports Mesh_Directory "HOL-Library.Option_ord" "HOL-Library.Product_Lexorder"
begin

text \<open>
  The durable machine directory of the relay, \<open>crates/arreo-relay/src/directory.rs\<close>, over the tables
  \<open>account\<close>, \<open>machine\<close> and \<open>relay_device\<close> of \<open>crates/arreo-relay/src/store.rs\<close>. A table is the list of
  its rows; \<open>PRIMARY KEY\<close> and \<open>UNIQUE(account_id, name_key)\<close> are checked by the statements that could
  break them and give \<open>DirSqlite\<close>. A transaction that is dropped before \<open>commit\<close> leaves the tables as
  they were. Other failures of the database (a full disk, a locked file) are not modelled.
\<close>

section \<open>The tables\<close>

record account_row =
  ac_created_at_ms :: int
  ac_root_key :: "string option"

record machine_rec =
  m_machine_id :: string
  m_account_id :: string
  m_name :: string
  m_name_key :: "string option"
  m_presence :: string
  m_last_seen_ms :: int
  m_proto_version :: int
  m_tombstone_until_ms :: "int option"
  m_name_conflict :: int
  m_daemon_key :: "string option"

record relay_store =
  st_account :: "(string, account_row) btree"
  st_machine :: "machine_rec list"
  st_device :: "(string \<times> string, int \<times> int) btree"

datatype dir_failure =
    DirSqlite
  | Rule directory_error
  | NoSuchAccount string

definition machine_keys :: "machine_rec list \<Rightarrow> (string \<times> string) list" where
  "machine_keys ms = List.map_filter (\<lambda>m. map_option (Pair (m_account_id m)) (m_name_key m)) ms"

definition unique_name_keys :: "machine_rec list \<Rightarrow> bool" where
  "unique_name_keys ms \<longleftrightarrow> distinct (machine_keys ms)"

text \<open>\<open>UPDATE machine SET ... WHERE machine_id = ?1\<close>: a statement that would break the index fails.\<close>

definition update_machine :: "machine_id \<Rightarrow> (machine_rec \<Rightarrow> machine_rec) \<Rightarrow> machine_rec list
    \<Rightarrow> dir_failure + machine_rec list" where
  "update_machine mid f ms =
     (let ms' = map (\<lambda>m. if m_machine_id m = mid then f m else m) ms in
      if unique_name_keys ms' then Ok ms' else Err DirSqlite)"

definition insert_machine :: "machine_rec \<Rightarrow> machine_rec list \<Rightarrow> dir_failure + machine_rec list" where
  "insert_machine m ms =
     (if m_machine_id m \<in> set (map m_machine_id ms) \<or> \<not> unique_name_keys (ms @ [m])
      then Err DirSqlite else Ok (ms @ [m]))"

section \<open>Accounts and devices\<close>

definition set_account_root :: "string \<Rightarrow> string \<Rightarrow> int \<Rightarrow> relay_store \<Rightarrow> relay_store" where
  "set_account_root acct root_hex now s =
     s\<lparr> st_account := bt_insert acct
          (case bt_get (st_account s) acct of
             None \<Rightarrow> \<lparr> ac_created_at_ms = now, ac_root_key = Some root_hex \<rparr>
           | Some a \<Rightarrow> a\<lparr> ac_root_key := Some root_hex \<rparr>) (st_account s) \<rparr>"

definition create_account :: "string \<Rightarrow> verifying_key \<Rightarrow> int \<Rightarrow> relay_store \<Rightarrow> relay_store" where
  "create_account acct root now s = set_account_root acct (concat (map fmt_02x root)) now s"

fun parse_hex_pairs :: "string \<Rightarrow> bytes option" where
  "parse_hex_pairs (a # b # rest) =
     (case hex_value a of None \<Rightarrow> None
      | Some hi \<Rightarrow> (case hex_value b of None \<Rightarrow> None
         | Some lo \<Rightarrow> map_option (Cons (of_nat (hi * 16 + lo))) (parse_hex_pairs rest)))"
| "parse_hex_pairs _ = Some []"

definition parse_hex_32 :: "string \<Rightarrow> bytes option" where
  "parse_hex_32 text = (if length text \<noteq> 64 then None else parse_hex_pairs text)"

definition store_account_root :: "relay_store \<Rightarrow> string \<Rightarrow> bytes option" where
  "store_account_root s acct = (case bt_get (st_account s) acct of
      None \<Rightarrow> None
    | Some a \<Rightarrow> (case ac_root_key a of None \<Rightarrow> None | Some h \<Rightarrow> parse_hex_32 h))"

definition account_root :: "crypto \<Rightarrow> relay_store \<Rightarrow> string \<Rightarrow> verifying_key option" where
  "account_root C s acct = (case store_account_root s acct of
      None \<Rightarrow> None | Some bs \<Rightarrow> if point_ok C bs then Some bs else None)"

definition touch_device :: "string \<Rightarrow> string \<Rightarrow> int \<Rightarrow> relay_store \<Rightarrow> relay_store" where
  "touch_device acct dev now s =
     s\<lparr> st_device := bt_insert (acct, dev)
          (case bt_get (st_device s) (acct, dev) of None \<Rightarrow> (now, now) | Some (first, _) \<Rightarrow> (first, now))
          (st_device s) \<rparr>"

definition device_known :: "relay_store \<Rightarrow> string \<Rightarrow> string \<Rightarrow> bool" where
  "device_known s acct dev \<longleftrightarrow> bt_get (st_device s) (acct, dev) \<noteq> None"

definition device_presence :: "relay_store \<Rightarrow> string \<Rightarrow> (string \<times> int) list" where
  "device_presence s acct =
     map (\<lambda>((_, dev), (_, seen)). (dev, seen)) (filter (\<lambda>((a, _), _). a = acct) (st_device s))"

section \<open>Reading rows\<close>

definition row_from :: "machine_rec \<Rightarrow> int \<Rightarrow> dir_failure + machine_row" where
  "row_from m now =
     (case machine_id_parse (m_machine_id m) of Err e \<Rightarrow> Err (Rule e) | Ok mid \<Rightarrow>
      (case name_parse (m_name m) of Err e \<Rightarrow> Err (Rule e) | Ok nm \<Rightarrow>
         Ok \<lparr> mr_machine_id = mid, mr_name = nm, mr_name_conflict = (m_name_conflict m \<noteq> 0),
              mr_presence = presence_of (m_last_seen_ms m) now, mr_last_seen_ms = m_last_seen_ms m,
              mr_proto_version = nat (m_proto_version m mod 2 ^ 32),
              mr_tombstone_until_ms = m_tombstone_until_ms m, mr_daemon_key = m_daemon_key m \<rparr>))"

definition find_machine :: "machine_id \<Rightarrow> machine_rec list \<Rightarrow> machine_rec option" where
  "find_machine mid ms = find (\<lambda>m. m_machine_id m = mid) ms"

definition row_for :: "machine_rec list \<Rightarrow> machine_id \<Rightarrow> dir_failure + machine_row option" where
  "row_for ms mid = (case find_machine mid ms of
      None \<Rightarrow> Ok None
    | Some m \<Rightarrow> (case row_from m 0 of Err e \<Rightarrow> Err e | Ok r \<Rightarrow> Ok (Some r)))"

text \<open>\<open>Self::row_for(conn, machine_id)?.ok_or_else(|| NoSuchMachine)\<close>, the tail of every write.\<close>

definition row_or_missing :: "machine_rec list \<Rightarrow> machine_id \<Rightarrow> dir_failure + machine_row" where
  "row_or_missing ms mid = (case row_for ms mid of
      Err e \<Rightarrow> Err e
    | Ok None \<Rightarrow> Err (Rule (NoSuchMachine mid))
    | Ok (Some r) \<Rightarrow> Ok r)"

fun rows_from :: "machine_rec list \<Rightarrow> int \<Rightarrow> dir_failure + machine_row list" where
  "rows_from [] now = Ok []"
| "rows_from (m # ms) now =
     (case row_from m now of Err e \<Rightarrow> Err e
      | Ok r \<Rightarrow> (case rows_from ms now of Err e \<Rightarrow> Err e | Ok rs \<Rightarrow> Ok (r # rs)))"

definition dir_list :: "relay_store \<Rightarrow> string \<Rightarrow> int \<Rightarrow> dir_failure + machine_row list" where
  "dir_list s acct now =
     rows_from (sort_key m_name_key (filter (\<lambda>m. m_account_id m = acct) (st_machine s))) now"

definition dir_export :: "relay_store \<Rightarrow> string \<Rightarrow> int \<Rightarrow> dir_failure + string" where
  "dir_export s acct now = (case dir_list s acct now of Err e \<Rightarrow> Err e | Ok rows \<Rightarrow> Ok (export_rows rows))"

section \<open>Join tickets\<close>

record join_ticket =
  jt_account_id :: string
  jt_expires_at_ms :: int
  jt_used :: bool

definition ticket_issue :: "string \<Rightarrow> int \<Rightarrow> join_ticket" where
  "ticket_issue acct now = \<lparr> jt_account_id = acct,
     jt_expires_at_ms = wrapping_add_i64 now (int JOIN_TICKET_SECS * 1000), jt_used = False \<rparr>"

definition ticket_consume :: "join_ticket \<Rightarrow> int \<Rightarrow> directory_error + string" where
  "ticket_consume t now =
     (if jt_used t then Err (Ticket ''already used'')
      else if jt_expires_at_ms t \<le> now then Err (Ticket ''expired'')
      else Ok (jt_account_id t))"

section \<open>Claiming a name\<close>

definition release_expired_tombstones :: "string \<Rightarrow> int \<Rightarrow> machine_rec list \<Rightarrow> machine_rec list" where
  "release_expired_tombstones acct now ms =
     map (\<lambda>m. if m_account_id m = acct \<and> m_name_key m \<noteq> None
            \<and> (case m_tombstone_until_ms m of None \<Rightarrow> False | Some t \<Rightarrow> t \<le> now)
          then m\<lparr>m_name_key := None\<rparr> else m) ms"

definition holder_of :: "machine_rec list \<Rightarrow> string \<Rightarrow> name \<Rightarrow> machine_rec option" where
  "holder_of ms acct nm = find (\<lambda>m. m_account_id m = acct \<and> m_name_key m = Some nm) ms"

definition name_is_free :: "machine_rec list \<Rightarrow> string \<Rightarrow> name \<Rightarrow> machine_id \<Rightarrow> int \<Rightarrow> bool" where
  "name_is_free ms acct nm mid now = (case holder_of ms acct nm of
      None \<Rightarrow> True
    | Some h \<Rightarrow>
        if m_machine_id h = mid then True
        else (case m_tombstone_until_ms h of Some until \<Rightarrow> until \<le> now | None \<Rightarrow> False))"

function pick_loop :: "machine_rec list \<Rightarrow> string \<Rightarrow> name \<Rightarrow> machine_id \<Rightarrow> int \<Rightarrow> nat \<Rightarrow> name
    \<Rightarrow> dir_failure + name \<times> bool" where
  "pick_loop ms acct requested mid now ordinal candidate =
     (if name_is_free ms acct candidate mid now then Ok (candidate, 1 < ordinal)
      else if 10000 < ordinal + 1 then Err (Rule (NameTaken requested))
      else pick_loop ms acct requested mid now (ordinal + 1) (with_suffix requested (ordinal + 1)))"
  by pat_completeness auto
termination
  by (relation "measure (\<lambda>(_, _, _, _, _, ordinal, _). 10000 - ordinal)") auto

declare pick_loop.simps [simp del]

definition pick_name :: "machine_rec list \<Rightarrow> string \<Rightarrow> name \<Rightarrow> machine_id \<Rightarrow> int
    \<Rightarrow> dir_failure + name \<times> bool" where
  "pick_name ms acct requested mid now = pick_loop ms acct requested mid now 1 requested"

definition rejoin :: "machine_id \<Rightarrow> name \<Rightarrow> nat \<Rightarrow> string \<Rightarrow> int \<Rightarrow> machine_rec list
    \<Rightarrow> dir_failure + machine_rec list" where
  "rejoin mid requested proto key now ms =
     update_machine mid (\<lambda>m. m\<lparr> m_last_seen_ms := now, m_proto_version := int proto,
       m_tombstone_until_ms := None, m_name_key := Some requested, m_daemon_key := Some key \<rparr>) ms"

definition claim_locked :: "string \<Rightarrow> machine_id \<Rightarrow> name \<Rightarrow> nat \<Rightarrow> string \<Rightarrow> int \<Rightarrow> machine_rec list
    \<Rightarrow> dir_failure + machine_row \<times> machine_rec list" where
  "claim_locked acct mid requested proto key now ms0 =
     (let ms = release_expired_tombstones acct now ms0 in
      case row_for ms mid of
        Err e \<Rightarrow> Err e
      | Ok (Some existing) \<Rightarrow>
          if mr_name existing \<noteq> requested then Err (Rule (NameTaken (mr_name existing)))
          else (case rejoin mid requested proto key now ms of
              Err e \<Rightarrow> Err e
            | Ok ms' \<Rightarrow> map_sum id (\<lambda>r. (r, ms')) (row_or_missing ms' mid))
      | Ok None \<Rightarrow>
          (case pick_name ms acct requested mid now of
             Err e \<Rightarrow> Err e
           | Ok (nm, conflict) \<Rightarrow>
               (case insert_machine \<lparr> m_machine_id = mid, m_account_id = acct, m_name = nm,
                    m_name_key = Some nm, m_presence = presence_as_str Online, m_last_seen_ms = now,
                    m_proto_version = int proto, m_tombstone_until_ms = None,
                    m_name_conflict = (if conflict then 1 else 0), m_daemon_key = Some key \<rparr> ms of
                  Err e \<Rightarrow> Err e
                | Ok ms' \<Rightarrow> map_sum id (\<lambda>r. (r, ms')) (row_or_missing ms' mid))))"

definition dir_join :: "join_ticket \<Rightarrow> machine_id \<Rightarrow> name \<Rightarrow> nat \<Rightarrow> string \<Rightarrow> int \<Rightarrow> relay_store
    \<Rightarrow> (dir_failure + machine_row) \<times> relay_store" where
  "dir_join ticket mid requested proto key now s =
     (case ticket_consume ticket now of
        Err e \<Rightarrow> (Err (Rule e), s)
      | Ok acct \<Rightarrow>
          if bt_get (st_account s) acct = None then (Err (NoSuchAccount acct), s)
          else (case claim_locked acct mid requested proto key now (st_machine s) of
              Err e \<Rightarrow> (Err e, s)
            | Ok (r, ms) \<Rightarrow> (Ok r, s\<lparr>st_machine := ms\<rparr>)))"

section \<open>Changing rows\<close>

definition dir_rename :: "machine_id \<Rightarrow> name \<Rightarrow> int \<Rightarrow> relay_store
    \<Rightarrow> (dir_failure + machine_row) \<times> relay_store" where
  "dir_rename mid new_name now s =
     (case find_machine mid (st_machine s) of
        None \<Rightarrow> (Err (Rule (NoSuchMachine mid)), s)
      | Some m0 \<Rightarrow>
          let acct = m_account_id m0; ms = release_expired_tombstones acct now (st_machine s) in
          if \<not> name_is_free ms acct new_name mid now then (Err (Rule (NameTaken new_name)), s)
          else (case update_machine mid (\<lambda>m. m\<lparr> m_name := new_name, m_name_key := Some new_name,
                   m_name_conflict := 0 \<rparr>) ms of
              Err e \<Rightarrow> (Err e, s)
            | Ok ms' \<Rightarrow> (row_or_missing ms' mid, s\<lparr>st_machine := ms'\<rparr>)))"

definition dir_remove :: "machine_id \<Rightarrow> int \<Rightarrow> relay_store \<Rightarrow> (dir_failure + machine_row) \<times> relay_store" where
  "dir_remove mid now s =
     (case row_for (st_machine s) mid of
        Err e \<Rightarrow> (Err e, s)
      | Ok None \<Rightarrow> (Err (Rule (NoSuchMachine mid)), s)
      | Ok (Some _) \<Rightarrow>
          let until = wrapping_add_i64 now (int TOMBSTONE_SECS * 1000) in
          (case update_machine mid (\<lambda>m. m\<lparr> m_tombstone_until_ms := Some until \<rparr>) (st_machine s) of
             Err e \<Rightarrow> (Err e, s)
           | Ok ms' \<Rightarrow> (row_or_missing ms' mid, s\<lparr>st_machine := ms'\<rparr>)))"

definition dir_heartbeat :: "machine_id \<Rightarrow> int \<Rightarrow> relay_store \<Rightarrow> (dir_failure + unit) \<times> relay_store" where
  "dir_heartbeat mid now s =
     (case update_machine mid (\<lambda>m. m\<lparr> m_last_seen_ms := now \<rparr>) (st_machine s) of
        Err e \<Rightarrow> (Err e, s)
      | Ok ms' \<Rightarrow>
          if find_machine mid (st_machine s) = None then (Err (Rule (NoSuchMachine mid)), s\<lparr>st_machine := ms'\<rparr>)
          else (Ok (), s\<lparr>st_machine := ms'\<rparr>))"

definition dir_resolve :: "relay_store \<Rightarrow> string \<Rightarrow> name \<Rightarrow> dir_failure + machine_id option" where
  "dir_resolve s acct nm = (case holder_of (st_machine s) acct nm of
      Some m \<Rightarrow> (case machine_id_parse (m_machine_id m) of Err e \<Rightarrow> Err (Rule e) | Ok mid \<Rightarrow> Ok (Some mid))
    | None \<Rightarrow> Ok None)"

definition dir_resolve_known :: "relay_store \<Rightarrow> string \<Rightarrow> machine_id \<Rightarrow> machine_id option" where
  "dir_resolve_known s acct mid =
     (if find (\<lambda>m. m_account_id m = acct \<and> m_machine_id m = mid) (st_machine s) = None
      then None else Some mid)"

fun remove_all :: "machine_id list \<Rightarrow> int \<Rightarrow> relay_store \<Rightarrow> (dir_failure + unit) \<times> relay_store" where
  "remove_all [] now s = (Ok (), s)"
| "remove_all (mid # mids) now s =
     (case dir_remove mid now s of
        (Err e, s') \<Rightarrow> (Err e, s')
      | (Ok _, s') \<Rightarrow> remove_all mids now s')"

definition dir_remove_stale :: "string \<Rightarrow> int \<Rightarrow> relay_store
    \<Rightarrow> (dir_failure + machine_id list) \<times> relay_store" where
  "dir_remove_stale acct now s =
     (case dir_list s acct now of
        Err e \<Rightarrow> (Err e, s)
      | Ok rows \<Rightarrow>
          let stale = map mr_machine_id
                (filter (\<lambda>r. mr_presence r = Stale \<and> \<not> tombstone_active r now) rows) in
          (case remove_all stale now s of
             (Err e, s') \<Rightarrow> (Err e, s')
           | (Ok _, s') \<Rightarrow> (Ok stale, s')))"

end
