(* ===== verification/Relay_Directory_Facts.thy ===== *)
theory Relay_Directory_Facts
  imports Relay_Directory Step_Systems
begin

text \<open>
  The invariant of the machine table and what each statement and operation of
  \<open>Relay_Directory\<close> does to it: ids and live names stay unique, every name obeys the name rule, and
  a row holds either its own name or, as an expired tombstone, none.
\<close>

section \<open>The invariant\<close>

definition rec_ok :: "machine_rec \<Rightarrow> bool" where
  "rec_ok m \<longleftrightarrow> canonical_id (m_machine_id m) \<and> name_ok (m_name m)
     \<and> (m_name_key m = Some (m_name m) \<or> (m_name_key m = None \<and> m_tombstone_until_ms m \<noteq> None))
     \<and> is_i64 (m_last_seen_ms m) \<and> 0 \<le> m_proto_version m \<and> m_proto_version m < 2 ^ 32
     \<and> (\<forall>t. m_tombstone_until_ms m = Some t \<longrightarrow> is_i64 t)
     \<and> (\<forall>k. m_daemon_key m = Some k \<longrightarrow> k \<noteq> [] \<and> list_all is_ascii_hexdigit k)"

definition machines_ok :: "machine_rec list \<Rightarrow> bool" where
  "machines_ok ms \<longleftrightarrow> distinct (map m_machine_id ms) \<and> unique_name_keys ms \<and> (\<forall>m \<in> set ms. rec_ok m)"

lemma machine_keys_simps [simp]:
  "machine_keys [] = []"
  "machine_keys (m # ms) =
     (case m_name_key m of None \<Rightarrow> [] | Some k \<Rightarrow> [(m_account_id m, k)]) @ machine_keys ms"
  "machine_keys (ms @ ms') = machine_keys ms @ machine_keys ms'"
  by (simp_all add: machine_keys_def List.map_filter_def split: option.splits)

lemma set_machine_keys:
  "(a, k) \<in> set (machine_keys ms) \<longleftrightarrow> (\<exists>m \<in> set ms. m_account_id m = a \<and> m_name_key m = Some k)"
  by (induction ms) (auto split: option.splits)

lemma unique_keys_holder:
  assumes "unique_name_keys ms" and "m \<in> set ms" and "m' \<in> set ms"
    and "m_account_id m = m_account_id m'" and "m_name_key m = Some k" and "m_name_key m' = Some k"
  shows "m = m'"
  using assms
proof (induction ms)
  case (Cons x ms)
  have d: "distinct (machine_keys ms)" "m_name_key x = Some j \<Longrightarrow> (m_account_id x, j) \<notin> set (machine_keys ms)" for j
    using Cons.prems(1) by (auto simp: unique_name_keys_def split: option.splits)
  show ?case
    using Cons d by (auto simp: unique_name_keys_def set_machine_keys)
qed simp

lemma holder_of_Some:
  "holder_of ms acct nm = Some h \<Longrightarrow> h \<in> set ms \<and> m_account_id h = acct \<and> m_name_key h = Some nm"
  by (auto simp: holder_of_def find_Some_iff)

lemma holder_of_None:
  "holder_of ms acct nm = None \<longleftrightarrow> (\<forall>m \<in> set ms. \<not> (m_account_id m = acct \<and> m_name_key m = Some nm))"
  by (auto simp: holder_of_def find_None_iff)

lemma holder_of_eq:
  "unique_name_keys ms \<Longrightarrow> holder_of ms acct nm = Some h \<longleftrightarrow>
     h \<in> set ms \<and> m_account_id h = acct \<and> m_name_key h = Some nm"
proof
  assume u: "unique_name_keys ms" and h: "h \<in> set ms \<and> m_account_id h = acct \<and> m_name_key h = Some nm"
  then obtain h' where h': "holder_of ms acct nm = Some h'"
    using holder_of_None [of ms acct nm] by (cases "holder_of ms acct nm") auto
  with h holder_of_Some [OF h'] show "holder_of ms acct nm = Some h"
    using unique_keys_holder [OF u, of h h' nm] by simp
qed (rule holder_of_Some)

lemma find_machine_Some: "find_machine mid ms = Some m \<Longrightarrow> m \<in> set ms \<and> m_machine_id m = mid"
  by (auto simp: find_machine_def find_Some_iff)

lemma find_machine_None: "find_machine mid ms = None \<longleftrightarrow> mid \<notin> set (map m_machine_id ms)"
  by (auto simp: find_machine_def find_None_iff)

lemma find_machine_eq:
  assumes "distinct (map m_machine_id ms)"
  shows "find_machine mid ms = Some m \<longleftrightarrow> m \<in> set ms \<and> m_machine_id m = mid"
proof
  assume m: "m \<in> set ms \<and> m_machine_id m = mid"
  then obtain m' where "find_machine mid ms = Some m'"
    using find_machine_None [of mid ms] by (cases "find_machine mid ms") auto
  with m show "find_machine mid ms = Some m"
    using find_machine_Some assms by (metis distinct_map inj_onD)
qed (rule find_machine_Some)

section \<open>Statements\<close>

definition updated :: "machine_id \<Rightarrow> (machine_rec \<Rightarrow> machine_rec) \<Rightarrow> machine_rec list \<Rightarrow> machine_rec list" where
  "updated mid f ms = map (\<lambda>m. if m_machine_id m = mid then f m else m) ms"

lemma update_machine_updated:
  "update_machine mid f ms = (if unique_name_keys (updated mid f ms) then Ok (updated mid f ms) else Err DirSqlite)"
  by (simp add: update_machine_def updated_def Let_def)

lemma updated_ids: "(\<And>m. m_machine_id (f m) = m_machine_id m) \<Longrightarrow>
  map m_machine_id (updated mid f ms) = map m_machine_id ms"
  by (simp add: updated_def)

lemma keys_map_same:
  "(\<And>m. m \<in> set ms \<Longrightarrow> m_account_id (f m) = m_account_id m \<and> m_name_key (f m) = m_name_key m) \<Longrightarrow>
     machine_keys (map f ms) = machine_keys ms"
  by (induction ms) (auto split: option.splits)

lemma update_machine_same_keys:
  assumes "unique_name_keys ms"
    and "\<And>m. m_account_id (f m) = m_account_id m" and "\<And>m. m_name_key (f m) = m_name_key m"
  shows "update_machine mid f ms = Ok (updated mid f ms)"
  using assms keys_map_same [of ms "\<lambda>m. if m_machine_id m = mid then f m else m"]
  by (simp add: update_machine_updated unique_name_keys_def updated_def)

lemma update_machine_ok:
  assumes "machines_ok ms" and "update_machine mid f ms = Ok ms'"
    and "\<And>m. m_machine_id (f m) = m_machine_id m"
    and "\<And>m. m \<in> set ms \<Longrightarrow> m_machine_id m = mid \<Longrightarrow> rec_ok (f m)"
  shows "machines_ok ms'"
proof -
  have ms': "ms' = updated mid f ms" "unique_name_keys ms'"
    using assms(2) by (auto simp: update_machine_updated split: if_splits)
  have "\<forall>m \<in> set ms'. rec_ok m"
    using assms(1,4) unfolding ms'(1) updated_def machines_ok_def by auto
  then show ?thesis
    using ms' assms(1) updated_ids [of f mid ms, OF assms(3)] by (simp add: machines_ok_def)
qed

lemma insert_machine_iff:
  "insert_machine m ms = Ok ms' \<longleftrightarrow>
     ms' = ms @ [m] \<and> m_machine_id m \<notin> set (map m_machine_id ms) \<and> unique_name_keys (ms @ [m])"
  by (auto simp: insert_machine_def split: if_splits)

lemma insert_machine_ok: "machines_ok ms \<Longrightarrow> rec_ok m \<Longrightarrow> insert_machine m ms = Ok ms' \<Longrightarrow> machines_ok ms'"
  by (auto simp: insert_machine_iff machines_ok_def)

subsection \<open>Released tombstones\<close>

definition expired :: "int \<Rightarrow> machine_rec \<Rightarrow> bool" where
  "expired now m \<longleftrightarrow> (case m_tombstone_until_ms m of None \<Rightarrow> False | Some t \<Rightarrow> t \<le> now)"

definition release :: "string \<Rightarrow> int \<Rightarrow> machine_rec \<Rightarrow> machine_rec" where
  "release acct now m = (if m_account_id m = acct \<and> expired now m then m\<lparr>m_name_key := None\<rparr> else m)"

lemma release_simps [simp]:
  "m_machine_id (release acct now m) = m_machine_id m" "m_account_id (release acct now m) = m_account_id m"
  "m_name (release acct now m) = m_name m" "m_last_seen_ms (release acct now m) = m_last_seen_ms m"
  "m_tombstone_until_ms (release acct now m) = m_tombstone_until_ms m"
  "m_daemon_key (release acct now m) = m_daemon_key m" "m_proto_version (release acct now m) = m_proto_version m"
  "m_name_conflict (release acct now m) = m_name_conflict m"
  by (simp_all add: release_def)

lemma released: "release_expired_tombstones acct now ms = map (release acct now) ms"
  by (auto simp: release_expired_tombstones_def release_def expired_def intro!: map_cong)

lemma released_key_iff:
  "m_name_key (release acct now m) = Some k \<longleftrightarrow>
     m_name_key m = Some k \<and> \<not> (m_account_id m = acct \<and> expired now m)"
  by (simp add: release_def)

lemma released_keys_distinct: "distinct (machine_keys ms) \<Longrightarrow> distinct (machine_keys (map (release acct now) ms))"
proof (induction ms)
  case (Cons m ms)
  show ?case
  proof (cases "m_name_key (release acct now m)")
    case None
    with Cons show ?thesis by simp
  next
    case (Some k)
    then have "m_name_key m = Some k" by (simp add: released_key_iff)
    with Cons.prems have "(m_account_id m, k) \<notin> set (machine_keys (map (release acct now) ms))"
      by (auto simp: set_machine_keys released_key_iff)
    with Cons Some show ?thesis by (simp del: set_append)
  qed
qed simp

lemma rec_ok_release: "rec_ok m \<Longrightarrow> rec_ok (release acct now m)"
  by (auto simp: rec_ok_def release_def expired_def split: option.splits)

lemma machines_ok_released: "machines_ok ms \<Longrightarrow> machines_ok (map (release acct now) ms)"
  by (auto simp: machines_ok_def unique_name_keys_def rec_ok_release comp_def
      intro: released_keys_distinct)

section \<open>Reading\<close>

definition row_view :: "machine_rec \<Rightarrow> int \<Rightarrow> machine_row" where
  "row_view m now = \<lparr> mr_machine_id = m_machine_id m, mr_name = m_name m,
     mr_name_conflict = (m_name_conflict m \<noteq> 0), mr_presence = presence_of (m_last_seen_ms m) now,
     mr_last_seen_ms = m_last_seen_ms m, mr_proto_version = nat (m_proto_version m),
     mr_tombstone_until_ms = m_tombstone_until_ms m, mr_daemon_key = m_daemon_key m \<rparr>"

lemma row_view_simps [simp]:
  "mr_machine_id (row_view m now) = m_machine_id m" "mr_name (row_view m now) = m_name m"
  "mr_presence (row_view m now) = presence_of (m_last_seen_ms m) now"
  "mr_tombstone_until_ms (row_view m now) = m_tombstone_until_ms m"
  "mr_name_conflict (row_view m now) = (m_name_conflict m \<noteq> 0)"
  by (simp_all add: row_view_def)

lemma row_from_ok: "rec_ok m \<Longrightarrow> row_from m now = Ok (row_view m now)"
  by (simp add: rec_ok_def row_from_def row_view_def machine_id_parse_canonical name_parse_ok)

lemma row_ok_view: "rec_ok m \<Longrightarrow> row_ok (row_view m now)"
  by (auto simp: rec_ok_def row_ok_def row_view_def)

lemma rows_from_ok: "\<forall>m \<in> set ms. rec_ok m \<Longrightarrow> rows_from ms now = Ok (map (\<lambda>m. row_view m now) ms)"
  by (induction ms) (simp_all add: row_from_ok)

lemma row_for_ok:
  "machines_ok ms \<Longrightarrow> row_for ms mid = Ok (map_option (\<lambda>m. row_view m 0) (find_machine mid ms))"
  by (auto simp: row_for_def machines_ok_def row_from_ok dest: find_machine_Some split: option.splits)

lemma row_or_missing_ok:
  "machines_ok ms \<Longrightarrow> row_or_missing ms mid = (case find_machine mid ms of
     None \<Rightarrow> Err (Rule (NoSuchMachine mid)) | Some m \<Rightarrow> Ok (row_view m 0))"
  by (simp add: row_or_missing_def row_for_ok split: option.splits)

lemma dir_list_ok:
  "machines_ok (st_machine s) \<Longrightarrow> dir_list s acct now = Ok (map (\<lambda>m. row_view m now)
     (sort_key m_name_key (filter (\<lambda>m. m_account_id m = acct) (st_machine s))))"
  by (auto simp: dir_list_def machines_ok_def intro!: rows_from_ok)

lemma find_machine_updated:
  "(\<And>m. m_machine_id (f m) = m_machine_id m) \<Longrightarrow>
     find_machine mid (updated mid' f ms) =
       map_option (\<lambda>m. if m_machine_id m = mid' then f m else m) (find_machine mid ms)"
  by (induction ms) (auto simp: find_machine_def updated_def)

lemma find_machine_released:
  "find_machine mid (map (release acct now) ms) = map_option (release acct now) (find_machine mid ms)"
  by (induction ms) (auto simp: find_machine_def)

section \<open>Picking a name\<close>

definition candidate_name :: "name \<Rightarrow> nat \<Rightarrow> name" where
  "candidate_name requested k = (if k \<le> 1 then requested else with_suffix requested k)"

lemma pick_loop_Ok:
  "pick_loop ms acct req mid now i c = Ok r \<Longrightarrow> 1 \<le> i \<Longrightarrow> i \<le> 10000 \<Longrightarrow> c = candidate_name req i \<Longrightarrow>
     \<exists>k. i \<le> k \<and> k \<le> 10000 \<and> r = (candidate_name req k, 1 < k) \<and>
       name_is_free ms acct (candidate_name req k) mid now \<and>
       (\<forall>j. i \<le> j \<and> j < k \<longrightarrow> \<not> name_is_free ms acct (candidate_name req j) mid now)"
proof (induction ms acct req mid now i c rule: pick_loop.induct)
  case (1 ms acct req mid now i c)
  show ?case
  proof (cases "name_is_free ms acct c mid now")
    case True
    then have "r = (c, 1 < i)" using 1(2) by (simp add: pick_loop.simps [of ms acct req mid now i c])
    with True 1(3,4,5) show ?thesis by (intro exI [of _ i]) auto
  next
    case False
    with 1(2) have i: "i + 1 \<le> 10000"
      "pick_loop ms acct req mid now (i + 1) (with_suffix req (i + 1)) = Ok r"
      by (auto simp: pick_loop.simps [of ms acct req mid now i c] split: if_splits)
    with 1(1) [OF False] 1(3) obtain k where k: "i + 1 \<le> k" "k \<le> 10000" "r = (candidate_name req k, 1 < k)"
      "name_is_free ms acct (candidate_name req k) mid now"
      "\<forall>j. i + 1 \<le> j \<and> j < k \<longrightarrow> \<not> name_is_free ms acct (candidate_name req j) mid now"
      by (auto simp: candidate_name_def)
    moreover have "\<not> name_is_free ms acct (candidate_name req j) mid now" if "i \<le> j" "j < k" for j
      using k(5) False 1(5) that by (cases "j = i") auto
    ultimately show ?thesis by (intro exI [of _ k]) auto
  qed
qed

lemma pick_loop_Err:
  "pick_loop ms acct req mid now i c = Err e \<Longrightarrow> 1 \<le> i \<Longrightarrow> i \<le> 10000 \<Longrightarrow> c = candidate_name req i \<Longrightarrow>
     e = Rule (NameTaken req) \<and> (\<forall>j. i \<le> j \<and> j \<le> 10000 \<longrightarrow> \<not> name_is_free ms acct (candidate_name req j) mid now)"
proof (induction ms acct req mid now i c rule: pick_loop.induct)
  case (1 ms acct req mid now i c)
  have nf: "\<not> name_is_free ms acct c mid now"
    using 1(2) by (auto simp: pick_loop.simps [of ms acct req mid now i c] split: if_splits)
  show ?case
  proof (cases "10000 < i + 1")
    case True
    then have "i = 10000" using 1(4) by simp
    have "e = Rule (NameTaken req)" using 1(2) nf True by (simp add: pick_loop.simps [of ms acct req mid now i c])
    moreover have "j = i" if "i \<le> j" "j \<le> 10000" for j using that \<open>i = 10000\<close> by simp
    ultimately show ?thesis using nf 1(5) by blast
  next
    case False
    with 1(2) nf have "pick_loop ms acct req mid now (i + 1) (with_suffix req (i + 1)) = Err e"
      by (auto simp: pick_loop.simps [of ms acct req mid now i c])
    with 1(1) [OF nf False] 1(3) False have IH: "e = Rule (NameTaken req)"
      "\<forall>j. i + 1 \<le> j \<and> j \<le> 10000 \<longrightarrow> \<not> name_is_free ms acct (candidate_name req j) mid now"
      by (auto simp: candidate_name_def)
    moreover have "\<not> name_is_free ms acct (candidate_name req j) mid now" if "i \<le> j" "j \<le> 10000" for j
      using IH(2) nf 1(5) that by (cases "j = i") auto
    ultimately show ?thesis by blast
  qed
qed

lemmas pick_name_Ok = pick_loop_Ok [where i = 1, folded pick_name_def, unfolded candidate_name_def, simplified]

lemma taken_has_holder: "\<not> name_is_free ms acct nm mid now \<Longrightarrow> (acct, nm) \<in> set (machine_keys ms)"
  by (auto simp: name_is_free_def set_machine_keys dest: holder_of_Some split: option.splits)

lemma length_machine_keys: "length (filter (\<lambda>(a, _). a = acct) (machine_keys ms)) \<le>
    length (filter (\<lambda>m. m_account_id m = acct) ms)"
  by (induction ms) (auto split: option.splits)

text \<open>A claim is only refused in a directory of ten thousand machines.\<close>

lemma pick_name_Err:
  assumes "pick_name ms acct req mid now = Err e"
  shows "9999 \<le> length (filter (\<lambda>m. m_account_id m = acct) ms)"
proof -
  let ?K = "{(acct, with_suffix req j) | j. 2 \<le> j \<and> j \<le> 10000}"
  have nf: "\<not> name_is_free ms acct (with_suffix req j) mid now" if "2 \<le> j" "j \<le> 10000" for j
  proof -
    have "1 \<le> j" "candidate_name req j = with_suffix req j" using that by (simp_all add: candidate_name_def)
    with pick_loop_Err [OF assms [unfolded pick_name_def]] that show ?thesis
      by (metis candidate_name_def le_numeral_extra(4) one_le_numeral)
  qed
  have sub: "?K \<subseteq> set (filter (\<lambda>(a, _). a = acct) (machine_keys ms))"
    using taken_has_holder [OF nf] by auto
  have "?K = (\<lambda>j. (acct, with_suffix req j)) ` {2..10000}" by auto
  moreover have "inj_on (\<lambda>j. (acct, with_suffix req j)) {2..10000}"
    by (auto simp: inj_on_def dest: with_suffix_inject)
  ultimately have "card ?K = 9999" by (simp add: card_image)
  moreover have "card ?K \<le> card (set (filter (\<lambda>(a, _). a = acct) (machine_keys ms)))"
    using sub by (intro card_mono) simp_all
  ultimately show ?thesis
    using card_length [of "filter (\<lambda>(a, _). a = acct) (machine_keys ms)"] length_machine_keys [of acct ms]
    by linarith
qed

section \<open>Operations keep the invariant\<close>

definition store_ok :: "relay_store \<Rightarrow> bool" where
  "store_ok s \<longleftrightarrow> machines_ok (st_machine s) \<and> bt_inv (st_account s) \<and> bt_inv (st_device s)
     \<and> (\<forall>m \<in> set (st_machine s). bt_get (st_account s) (m_account_id m) \<noteq> None)"

lemma is_i64_wrapping_add: "is_i64 (wrapping_add_i64 a b)"
proof -
  have "0 \<le> (a + b + 2 ^ 63) mod 2 ^ 64" "(a + b + 2 ^ 63) mod 2 ^ 64 < (2 ^ 64 :: int)"
    by (rule pos_mod_sign pos_mod_bound, simp)+
  then show ?thesis by (simp add: is_i64_def i64_min_def i64_max_def wrapping_add_i64_def)
qed

text \<open>Once the expired tombstones are released, a name is free unless another machine really holds it.\<close>

lemma free_released:
  assumes "machines_ok ms"
  shows "name_is_free (map (release acct now) ms) acct nm mid now \<longleftrightarrow>
    (\<forall>m \<in> set ms. m_account_id m = acct \<and> m_name_key m = Some nm \<longrightarrow> m_machine_id m = mid \<or> expired now m)"
proof (cases "holder_of (map (release acct now) ms) acct nm")
  case None
  then have "name_is_free (map (release acct now) ms) acct nm mid now" by (simp add: name_is_free_def)
  with None show ?thesis by (auto simp: holder_of_None released_key_iff)
next
  case (Some h)
  then obtain m where m: "m \<in> set ms" "h = release acct now m" "m_account_id m = acct" "m_name_key m = Some nm"
    "\<not> expired now m"
    using holder_of_Some [OF Some] by (auto simp: released_key_iff)
  have only: "m' = m" if "m' \<in> set ms" "m_account_id m' = acct" "m_name_key m' = Some nm" for m'
    using unique_keys_holder [of ms m' m nm] assms that m by (simp add: machines_ok_def)
  have "name_is_free (map (release acct now) ms) acct nm mid now \<longleftrightarrow> m_machine_id m = mid"
    using Some m(2,5) by (simp add: name_is_free_def expired_def split: option.splits)
  also have "\<dots> \<longleftrightarrow> (\<forall>m' \<in> set ms. m_account_id m' = acct \<and> m_name_key m' = Some nm \<longrightarrow>
      m_machine_id m' = mid \<or> expired now m')"
    using only m by blast
  finally show ?thesis .
qed

lemma free_released_new:
  assumes "machines_ok ms" and "find_machine mid ms = None"
    and "name_is_free (map (release acct now) ms) acct nm mid now"
  shows "(acct, nm) \<notin> set (machine_keys (map (release acct now) ms))"
  using assms by (auto simp: free_released set_machine_keys released_key_iff find_machine_None)

definition new_rec :: "machine_id \<Rightarrow> string \<Rightarrow> name \<Rightarrow> bool \<Rightarrow> nat \<Rightarrow> string \<Rightarrow> int \<Rightarrow> machine_rec" where
  "new_rec mid acct nm conflict proto key now =
     \<lparr> m_machine_id = mid, m_account_id = acct, m_name = nm, m_name_key = Some nm,
       m_presence = presence_as_str Online, m_last_seen_ms = now, m_proto_version = int proto,
       m_tombstone_until_ms = None, m_name_conflict = (if conflict then 1 else 0), m_daemon_key = Some key \<rparr>"

lemma new_rec_simps [simp]:
  "m_machine_id (new_rec mid acct nm c p k now) = mid" "m_account_id (new_rec mid acct nm c p k now) = acct"
  "m_name (new_rec mid acct nm c p k now) = nm" "m_name_key (new_rec mid acct nm c p k now) = Some nm"
  "m_tombstone_until_ms (new_rec mid acct nm c p k now) = None"
  by (simp_all add: new_rec_def)

definition request_ok :: "machine_id \<Rightarrow> name \<Rightarrow> nat \<Rightarrow> string \<Rightarrow> bool" where
  "request_ok mid nm proto key \<longleftrightarrow> canonical_id mid \<and> name_ok nm \<and> proto < 2 ^ 32 \<and> key \<noteq> []
     \<and> list_all is_ascii_hexdigit key"

lemma rec_ok_new:
  "request_ok mid req proto key \<Longrightarrow> name_ok nm \<Longrightarrow> is_i64 now \<Longrightarrow> rec_ok (new_rec mid acct nm c proto key now)"
  by (auto simp: rec_ok_def request_ok_def new_rec_def)

lemma name_ok_candidate: "name_ok req \<Longrightarrow> k \<le> 10000 \<Longrightarrow> name_ok (candidate_name req k)"
proof -
  assume "name_ok req" "k \<le> 10000"
  moreover have "k < 10 ^ 29" using \<open>k \<le> 10000\<close> by simp
  ultimately show ?thesis by (simp add: candidate_name_def name_ok_with_suffix)
qed

text \<open>A machine without a row: the claim succeeds exactly when a candidate is free, and appends the row.\<close>

lemma claim_new:
  assumes ms: "machines_ok ms" and new: "find_machine mid ms = None" and req: "request_ok mid req proto key"
    and now: "is_i64 now"
  shows "claim_locked acct mid req proto key now ms =
    (case pick_name (map (release acct now) ms) acct req mid now of
       Err e \<Rightarrow> Err e
     | Ok (nm, c) \<Rightarrow> Ok (row_view (new_rec mid acct nm c proto key now) 0,
                        map (release acct now) ms @ [new_rec mid acct nm c proto key now]))"
proof (cases "pick_name (map (release acct now) ms) acct req mid now")
  case (Inl e)
  then show ?thesis
    using machines_ok_released [OF ms] new
    by (simp add: claim_locked_def released row_for_ok find_machine_released)
next
  case (Inr r)
  obtain nm c where r: "r = (nm, c)" by force
  let ?R = "map (release acct now) ms" and ?n = "new_rec mid acct nm c proto key now"
  obtain k where k: "k \<le> 10000" "nm = candidate_name req k" "name_is_free ?R acct nm mid now"
    using pick_loop_Ok [OF Inr [unfolded pick_name_def r]] by (auto simp: candidate_name_def)
  have ok: "machines_ok ?R" "rec_ok ?n"
    using ms req now k by (auto simp: machines_ok_released rec_ok_new name_ok_candidate request_ok_def)
  have "insert_machine ?n ?R = Ok (?R @ [?n])"
    using ok(1) new free_released_new [OF ms new k(3)]
    by (auto simp: insert_machine_iff machines_ok_def unique_name_keys_def find_machine_None)
  moreover from this have "machines_ok (?R @ [?n])" by (rule insert_machine_ok [OF ok])
  moreover have "find_machine mid (?R @ [?n]) = Some ?n"
    using \<open>machines_ok (?R @ [?n])\<close> by (subst find_machine_eq) (auto simp: machines_ok_def)
  ultimately show ?thesis
    using ok(1) new Inr r
    by (simp add: claim_locked_def released row_for_ok find_machine_released row_or_missing_ok
        flip: new_rec_def)
qed

text \<open>A machine with a row: whatever its account, the row is refreshed under its own name or refused.\<close>

definition rejoined :: "name \<Rightarrow> nat \<Rightarrow> string \<Rightarrow> int \<Rightarrow> machine_rec \<Rightarrow> machine_rec" where
  "rejoined req proto key now m = m\<lparr> m_last_seen_ms := now, m_proto_version := int proto,
     m_tombstone_until_ms := None, m_name_key := Some req, m_daemon_key := Some key \<rparr>"

lemma rejoined_simps [simp]:
  "m_machine_id (rejoined req proto key now m) = m_machine_id m"
  "m_account_id (rejoined req proto key now m) = m_account_id m"
  "m_name (rejoined req proto key now m) = m_name m"
  "m_name_key (rejoined req proto key now m) = Some req"
  "m_tombstone_until_ms (rejoined req proto key now m) = None"
  by (simp_all add: rejoined_def)

lemma rec_ok_rejoined:
  "rec_ok m \<Longrightarrow> m_name m = req \<Longrightarrow> request_ok mid req proto key \<Longrightarrow> is_i64 now \<Longrightarrow>
     rec_ok (rejoined req proto key now m)"
  by (auto simp: rec_ok_def request_ok_def rejoined_def)

lemma claim_existing:
  assumes ms: "machines_ok ms" and m0: "find_machine mid ms = Some m0"
  shows "claim_locked acct mid req proto key now ms =
    (let ms' = updated mid (rejoined req proto key now) (map (release acct now) ms) in
     if m_name m0 \<noteq> req then Err (Rule (NameTaken (m_name m0)))
     else if unique_name_keys ms' then map_sum id (\<lambda>r. (r, ms')) (row_or_missing ms' mid)
     else Err DirSqlite)"
  using machines_ok_released [OF ms, of acct now] m0
  by (simp add: claim_locked_def released row_for_ok find_machine_released rejoin_def
      update_machine_updated Let_def rejoined_def [abs_def])

lemma machines_ok_rejoin:
  assumes ms: "machines_ok ms" and m0: "find_machine mid ms = Some m0" and nm: "m_name m0 = req"
    and req: "request_ok mid req proto key" and now: "is_i64 now"
    and u: "unique_name_keys (updated mid (rejoined req proto key now) (map (release acct now) ms))"
  shows "machines_ok (updated mid (rejoined req proto key now) (map (release acct now) ms))"
proof (rule update_machine_ok [OF machines_ok_released [OF ms]])
  show "update_machine mid (rejoined req proto key now) (map (release acct now) ms) =
      Ok (updated mid (rejoined req proto key now) (map (release acct now) ms))"
    using u by (simp add: update_machine_updated)
next
  fix m assume m: "m \<in> set (map (release acct now) ms)" "m_machine_id m = mid"
  have "m = release acct now m0"
    using m m0 machines_ok_released [OF ms, of acct now] find_machine_released [of mid acct now ms]
    by (metis find_machine_eq machines_ok_def option.inject option.simps(9))
  moreover have "rec_ok m" using m(1) ms by (auto simp: machines_ok_def rec_ok_release)
  ultimately show "rec_ok (rejoined req proto key now m)"
    using nm req now by (intro rec_ok_rejoined) auto
qed simp

lemma claim_locked_ok:
  assumes ms: "machines_ok ms" and req: "request_ok mid req proto key" and now: "is_i64 now"
    and claim: "claim_locked acct mid req proto key now ms = Ok (r, ms')"
  shows "machines_ok ms'"
proof (cases "find_machine mid ms")
  case None
  from claim obtain nm c where p: "pick_name (map (release acct now) ms) acct req mid now = Ok (nm, c)"
    and ms': "ms' = map (release acct now) ms @ [new_rec mid acct nm c proto key now]"
    unfolding claim_new [OF ms None req now] by (auto split: sum.splits)
  obtain k where k: "k \<le> 10000" "nm = candidate_name req k"
    and free: "name_is_free (map (release acct now) ms) acct nm mid now"
    using pick_loop_Ok [OF p [unfolded pick_name_def]] by (auto simp: candidate_name_def)
  have "rec_ok (new_rec mid acct nm c proto key now)"
    using req now k by (auto simp: rec_ok_new name_ok_candidate request_ok_def)
  then show ?thesis
    using machines_ok_released [OF ms, of acct now] None free_released_new [OF ms None free]
    unfolding ms' by (auto simp: machines_ok_def unique_name_keys_def find_machine_None comp_def)
next
  case (Some m0)
  let ?ms = "updated mid (rejoined req proto key now) (map (release acct now) ms)"
  from claim have "m_name m0 = req" "unique_name_keys ?ms" "ms' = ?ms"
    unfolding claim_existing [OF ms Some] Let_def by (auto split: if_splits sum.splits simp: map_sum_def)
  then show ?thesis using machines_ok_rejoin [OF ms Some _ req now] by simp
qed

lemma accounts_of_claim:
  assumes "machines_ok ms" and "request_ok mid req proto key" and "is_i64 now"
    and "claim_locked acct mid req proto key now ms = Ok (r, ms')"
  shows "m_account_id ` set ms' \<subseteq> insert acct (m_account_id ` set ms)"
proof (cases "find_machine mid ms")
  case None
  with assms(4) show ?thesis
    unfolding claim_new [OF assms(1) None assms(2,3)] by (auto split: sum.splits)
next
  case (Some m0)
  with assms(4) show ?thesis
    unfolding claim_existing [OF assms(1) Some] Let_def
    by (auto split: if_splits sum.splits simp: map_sum_def updated_def)
qed

lemma store_ok_machines:
  "store_ok s \<Longrightarrow> machines_ok ms \<Longrightarrow>
     (\<And>m. m \<in> set ms \<Longrightarrow> bt_get (st_account s) (m_account_id m) \<noteq> None) \<Longrightarrow> store_ok (s\<lparr>st_machine := ms\<rparr>)"
  by (simp add: store_ok_def)

lemma store_ok_join:
  assumes s: "store_ok s" and "request_ok mid req proto key" and "is_i64 now"
  shows "store_ok (snd (dir_join t mid req proto key now s))"
proof (cases "ticket_consume t now")
  case (Inr acct)
  show ?thesis
  proof (cases "bt_get (st_account s) acct = None \<or> (\<exists>e. claim_locked acct mid req proto key now (st_machine s) = Err e)")
    case True
    with Inr s show ?thesis by (auto simp: dir_join_def)
  next
    case False
    then obtain r ms where c: "claim_locked acct mid req proto key now (st_machine s) = Ok (r, ms)"
      by (cases "claim_locked acct mid req proto key now (st_machine s)") auto
    have "machines_ok (st_machine s)" using s by (simp add: store_ok_def)
    from claim_locked_ok [OF this assms(2,3) c] accounts_of_claim [OF this assms(2,3) c] False s
    have "store_ok (s\<lparr>st_machine := ms\<rparr>)"
      by (intro store_ok_machines) (fastforce simp: store_ok_def)+
    with c False Inr show ?thesis by (auto simp: dir_join_def)
  qed
qed (simp add: dir_join_def s)

text \<open>An update of one row that keeps its account and id.\<close>

lemma store_ok_update:
  assumes s: "store_ok s" and ms: "machines_ok ms" "m_account_id ` set ms \<subseteq> m_account_id ` set (st_machine s)"
    and up: "update_machine mid f ms = Ok ms'"
    and f: "\<And>m. m_machine_id (f m) = m_machine_id m" "\<And>m. m_account_id (f m) = m_account_id m"
    and rec: "\<And>m. m \<in> set ms \<Longrightarrow> m_machine_id m = mid \<Longrightarrow> rec_ok (f m)"
  shows "store_ok (s\<lparr>st_machine := ms'\<rparr>)"
proof (rule store_ok_machines [OF s])
  show "machines_ok ms'" by (rule update_machine_ok [OF ms(1) up f(1) rec])
next
  fix m assume "m \<in> set ms'"
  then have "m_account_id m \<in> m_account_id ` set ms"
    using up f(2) by (auto simp: update_machine_updated updated_def split: if_splits)
  with ms(2) s show "bt_get (st_account s) (m_account_id m) \<noteq> None"
    by (auto simp: store_ok_def)
qed

lemma store_ok_update_same:
  assumes s: "store_ok s"
    and f: "\<And>m. m_machine_id (f m) = m_machine_id m" "\<And>m. m_account_id (f m) = m_account_id m"
      "\<And>m. m_name_key (f m) = m_name_key m" "\<And>m. rec_ok m \<Longrightarrow> rec_ok (f m)"
  shows "store_ok (s\<lparr>st_machine := updated mid f (st_machine s)\<rparr>)"
proof -
  have ms: "machines_ok (st_machine s)" using s by (simp add: store_ok_def)
  then have up: "update_machine mid f (st_machine s) = Ok (updated mid f (st_machine s))"
    using f by (intro update_machine_same_keys) (simp_all add: machines_ok_def)
  show ?thesis
    by (rule store_ok_update [OF s ms subset_refl up]) (use ms f in \<open>auto simp: machines_ok_def\<close>)
qed

lemma store_ok_rename:
  assumes s: "store_ok s" and nm: "name_ok nm"
  shows "store_ok (snd (dir_rename mid nm now s))"
proof -
  let ?f = "\<lambda>m. m\<lparr> m_name := nm, m_name_key := Some nm, m_name_conflict := 0 \<rparr>"
  have ms: "machines_ok (st_machine s)" using s by (simp add: store_ok_def)
  have *: "store_ok (s\<lparr>st_machine := ms'\<rparr>)"
    if "update_machine mid ?f (map (release acct now) (st_machine s)) = Ok ms'" for acct ms'
  proof (rule store_ok_update [OF s machines_ok_released [OF ms] _ that])
    fix m assume "m \<in> set (map (release acct now) (st_machine s))"
    then have "rec_ok m" using ms by (auto simp: machines_ok_def rec_ok_release)
    with nm show "rec_ok (?f m)" by (simp add: rec_ok_def)
  qed auto
  then show ?thesis
    using s by (auto simp: dir_rename_def Let_def released split: option.splits sum.splits)
qed

lemma dir_remove_eq:
  assumes "machines_ok (st_machine s)"
  shows "dir_remove mid now s = (case find_machine mid (st_machine s) of
      None \<Rightarrow> (Err (Rule (NoSuchMachine mid)), s)
    | Some m \<Rightarrow> let f = m_tombstone_until_ms_update (\<lambda>_. Some (wrapping_add_i64 now (int TOMBSTONE_SECS * 1000))) in
        (Ok (row_view (f m) 0), s\<lparr>st_machine := updated mid f (st_machine s)\<rparr>))"
proof (cases "find_machine mid (st_machine s)")
  case None
  then show ?thesis using assms by (simp add: dir_remove_def row_for_ok)
next
  case (Some m)
  let ?f = "m_tombstone_until_ms_update (\<lambda>_. Some (wrapping_add_i64 now (int TOMBSTONE_SECS * 1000)))"
  have up: "update_machine mid ?f (st_machine s) = Ok (updated mid ?f (st_machine s))"
    using assms by (intro update_machine_same_keys) (simp_all add: machines_ok_def)
  then have "machines_ok (updated mid ?f (st_machine s))"
    using assms by (intro update_machine_ok [OF assms up])
      (auto simp: machines_ok_def rec_ok_def is_i64_wrapping_add)
  with up Some assms find_machine_Some [OF Some] show ?thesis
    by (simp add: dir_remove_def row_for_ok Let_def row_or_missing_ok find_machine_updated)
qed

lemma store_ok_remove: "store_ok s \<Longrightarrow> store_ok (snd (dir_remove mid now s))"
proof -
  assume s: "store_ok s"
  then have ms: "machines_ok (st_machine s)" by (simp add: store_ok_def)
  show ?thesis
    using s by (auto simp: dir_remove_eq [OF ms] Let_def split: option.split intro!: store_ok_update_same)
      (auto simp: rec_ok_def is_i64_wrapping_add)
qed

lemma dir_heartbeat_eq:
  assumes "machines_ok (st_machine s)"
  shows "dir_heartbeat mid now s =
    ((if find_machine mid (st_machine s) = None then Err (Rule (NoSuchMachine mid)) else Ok ()),
     s\<lparr>st_machine := updated mid (m_last_seen_ms_update (\<lambda>_. now)) (st_machine s)\<rparr>)"
  using update_machine_same_keys [of "st_machine s" "m_last_seen_ms_update (\<lambda>_. now)" mid] assms
  by (simp add: dir_heartbeat_def machines_ok_def)

lemma store_ok_heartbeat: "store_ok s \<Longrightarrow> is_i64 now \<Longrightarrow> store_ok (snd (dir_heartbeat mid now s))"
proof -
  assume s: "store_ok s" and now: "is_i64 now"
  then have ms: "machines_ok (st_machine s)" by (simp add: store_ok_def)
  show ?thesis
    unfolding dir_heartbeat_eq [OF ms] snd_conv
    by (rule store_ok_update_same [OF s]) (use now in \<open>simp_all add: rec_ok_def\<close>)
qed

lemma store_ok_remove_all: "store_ok s \<Longrightarrow> store_ok (snd (remove_all mids now s))"
proof (induction mids arbitrary: s)
  case (Cons mid mids)
  from store_ok_remove [OF Cons.prems, of mid now] Cons.IH show ?case
    by (cases "dir_remove mid now s") (auto split: sum.splits)
qed simp

lemma store_ok_remove_stale: "store_ok s \<Longrightarrow> store_ok (snd (dir_remove_stale acct now s))"
  using store_ok_remove_all [of s _ now]
  by (auto simp: dir_remove_stale_def Let_def split: sum.splits prod.splits)
    (metis snd_conv)+

lemma store_ok_account: "store_ok s \<Longrightarrow> store_ok (create_account acct root now s)"
  by (auto simp: store_ok_def create_account_def set_account_root_def bt_get_insert bt_inv_insert)

lemma store_ok_touch: "store_ok s \<Longrightarrow> store_ok (touch_device acct dev now s)"
  by (simp add: store_ok_def touch_device_def btree_simps)

end
