(* ===== verification/Relay_Directory_Properties.thy ===== *)
theory Relay_Directory_Properties
  imports Relay_Directory_Facts
begin

text \<open>
  What the machine directory promises over any sequence of requests: names are unique and well formed,
  a newcomer gets the first free candidate, a removed name is held for its machine, pruning takes exactly
  the stale machines; and two ways a join goes wrong.
\<close>

section \<open>Sequences of requests\<close>

datatype dir_op =
    OpAccount string verifying_key
  | OpTouch string string
  | OpJoin join_ticket machine_id name nat string
  | OpRename machine_id name
  | OpRemove machine_id
  | OpHeartbeat machine_id
  | OpRemoveStale string

fun dir_exec :: "dir_op \<Rightarrow> int \<Rightarrow> relay_store \<Rightarrow> relay_store" where
  "dir_exec (OpAccount acct root) now s = create_account acct root now s"
| "dir_exec (OpTouch acct dev) now s = touch_device acct dev now s"
| "dir_exec (OpJoin t mid req proto key) now s = snd (dir_join t mid req proto key now s)"
| "dir_exec (OpRename mid nm) now s = snd (dir_rename mid nm now s)"
| "dir_exec (OpRemove mid) now s = snd (dir_remove mid now s)"
| "dir_exec (OpHeartbeat mid) now s = snd (dir_heartbeat mid now s)"
| "dir_exec (OpRemoveStale acct) now s = snd (dir_remove_stale acct now s)"

text \<open>The arguments have their Rust types: a \<open>Name\<close>, a \<open>MachineId\<close>, a \<open>u32\<close>, a key in hexadecimal, an \<open>i64\<close>.\<close>

fun op_typed :: "dir_op \<Rightarrow> bool" where
  "op_typed (OpJoin t mid req proto key) \<longleftrightarrow> request_ok mid req proto key"
| "op_typed (OpRename mid nm) \<longleftrightarrow> name_ok nm"
| "op_typed _ \<longleftrightarrow> True"

inductive dir_step :: "relay_store \<Rightarrow> dir_op \<times> int \<Rightarrow> relay_store \<Rightarrow> bool" where
  "op_typed p \<Longrightarrow> is_i64 now \<Longrightarrow> dir_step s (p, now) (dir_exec p now s)"

inductive_simps dir_step_iff: "dir_step s (p, now) s'"

lemma store_ok_exec: "store_ok s \<Longrightarrow> op_typed p \<Longrightarrow> is_i64 now \<Longrightarrow> store_ok (dir_exec p now s)"
  by (cases p) (simp_all add: store_ok_account store_ok_touch store_ok_join store_ok_rename store_ok_remove
      store_ok_heartbeat store_ok_remove_stale)

interpretation dirs: guarded_system dir_step store_ok
proof
  fix s s' :: relay_store and l :: "dir_op \<times> int"
  assume "store_ok s" and "dir_step s l s'"
  then show "store_ok s'" by (cases l) (auto simp: dir_step_iff store_ok_exec)
qed

definition empty_store :: relay_store where
  "empty_store = \<lparr> st_account = [], st_machine = [], st_device = [] \<rparr>"

lemma store_ok_empty: "store_ok empty_store"
  by (simp add: store_ok_def empty_store_def machines_ok_def unique_name_keys_def)

lemma export_parses:
  assumes "store_ok s"
  shows "\<exists>rows text. dir_list s acct now = Ok rows \<and> dir_export s acct now = Ok text \<and>
    parse_export text = Some (sort_key mr_machine_id rows)"
proof -
  have ms: "machines_ok (st_machine s)" using assms by (simp add: store_ok_def)
  define rows where "rows = map (\<lambda>m. row_view m now)
    (sort_key m_name_key (filter (\<lambda>m. m_account_id m = acct) (st_machine s)))"
  have "\<forall>r \<in> set (sort_key mr_machine_id rows). row_ok r"
    using ms by (auto simp: rows_def machines_ok_def row_ok_view)
  from parse_lines_export [OF this] show ?thesis
    by (intro exI [of _ rows] exI [of _ "export_rows rows"])
      (simp add: dir_export_def dir_list_ok [OF ms] parse_export_def export_rows_def flip: rows_def)
qed

text \<open>
  C16. Whatever sequence of requests reaches an empty directory, machine ids and the live names of an
  account are unique, every stored id and name satisfies the rule its type promises, every listing
  succeeds, and the exported text parses back to the listed rows in the order of their ids.
\<close>

theorem directory_stays_typed:
  assumes "trace dir_step empty_store ls s"
  shows "distinct (map m_machine_id (st_machine s)) \<and>
    (\<forall>m \<in> set (st_machine s). \<forall>m' \<in> set (st_machine s). m_account_id m = m_account_id m' \<longrightarrow>
       m_name_key m \<noteq> None \<longrightarrow> m_name_key m = m_name_key m' \<longrightarrow> m = m') \<and>
    (\<forall>m \<in> set (st_machine s). machine_id_parse (m_machine_id m) = Ok (m_machine_id m) \<and>
       name_parse (m_name m) = Ok (m_name m) \<and> m_name_key m \<in> {None, Some (m_name m)}) \<and>
    (\<forall>acct now. \<exists>rows text. dir_list s acct now = Ok rows \<and> dir_export s acct now = Ok text \<and>
       parse_export text = Some (sort_key mr_machine_id rows))"
proof -
  have s: "store_ok s" by (rule dirs.trace_inv [OF assms store_ok_empty])
  then have ms: "machines_ok (st_machine s)" by (simp add: store_ok_def)
  have u: "m = m'" if "m \<in> set (st_machine s)" "m' \<in> set (st_machine s)" "m_account_id m = m_account_id m'"
    "m_name_key m \<noteq> None" "m_name_key m = m_name_key m'" for m m'
    using ms that unique_keys_holder [of "st_machine s" m m'] by (auto simp: machines_ok_def)
  have t: "machine_id_parse (m_machine_id m) = Ok (m_machine_id m) \<and> name_parse (m_name m) = Ok (m_name m) \<and>
      m_name_key m \<in> {None, Some (m_name m)}" if "m \<in> set (st_machine s)" for m
    using ms that by (auto simp: machines_ok_def rec_ok_def machine_id_parse_canonical name_parse_ok)
  show ?thesis
    using ms u t export_parses [OF s] by (intro conjI ballI allI impI) (auto simp: machines_ok_def)
qed

definition demo_machine :: "char \<Rightarrow> machine_id" where
  "demo_machine c = replicate 32 c"

definition demo_join :: "string \<Rightarrow> char \<Rightarrow> string \<Rightarrow> dir_op" where
  "demo_join acct c nm = OpJoin (ticket_issue acct 0) (demo_machine c) nm 3 ''ab''"

lemma demo_join_typed: "is_ascii_digit c \<Longrightarrow> name_ok nm \<Longrightarrow> op_typed (demo_join acct c nm)"
  by (auto simp: demo_join_def request_ok_def demo_machine_def canonical_id_def is_ascii_hexdigit_def
      is_ascii_digit_def ascii_lower_def chcode_def)

definition demo_store :: relay_store where
  "demo_store = dir_exec (demo_join ''acct'' (CHR ''2'') ''box'') 2
     (dir_exec (demo_join ''acct'' (CHR ''1'') ''box'') 1 (dir_exec (OpAccount ''acct'' [7]) 0 empty_store))"

lemma demo_trace:
  "trace dir_step empty_store
     [(OpAccount ''acct'' [7], 0), (demo_join ''acct'' (CHR ''1'') ''box'', 1), (demo_join ''acct'' (CHR ''2'') ''box'', 2)]
     demo_store"
proof -
  have "name_ok ''box''"
    by (simp add: name_ok_def name_char_def is_ascii_lowercase_def chcode_def)
  then have "op_typed (demo_join ''acct'' (CHR ''1'') ''box'')" "op_typed (demo_join ''acct'' (CHR ''2'') ''box'')"
    by (auto intro!: demo_join_typed simp: is_ascii_digit_def chcode_def)
  moreover have "is_i64 0" "is_i64 1" "is_i64 2" by (simp_all add: is_i64_bounds)
  ultimately show ?thesis
    unfolding trace_Cons_iff trace_Nil_iff dir_step_iff demo_store_def by auto
qed

theorem directory_stays_typed_witness:
  "trace dir_step empty_store
     [(OpAccount ''acct'' [7], 0), (demo_join ''acct'' (CHR ''1'') ''box'', 1), (demo_join ''acct'' (CHR ''2'') ''box'', 2)]
     demo_store \<and>
   (\<exists>rows text. dir_list demo_store ''acct'' 9 = Ok rows \<and> dir_export demo_store ''acct'' 9 = Ok text \<and>
       parse_export text = Some (sort_key mr_machine_id rows))"
  using demo_trace directory_stays_typed [OF demo_trace] by blast

section \<open>Claiming\<close>



lemma dir_resolve_eq:
  assumes "machines_ok (st_machine s)"
  shows "dir_resolve s acct nm = Ok (map_option m_machine_id (holder_of (st_machine s) acct nm))"
  using assms by (auto simp: dir_resolve_def machines_ok_def rec_ok_def machine_id_parse_canonical
      dest: holder_of_Some split: option.splits)



definition demo_one :: relay_store where
  "demo_one = dir_exec (demo_join ''acct'' (CHR ''1'') ''box'') 1 (dir_exec (OpAccount ''acct'' [7]) 0 empty_store)"

lemma demo_one_eq:
  "demo_one = \<lparr> st_account = [(''acct'', \<lparr> ac_created_at_ms = 0, ac_root_key = Some ''07'' \<rparr>)],
     st_machine = [new_rec (demo_machine (CHR ''1'')) ''acct'' ''box'' False 3 ''ab'' 1], st_device = [] \<rparr>"
proof -
  let ?s = "dir_exec (OpAccount ''acct'' [7]) 0 empty_store"
  have a: "?s = \<lparr> st_account = [(''acct'', \<lparr> ac_created_at_ms = 0, ac_root_key = Some ''07'' \<rparr>)],
      st_machine = [], st_device = [] \<rparr>"
  proof -
    have "fmt_02x 7 = ''07''" by code_simp
    then show ?thesis by (simp add: create_account_def set_account_root_def empty_store_def)
  qed
  have r: "request_ok (demo_machine (CHR ''1'')) ''box'' 3 ''ab''"
    using demo_trace by (auto simp: trace_Cons_iff dir_step_iff demo_join_def)
  have "pick_name [] ''acct'' ''box'' (demo_machine (CHR ''1'')) 1 = Ok (''box'', False)"
    by (simp add: pick_name_def pick_loop.simps name_is_free_def holder_of_def)
  then have "claim_locked ''acct'' (demo_machine (CHR ''1'')) ''box'' 3 ''ab'' 1 [] =
      Ok (row_view (new_rec (demo_machine (CHR ''1'')) ''acct'' ''box'' False 3 ''ab'' 1) 0,
          [new_rec (demo_machine (CHR ''1'')) ''acct'' ''box'' False 3 ''ab'' 1])"
    using claim_new [OF _ _ r, of "[]" 1 "''acct''"]
    by (simp add: machines_ok_def unique_name_keys_def find_machine_def is_i64_bounds)
  then show ?thesis
    unfolding demo_one_def demo_join_def dir_exec.simps(3) a
    by (simp add: dir_join_def ticket_consume_def ticket_issue_def wrapping_add_i64_def JOIN_TICKET_SECS_def)
qed

lemma store_ok_demo_one: "store_ok demo_one"
  unfolding demo_one_def
  by (intro store_ok_exec store_ok_empty)
    (use demo_trace in \<open>auto simp: trace_Cons_iff dir_step_iff\<close>)


section \<open>Removed names\<close>

definition tombstone_ms :: int where
  "tombstone_ms = int TOMBSTONE_SECS * 1000"

definition keeps_name :: "machine_id \<Rightarrow> string \<Rightarrow> name \<Rightarrow> int \<Rightarrow> machine_rec \<Rightarrow> bool" where
  "keeps_name mid acct nm until m \<longleftrightarrow> m_machine_id m = mid \<and> m_account_id m = acct \<and> m_name m = nm
     \<and> m_name_key m = Some nm \<and> (\<forall>t. m_tombstone_until_ms m = Some t \<longrightarrow> until \<le> t)"

lemma keeps_release: "keeps_name mid acct nm until m \<Longrightarrow> now < until \<Longrightarrow> release a now m = m"
  by (auto simp: keeps_name_def release_def expired_def split: option.splits)

lemma keeps_released:
  "keeps_name mid acct nm until m \<Longrightarrow> now < until \<Longrightarrow> m \<in> set ms \<Longrightarrow> m \<in> set (map (release a now) ms)"
  by (metis keeps_release image_eqI set_map)

lemma keeps_updated:
  assumes "m \<in> set ms" and "keeps_name mid acct nm until m"
    and "mid' = mid \<Longrightarrow> keeps_name mid acct nm until (f m)"
  shows "\<exists>m' \<in> set (updated mid' f ms). keeps_name mid acct nm until m'"
proof (cases "mid' = mid")
  case True
  then have "f m \<in> set (updated mid' f ms)" using assms(1,2) by (auto simp: updated_def keeps_name_def)
  with True assms(3) show ?thesis by blast
next
  case False
  then have "m \<in> set (updated mid' f ms)" using assms(1,2) by (auto simp: updated_def keeps_name_def)
  with assms(2) show ?thesis by blast
qed

lemma wrapping_add_small: "0 \<le> a \<Longrightarrow> 0 \<le> b \<Longrightarrow> a + b < 2 ^ 63 \<Longrightarrow> wrapping_add_i64 a b = a + b"
  by (simp add: wrapping_add_i64_def)

lemma keeps_remove:
  assumes s: "store_ok s" and m: "m \<in> set (st_machine s)" "keeps_name mid acct nm (t0 + tombstone_ms) m"
    and t: "0 \<le> t0" "t0 \<le> now" "now < 2 ^ 62"
  shows "\<exists>m' \<in> set (st_machine (snd (dir_remove mid' now s))). keeps_name mid acct nm (t0 + tombstone_ms) m'"
proof -
  have ms: "machines_ok (st_machine s)" using s by (simp add: store_ok_def)
  have "wrapping_add_i64 now tombstone_ms = now + tombstone_ms"
    using t by (intro wrapping_add_small) (simp_all add: tombstone_ms_def TOMBSTONE_SECS_def)
  then have k: "keeps_name mid acct nm (t0 + tombstone_ms)
      (m_tombstone_until_ms_update (\<lambda>_. Some (wrapping_add_i64 now (int TOMBSTONE_SECS * 1000))) m)"
    using m(2) t by (simp add: keeps_name_def tombstone_ms_def)
  show ?thesis
    using m keeps_updated [OF m, of mid' "m_tombstone_until_ms_update (\<lambda>_. Some (wrapping_add_i64 now (int TOMBSTONE_SECS * 1000)))"] k
    by (auto simp: dir_remove_eq [OF ms] Let_def split: option.splits)
qed

lemma keeps_remove_all:
  assumes "store_ok s" and "m \<in> set (st_machine s)" "keeps_name mid acct nm (t0 + tombstone_ms) m"
    and t: "0 \<le> t0" "t0 \<le> now" "now < 2 ^ 62"
  shows "\<exists>m' \<in> set (st_machine (snd (remove_all mids now s))). keeps_name mid acct nm (t0 + tombstone_ms) m'"
  using assms(1-3)
proof (induction mids arbitrary: s m)
  case (Cons x mids)
  obtain r s' where r: "dir_remove x now s = (r, s')" by force
  obtain m' where "m' \<in> set (st_machine s')" "keeps_name mid acct nm (t0 + tombstone_ms) m'"
    using keeps_remove [OF Cons.prems t, of x] r by auto
  moreover have "store_ok s'" using store_ok_remove [OF Cons.prems(1), of x now] r by simp
  ultimately show ?case using Cons.IH r by (cases r) auto
qed auto

lemma keeps_join:
  assumes s: "store_ok s" and m: "m \<in> set (st_machine s)" "keeps_name mid acct nm until m" and now: "now < until"
    and req: "request_ok mid' req proto key" "is_i64 now"
  shows "\<exists>m' \<in> set (st_machine (snd (dir_join t mid' req proto key now s))). keeps_name mid acct nm until m'"
proof (cases "\<exists>a r ms. ticket_consume t now = Ok a \<and> claim_locked a mid' req proto key now (st_machine s) = Ok (r, ms)
    \<and> bt_get (st_account s) a \<noteq> None")
  case False
  then have "snd (dir_join t mid' req proto key now s) = s"
    by (auto simp: dir_join_def split: sum.splits)
  with m show ?thesis by auto
next
  case True
  then obtain a r ms where a: "ticket_consume t now = Ok a" "bt_get (st_account s) a \<noteq> None"
    and c: "claim_locked a mid' req proto key now (st_machine s) = Ok (r, ms)" by blast
  have ok: "machines_ok (st_machine s)" using s by (simp add: store_ok_def)
  have "\<exists>m' \<in> set ms. keeps_name mid acct nm until m'"
  proof (cases "find_machine mid' (st_machine s)")
    case None
    with c have "set (map (release a now) (st_machine s)) \<subseteq> set ms"
      unfolding claim_new [OF ok None req] by (auto split: sum.splits)
    with keeps_released [OF m(2) now m(1)] m(2) show ?thesis by blast
  next
    case (Some m0)
    with c have ms: "ms = updated mid' (rejoined req proto key now) (map (release a now) (st_machine s))"
      and nm0: "m_name m0 = req"
      unfolding claim_existing [OF ok Some] Let_def by (auto split: if_splits sum.splits simp: map_sum_def)
    have "keeps_name mid acct nm until (rejoined req proto key now m)" if "mid' = mid"
    proof -
      have "distinct (map m_machine_id (st_machine s))" using ok by (simp add: machines_ok_def)
      then have "find_machine mid' (st_machine s) = Some m"
        using m that by (simp add: find_machine_eq keeps_name_def)
      with Some have "m0 = m" by simp
      with m(2) nm0 show ?thesis by (simp add: keeps_name_def)
    qed
    then show ?thesis
      unfolding ms by (rule keeps_updated [OF keeps_released [OF m(2) now m(1)] m(2)])
  qed
  with a c show ?thesis by (auto simp: dir_join_def)
qed

lemma keeps_rename:
  assumes m: "m \<in> set (st_machine s)" "keeps_name mid acct nm until m" and now: "now < until" and ne: "mid' \<noteq> mid"
  shows "\<exists>m' \<in> set (st_machine (snd (dir_rename mid' nm' now s))). keeps_name mid acct nm until m'"
proof (cases "find_machine mid' (st_machine s)")
  case None
  with m show ?thesis by (auto simp: dir_rename_def)
next
  case (Some m0)
  from keeps_updated [OF keeps_released [OF m(2) now m(1), of "m_account_id m0"] m(2), of mid'] ne m Some
  show ?thesis
    by (auto simp: dir_rename_def Let_def released update_machine_updated split: sum.splits)
qed

fun renames :: "machine_id \<Rightarrow> dir_op \<Rightarrow> bool" where
  "renames mid (OpRename mid' nm) \<longleftrightarrow> mid' = mid"
| "renames mid _ \<longleftrightarrow> False"

lemma keeps_step:
  assumes s: "store_ok s" and m: "m \<in> set (st_machine s)" "keeps_name mid acct nm (t0 + tombstone_ms) m"
    and step: "dir_step s (p, now) s'" and p: "\<not> renames mid p"
    and t: "0 \<le> t0" "t0 \<le> now" "now < t0 + tombstone_ms" "t0 < 2 ^ 61"
  shows "\<exists>m' \<in> set (st_machine s'). keeps_name mid acct nm (t0 + tombstone_ms) m'"
proof -
  have p': "op_typed p" "is_i64 now" "s' = dir_exec p now s"
    using step by (auto simp: dir_step_iff)
  have ms: "machines_ok (st_machine s)" using s by (simp add: store_ok_def)
  have big: "now < 2 ^ 62" using t by (simp add: tombstone_ms_def TOMBSTONE_SECS_def)
  show ?thesis
  proof (cases p)
    case (OpJoin t' mid' req proto key)
    with p' m t keeps_join [OF s m] show ?thesis by simp
  next
    case (OpRename mid' nm')
    with p p' keeps_rename [OF m, of now mid'] t show ?thesis by simp
  next
    case (OpRemove mid')
    with p' keeps_remove [OF s m t(1,2) big] show ?thesis by simp
  next
    case (OpHeartbeat mid')
    then show ?thesis
      using p' m keeps_updated [OF m, of mid' "m_last_seen_ms_update (\<lambda>_. now)"]
      by (simp add: dir_heartbeat_eq [OF ms] keeps_name_def)
  next
    case (OpRemoveStale a)
    with p' m keeps_remove_all [OF s m t(1,2) big] show ?thesis
      by (auto simp: dir_remove_stale_def Let_def split: sum.splits prod.splits) (metis snd_conv)+
  qed (use p' m in \<open>auto simp: create_account_def set_account_root_def touch_device_def\<close>)
qed

text \<open>
  C8. Once a machine is removed, its name is held for it: for the thirty days of the tombstone, whatever
  the other machines and operators of any account request, and however the machine itself returns, the
  name keeps resolving to that machine and to no other, until the machine itself is renamed.
\<close>

theorem removed_name_is_held:
  assumes s: "store_ok s" and m: "m \<in> set (st_machine s)" "m_name_key m = Some nm"
    and removed: "dir_remove (m_machine_id m) t0 s = (Ok row, s1)" and t0: "0 \<le> t0" "t0 < 2 ^ 61"
    and trace: "trace dir_step s1 ls s2"
    and times: "\<forall>(p, now) \<in> set ls. t0 \<le> now \<and> now < t0 + tombstone_ms \<and> \<not> renames (m_machine_id m) p"
  shows "dir_resolve s2 (m_account_id m) nm = Ok (Some (m_machine_id m))"
proof -
  let ?P = "\<lambda>s. \<exists>m' \<in> set (st_machine s). keeps_name (m_machine_id m) (m_account_id m) nm (t0 + tombstone_ms) m'"
  have ms: "machines_ok (st_machine s)" using s by (simp add: store_ok_def)
  let ?f = "m_tombstone_until_ms_update (\<lambda>_. Some (wrapping_add_i64 t0 (int TOMBSTONE_SECS * 1000)))"
  have find: "find_machine (m_machine_id m) (st_machine s) = Some m"
    using ms m by (simp add: find_machine_eq machines_ok_def)
  have s1: "s1 = s\<lparr>st_machine := updated (m_machine_id m) ?f (st_machine s)\<rparr>"
    using removed find by (simp add: dir_remove_eq [OF ms] Let_def)
  have "wrapping_add_i64 t0 tombstone_ms = t0 + tombstone_ms"
    using t0 by (intro wrapping_add_small) (simp_all add: tombstone_ms_def TOMBSTONE_SECS_def)
  moreover have "m_name m = nm" using ms m by (auto simp: machines_ok_def rec_ok_def)
  ultimately have "keeps_name (m_machine_id m) (m_account_id m) nm (t0 + tombstone_ms) (?f m)"
    using m by (simp add: keeps_name_def tombstone_ms_def)
  moreover have "?f m \<in> set (st_machine s1)" using m(1) by (auto simp: s1 updated_def)
  ultimately have "?P s1" by blast
  moreover have "store_ok s1" using store_ok_remove [OF s, of "m_machine_id m" t0] removed by simp
  ultimately have "?P s2 \<and> (\<forall>l \<in> set ls. True)"
  proof (intro dirs.trace_all [OF trace _ _ times, where P = ?P])
    fix s l s' assume h: "store_ok s" "?P s"
      "case l of (p, now) \<Rightarrow> t0 \<le> now \<and> now < t0 + tombstone_ms \<and> \<not> renames (m_machine_id m) p" "dir_step s l s'"
    then show "?P s' \<and> True" using t0 by (cases l) (auto intro: keeps_step)
  qed
  moreover have "store_ok s2" by (rule dirs.trace_inv [OF trace \<open>store_ok s1\<close>])
  ultimately show ?thesis
    by (auto simp: dir_resolve_eq store_ok_def holder_of_eq machines_ok_def keeps_name_def)
qed

lemma demo_two_kept:
  "trace dir_step (snd (dir_remove (demo_machine (CHR ''1'')) 10 demo_one)) [(demo_join ''acct'' (CHR ''2'') ''box'', 20)]
     (dir_exec (demo_join ''acct'' (CHR ''2'') ''box'') 20 (snd (dir_remove (demo_machine (CHR ''1'')) 10 demo_one)))"
  using demo_trace by (auto simp: trace_Cons_iff dir_step_iff is_i64_bounds)

theorem removed_name_is_held_witness:
  "dir_resolve (dir_exec (demo_join ''acct'' (CHR ''2'') ''box'') 20
     (snd (dir_remove (demo_machine (CHR ''1'')) 10 demo_one))) ''acct'' ''box'' = Ok (Some (demo_machine (CHR ''1'')))"
proof -
  let ?m = "new_rec (demo_machine (CHR ''1'')) ''acct'' ''box'' False 3 ''ab'' 1"
  have ms: "machines_ok (st_machine demo_one)" using store_ok_demo_one by (simp add: store_ok_def)
  obtain row where "dir_remove (m_machine_id ?m) 10 demo_one = (Ok row, snd (dir_remove (m_machine_id ?m) 10 demo_one))"
    using dir_remove_eq [OF ms, of "demo_machine (CHR ''1'')" 10] by (simp add: demo_one_eq find_machine_def Let_def)
  then show ?thesis
    using removed_name_is_held [OF store_ok_demo_one _ _ _ _ _ demo_two_kept, of ?m "''box''" 10 row]
    by (simp add: demo_one_eq tombstone_ms_def TOMBSTONE_SECS_def demo_join_def)
qed

section \<open>Pruning\<close>

lemma presence_stale_iff:
  assumes "is_i64 seen" and "is_i64 now"
  shows "presence_of seen now = Stale \<longleftrightarrow> seen + 2592001000 \<le> now"
proof -
  define age where "age = max (saturating_sub_i64 now seen) 0"
  have "presence_of seen now = Stale \<longleftrightarrow> 2592000 < age div 1000"
    by (simp add: presence_of_def Let_def STALE_AFTER_SECS_def ONLINE_WINDOW_SECS_def age_def)
  also have "\<dots> \<longleftrightarrow> 2592001000 \<le> age"
    by linarith
  also have "\<dots> \<longleftrightarrow> seen + 2592001000 \<le> now"
    using assms by (simp add: age_def saturating_sub_i64_def is_i64_bounds i64_min_def i64_max_def le_max_iff_disj)
      linarith
  finally show ?thesis .
qed

lemma updated_updated:
  assumes "\<And>m. m_machine_id (f m) = m_machine_id m"
  shows "map (\<lambda>m. if m_machine_id m \<in> A then f m else m) (updated x f ms) =
    map (\<lambda>m. if m_machine_id m = x then (if x \<in> A then f (f m) else f m)
             else if m_machine_id m \<in> A then f m else m) ms"
  using assms by (auto simp: updated_def)

lemma remove_all_eq:
  assumes "store_ok s" and "\<forall>x \<in> set mids. find_machine x (st_machine s) \<noteq> None"
  shows "remove_all mids now s = (Ok (), s\<lparr>st_machine := map (\<lambda>m. if m_machine_id m \<in> set mids
     then m\<lparr>m_tombstone_until_ms := Some (wrapping_add_i64 now (int TOMBSTONE_SECS * 1000))\<rparr> else m) (st_machine s)\<rparr>)"
  using assms
proof (induction mids arbitrary: s)
  case (Cons x mids)
  let ?f = "m_tombstone_until_ms_update (\<lambda>_. Some (wrapping_add_i64 now (int TOMBSTONE_SECS * 1000)))"
  let ?s = "s\<lparr>st_machine := updated x ?f (st_machine s)\<rparr>"
  have ms: "machines_ok (st_machine s)" using Cons.prems by (simp add: store_ok_def)
  obtain r where r: "dir_remove x now s = (Ok r, ?s)"
    using Cons.prems(2) by (auto simp: dir_remove_eq [OF ms] Let_def)
  have "store_ok ?s" using store_ok_remove [OF Cons.prems(1), of x now] r by simp
  moreover have "\<forall>y \<in> set mids. find_machine y (st_machine ?s) \<noteq> None"
    using Cons.prems(2) by (auto simp: find_machine_updated)
  ultimately have "remove_all mids now ?s = (Ok (), ?s\<lparr>st_machine := map (\<lambda>m. if m_machine_id m \<in> set mids
      then ?f m else m) (st_machine ?s)\<rparr>)"
    by (rule Cons.IH)
  then have "remove_all (x # mids) now s = (Ok (), s\<lparr>st_machine := map (\<lambda>m. if m_machine_id m \<in> set mids
      then ?f m else m) (updated x ?f (st_machine s))\<rparr>)"
    by (simp add: r)
  also have "map (\<lambda>m. if m_machine_id m \<in> set mids then ?f m else m) (updated x ?f (st_machine s)) =
      map (\<lambda>m. if m_machine_id m \<in> set (x # mids) then ?f m else m) (st_machine s)"
    unfolding updated_def by simp
  finally show ?case .
qed simp

definition prunable :: "string \<Rightarrow> int \<Rightarrow> machine_rec \<Rightarrow> bool" where
  "prunable acct now m \<longleftrightarrow> m_account_id m = acct \<and> m_last_seen_ms m + 2592001000 \<le> now
     \<and> (\<forall>t. m_tombstone_until_ms m = Some t \<longrightarrow> t \<le> now)"

lemma stale_rows:
  assumes s: "store_ok s" and now: "is_i64 now"
  shows "\<exists>rows. dir_list s acct now = Ok rows \<and>
    set (map mr_machine_id (filter (\<lambda>r. mr_presence r = Stale \<and> \<not> tombstone_active r now) rows)) =
      m_machine_id ` {m \<in> set (st_machine s). prunable acct now m} \<and>
    ((\<forall>m \<in> set (st_machine s). \<not> prunable acct now m) \<longrightarrow>
       filter (\<lambda>r. mr_presence r = Stale \<and> \<not> tombstone_active r now) rows = [])"
proof -
  have ms: "machines_ok (st_machine s)" using s by (simp add: store_ok_def)
  have p: "(presence_of (m_last_seen_ms m) now = Stale \<and> \<not> tombstone_active (row_view m now) now) \<longleftrightarrow> prunable acct now m"
    if "m \<in> set (st_machine s)" "m_account_id m = acct" for m
    using ms that now presence_stale_iff [of "m_last_seen_ms m" now]
    by (auto simp: machines_ok_def rec_ok_def prunable_def tombstone_active_def split: option.splits)
  define rows where "rows = map (\<lambda>m. row_view m now) (sort_key m_name_key (filter (\<lambda>m. m_account_id m = acct) (st_machine s)))"
  have "dir_list s acct now = Ok rows" by (simp add: dir_list_ok [OF ms] rows_def)
  moreover have "filter (\<lambda>r. mr_presence r = Stale \<and> \<not> tombstone_active r now) rows =
      map (\<lambda>m. row_view m now) (filter (prunable acct now)
        (sort_key m_name_key (filter (\<lambda>m. m_account_id m = acct) (st_machine s))))"
    unfolding rows_def filter_map comp_def row_view_simps
    by (intro arg_cong [where f = "map _"] filter_cong refl p) auto
  moreover have "set (filter (prunable acct now) (sort_key m_name_key (filter (\<lambda>m. m_account_id m = acct) (st_machine s)))) =
      {m \<in> set (st_machine s). prunable acct now m}"
    by (auto simp: prunable_def)
  ultimately show ?thesis by (intro exI [of _ rows]) (simp add: image_image filter_empty_conv)
qed

text \<open>
  Pruning tombstones exactly the machines of the account that were last seen more than thirty days
  ago and have no running tombstone, for another thirty days, changes nothing else, and a second run at
  the same time finds nothing to do.
\<close>

theorem prune_takes_exactly_the_stale:
  assumes s: "store_ok s" and now: "0 \<le> now" "now < 2 ^ 62"
  shows "\<exists>mids s'. dir_remove_stale acct now s = (Ok mids, s') \<and>
    set mids = m_machine_id ` {m \<in> set (st_machine s). prunable acct now m} \<and>
    s' = s\<lparr>st_machine := map (\<lambda>m. if prunable acct now m
       then m\<lparr>m_tombstone_until_ms := Some (now + tombstone_ms)\<rparr> else m) (st_machine s)\<rparr> \<and>
    dir_remove_stale acct now s' = (Ok [], s')"
proof -
  have i: "is_i64 now" using now by (simp add: is_i64_bounds)
  have w: "wrapping_add_i64 now (int TOMBSTONE_SECS * 1000) = now + tombstone_ms"
    using now wrapping_add_small [of now "int TOMBSTONE_SECS * 1000"] by (simp add: tombstone_ms_def TOMBSTONE_SECS_def)
  have d: "distinct (map m_machine_id (st_machine s))" using s by (simp add: store_ok_def machines_ok_def)
  obtain rows where rows: "dir_list s acct now = Ok rows" and
    ids: "set (map mr_machine_id (filter (\<lambda>r. mr_presence r = Stale \<and> \<not> tombstone_active r now) rows)) =
      m_machine_id ` {m \<in> set (st_machine s). prunable acct now m}"
    using stale_rows [OF s i] by blast
  define mids where "mids = map mr_machine_id (filter (\<lambda>r. mr_presence r = Stale \<and> \<not> tombstone_active r now) rows)"
  let ?f = "\<lambda>m. m\<lparr>m_tombstone_until_ms := Some (now + tombstone_ms)\<rparr>"
  let ?s = "s\<lparr>st_machine := map (\<lambda>m. if prunable acct now m then ?f m else m) (st_machine s)\<rparr>"
  have mem: "m_machine_id m \<in> set mids \<longleftrightarrow> prunable acct now m" if "m \<in> set (st_machine s)" for m
    using that d ids by (auto simp: mids_def distinct_map inj_on_def)
  have "\<forall>x \<in> set mids. find_machine x (st_machine s) \<noteq> None"
    using ids by (auto simp: mids_def find_machine_None)
  from remove_all_eq [OF s this, of now] have ra: "remove_all mids now s = (Ok (), ?s)"
    unfolding w using mem by (simp cong: map_cong)
  have run: "dir_remove_stale acct now s = (Ok mids, ?s)"
    using rows ra by (simp add: dir_remove_stale_def Let_def mids_def)
  have "store_ok ?s" using store_ok_remove_stale [OF s, of acct now] run by simp
  moreover have "\<not> prunable acct now (?f m)" for m
    by (simp add: prunable_def tombstone_ms_def TOMBSTONE_SECS_def)
  then have "\<forall>m \<in> set (st_machine ?s). \<not> prunable acct now m" by auto
  ultimately obtain rows' where "dir_list ?s acct now = Ok rows'"
    "filter (\<lambda>r. mr_presence r = Stale \<and> \<not> tombstone_active r now) rows' = []"
    using stale_rows [OF _ i, of ?s acct] by blast
  then have "dir_remove_stale acct now ?s = (Ok [], ?s)"
    by (simp add: dir_remove_stale_def)
  with run ids [folded mids_def] show ?thesis by blast
qed

theorem prune_takes_exactly_the_stale_witness:
  "\<exists>mids s'. dir_remove_stale ''acct'' 5000000000 demo_one = (Ok mids, s') \<and> set mids = {demo_machine (CHR ''1'')} \<and>
     dir_remove_stale ''acct'' 5000000000 s' = (Ok [], s')"
proof -
  have "{m \<in> set (st_machine demo_one). prunable ''acct'' 5000000000 m} =
      {new_rec (demo_machine (CHR ''1'')) ''acct'' ''box'' False 3 ''ab'' 1}"
    by (auto simp: demo_one_eq prunable_def new_rec_def)
  then have ids: "m_machine_id ` {m \<in> set (st_machine demo_one). prunable ''acct'' 5000000000 m} = {demo_machine (CHR ''1'')}"
    by simp
  have "(0 :: int) \<le> 5000000000" "(5000000000 :: int) < 2 ^ 62" by simp_all
  from prune_takes_exactly_the_stale [OF store_ok_demo_one this, of "''acct''"] show ?thesis
    unfolding ids by blast
qed

section \<open>Joins that go wrong\<close>

lemma updated_clash:
  assumes "m0 \<in> set ms" and "m1 \<in> set ms" and "m_machine_id m1 \<noteq> m_machine_id m0"
    and "m_account_id (f m0) = m_account_id m1" and "m_name_key (f m0) = Some nm" and "m_name_key m1 = Some nm"
    and "m_machine_id (f m0) = m_machine_id m0"
  shows "\<not> unique_name_keys (updated (m_machine_id m0) f ms)"
proof
  assume u: "unique_name_keys (updated (m_machine_id m0) f ms)"
  have "f m0 \<in> set (updated (m_machine_id m0) f ms)" "m1 \<in> set (updated (m_machine_id m0) f ms)"
    using assms(1-3) by (auto simp: updated_def)
  from unique_keys_holder [OF u this, of nm] assms(3-7) show False by simp
qed

text \<open>
  A machine whose tombstone ran out and whose name another machine of the account took since can
  never join again under any name: its own name breaks the unique index, every other name is refused
  because the row keeps the old one, and the directory stays as it is.
\<close>

theorem reclaimed_name_locks_machine_out:
  assumes s: "store_ok s" and m0: "m0 \<in> set (st_machine s)" and m1: "m1 \<in> set (st_machine s)"
    and other: "m_machine_id m1 \<noteq> m_machine_id m0" "m_account_id m1 = m_account_id m0"
    and taken: "m_name_key m1 = Some (m_name m0)" "m_tombstone_until_ms m1 = None"
    and ticket: "ticket_consume t now = Ok (m_account_id m0)"
  shows "\<exists>e. dir_join t (m_machine_id m0) req proto key now s = (Err e, s)"
proof -
  let ?a = "m_account_id m0"
  have ms: "machines_ok (st_machine s)" using s by (simp add: store_ok_def)
  have find: "find_machine (m_machine_id m0) (st_machine s) = Some m0"
    using ms m0 by (simp add: find_machine_eq machines_ok_def)
  have acct: "bt_get (st_account s) ?a \<noteq> None" using s m0 by (simp add: store_ok_def)
  have "release ?a now m1 = m1" using taken by (simp add: release_def expired_def)
  then have "m1 \<in> set (map (release ?a now) (st_machine s))" using m1 by (metis image_eqI set_map)
  then have "\<not> unique_name_keys (updated (m_machine_id (release ?a now m0)) (rejoined req proto key now)
      (map (release ?a now) (st_machine s)))" if "m_name m0 = req"
    using m0 other taken that
    by (intro updated_clash [of "release ?a now m0" _ m1 _ req]) auto
  then have "\<exists>e. claim_locked ?a (m_machine_id m0) req proto key now (st_machine s) = Err e"
    unfolding claim_existing [OF ms find] Let_def by auto
  with ticket acct show ?thesis by (auto simp: dir_join_def)
qed

text \<open>The demo: machine 1 was removed and its tombstone ran out, machine 2 then took the name.\<close>

definition demo_lost :: relay_store where
  "demo_lost = demo_one\<lparr>st_machine :=
     [(new_rec (demo_machine (CHR ''1'')) ''acct'' ''box'' False 3 ''ab'' 1)\<lparr>m_name_key := None, m_tombstone_until_ms := Some 9\<rparr>,
      new_rec (demo_machine (CHR ''2'')) ''acct'' ''box'' False 3 ''ab'' 20]\<rparr>"

lemma demo_new_rec_ok: "is_ascii_digit c \<Longrightarrow> is_i64 t \<Longrightarrow> rec_ok (new_rec (demo_machine c) acct ''box'' b 3 ''ab'' t)"
  using demo_join_typed [of c "''box''" acct]
  by (intro rec_ok_new [where req = "''box''"])
    (auto simp: demo_join_def name_ok_def name_char_def is_ascii_lowercase_def chcode_def)

lemma store_ok_demo_lost: "store_ok demo_lost"
  using demo_new_rec_ok [of "CHR ''1''" 1 "''acct''" False] demo_new_rec_ok [of "CHR ''2''" 20 "''acct''" False] store_ok_demo_one
  by (auto simp: store_ok_def demo_lost_def demo_one_eq machines_ok_def unique_name_keys_def rec_ok_def
      is_ascii_digit_def chcode_def is_i64_bounds demo_machine_def)

theorem reclaimed_name_locks_machine_out_witness:
  "\<exists>e. dir_join (ticket_issue ''acct'' 0) (demo_machine (CHR ''1'')) ''box'' 3 ''ab'' 30 demo_lost = (Err e, demo_lost)"
proof -
  let ?m0 = "(new_rec (demo_machine (CHR ''1'')) ''acct'' ''box'' False 3 ''ab'' 1)\<lparr>m_name_key := None, m_tombstone_until_ms := Some 9\<rparr>"
  let ?m1 = "new_rec (demo_machine (CHR ''2'')) ''acct'' ''box'' False 3 ''ab'' 20"
  have "ticket_consume (ticket_issue ''acct'' 0) 30 = Ok (m_account_id ?m0)"
    by (simp add: ticket_consume_def ticket_issue_def wrapping_add_i64_def JOIN_TICKET_SECS_def)
  from reclaimed_name_locks_machine_out [OF store_ok_demo_lost, of ?m0 ?m1, OF _ _ _ _ _ _ this, of "''box''" 3 "''ab''"]
  show ?thesis by (simp add: demo_lost_def demo_machine_def)
qed

lemma updated_released_ids:
  "map m_machine_id (filter (\<lambda>m. m_account_id m = a) (updated mid (rejoined nm proto key now) (map (release a' now') ms))) =
     map m_machine_id (filter (\<lambda>m. m_account_id m = a) ms)"
  by (induction ms) (simp_all add: updated_def)

text \<open>
  The row of a joining machine is looked up by its id alone: a machine that has a row in one account
  and joins another one with a valid ticket and its own name is granted a row, but the row is the one of
  the first account, whose dial key and tombstone are overwritten, and the second account lists exactly
  the machines it listed before.
\<close>

theorem join_updates_row_of_other_account:
  assumes s: "store_ok s" and m0: "m0 \<in> set (st_machine s)" and live: "m_name_key m0 = Some (m_name m0)"
    and acct: "m_account_id m0 \<noteq> acct" "bt_get (st_account s) acct \<noteq> None"
    and req: "request_ok (m_machine_id m0) (m_name m0) proto key" "is_i64 now"
    and ticket: "ticket_consume t now = Ok acct"
  shows "\<exists>row s'. dir_join t (m_machine_id m0) (m_name m0) proto key now s = (Ok row, s') \<and>
    rejoined (m_name m0) proto key now m0 \<in> set (st_machine s') \<and>
    map m_machine_id (filter (\<lambda>m. m_account_id m = acct) (st_machine s')) =
      map m_machine_id (filter (\<lambda>m. m_account_id m = acct) (st_machine s))"
proof -
  let ?R = "map (release acct now) (st_machine s)" and ?f = "rejoined (m_name m0) proto key now"
  let ?M = "updated (m_machine_id m0) ?f ?R"
  have ms: "machines_ok (st_machine s)" using s by (simp add: store_ok_def)
  have find: "find_machine (m_machine_id m0) (st_machine s) = Some m0"
    using ms m0 by (simp add: find_machine_eq machines_ok_def)
  have only: "m = m0" if "m \<in> set (st_machine s)" "m_machine_id m = m_machine_id m0" for m
    using find that ms by (simp add: find_machine_eq machines_ok_def) (metis (no_types, lifting) distinct_map inj_onD m0)
  have r0: "release acct now m0 = m0" using acct by (simp add: release_def)
  have "machine_keys ?M = machine_keys ?R"
    unfolding updated_def
  proof (rule keys_map_same)
    fix m assume "m \<in> set ?R"
    then obtain x where x: "x \<in> set (st_machine s)" "m = release acct now x" by auto
    then have "m = m0" if "m_machine_id m = m_machine_id m0" using only [of x] r0 that by simp
    then show "m_account_id (if m_machine_id m = m_machine_id m0 then ?f m else m) = m_account_id m \<and>
        m_name_key (if m_machine_id m = m_machine_id m0 then ?f m else m) = m_name_key m"
      using live by auto
  qed
  then have u: "unique_name_keys ?M"
    using machines_ok_released [OF ms, of acct now] by (simp add: machines_ok_def unique_name_keys_def)
  have M: "machines_ok ?M" by (rule machines_ok_rejoin [OF ms find refl req u])
  have mem: "?f m0 \<in> set ?M" using m0 r0 by (force simp: updated_def)
  have "row_or_missing ?M (m_machine_id m0) = Ok (row_view (?f m0) 0)"
    using M mem by (simp add: row_or_missing_ok find_machine_updated find_machine_released find r0)
  then have "claim_locked acct (m_machine_id m0) (m_name m0) proto key now (st_machine s) = Ok (row_view (?f m0) 0, ?M)"
    unfolding claim_existing [OF ms find] Let_def using u by simp
  then have "dir_join t (m_machine_id m0) (m_name m0) proto key now s = (Ok (row_view (?f m0) 0), s\<lparr>st_machine := ?M\<rparr>)"
    using ticket acct by (auto simp: dir_join_def)
  moreover have "map m_machine_id (filter (\<lambda>m. m_account_id m = acct) ?M) =
      map m_machine_id (filter (\<lambda>m. m_account_id m = acct) (st_machine s))"
    by (rule updated_released_ids)
  ultimately show ?thesis using mem by auto
qed

definition demo_accounts :: relay_store where
  "demo_accounts = dir_exec (OpAccount ''other'' [9]) 0 demo_one"

theorem join_updates_row_of_other_account_witness:
  "\<exists>row s'. dir_join (ticket_issue ''other'' 0) (demo_machine (CHR ''1'')) ''box'' 3 ''cd'' 5 demo_accounts = (Ok row, s') \<and>
     filter (\<lambda>m. m_account_id m = ''other'') (st_machine s') = []"
proof -
  let ?m0 = "new_rec (demo_machine (CHR ''1'')) ''acct'' ''box'' False 3 ''ab'' 1"
  have ok: "store_ok demo_accounts"
    unfolding demo_accounts_def by (rule store_ok_exec [OF store_ok_demo_one]) (simp_all add: is_i64_bounds)
  have ms: "st_machine demo_accounts = [?m0]"
    by (simp add: demo_accounts_def demo_one_eq create_account_def set_account_root_def)
  have a: "bt_get (st_account demo_accounts) ''other'' \<noteq> None"
    using store_ok_demo_one
    by (simp add: demo_accounts_def create_account_def set_account_root_def store_ok_def bt_get_insert)
  have r: "request_ok (m_machine_id ?m0) (m_name ?m0) 3 ''cd''"
    using demo_join_typed [of "CHR ''1''" "''box''" "''acct''"]
    by (simp add: demo_join_def request_ok_def is_ascii_digit_def is_ascii_hexdigit_def name_ok_def name_char_def
        is_ascii_lowercase_def chcode_def)
  have t: "ticket_consume (ticket_issue ''other'' 0) 5 = Ok ''other''"
    by (simp add: ticket_consume_def ticket_issue_def wrapping_add_i64_def JOIN_TICKET_SECS_def)
  from join_updates_row_of_other_account [OF ok, of ?m0, OF _ _ _ a r _ t] show ?thesis
    by (auto simp: ms is_i64_bounds)
qed

end
