(* ===== verification/Relay_Wire.thy ===== *)
theory Relay_Wire
  imports Mesh_Directory
begin

text \<open>
  The protocol a device and the relay speak, \<open>crates/arreo-core/src/relay/mod.rs\<close>: the header, the
  envelope framing, the handshake messages and the trust decision \<open>verify_auth\<close>. The MessagePack codec
  (\<open>rmp_serde\<close>) is a parameter, one function per type; \<open>header_from_read\<close> also says where the decoder
  stopped. A stream is the list of the chunks its reads return: an empty chunk, and the end of the list,
  is a peer that closed. Error texts are not modelled, error constructors are.
\<close>

section \<open>Messages\<close>

definition RELAY_VERSION :: nat where "RELAY_VERSION = 1"
definition MAX_ENVELOPE_BYTES :: nat where "MAX_ENVELOPE_BYTES = 2 ^ 20"
definition MAX_HANDSHAKE_BYTES :: nat where "MAX_HANDSHAKE_BYTES = 16 * 1024"
definition RELAY_SENDER :: string where "RELAY_SENDER = ''relay''"

datatype relay_kind = KFrame | KStatus | KDrain | KAck | KPeerGone | KJoin | KMachines | KRename
  | KRemove | KStale | KDirectory

definition kind_as_str :: "relay_kind \<Rightarrow> string" where
  "kind_as_str k = (case k of
      KFrame \<Rightarrow> ''frame'' | KStatus \<Rightarrow> ''status'' | KDrain \<Rightarrow> ''drain'' | KAck \<Rightarrow> ''ack''
    | KPeerGone \<Rightarrow> ''peergone'' | KJoin \<Rightarrow> ''join'' | KMachines \<Rightarrow> ''machines'' | KRename \<Rightarrow> ''rename''
    | KRemove \<Rightarrow> ''remove'' | KStale \<Rightarrow> ''stale'' | KDirectory \<Rightarrow> ''directory'')"

datatype relay_error =
    WireFrame
  | WireVersion nat
  | WireTooLarge nat
  | WireIncomplete nat nat
  | WireRefused string
  | WireTimeout
  | WireTransport
  | WireCert
  | WireNoProof

record relay_header =
  rh_v :: nat
  rh_account_id :: string
  rh_src_device :: string
  rh_dst :: string
  rh_seq :: u64
  rh_kind :: relay_kind

record relay_envelope =
  env_header :: relay_header
  env_payload :: bytes

record relay_hello =
  he_v :: nat
  he_account_id :: string
  he_device_id :: string

record relay_auth =
  au_v :: nat
  au_cert :: bytes
  au_signature :: bytes

datatype hello_reply = Challenge nat bytes | HelloRefused nat string

datatype auth_reply = Welcome nat string string | AuthRefused nat string

record drain_request =
  dq_v :: nat
  dq_from_seq :: u64

record ack_request =
  aq_v :: nat
  aq_seq :: u64

record drain_report =
  rp_v :: nat
  rp_delivered :: nat
  rp_dropped :: nat
  rp_expired :: nat
  rp_queued :: nat
  rp_next_seq :: u64

record join_request =
  jq_v :: nat
  jq_name :: string
  jq_proto_version :: nat
  jq_machine_key :: string
  jq_signature :: bytes

record machines_request =
  mq_v :: nat
  mq_all :: bool

record rename_request =
  nq_v :: nat
  nq_machine_id :: string
  nq_new_name :: string

record remove_request =
  vq_v :: nat
  vq_machine_id :: string

record stale_request =
  sq_v :: nat

section \<open>Envelopes\<close>

record header_codec =
  header_to_vec :: "relay_header \<Rightarrow> bytes option"
  header_from_read :: "bytes \<Rightarrow> (relay_header \<times> nat) option"

definition envelope_encode :: "header_codec \<Rightarrow> relay_envelope \<Rightarrow> relay_error + bytes" where
  "envelope_encode K e = (case header_to_vec K (env_header e) of
      None \<Rightarrow> Err WireFrame
    | Some hb \<Rightarrow>
        let total = length hb + length (env_payload e) in
        if MAX_ENVELOPE_BYTES < total then Err (WireTooLarge total)
        else Ok (to_le_bytes total @ hb @ env_payload e))"

definition envelope_decode :: "header_codec \<Rightarrow> bytes \<Rightarrow> relay_error + relay_envelope \<times> nat" where
  "envelope_decode K buffer =
     (if length buffer < 4 then Err (WireIncomplete 4 (length buffer))
      else let len = from_le_bytes buffer in
        if MAX_ENVELOPE_BYTES < len then Err (WireTooLarge len)
        else if length buffer < 4 + len then Err (WireIncomplete (4 + len) (length buffer))
        else let body = take len (drop 4 buffer) in
          (case header_from_read K body of
             None \<Rightarrow> Err WireFrame
           | Some (h, header_len) \<Rightarrow>
               if rh_v h \<noteq> RELAY_VERSION then Err (WireVersion (rh_v h))
               else Ok (\<lparr> env_header = h, env_payload = drop header_len body \<rparr>, len + 4)))"

definition is_incomplete :: "relay_error \<Rightarrow> bool" where
  "is_incomplete e = (case e of WireIncomplete _ _ \<Rightarrow> True | _ \<Rightarrow> False)"

fun read_envelope :: "header_codec \<Rightarrow> bytes \<Rightarrow> bytes list
    \<Rightarrow> (relay_error + relay_envelope) \<times> bytes \<times> bytes list" where
  "read_envelope K buf chunks = (case envelope_decode K buf of
      Ok (e, consumed) \<Rightarrow> (Ok e, drop consumed buf, chunks)
    | Err err \<Rightarrow>
        if \<not> is_incomplete err then (Err err, buf, chunks)
        else (case chunks of
            [] \<Rightarrow> (Err WireTransport, buf, [])
          | chunk # rest \<Rightarrow>
              if chunk = [] then (Err WireTransport, buf, rest) else read_envelope K (buf @ chunk) rest))"

declare read_envelope.simps [simp del]

section \<open>Handshake frames\<close>

definition encode_message :: "('m \<Rightarrow> bytes option) \<Rightarrow> 'm \<Rightarrow> relay_error + bytes" where
  "encode_message to_vec message = (case to_vec message of
      None \<Rightarrow> Err WireFrame
    | Some body \<Rightarrow> if MAX_HANDSHAKE_BYTES < length body then Err (WireTooLarge (length body))
        else Ok (to_le_bytes (length body) @ body))"

definition decode_message :: "(bytes \<Rightarrow> 'm option) \<Rightarrow> bytes \<Rightarrow> relay_error + 'm" where
  "decode_message from_slice body =
     (if MAX_HANDSHAKE_BYTES < length body then Err (WireTooLarge (length body))
      else case from_slice body of None \<Rightarrow> Err WireFrame | Some m \<Rightarrow> Ok m)"

definition encode_payload :: "('m \<Rightarrow> bytes option) \<Rightarrow> 'm \<Rightarrow> relay_error + bytes" where
  "encode_payload to_vec m = (case to_vec m of None \<Rightarrow> Err WireFrame | Some bs \<Rightarrow> Ok bs)"

definition decode_payload :: "(bytes \<Rightarrow> 'm option) \<Rightarrow> bytes \<Rightarrow> relay_error + 'm" where
  "decode_payload from_slice bs = (case from_slice bs of None \<Rightarrow> Err WireFrame | Some m \<Rightarrow> Ok m)"

fun read_frame :: "nat \<Rightarrow> bytes \<Rightarrow> bytes list \<Rightarrow> (relay_error + bytes) \<times> bytes \<times> bytes list" where
  "read_frame cap buf chunks =
     (let more = (case chunks of
            [] \<Rightarrow> (Err WireTransport, buf, [])
          | chunk # rest \<Rightarrow>
              if chunk = [] then (Err WireTransport, buf, rest) else read_frame cap (buf @ chunk) rest)
      in if 4 \<le> length buf then
           let len = from_le_bytes buf in
           if cap < len then (Err (WireTooLarge len), buf, chunks)
           else if 4 + len \<le> length buf then (Ok (take len (drop 4 buf)), drop (4 + len) buf, chunks)
           else more
         else more)"

declare read_frame.simps [simp del]

section \<open>Proofs of possession\<close>

definition proof_payload :: "bytes \<Rightarrow> string \<Rightarrow> string \<Rightarrow> bytes" where
  "proof_payload nonce acct dev =
     as_bytes ''arreo-relay-auth-v1'' @ [0] @ nonce @ [0] @ as_bytes acct @ [0] @ as_bytes dev"

definition join_proof_payload :: "bytes \<Rightarrow> string \<Rightarrow> string \<Rightarrow> string \<Rightarrow> bytes" where
  "join_proof_payload nonce acct machine_key nm =
     as_bytes ''arreo-relay-join-v1'' @ [0] @ nonce @ [0] @ as_bytes acct @ [0] @ as_bytes machine_key
       @ [0] @ as_bytes nm"

record authenticated_device =
  ad_account_id :: string
  ad_device_id :: device_id
  ad_public_key :: verifying_key
  ad_cert :: device_cert

definition verify_auth :: "crypto \<Rightarrow> string \<Rightarrow> string \<Rightarrow> verifying_key \<Rightarrow> bytes \<Rightarrow> relay_auth
    \<Rightarrow> relay_error + authenticated_device" where
  "verify_auth C acct announced_device root nonce auth =
     (if au_v auth \<noteq> RELAY_VERSION then Err (WireVersion (au_v auth))
      else case cert_decode C (au_cert auth) of Err _ \<Rightarrow> Err WireCert | Ok cert \<Rightarrow>
        (case cert_public_key C cert of None \<Rightarrow> Err WireCert | Some key \<Rightarrow>
         (case cert_verify C cert root key of Err _ \<Rightarrow> Err WireCert | Ok _ \<Rightarrow>
          (case device_id_parse announced_device of Err _ \<Rightarrow> Err WireCert | Ok announced \<Rightarrow>
            let canonical = cp_device (dc_payload cert) in
            if canonical \<noteq> announced then Err WireCert
            else if length (au_signature auth) \<noteq> 64 then Err WireNoProof
            else if \<not> sig_ok C key (proof_payload nonce acct canonical) (au_signature auth)
            then Err WireNoProof
            else Ok \<lparr> ad_account_id = acct, ad_device_id = canonical, ad_public_key = key,
                      ad_cert = cert \<rparr>))))"

section \<open>Facts\<close>

text \<open>What the code relies on of \<open>rmp_serde\<close>: a header is decoded from the front of what it was encoded to.\<close>

definition header_law :: "header_codec \<Rightarrow> bool" where
  "header_law K \<longleftrightarrow> (\<forall>h bs rest. header_to_vec K h = Some bs \<longrightarrow>
     header_from_read K (bs @ rest) = Some (h, length bs))"

lemma envelope_encode_Ok:
  "envelope_encode K e = Ok f \<longleftrightarrow> (\<exists>hb. header_to_vec K (env_header e) = Some hb
     \<and> length hb + length (env_payload e) \<le> MAX_ENVELOPE_BYTES
     \<and> f = to_le_bytes (length hb + length (env_payload e)) @ hb @ env_payload e)"
  by (auto simp: envelope_encode_def Let_def not_less split: option.splits)

lemma envelope_length: "envelope_encode K e = Ok f \<Longrightarrow> 4 \<le> length f \<and> length f \<le> 4 + MAX_ENVELOPE_BYTES
    \<and> from_le_bytes (f @ rest) = length f - 4"
  by (auto simp: envelope_encode_Ok le_round_trip MAX_ENVELOPE_BYTES_def)

lemma envelope_decode_encoded:
  assumes "header_law K" and "rh_v (env_header e) = RELAY_VERSION" and "envelope_encode K e = Ok f"
  shows "envelope_decode K (f @ rest) = Ok (e, length f)"
proof -
  obtain hb where h: "header_to_vec K (env_header e) = Some hb" "length hb + length (env_payload e) \<le> MAX_ENVELOPE_BYTES"
    "f = to_le_bytes (length hb + length (env_payload e)) @ hb @ env_payload e"
    using assms(3) by (auto simp: envelope_encode_Ok)
  have len: "from_le_bytes (f @ rest) = length hb + length (env_payload e)"
    using h(2,3) le_round_trip [of "length hb + length (env_payload e)"] by (simp add: MAX_ENVELOPE_BYTES_def)
  have "header_from_read K (hb @ env_payload e) = Some (env_header e, length hb)"
    using assms(1) h(1) by (simp add: header_law_def)
  moreover have "take (length hb + length (env_payload e)) (drop 4 (f @ rest)) = hb @ env_payload e"
    by (simp add: h(3))
  ultimately show ?thesis
    using assms(2) h(2) unfolding envelope_decode_def len Let_def by (simp add: h(3))
qed

lemma envelope_decode_prefix:
  assumes "envelope_encode K e = Ok f" and "k < length f"
  shows "\<exists>want. envelope_decode K (take k f) = Err (WireIncomplete want k) \<and> k < want"
proof (cases "k < 4")
  case True
  then show ?thesis using assms(2) by (intro exI [of _ 4]) (simp add: envelope_decode_def)
next
  case False
  obtain hb where h: "length hb + length (env_payload e) \<le> MAX_ENVELOPE_BYTES"
    "f = to_le_bytes (length hb + length (env_payload e)) @ hb @ env_payload e"
    using assms(1) by (auto simp: envelope_encode_Ok)
  have len: "from_le_bytes (take k f) = length hb + length (env_payload e)"
    using False h le_round_trip [of "length hb + length (env_payload e)"] by (simp add: MAX_ENVELOPE_BYTES_def)
  have "envelope_decode K (take k f) = Err (WireIncomplete (4 + (length hb + length (env_payload e))) k)"
  proof -
    have "length (take k f) = k" using assms(2) by simp
    moreover have "k < 4 + (length hb + length (env_payload e))" using assms(2) h(2) by simp
    ultimately show ?thesis using False h(1) unfolding envelope_decode_def len Let_def by simp
  qed
  then show ?thesis using assms(2) h(2) by (intro exI) auto
qed

text \<open>However the bytes are cut into chunks, reading gives the envelope and keeps what follows it.\<close>

lemma read_envelope_chunks:
  assumes law: "header_law K" "rh_v (env_header e) = RELAY_VERSION" "envelope_encode K e = Ok f"
    and "buf @ concat chunks = f @ rest" and "[] \<notin> set chunks"
  shows "\<exists>buf' chunks'. read_envelope K buf chunks = (Ok e, buf', chunks') \<and> buf' @ concat chunks' = rest"
  using assms(4,5)
proof (induction chunks arbitrary: buf)
  case Nil
  then have "envelope_decode K buf = Ok (e, length f)" "drop (length f) buf = rest"
    using envelope_decode_encoded [OF law, of rest] by simp_all
  then show ?case by (simp add: read_envelope.simps [of K buf])
next
  case (Cons c cs)
  show ?case
  proof (cases "length buf < length f")
    case True
    then have buf: "buf = take (length buf) f"
      using Cons.prems(1) by (metis append_eq_append_conv_if take_all_iff nat_less_le append_take_drop_id same_append_eq less_or_eq_imp_le)
    with envelope_decode_prefix [OF law(3) True] obtain want where
      "envelope_decode K buf = Err (WireIncomplete want (length buf))" by auto
    moreover have "c \<noteq> []" using Cons.prems(2) by auto
    ultimately have "read_envelope K buf (c # cs) = read_envelope K (buf @ c) cs"
      by (simp add: read_envelope.simps [of K buf] is_incomplete_def)
    with Cons.IH [of "buf @ c"] Cons.prems show ?thesis by simp
  next
    case False
    then obtain r where r: "buf = f @ r" "r @ concat (c # cs) = rest"
      using Cons.prems(1) by (auto simp: append_eq_append_conv2)
    then show ?thesis
      using envelope_decode_encoded [OF law, of r] by (subst read_envelope.simps) simp
  qed
qed

end
