(* ===== verification/Relay_Router.thy ===== *)
theory Relay_Router
  imports Relay_Wire Relay_Directory Relay_Inbox
begin

text \<open>
  The relay router, \<open>crates/arreo-relay/src/router.rs\<close>: authenticating a device, the registry of live
  sessions with their bounded outbound queues, the directory requests, and one turn of the envelope read
  loop. A queue (\<open>mpsc::channel\<close>) is named by the number of its connection; the registry holds that
  number with the registration token. Tokens are \<open>nat\<close>: the \<open>u64\<close> counter starts at 1 and counts
  registrations. A handler reads the clock once, \<open>now\<close>; what the writer task takes from the queue
  while a drain is being sent is the argument \<open>takes\<close>. The texts of refusals and log lines are not
  modelled, which refusal it is is. The trail keeps the action, outcome, account, device and detail of an
  event and not the address of the peer.
\<close>

section \<open>Sessions, messages and queues\<close>

definition OUTBOUND_QUEUE :: nat where "OUTBOUND_QUEUE = 64"
definition DEFAULT_DRAIN_LIMIT :: nat where "DEFAULT_DRAIN_LIMIT = 256"

record session =
  se_account_id :: string
  se_device_id :: device_id
  se_nonce :: bytes
  se_public_key :: verifying_key

definition session_key :: "session \<Rightarrow> string \<times> string" where
  "session_key se = (se_account_id se, se_device_id se)"

definition dial_key :: "session \<Rightarrow> string" where
  "dial_key se = concat (map fmt_02x (se_public_key se))"

datatype frame_refusal =
    WrongAccount
  | WrongSender
  | MalformedSrc
  | NotAFrame
  | MalformedDst
  | InboxRefused inbox_error

datatype outcome =
    Delivered
  | Unreachable
  | Queued nat
  | NoSuchDevice
  | RefusedFrame frame_refusal

datatype dir_refusal =
    RefusedVersion nat
  | RefusedKey
  | RefusedProof
  | RefusedName
  | RefusedId
  | NotInAccount
  | RefusedBy dir_failure

record directory_reply =
  dy_v :: nat
  dy_seq :: u64
  dy_granted :: "machine_row option"
  dy_machines :: "machine_row list"
  dy_refused :: "dir_refusal option"

datatype outbound =
    OEnvelope relay_envelope
  | OStatus u64 outcome
  | ORaw bytes
  | ODrain drain_report
  | OPeerGone device_id
  | ODirectory directory_reply
  | ODisplaced

record channel =
  ch_queue :: "outbound list"
  ch_open :: bool

record trail_event =
  te_action :: string
  te_outcome :: relay_outcome
  te_account :: string
  te_device :: string
  te_detail :: "string option"

record router =
  rt_store :: relay_store
  rt_inbox :: inbox_db
  rt_limits :: inbox_limits
  rt_live :: "(string \<times> string, nat \<times> nat) btree"
  rt_next_token :: nat
  rt_chans :: "(nat, channel) btree"
  rt_trail :: "trail_event list"

definition router_new :: "relay_store \<Rightarrow> inbox_db \<Rightarrow> inbox_limits \<Rightarrow> router" where
  "router_new s db lim = \<lparr> rt_store = s, rt_inbox = db, rt_limits = lim, rt_live = [],
     rt_next_token = 1, rt_chans = [], rt_trail = [] \<rparr>"

definition router_record :: "string \<Rightarrow> relay_outcome \<Rightarrow> string \<Rightarrow> string \<Rightarrow> string option \<Rightarrow> router \<Rightarrow> router" where
  "router_record action oc acct dev detail rt = rt\<lparr> rt_trail := rt_trail rt @
     [\<lparr> te_action = action, te_outcome = oc, te_account = acct, te_device = dev, te_detail = detail \<rparr>] \<rparr>"

text \<open>\<open>mpsc::Sender::try_send\<close>: it fails when the queue is full or its receiver is gone.\<close>

definition try_send :: "nat \<Rightarrow> outbound \<Rightarrow> router \<Rightarrow> bool \<times> router" where
  "try_send conn item rt = (case bt_get (rt_chans rt) conn of
      None \<Rightarrow> (False, rt)
    | Some ch \<Rightarrow>
        if ch_open ch \<and> length (ch_queue ch) < OUTBOUND_QUEUE
        then (True, rt\<lparr>rt_chans := bt_insert conn (ch\<lparr>ch_queue := ch_queue ch @ [item]\<rparr>) (rt_chans rt)\<rparr>)
        else (False, rt))"

text \<open>The writer task takes the next \<open>n\<close> items; \<open>ODisplaced\<close> makes it return, which drops the receiver.\<close>

fun take_items :: "nat \<Rightarrow> channel \<Rightarrow> channel" where
  "take_items 0 ch = ch"
| "take_items (Suc n) ch = (case ch_queue ch of
      [] \<Rightarrow> ch
    | ODisplaced # _ \<Rightarrow> ch\<lparr>ch_queue := [], ch_open := False\<rparr>
    | _ # q \<Rightarrow> take_items n (ch\<lparr>ch_queue := q\<rparr>))"

definition writer_take :: "nat \<Rightarrow> nat \<Rightarrow> router \<Rightarrow> router" where
  "writer_take conn n rt = (case bt_get (rt_chans rt) conn of
      None \<Rightarrow> rt
    | Some ch \<Rightarrow> rt\<lparr>rt_chans := bt_insert conn (take_items n ch) (rt_chans rt)\<rparr>)"

section \<open>The registry of live sessions\<close>

definition live_count :: "router \<Rightarrow> nat" where
  "live_count rt = length (rt_live rt)"

definition register :: "session \<Rightarrow> nat \<Rightarrow> router \<Rightarrow> nat \<times> router" where
  "register se conn rt =
     (let token = rt_next_token rt;
          displaced = bt_get (rt_live rt) (session_key se);
          rt1 = rt\<lparr> rt_next_token := token + 1,
                    rt_live := bt_insert (session_key se) (conn, token) (rt_live rt) \<rparr>
      in (token, case displaced of
            Some (previous, _) \<Rightarrow> snd (try_send previous ODisplaced rt1)
          | None \<Rightarrow> rt1))"

definition deregister :: "session \<Rightarrow> nat \<Rightarrow> router \<Rightarrow> router" where
  "deregister se token rt =
     (let was_live = (case bt_get (rt_live rt) (session_key se) of
            None \<Rightarrow> False | Some (_, held) \<Rightarrow> held = token)
      in if \<not> was_live then rt
         else let live = bt_remove (session_key se) (rt_live rt);
                  notified = map (\<lambda>(_, (conn, _)). conn)
                    (filter (\<lambda>((acct, dev), _). acct = se_account_id se \<and> dev \<noteq> se_device_id se) live)
              in fold (\<lambda>conn r. snd (try_send conn (OPeerGone (se_device_id se)) r)) notified
                   (rt\<lparr>rt_live := live\<rparr>))"

section \<open>Presence of devices\<close>

record device_presence_row =
  dp_device_id :: string
  dp_account_id :: string
  dp_presence :: presence
  dp_last_seen_ms :: int

definition presence_at :: "int \<Rightarrow> int \<Rightarrow> presence" where
  "presence_at last_seen now = presence_of last_seen now"

definition router_presence :: "router \<Rightarrow> string \<Rightarrow> int \<Rightarrow> device_presence_row list" where
  "router_presence rt acct now =
     map (\<lambda>(dev, seen). \<lparr> dp_device_id = dev, dp_account_id = acct, dp_presence = presence_at seen now,
       dp_last_seen_ms = seen \<rparr>) (device_presence (rt_store rt) acct)"

definition format_age :: "int \<Rightarrow> string" where
  "format_age age =
     (let secs = max age 0 div 1000; mins = secs div 60; hours = mins div 60; days = hours div 24 in
      if secs < 60 then show_i64 secs @ '' s''
      else if mins < 60 then show_i64 mins @ '' m''
      else if hours < 48 then show_i64 hours @ '' h''
      else if days < 60 then show_i64 days @ '' d''
      else show_i64 (days div 30) @ '' mo'')"

definition presence_display :: "device_presence_row \<Rightarrow> int \<Rightarrow> string" where
  "presence_display p now = (case dp_presence p of
      Online \<Rightarrow> ''online''
    | Offline \<Rightarrow> ''offline (last seen '' @ format_age (age_ms (dp_last_seen_ms p) now) @ '')''
    | Stale \<Rightarrow> ''stale (last seen '' @ format_age (age_ms (dp_last_seen_ms p) now) @ '')'')"

section \<open>Directory requests\<close>

definition refuse :: "u64 \<Rightarrow> dir_refusal \<Rightarrow> directory_reply" where
  "refuse seq reason = \<lparr> dy_v = RELAY_VERSION, dy_seq = seq, dy_granted = None, dy_machines = [],
     dy_refused = Some reason \<rparr>"

definition grant :: "u64 \<Rightarrow> machine_row option \<Rightarrow> directory_reply" where
  "grant seq row = \<lparr> dy_v = RELAY_VERSION, dy_seq = seq, dy_granted = row, dy_machines = [],
     dy_refused = None \<rparr>"

definition answer :: "u64 \<Rightarrow> machine_row list \<Rightarrow> directory_reply" where
  "answer seq rows = \<lparr> dy_v = RELAY_VERSION, dy_seq = seq, dy_granted = None, dy_machines = rows,
     dy_refused = None \<rparr>"

definition verify_join_proof :: "crypto \<Rightarrow> verifying_key \<Rightarrow> bytes \<Rightarrow> string \<Rightarrow> string \<Rightarrow> string \<Rightarrow> bytes \<Rightarrow> bool" where
  "verify_join_proof C key nonce acct machine_key nm signature =
     verify_bytes (sig_ok C) key (join_proof_payload nonce acct machine_key nm) signature"

definition router_join :: "crypto \<Rightarrow> session \<Rightarrow> join_request \<Rightarrow> u64 \<Rightarrow> int \<Rightarrow> router
    \<Rightarrow> (directory_reply \<times> router) run" where
  "router_join C se req seq now rt =
     (if jq_v req \<noteq> RELAY_VERSION then Returns (refuse seq (RefusedVersion (jq_v req)), rt)
      else case public_from_hex (point_ok C) (jq_machine_key req) of
        Panics \<Rightarrow> Panics
      | Returns (Err _) \<Rightarrow> Returns (refuse seq RefusedKey, rt)
      | Returns (Ok key) \<Rightarrow>
          if \<not> verify_join_proof C key (se_nonce se) (se_account_id se) (jq_machine_key req) (jq_name req)
                 (jq_signature req)
          then Returns (refuse seq RefusedProof, rt)
          else let mid = machine_id_from_key C key in
            (case dir_list (rt_store rt) (se_account_id se) now of
               Err e \<Rightarrow> Returns (refuse seq (RefusedBy e), rt)
             | Ok rows \<Rightarrow>
                 if find (\<lambda>r. mr_machine_id r = mid) rows \<noteq> None then
                   (case dir_heartbeat mid now (rt_store rt) of
                      (Err e, s) \<Rightarrow> Returns (refuse seq (RefusedBy e), rt\<lparr>rt_store := s\<rparr>)
                    | (Ok _, s) \<Rightarrow>
                        (case dir_list s (se_account_id se) now of
                           Err e \<Rightarrow> Returns (refuse seq (RefusedBy e), rt\<lparr>rt_store := s\<rparr>)
                         | Ok rows' \<Rightarrow> Returns (grant seq (find (\<lambda>r. mr_machine_id r = mid) rows'),
                             rt\<lparr>rt_store := s\<rparr>)))
                 else (case name_parse (jq_name req) of
                     Err e \<Rightarrow> Returns (refuse seq RefusedName, rt)
                   | Ok nm \<Rightarrow>
                       (case dir_join (ticket_issue (se_account_id se) now) mid nm (jq_proto_version req)
                               (dial_key se) now (rt_store rt) of
                          (Ok row, s) \<Rightarrow> Returns (grant seq (Some row), rt\<lparr>rt_store := s\<rparr>)
                        | (Err e, s) \<Rightarrow> Returns (refuse seq (RefusedBy e), rt\<lparr>rt_store := s\<rparr>)))))"

definition owns :: "session \<Rightarrow> machine_id \<Rightarrow> int \<Rightarrow> router \<Rightarrow> bool" where
  "owns se mid now rt = (case dir_list (rt_store rt) (se_account_id se) now of
      Err _ \<Rightarrow> False | Ok rows \<Rightarrow> \<exists>r \<in> set rows. mr_machine_id r = mid)"

definition router_rename :: "session \<Rightarrow> rename_request \<Rightarrow> u64 \<Rightarrow> int \<Rightarrow> router \<Rightarrow> directory_reply \<times> router" where
  "router_rename se req seq now rt =
     (if nq_v req \<noteq> RELAY_VERSION then (refuse seq (RefusedVersion (nq_v req)), rt)
      else case machine_id_parse (nq_machine_id req) of
        Err _ \<Rightarrow> (refuse seq RefusedId, rt)
      | Ok mid \<Rightarrow>
          (case name_parse (nq_new_name req) of
             Err _ \<Rightarrow> (refuse seq RefusedName, rt)
           | Ok nm \<Rightarrow>
               if \<not> owns se mid now rt then (refuse seq NotInAccount, rt)
               else (case dir_rename mid nm now (rt_store rt) of
                   (Ok row, s) \<Rightarrow> (grant seq (Some row), rt\<lparr>rt_store := s\<rparr>)
                 | (Err e, s) \<Rightarrow> (refuse seq (RefusedBy e), rt\<lparr>rt_store := s\<rparr>))))"

definition router_remove :: "session \<Rightarrow> remove_request \<Rightarrow> u64 \<Rightarrow> int \<Rightarrow> router \<Rightarrow> directory_reply \<times> router" where
  "router_remove se req seq now rt =
     (if vq_v req \<noteq> RELAY_VERSION then (refuse seq (RefusedVersion (vq_v req)), rt)
      else case machine_id_parse (vq_machine_id req) of
        Err _ \<Rightarrow> (refuse seq RefusedId, rt)
      | Ok mid \<Rightarrow>
          if \<not> owns se mid now rt then (refuse seq NotInAccount, rt)
          else (case dir_remove mid now (rt_store rt) of
              (Ok row, s) \<Rightarrow> (grant seq (Some row), rt\<lparr>rt_store := s\<rparr>)
            | (Err e, s) \<Rightarrow> (refuse seq (RefusedBy e), rt\<lparr>rt_store := s\<rparr>)))"

definition router_prune_stale :: "session \<Rightarrow> stale_request \<Rightarrow> u64 \<Rightarrow> int \<Rightarrow> router
    \<Rightarrow> directory_reply \<times> router" where
  "router_prune_stale se req seq now rt =
     (if sq_v req \<noteq> RELAY_VERSION then (refuse seq (RefusedVersion (sq_v req)), rt)
      else case dir_remove_stale (se_account_id se) now (rt_store rt) of
        (Err e, s) \<Rightarrow> (refuse seq (RefusedBy e), rt\<lparr>rt_store := s\<rparr>)
      | (Ok pruned, s) \<Rightarrow>
          (answer seq (filter (\<lambda>r. mr_machine_id r \<in> set pruned)
             (case dir_list s (se_account_id se) now of Err _ \<Rightarrow> [] | Ok rows \<Rightarrow> rows)),
           rt\<lparr>rt_store := s\<rparr>))"

definition router_machines :: "session \<Rightarrow> bool \<Rightarrow> u64 \<Rightarrow> int \<Rightarrow> router \<Rightarrow> directory_reply" where
  "router_machines se all seq now rt = (case dir_list (rt_store rt) (se_account_id se) now of
      Ok rows \<Rightarrow> answer seq (filter (\<lambda>r. all \<or> \<not> tombstone_active r now) rows)
    | Err e \<Rightarrow> refuse seq (RefusedBy e))"

section \<open>Routing one envelope\<close>

datatype decision = Deliver nat | QueueFor device_id | NoDevice | Refuse frame_refusal

definition decide :: "session \<Rightarrow> relay_header \<Rightarrow> router \<Rightarrow> decision" where
  "decide se h rt =
     (if rh_account_id h \<noteq> se_account_id se then Refuse WrongAccount
      else case device_id_parse (rh_src_device h) of
        Err _ \<Rightarrow> Refuse MalformedSrc
      | Ok claimed \<Rightarrow>
          if claimed \<noteq> se_device_id se then Refuse WrongSender
          else if rh_kind h \<noteq> KFrame then Refuse NotAFrame
          else (case device_id_parse (rh_dst h) of
              Err _ \<Rightarrow> Refuse MalformedDst
            | Ok dst \<Rightarrow>
                if \<not> device_known (rt_store rt) (se_account_id se) dst then NoDevice
                else (case bt_get (rt_live rt) (se_account_id se, dst) of
                    Some (conn, _) \<Rightarrow> Deliver conn
                  | None \<Rightarrow> QueueFor dst)))"

definition drain_report_of :: "drained \<Rightarrow> drain_report" where
  "drain_report_of d = \<lparr> rp_v = RELAY_VERSION, rp_delivered = length (dr_messages d),
     rp_dropped = dr_dropped d, rp_expired = dr_expired d, rp_queued = dr_queued d,
     rp_next_seq = dr_next_seq d \<rparr>"

text \<open>The replies of the relay are put into the queue of the session and a full queue drops them.\<close>

definition reply :: "nat \<Rightarrow> outbound \<Rightarrow> router \<Rightarrow> router" where
  "reply conn item rt = snd (try_send conn item rt)"

fun send_batch :: "(nat \<Rightarrow> nat) \<Rightarrow> nat \<Rightarrow> nat \<Rightarrow> bytes list \<Rightarrow> router \<Rightarrow> router" where
  "send_batch takes conn i [] rt = rt"
| "send_batch takes conn i (raw # raws) rt =
     (case try_send conn (ORaw raw) (writer_take conn (takes i) rt) of
        (True, rt1) \<Rightarrow> send_batch takes conn (i + 1) raws rt1
      | (False, rt1) \<Rightarrow> rt1)"

definition handle_drain :: "(nat \<Rightarrow> nat) \<Rightarrow> session \<Rightarrow> nat \<Rightarrow> drain_request \<Rightarrow> int \<Rightarrow> router \<Rightarrow> router" where
  "handle_drain takes se conn req now rt =
     (let (d, db) = drain (se_device_id se) (dq_from_seq req) DEFAULT_DRAIN_LIMIT now (rt_inbox rt);
          rt1 = send_batch takes conn 0 (dr_raw d) (rt\<lparr>rt_inbox := db\<rparr>)
      in reply conn (ODrain (drain_report_of d)) (writer_take conn (takes (length (dr_raw d))) rt1))"

definition handle_frame :: "header_codec \<Rightarrow> session \<Rightarrow> nat \<Rightarrow> relay_envelope \<Rightarrow> int \<Rightarrow> router
    \<Rightarrow> (relay_error + unit) \<times> router" where
  "handle_frame K se conn e now rt0 =
     (let seq = rh_seq (env_header e);
          rt = rt0\<lparr>rt_store := touch_device (se_account_id se) (se_device_id se) now (rt_store rt0)\<rparr>
      in if rh_dst (env_header e) = se_device_id se \<or> rh_dst (env_header e) = display_id (se_device_id se)
         then (Ok (), reply conn (OStatus seq Delivered) rt)
         else (case decide se (env_header e) rt of
             Deliver dest \<Rightarrow>
               (let (sent, rt1) = try_send dest (OEnvelope e) rt
                in (Ok (), reply conn (OStatus seq (if sent then Delivered else Unreachable)) rt1))
           | QueueFor dst \<Rightarrow>
               (case envelope_encode K e of
                  Err err \<Rightarrow> (Err err, rt)
                | Ok body \<Rightarrow>
                    (let (r, db) = enqueue (rt_limits rt) dst body now (rt_inbox rt);
                         oc = (case r of Ok en \<Rightarrow> Queued (en_queued en) | Err ie \<Rightarrow> RefusedFrame (InboxRefused ie))
                     in (Ok (), reply conn (OStatus seq oc) (rt\<lparr>rt_inbox := db\<rparr>))))
           | NoDevice \<Rightarrow> (Ok (), reply conn (OStatus seq NoSuchDevice) rt)
           | Refuse reason \<Rightarrow> (Ok (), reply conn (OStatus seq (RefusedFrame reason)) rt)))"

text \<open>The decoders of the request payloads (\<open>rmp_serde::from_slice\<close>).\<close>

record payload_codec =
  pd_drain :: "bytes \<Rightarrow> drain_request option"
  pd_ack :: "bytes \<Rightarrow> ack_request option"
  pd_join :: "bytes \<Rightarrow> join_request option"
  pd_machines :: "bytes \<Rightarrow> machines_request option"
  pd_rename :: "bytes \<Rightarrow> rename_request option"
  pd_remove :: "bytes \<Rightarrow> remove_request option"
  pd_stale :: "bytes \<Rightarrow> stale_request option"

text \<open>One turn of \<open>read_loop\<close> with the envelope that was read. An error ends the session.\<close>

definition handle_envelope :: "crypto \<Rightarrow> header_codec \<Rightarrow> payload_codec \<Rightarrow> (nat \<Rightarrow> nat) \<Rightarrow> session \<Rightarrow> nat
    \<Rightarrow> relay_envelope \<Rightarrow> int \<Rightarrow> router \<Rightarrow> ((relay_error + unit) \<times> router) run" where
  "handle_envelope C K P takes se conn e now rt =
     (let seq = rh_seq (env_header e); body = env_payload e in
      case rh_kind (env_header e) of
        KDrain \<Rightarrow> (case decode_payload (pd_drain P) body of
            Err err \<Rightarrow> Returns (Err err, rt)
          | Ok req \<Rightarrow> Returns (Ok (), handle_drain takes se conn req now rt))
      | KAck \<Rightarrow> (case decode_payload (pd_ack P) body of
            Err err \<Rightarrow> Returns (Err err, rt)
          | Ok req \<Rightarrow> Returns (Ok (), rt\<lparr>rt_inbox := snd (ack (se_device_id se) (aq_seq req) (rt_inbox rt))\<rparr>))
      | KJoin \<Rightarrow> (case decode_payload (pd_join P) body of
            Err err \<Rightarrow> Returns (Err err, rt)
          | Ok req \<Rightarrow> (case router_join C se req seq now rt of
              Panics \<Rightarrow> Panics
            | Returns (rep, rt1) \<Rightarrow> Returns (Ok (), reply conn (ODirectory rep) rt1)))
      | KMachines \<Rightarrow> (case decode_payload (pd_machines P) body of
            Err err \<Rightarrow> Returns (Err err, rt)
          | Ok req \<Rightarrow> Returns (Ok (), reply conn (ODirectory (router_machines se (mq_all req) seq now rt)) rt))
      | KRename \<Rightarrow> (case decode_payload (pd_rename P) body of
            Err err \<Rightarrow> Returns (Err err, rt)
          | Ok req \<Rightarrow> (let (rep, rt1) = router_rename se req seq now rt
              in Returns (Ok (), reply conn (ODirectory rep) rt1)))
      | KRemove \<Rightarrow> (case decode_payload (pd_remove P) body of
            Err err \<Rightarrow> Returns (Err err, rt)
          | Ok req \<Rightarrow> (let (rep, rt1) = router_remove se req seq now rt
              in Returns (Ok (), reply conn (ODirectory rep) rt1)))
      | KStale \<Rightarrow> (case decode_payload (pd_stale P) body of
            Err err \<Rightarrow> Returns (Err err, rt)
          | Ok req \<Rightarrow> (let (rep, rt1) = router_prune_stale se req seq now rt
              in Returns (Ok (), reply conn (ODirectory rep) rt1)))
      | KFrame \<Rightarrow> Returns (handle_frame K se conn e now rt)
      | _ \<Rightarrow> Returns (Ok (), reply conn (OStatus seq (RefusedFrame NotAFrame)) rt))"

section \<open>What the writer puts on the wire\<close>

text \<open>The encoders of the relay's own messages (\<open>rmp_serde::to_vec_named\<close>).\<close>

record answer_codec =
  en_outcome :: "outcome \<Rightarrow> bytes option"
  en_report :: "drain_report \<Rightarrow> bytes option"
  en_directory :: "directory_reply \<Rightarrow> bytes option"

definition own_header :: "session \<Rightarrow> string \<Rightarrow> u64 \<Rightarrow> relay_kind \<Rightarrow> relay_header" where
  "own_header se src seq kind = \<lparr> rh_v = RELAY_VERSION, rh_account_id = se_account_id se, rh_src_device = src,
     rh_dst = display_id (se_device_id se), rh_seq = seq, rh_kind = kind \<rparr>"

definition own_envelope :: "relay_header \<Rightarrow> relay_error + bytes \<Rightarrow> relay_error + relay_envelope" where
  "own_envelope h payload = map_sum id (\<lambda>p. \<lparr> env_header = h, env_payload = p \<rparr>) payload"

definition status_envelope :: "answer_codec \<Rightarrow> session \<Rightarrow> u64 \<Rightarrow> outcome \<Rightarrow> relay_error + relay_envelope" where
  "status_envelope A se seq oc = own_envelope (own_header se RELAY_SENDER seq KStatus) (encode_payload (en_outcome A) oc)"

definition drain_report_envelope :: "answer_codec \<Rightarrow> session \<Rightarrow> drain_report \<Rightarrow> relay_error + relay_envelope" where
  "drain_report_envelope A se rep =
     own_envelope (own_header se RELAY_SENDER (rp_next_seq rep) KStatus) (encode_payload (en_report A) rep)"

definition peer_gone_envelope :: "session \<Rightarrow> device_id \<Rightarrow> relay_error + relay_envelope" where
  "peer_gone_envelope se departed = own_envelope (own_header se departed 0 KPeerGone) (Ok [])"

definition directory_envelope :: "answer_codec \<Rightarrow> session \<Rightarrow> directory_reply \<Rightarrow> relay_error + relay_envelope" where
  "directory_envelope A se rep =
     own_envelope (own_header se RELAY_SENDER (dy_seq rep) KDirectory) (encode_payload (en_directory A) rep)"

definition frame_of :: "header_codec \<Rightarrow> relay_error + relay_envelope \<Rightarrow> relay_error + bytes" where
  "frame_of K r = (case r of Err e \<Rightarrow> Err e | Ok e \<Rightarrow> envelope_encode K e)"

text \<open>One turn of the writer task: \<open>None\<close> when it returns instead of writing.\<close>

definition writer_frame :: "header_codec \<Rightarrow> answer_codec \<Rightarrow> session \<Rightarrow> outbound \<Rightarrow> bytes option" where
  "writer_frame K A se item =
     (let frame = (case item of
          OEnvelope e \<Rightarrow> Some (envelope_encode K e)
        | OStatus seq oc \<Rightarrow> Some (frame_of K (status_envelope A se seq oc))
        | ODrain rep \<Rightarrow> Some (frame_of K (drain_report_envelope A se rep))
        | OPeerGone departed \<Rightarrow> Some (frame_of K (peer_gone_envelope se departed))
        | ODirectory rep \<Rightarrow> Some (frame_of K (directory_envelope A se rep))
        | ORaw bytes \<Rightarrow> Some (Ok bytes)
        | ODisplaced \<Rightarrow> None)
      in case frame of Some (Ok bytes) \<Rightarrow> Some bytes | _ \<Rightarrow> None)"

section \<open>A session from start to end\<close>

datatype hello_refusal = UnsupportedVersion nat | UnknownAccount string | UnusableRoot

definition accept_hello :: "crypto \<Rightarrow> relay_hello \<Rightarrow> router \<Rightarrow> (hello_refusal + verifying_key) \<times> router" where
  "accept_hello C he rt =
     (if he_v he \<noteq> RELAY_VERSION then (Err (UnsupportedVersion (he_v he)), rt)
      else case store_account_root (rt_store rt) (he_account_id he) of
        None \<Rightarrow> (Err (UnknownAccount (he_account_id he)),
          router_record ''relay.refuse'' RelayRefused (he_account_id he) (he_device_id he)
            (Some ''unknown account'') rt)
      | Some bs \<Rightarrow> if point_ok C bs then (Ok bs, rt) else (Err UnusableRoot, rt))"

text \<open>\<open>reason\<close> prints the verifier's error for the trail.\<close>

definition authenticate :: "crypto \<Rightarrow> (relay_error \<Rightarrow> string) \<Rightarrow> relay_hello \<Rightarrow> verifying_key \<Rightarrow> bytes
    \<Rightarrow> relay_auth \<Rightarrow> int \<Rightarrow> router \<Rightarrow> (relay_error + session) \<times> router" where
  "authenticate C reason he root nonce auth now rt =
     (case verify_auth C (he_account_id he) (he_device_id he) root nonce auth of
        Err e \<Rightarrow> (Err e, router_record ''relay.refuse'' RelayRefused (he_account_id he) (he_device_id he)
          (Some (reason e)) rt)
      | Ok d \<Rightarrow>
          (let se = \<lparr> se_account_id = ad_account_id d, se_device_id = ad_device_id d, se_nonce = nonce,
                se_public_key = ad_public_key d \<rparr>;
               rt1 = rt\<lparr>rt_store := touch_device (se_account_id se) (se_device_id se) now (rt_store rt)\<rparr>
           in (Ok se, router_record ''session.connect'' RelayOk (se_account_id se) (se_device_id se) None rt1)))"

definition open_session :: "session \<Rightarrow> nat \<Rightarrow> router \<Rightarrow> nat \<times> router" where
  "open_session se conn rt = register se conn
     (rt\<lparr>rt_chans := bt_insert conn \<lparr> ch_queue = [], ch_open = True \<rparr> (rt_chans rt)\<rparr>)"

definition close_session :: "session \<Rightarrow> nat \<Rightarrow> nat \<Rightarrow> bool \<Rightarrow> int \<Rightarrow> router \<Rightarrow> router" where
  "close_session se conn token clean now rt =
     (let rt1 = deregister se token rt;
          rt2 = rt1\<lparr>rt_store := touch_device (se_account_id se) (se_device_id se) now (rt_store rt1)\<rparr>;
          rt3 = (case bt_get (rt_chans rt2) conn of None \<Rightarrow> rt2
                 | Some ch \<Rightarrow> rt2\<lparr>rt_chans := bt_insert conn (ch\<lparr>ch_open := False\<rparr>) (rt_chans rt2)\<rparr>)
      in router_record ''session.disconnect'' RelayOk (se_account_id se) (se_device_id se)
           (Some (if clean then ''clean'' else ''error'')) rt3)"

end
