(* ===== verification/Relay_World.thy ===== *)
theory Relay_World
  imports Relay_Router Step_Systems
begin

text \<open>
  The relay with its connections, as a system of steps: a device connects (the handshake of
  \<open>handle_connection\<close>, \<open>crates/arreo-relay/src/router.rs\<close>), sends envelopes, is written to and leaves, in
  any order; the operator registers accounts and the periodic sweep runs. The world remembers which
  session and token the task of each connection holds, and every session that was ever authenticated.
\<close>

section \<open>The world\<close>

record relay_world =
  rw_router :: router
  rw_sessions :: "(nat, session \<times> nat) btree"
  rw_authed :: "(session \<times> verifying_key) list"

datatype world_event =
    EvAccount string verifying_key int
  | EvSweep int
  | EvHelloRefused relay_hello
  | EvAuthRefused relay_hello bytes relay_auth int
  | EvConnect nat relay_hello bytes relay_auth int
  | EvEnvelope nat relay_envelope int
  | EvWrite nat nat
  | EvClose nat bool int

inductive relay_step :: "crypto \<Rightarrow> header_codec \<Rightarrow> payload_codec \<Rightarrow> (relay_error \<Rightarrow> string)
    \<Rightarrow> relay_world \<Rightarrow> world_event \<Rightarrow> relay_world \<Rightarrow> bool"
  for C :: crypto and K :: header_codec and P :: payload_codec and reason :: "relay_error \<Rightarrow> string" where
  account: "relay_step C K P reason w (EvAccount acct root now)
    (w\<lparr>rw_router := (rw_router w)\<lparr>rt_store := create_account acct root now (rt_store (rw_router w))\<rparr>\<rparr>)"
| sweep: "relay_step C K P reason w (EvSweep now)
    (w\<lparr>rw_router := (rw_router w)\<lparr>rt_inbox := snd (Relay_Inbox.sweep now (rt_inbox (rw_router w)))\<rparr>\<rparr>)"
| hello_refused: "accept_hello C he (rw_router w) = (Err e, rt) \<Longrightarrow>
    relay_step C K P reason w (EvHelloRefused he) (w\<lparr>rw_router := rt\<rparr>)"
| auth_refused: "accept_hello C he (rw_router w) = (Ok root, rt) \<Longrightarrow>
    authenticate C reason he root nonce auth now rt = (Err e, rt1) \<Longrightarrow>
    relay_step C K P reason w (EvAuthRefused he nonce auth now) (w\<lparr>rw_router := rt1\<rparr>)"
| connect: "accept_hello C he (rw_router w) = (Ok root, rt) \<Longrightarrow>
    authenticate C reason he root nonce auth now rt = (Ok se, rt1) \<Longrightarrow>
    bt_get (rt_chans rt1) conn = None \<Longrightarrow> open_session se conn rt1 = (token, rt2) \<Longrightarrow>
    relay_step C K P reason w (EvConnect conn he nonce auth now)
      \<lparr> rw_router = rt2, rw_sessions = bt_insert conn (se, token) (rw_sessions w),
        rw_authed = (se, root) # rw_authed w \<rparr>"
| envelope: "bt_get (rw_sessions w) conn = Some (se, token) \<Longrightarrow>
    handle_envelope C K P takes se conn e now (rw_router w) = Returns (r, rt) \<Longrightarrow>
    relay_step C K P reason w (EvEnvelope conn e now) (w\<lparr>rw_router := rt\<rparr>)"
| writes: "relay_step C K P reason w (EvWrite conn n) (w\<lparr>rw_router := writer_take conn n (rw_router w)\<rparr>)"
| closes: "bt_get (rw_sessions w) conn = Some (se, token) \<Longrightarrow>
    relay_step C K P reason w (EvClose conn clean now)
      (w\<lparr> rw_router := close_session se conn token clean now (rw_router w),
          rw_sessions := bt_remove conn (rw_sessions w) \<rparr>)"

section \<open>Queues\<close>

definition outq :: "router \<Rightarrow> nat \<Rightarrow> outbound list" where
  "outq rt conn = (case bt_get (rt_chans rt) conn of None \<Rightarrow> [] | Some ch \<Rightarrow> ch_queue ch)"

text \<open>
  \<open>pushes Q rt rt'\<close>: the registry is the same, no queue came or went, and whatever is newly in the queue of
  a connection satisfies \<open>Q\<close>.
\<close>

definition pushes :: "(nat \<Rightarrow> outbound \<Rightarrow> bool) \<Rightarrow> router \<Rightarrow> router \<Rightarrow> bool" where
  "pushes Q rt rt' \<longleftrightarrow> rt_live rt' = rt_live rt \<and> rt_next_token rt' = rt_next_token rt
     \<and> (bt_inv (rt_chans rt) \<longrightarrow> bt_inv (rt_chans rt')
        \<and> (\<forall>c. bt_get (rt_chans rt') c = None \<longleftrightarrow> bt_get (rt_chans rt) c = None)
        \<and> (\<forall>c. \<forall>x \<in> set (outq rt' c). x \<in> set (outq rt c) \<or> Q c x))"

lemma pushes_refl: "pushes Q rt rt"
  by (simp add: pushes_def)

lemma pushes_trans: "pushes Q rt rt1 \<Longrightarrow> pushes Q rt1 rt2 \<Longrightarrow> pushes Q rt rt2"
  by (simp add: pushes_def) blast

lemma pushes_mono: "pushes Q rt rt' \<Longrightarrow> (\<And>c x. Q c x \<Longrightarrow> Q' c x) \<Longrightarrow> pushes Q' rt rt'"
  by (simp add: pushes_def) blast

lemma pushes_fields: "rt_live rt' = rt_live rt \<Longrightarrow> rt_next_token rt' = rt_next_token rt \<Longrightarrow>
    rt_chans rt' = rt_chans rt \<Longrightarrow> pushes Q rt rt'"
  by (simp add: pushes_def outq_def)

lemma outq_insert:
  "bt_inv (rt_chans rt) \<Longrightarrow> outq (rt\<lparr>rt_chans := bt_insert conn ch (rt_chans rt)\<rparr>) c =
     (if c = conn then ch_queue ch else outq rt c)"
  by (simp add: outq_def bt_get_insert)

lemma pushes_insert:
  assumes "bt_get (rt_chans rt) conn = Some ch0" and "\<And>x. x \<in> set (ch_queue ch) \<Longrightarrow> x \<in> set (ch_queue ch0) \<or> Q conn x"
  shows "pushes Q rt (rt\<lparr>rt_chans := bt_insert conn ch (rt_chans rt)\<rparr>)"
  using assms by (auto simp: pushes_def outq_insert bt_get_insert bt_inv_insert) (auto simp: outq_def)

lemma pushes_try_send: "(\<And>x. x = item \<Longrightarrow> Q conn x) \<Longrightarrow> pushes Q rt (snd (try_send conn item rt))"
  by (auto simp: try_send_def pushes_refl split: option.split intro!: pushes_insert)

lemma pushes_reply: "Q conn item \<Longrightarrow> pushes Q rt (reply conn item rt)"
  unfolding reply_def by (rule pushes_try_send) simp

lemma take_items_sub: "set (ch_queue (take_items n ch)) \<subseteq> set (ch_queue ch)"
proof (induction n ch rule: take_items.induct)
  case (2 n ch)
  show ?case
  proof (cases "ch_queue ch")
    case (Cons x q)
    with 2 show ?thesis by (cases x) auto
  qed simp
qed simp

lemma pushes_writer_take: "pushes Q rt (writer_take conn n rt)"
  using take_items_sub by (auto simp: writer_take_def pushes_refl split: option.split intro!: pushes_insert)

lemma pushes_send_batch: "(\<And>raw. Q conn (ORaw raw)) \<Longrightarrow> pushes Q rt (send_batch takes conn i raws rt)"
proof (induction raws arbitrary: i rt)
  case (Cons raw raws)
  let ?rt = "writer_take conn (takes i) rt"
  have "pushes Q rt (snd (try_send conn (ORaw raw) ?rt))"
    by (rule pushes_trans [OF pushes_writer_take pushes_try_send]) (simp add: Cons.prems)
  with Cons show ?case
    by (cases "try_send conn (ORaw raw) ?rt") (auto split: bool.splits intro: pushes_trans)
qed (simp add: pushes_refl)

section \<open>What a handler puts into queues\<close>

definition authentic_for :: "session \<Rightarrow> router \<Rightarrow> nat \<Rightarrow> outbound \<Rightarrow> bool" where
  "authentic_for se rt c x \<longleftrightarrow> (\<forall>e. x = OEnvelope e \<longrightarrow>
     rh_account_id (env_header e) = se_account_id se \<and> rh_kind (env_header e) = KFrame \<and>
     device_id_parse (rh_src_device (env_header e)) = Ok (se_device_id se) \<and>
     (\<exists>dst tok. device_id_parse (rh_dst (env_header e)) = Ok dst \<and>
        bt_get (rt_live rt) (se_account_id se, dst) = Some (c, tok)))"

lemma authentic_for_other [simp]:
  "authentic_for se rt c (OStatus seq oc)" "authentic_for se rt c (ORaw raw)" "authentic_for se rt c (ODrain rep)"
  "authentic_for se rt c (OPeerGone d)" "authentic_for se rt c (ODirectory dr)" "authentic_for se rt c ODisplaced"
  by (simp_all add: authentic_for_def)

lemma decide_Deliver:
  "decide se h rt = Deliver c \<Longrightarrow> rh_account_id h = se_account_id se \<and> rh_kind h = KFrame \<and>
     device_id_parse (rh_src_device h) = Ok (se_device_id se) \<and>
     (\<exists>dst tok. device_id_parse (rh_dst h) = Ok dst \<and> bt_get (rt_live rt) (se_account_id se, dst) = Some (c, tok))"
  by (auto simp: decide_def split: if_splits sum.splits option.splits)

lemma pushes_handle_frame:
  "pushes (authentic_for se rt) rt (snd (handle_frame K se conn e now rt))"
proof -
  define rt1 where "rt1 = rt\<lparr>rt_store := touch_device (se_account_id se) (se_device_id se) now (rt_store rt)\<rparr>"
  have 0: "pushes (authentic_for se rt) rt rt1" by (rule pushes_fields) (simp_all add: rt1_def)
  have st: "pushes (authentic_for se rt) rt (reply conn (OStatus seq oc) r)"
    if "pushes (authentic_for se rt) rt r" for seq oc r
    by (rule pushes_trans [OF that pushes_reply]) simp
  have live: "rt_live rt1 = rt_live rt" by (simp add: rt1_def)
  have del: "pushes (authentic_for se rt) rt (snd (try_send dest (OEnvelope e) rt1))"
    if "decide se (env_header e) rt1 = Deliver dest" for dest
    by (rule pushes_trans [OF 0 pushes_try_send])
      (use decide_Deliver [OF that] live in \<open>auto simp: authentic_for_def\<close>)
  have inb: "pushes (authentic_for se rt) rt (rt1\<lparr>rt_inbox := db\<rparr>)" for db
    by (rule pushes_fields) (simp_all add: rt1_def)
  show ?thesis
    unfolding handle_frame_def Let_def rt1_def [symmetric]
    using 0 del inb by (auto simp: split_def split: decision.splits sum.splits intro!: st)
qed

lemma pushes_handle_drain: "pushes (authentic_for se rt) rt (handle_drain takes se conn req now rt)"
proof -
  obtain d db where d: "drain (se_device_id se) (dq_from_seq req) DEFAULT_DRAIN_LIMIT now (rt_inbox rt) = (d, db)"
    by force
  have "pushes (authentic_for se rt) rt (rt\<lparr>rt_inbox := db\<rparr>)" by (rule pushes_fields) simp_all
  then show ?thesis
    unfolding handle_drain_def d Let_def split_def fst_conv snd_conv
    by (intro pushes_trans [OF _ pushes_reply] pushes_trans [OF _ pushes_writer_take]
        pushes_trans [OF _ pushes_send_batch]) simp_all
qed

lemma pushes_store: "pushes Q rt (rt\<lparr>rt_store := s\<rparr>)"
  by (rule pushes_fields) simp_all

lemma pushes_join: "router_join C se req seq now rt = Returns (rep, rt') \<Longrightarrow> pushes Q rt rt'"
  by (auto simp: router_join_def Let_def pushes_refl pushes_store
      split: if_splits run.splits sum.splits prod.splits)

lemma pushes_rename: "pushes Q rt (snd (router_rename se req seq now rt))"
  by (auto simp: router_rename_def pushes_refl pushes_store split: sum.splits prod.splits)

lemma pushes_remove: "pushes Q rt (snd (router_remove se req seq now rt))"
  by (auto simp: router_remove_def pushes_refl pushes_store split: sum.splits prod.splits)

lemma pushes_prune: "pushes Q rt (snd (router_prune_stale se req seq now rt))"
  by (auto simp: router_prune_stale_def pushes_refl pushes_store split: sum.splits prod.splits)

text \<open>Whatever a device sends, what lands in a queue as an envelope is a frame of its own, for a live route.\<close>

lemma pushes_handle_envelope:
  assumes "handle_envelope C K P takes se conn e now rt = Returns (r, rt')"
  shows "pushes (authentic_for se rt) rt rt'"
proof -
  have rep: "pushes (authentic_for se rt) rt (reply conn x r')"
    if "pushes (authentic_for se rt) rt r'" "authentic_for se rt conn x" for x r'
    by (rule pushes_trans [OF that(1) pushes_reply]) (rule that(2))
  have ack: "pushes (authentic_for se rt) rt (rt\<lparr>rt_inbox := db\<rparr>)" for db
    by (rule pushes_fields) simp_all
  show ?thesis
  proof (cases "rh_kind (env_header e)")
    case KFrame
    with assms pushes_handle_frame [of se rt K conn e now] show ?thesis by (simp add: handle_envelope_def)
  next
    case KDrain
    with assms pushes_handle_drain [of se rt takes conn _ now] show ?thesis
      by (auto simp: handle_envelope_def pushes_refl split: sum.splits)
  next
    case KJoin
    with assms show ?thesis
      by (auto simp: handle_envelope_def pushes_refl split: sum.splits run.splits prod.splits
          intro!: rep intro: pushes_join)
  next
    case KRename
    with assms pushes_rename [of _ rt se _ _ now] show ?thesis
      by (auto simp: handle_envelope_def pushes_refl split_def Let_def split: sum.splits intro!: rep)
  next
    case KRemove
    with assms pushes_remove [of _ rt se _ _ now] show ?thesis
      by (auto simp: handle_envelope_def pushes_refl split_def Let_def split: sum.splits intro!: rep)
  next
    case KStale
    with assms pushes_prune [of _ rt se _ _ now] show ?thesis
      by (auto simp: handle_envelope_def pushes_refl split_def Let_def split: sum.splits intro!: rep)
  qed (use assms ack in \<open>auto simp: handle_envelope_def pushes_refl split: sum.splits intro!: rep\<close>)
qed

section \<open>The registry\<close>

lemma pushes_fold_peer_gone:
  "pushes (\<lambda>_ x. \<exists>d. x = OPeerGone d) rt (fold (\<lambda>conn r. snd (try_send conn (OPeerGone d) r)) conns rt)"
proof (induction conns arbitrary: rt)
  case (Cons c cs)
  have "pushes (\<lambda>_ x. \<exists>d. x = OPeerGone d) rt (snd (try_send c (OPeerGone d) rt))"
    by (rule pushes_try_send) simp
  with Cons [of "snd (try_send c (OPeerGone d) rt)"] show ?case by (simp add: pushes_trans)
qed (simp add: pushes_refl)

definition live_without :: "session \<Rightarrow> nat \<Rightarrow> router \<Rightarrow> (string \<times> string, nat \<times> nat) btree" where
  "live_without se token rt = (if \<exists>c. bt_get (rt_live rt) (session_key se) = Some (c, token)
     then bt_remove (session_key se) (rt_live rt) else rt_live rt)"

lemma deregister_pushes:
  "pushes (\<lambda>_ x. \<exists>d. x = OPeerGone d) (rt\<lparr>rt_live := live_without se token rt\<rparr>) (deregister se token rt)"
proof (cases "\<exists>c. bt_get (rt_live rt) (session_key se) = Some (c, token)")
  case True
  then show ?thesis
    using pushes_fold_peer_gone [of "rt\<lparr>rt_live := bt_remove (session_key se) (rt_live rt)\<rparr>"]
    by (auto simp: deregister_def live_without_def Let_def)
next
  case False
  then have "deregister se token rt = rt"
    by (auto simp: deregister_def Let_def split: option.splits)
  with False show ?thesis by (simp add: live_without_def pushes_refl)
qed

lemma register_pushes:
  "register se conn rt = (token, rt') \<Longrightarrow> token = rt_next_token rt \<and>
     pushes (\<lambda>_ x. x = ODisplaced) (rt\<lparr> rt_next_token := rt_next_token rt + 1,
       rt_live := bt_insert (session_key se) (conn, rt_next_token rt) (rt_live rt) \<rparr>) rt'"
  by (auto simp: register_def Let_def pushes_refl split: option.splits intro!: pushes_try_send)

section \<open>The invariant\<close>

text \<open>A certificate the account's root signed for the key, and a signature of that key over the session.\<close>

definition proved :: "crypto \<Rightarrow> session \<Rightarrow> verifying_key \<Rightarrow> bool" where
  "proved C se root \<longleftrightarrow> se_device_id se = from_key C (se_public_key se) \<and>
     (\<exists>cert :: device_cert. cp_public_key (dc_payload cert) = se_public_key se \<and> cp_device (dc_payload cert) = se_device_id se \<and>
        sig_ok C root (payload_bytes C (dc_payload cert)) (dc_signature cert)) \<and>
     (\<exists>sig. length sig = 64 \<and>
        sig_ok C (se_public_key se) (proof_payload (se_nonce se) (se_account_id se) (se_device_id se)) sig)"

definition genuine :: "(session \<times> verifying_key) list \<Rightarrow> session \<Rightarrow> relay_envelope \<Rightarrow> bool" where
  "genuine authed se e \<longleftrightarrow> rh_account_id (env_header e) = se_account_id se \<and> rh_kind (env_header e) = KFrame \<and>
     device_id_parse (rh_dst (env_header e)) = Ok (se_device_id se) \<and>
     (\<exists>(sender, root) \<in> set authed. se_account_id sender = se_account_id se \<and>
        device_id_parse (rh_src_device (env_header e)) = Ok (se_device_id sender))"

definition world_ok :: "crypto \<Rightarrow> relay_world \<Rightarrow> bool" where
  "world_ok C w \<longleftrightarrow> bt_inv (rt_live (rw_router w)) \<and> bt_inv (rt_chans (rw_router w)) \<and> bt_inv (rw_sessions w) \<and>
     (\<forall>c se t. bt_get (rw_sessions w) c = Some (se, t) \<longrightarrow>
        bt_get (rt_chans (rw_router w)) c \<noteq> None \<and> t < rt_next_token (rw_router w) \<and> se \<in> fst ` set (rw_authed w)) \<and>
     (\<forall>c c' se se' t. bt_get (rw_sessions w) c = Some (se, t) \<longrightarrow> bt_get (rw_sessions w) c' = Some (se', t) \<longrightarrow> c = c') \<and>
     (\<forall>k c t. bt_get (rt_live (rw_router w)) k = Some (c, t) \<longrightarrow>
        (\<exists>se. bt_get (rw_sessions w) c = Some (se, t) \<and> session_key se = k)) \<and>
     (\<forall>c se t e. bt_get (rw_sessions w) c = Some (se, t) \<longrightarrow> OEnvelope e \<in> set (outq (rw_router w) c) \<longrightarrow>
        genuine (rw_authed w) se e) \<and>
     (\<forall>(se, root) \<in> set (rw_authed w). proved C se root)"

lemma world_okD:
  assumes "world_ok C w"
  shows "bt_inv (rt_live (rw_router w))" "bt_inv (rt_chans (rw_router w))" "bt_inv (rw_sessions w)"
    and "bt_get (rw_sessions w) c = Some (se, t) \<Longrightarrow>
      bt_get (rt_chans (rw_router w)) c \<noteq> None \<and> t < rt_next_token (rw_router w) \<and> se \<in> fst ` set (rw_authed w)"
    and "bt_get (rw_sessions w) c = Some (se, t) \<Longrightarrow> bt_get (rw_sessions w) c' = Some (se', t) \<Longrightarrow> c = c'"
    and "bt_get (rt_live (rw_router w)) k = Some (c, t) \<Longrightarrow>
      \<exists>se. bt_get (rw_sessions w) c = Some (se, t) \<and> session_key se = k"
    and "bt_get (rw_sessions w) c = Some (se, t) \<Longrightarrow> OEnvelope e \<in> set (outq (rw_router w) c) \<Longrightarrow>
      genuine (rw_authed w) se e"
    and "(se, root) \<in> set (rw_authed w) \<Longrightarrow> proved C se root"
  using assms unfolding world_ok_def by blast+

text \<open>A step that only puts things into queues, envelopes only as \<open>pushes\<close> allows, keeps the invariant.\<close>

lemma world_ok_pushes:
  assumes w: "world_ok C w" and p: "pushes Q (rw_router w) rt"
    and q: "\<And>c se t e. bt_get (rw_sessions w) c = Some (se, t) \<Longrightarrow> Q c (OEnvelope e) \<Longrightarrow> genuine (rw_authed w) se e"
  shows "world_ok C (w\<lparr>rw_router := rt\<rparr>)"
proof -
  have inv: "bt_inv (rt_chans (rw_router w))" by (rule world_okD [OF w])
  have 1: "rt_live rt = rt_live (rw_router w)" "rt_next_token rt = rt_next_token (rw_router w)"
    "bt_inv (rt_chans rt)" "\<And>c. bt_get (rt_chans rt) c = None \<longleftrightarrow> bt_get (rt_chans (rw_router w)) c = None"
    using p inv by (auto simp: pushes_def)
  have "genuine (rw_authed w) se e" if "bt_get (rw_sessions w) c = Some (se, t)" "OEnvelope e \<in> set (outq rt c)" for c se t e
  proof -
    have "OEnvelope e \<in> set (outq (rw_router w) c) \<or> Q c (OEnvelope e)"
      using p inv that(2) by (auto simp: pushes_def)
    then show ?thesis using that(1) q world_okD(7) [OF w] by blast
  qed
  with 1 w show ?thesis by (simp add: world_ok_def)
qed

lemma world_ok_same: "world_ok C w \<Longrightarrow> rt_live rt = rt_live (rw_router w) \<Longrightarrow>
    rt_next_token rt = rt_next_token (rw_router w) \<Longrightarrow> rt_chans rt = rt_chans (rw_router w) \<Longrightarrow> world_ok C (w\<lparr>rw_router := rt\<rparr>)"
  by (rule world_ok_pushes [where Q = "\<lambda>_ _. False"]) (auto intro: pushes_fields)

lemma genuine_of_authentic:
  assumes w: "world_ok C w" and s: "bt_get (rw_sessions w) conn = Some (se, tok)"
    and c: "bt_get (rw_sessions w) c = Some (se', t)" and a: "authentic_for se (rw_router w) c (OEnvelope e)"
  shows "genuine (rw_authed w) se' e"
proof -
  obtain dst tk where d: "device_id_parse (rh_dst (env_header e)) = Ok dst"
    "bt_get (rt_live (rw_router w)) (se_account_id se, dst) = Some (c, tk)"
    using a by (auto simp: authentic_for_def)
  have "session_key se' = (se_account_id se, dst)" using world_okD(6) [OF w d(2)] c by auto
  moreover obtain root where "(se, root) \<in> set (rw_authed w)"
    using world_okD(4) [OF w s] by force
  ultimately show ?thesis
    using a d(1) by (auto simp: genuine_def authentic_for_def session_key_def)
qed

lemma authenticate_Ok:
  assumes "authenticate C reason he root nonce auth now rt = (Ok se, rt1)"
  shows "proved C se root" "rt_live rt1 = rt_live rt" "rt_chans rt1 = rt_chans rt" "rt_next_token rt1 = rt_next_token rt"
proof -
  obtain d where d: "verify_auth C (he_account_id he) (he_device_id he) root nonce auth = Ok d"
    "se = \<lparr> se_account_id = ad_account_id d, se_device_id = ad_device_id d, se_nonce = nonce, se_public_key = ad_public_key d \<rparr>"
    using assms by (auto simp: authenticate_def Let_def split: sum.splits)
  then obtain cert where c: "cert_public_key C cert = Some (ad_public_key d)"
    "cert_verify C cert root (ad_public_key d) = Ok ()" "ad_device_id d = cp_device (dc_payload cert)"
    "length (au_signature auth) = 64" "ad_account_id d = he_account_id he"
    "sig_ok C (ad_public_key d) (proof_payload nonce (he_account_id he) (ad_device_id d)) (au_signature auth)"
    by (auto simp: verify_auth_def Let_def split: if_splits sum.splits option.splits)
  have "sig_ok C root (payload_bytes C (dc_payload cert)) (dc_signature cert)"
    "cp_public_key (dc_payload cert) = ad_public_key d" "from_key C (ad_public_key d) = cp_device (dc_payload cert)"
    using c(1,2) by (auto simp: cert_verify_def cert_public_key_def Let_def split: if_splits)
  with c d(2) show "proved C se root" by (auto simp: proved_def)
  show "rt_live rt1 = rt_live rt" "rt_chans rt1 = rt_chans rt" "rt_next_token rt1 = rt_next_token rt"
    using assms by (auto simp: authenticate_def router_record_def Let_def split: sum.splits)
qed

lemma accept_hello_same:
  "accept_hello C he rt = (r, rt1) \<Longrightarrow> rt_live rt1 = rt_live rt \<and> rt_chans rt1 = rt_chans rt \<and> rt_next_token rt1 = rt_next_token rt"
  by (auto simp: accept_hello_def router_record_def split: if_splits option.splits)

lemma world_ok_connect:
  assumes w: "world_ok C w" and hello: "accept_hello C he (rw_router w) = (Ok root, rt)"
    and auth: "authenticate C reason he root nonce auth now rt = (Ok se, rt1)"
    and fresh: "bt_get (rt_chans rt1) conn = None" and opn: "open_session se conn rt1 = (token, rt2)"
  shows "world_ok C \<lparr> rw_router = rt2, rw_sessions = bt_insert conn (se, token) (rw_sessions w),
    rw_authed = (se, root) # rw_authed w \<rparr>"
proof -
  note same = accept_hello_same [OF hello] authenticate_Ok(2-4) [OF auth]
  let ?r = "rw_router w" and ?S = "bt_insert conn (se, token) (rw_sessions w)" and ?A = "(se, root) # rw_authed w"
  let ?m = "rt1\<lparr>rt_chans := bt_insert conn \<lparr> ch_queue = [], ch_open = True \<rparr> (rt_chans rt1),
     rt_next_token := rt_next_token rt1 + 1,
     rt_live := bt_insert (session_key se) (conn, rt_next_token rt1) (rt_live rt1)\<rparr>"
  have tok: "token = rt_next_token ?r" and p: "pushes (\<lambda>_ x. x = ODisplaced) ?m rt2"
    using register_pushes [OF opn [unfolded open_session_def]] same by (simp_all add: ac_simps)
  have chans: "bt_inv (rt_chans rt1)" using world_okD(2) [OF w] same by simp
  have get: "bt_get (rw_sessions w) conn = None"
    using world_okD(4) [OF w, of conn] fresh same by (cases "bt_get (rw_sessions w) conn") auto
  have S: "bt_get ?S c = (if c = conn then Some (se, token) else bt_get (rw_sessions w) c)" for c
    using world_okD(3) [OF w] by (simp add: bt_get_insert)
  have live: "rt_live rt2 = bt_insert (session_key se) (conn, token) (rt_live ?r)" "rt_next_token rt2 = rt_next_token ?r + 1"
    and ch2: "bt_inv (rt_chans rt2)" "\<And>c. bt_get (rt_chans rt2) c = None \<longleftrightarrow> (c \<noteq> conn \<and> bt_get (rt_chans ?r) c = None)"
    using p chans same tok by (auto simp: pushes_def bt_inv_insert bt_get_insert)
  have q: "OEnvelope e \<in> set (outq ?r c) \<and> c \<noteq> conn" if "OEnvelope e \<in> set (outq rt2 c)" for c e
  proof -
    have "OEnvelope e \<in> set (outq ?m c)" using p chans that by (auto simp: pushes_def bt_inv_insert)
    then show ?thesis using chans same by (auto simp: outq_def bt_get_insert split: if_splits)
  qed
  have gen: "genuine ?A x e" if "genuine (rw_authed w) x e" for x e
    using that by (auto simp: genuine_def)
  have "\<exists>x. bt_get ?S c = Some (x, t) \<and> session_key x = k" if "bt_get (rt_live rt2) k = Some (c, t)" for k c t
  proof (cases "k = session_key se")
    case True
    with that live(1) world_okD(1) [OF w] have "c = conn" "t = token" by (simp_all add: bt_get_insert)
    with True S [of conn] show ?thesis by simp
  next
    case False
    with that live(1) world_okD(1) [OF w] have "bt_get (rt_live ?r) k = Some (c, t)" by (simp add: bt_get_insert)
    then show ?thesis using world_okD(6) [OF w] get by (fastforce simp: S)
  qed
  moreover have "c = c'" if "bt_get ?S c = Some (x, t)" "bt_get ?S c' = Some (x', t)" for c c' x x' t
  proof (rule ccontr)
    assume ne: "c \<noteq> c'"
    have lt: "t' < token" if "bt_get (rw_sessions w) d = Some (y, t')" for d y t'
      using world_okD(4) [OF w that] tok by simp
    show False
      using ne that world_okD(5) [OF w, of c x t c' x'] lt [of c x t] lt [of c' x' t]
      by (auto simp: S split: if_splits)
  qed
  moreover have "bt_get (rt_chans rt2) c \<noteq> None \<and> t < rt_next_token rt2 \<and> x \<in> fst ` set ?A"
    if "bt_get ?S c = Some (x, t)" for c x t
  proof (cases "c = conn")
    case True
    with that S [of conn] live(2) ch2(2) [of c] tok show ?thesis by simp
  next
    case False
    with that S [of c] have "bt_get (rw_sessions w) c = Some (x, t)" by simp
    from world_okD(4) [OF w this] False live(2) ch2(2) [of c] show ?thesis by auto
  qed
  moreover have "genuine ?A x e" if "bt_get ?S c = Some (x, t)" "OEnvelope e \<in> set (outq rt2 c)" for c x t e
    using that q world_okD(7) [OF w] gen by (auto simp: S split: if_splits)
  moreover have "\<forall>(x, r) \<in> set ?A. proved C x r"
    using authenticate_Ok(1) [OF auth] world_okD(8) [OF w] by auto
  ultimately show ?thesis
    using ch2(1) live(1) world_okD(1,3) [OF w] unfolding world_ok_def
    by (simp add: bt_inv_insert)
qed

lemma world_ok_close:
  assumes w: "world_ok C w" and s: "bt_get (rw_sessions w) conn = Some (se, token)"
  shows "world_ok C (w\<lparr> rw_router := close_session se conn token clean now (rw_router w),
    rw_sessions := bt_remove conn (rw_sessions w) \<rparr>)"
proof -
  let ?r = "rw_router w" and ?S = "bt_remove conn (rw_sessions w)"
  define d where "d = deregister se token ?r"
  define rt where "rt = close_session se conn token clean now ?r"
  have p: "pushes (\<lambda>_ x. \<exists>y. x = OPeerGone y) (?r\<lparr>rt_live := live_without se token ?r\<rparr>) d"
    unfolding d_def by (rule deregister_pushes)
  have inv: "bt_inv (rt_chans ?r)" by (rule world_okD [OF w])
  have d1: "rt_live d = live_without se token ?r" "rt_next_token d = rt_next_token ?r" "bt_inv (rt_chans d)"
    "\<And>c. bt_get (rt_chans d) c = None \<longleftrightarrow> bt_get (rt_chans ?r) c = None"
    using p inv by (auto simp: pushes_def)
  have dq: "OEnvelope e \<in> set (outq ?r c)" if "OEnvelope e \<in> set (outq d c)" for c e
  proof -
    have "outq (?r\<lparr>rt_live := live_without se token ?r\<rparr>) c = outq ?r c" by (simp add: outq_def)
    moreover have "OEnvelope e \<in> set (outq (?r\<lparr>rt_live := live_without se token ?r\<rparr>) c)"
      using p inv that by (auto simp: pushes_def)
    ultimately show ?thesis by simp
  qed
  have rt: "rt_live rt = rt_live d" "rt_next_token rt = rt_next_token d" "bt_inv (rt_chans rt)"
    "\<And>c. bt_get (rt_chans rt) c = None \<longleftrightarrow> bt_get (rt_chans d) c = None" "\<And>c. outq rt c = outq d c"
    using d1(3) by (auto simp: rt_def close_session_def Let_def router_record_def d_def [symmetric] outq_def
        bt_get_insert bt_inv_insert split: option.splits)
  have S: "bt_get ?S c = (if c = conn then None else bt_get (rw_sessions w) c)" for c
    by (simp add: bt_get_remove)
  have "\<exists>x. bt_get ?S c = Some (x, t) \<and> session_key x = k" if "bt_get (rt_live rt) k = Some (c, t)" for k c t
  proof -
    have l: "bt_get (rt_live ?r) k = Some (c, t)"
      "\<not> ((\<exists>c. bt_get (rt_live ?r) (session_key se) = Some (c, token)) \<and> k = session_key se)"
      using that by (auto simp: rt(1) d1(1) live_without_def bt_get_remove split: if_splits)
    obtain x where x: "bt_get (rw_sessions w) c = Some (x, t)" "session_key x = k"
      using world_okD(6) [OF w l(1)] by blast
    have "c \<noteq> conn" using x s l by auto
    with x show ?thesis by (auto simp: S)
  qed
  moreover have "bt_inv (rt_live rt)"
    using world_okD(1) [OF w] by (simp add: rt(1) d1(1) live_without_def bt_inv_remove)
  moreover have "bt_get (rt_chans rt) c \<noteq> None \<and> t < rt_next_token rt \<and> x \<in> fst ` set (rw_authed w)"
    if "bt_get ?S c = Some (x, t)" for c x t
    using that world_okD(4) [OF w] rt(2,4) d1(2,4) by (auto simp: S split: if_splits)
  moreover have "c = c'" if "bt_get ?S c = Some (x, t)" "bt_get ?S c' = Some (x', t)" for c c' x x' t
    using that world_okD(5) [OF w] by (auto simp: S split: if_splits)
  moreover have "genuine (rw_authed w) x e" if "bt_get ?S c = Some (x, t)" "OEnvelope e \<in> set (outq rt c)" for c x t e
    using that world_okD(7) [OF w] dq rt(5) by (auto simp: S split: if_splits)
  ultimately show ?thesis
    using rt(3) world_okD(3) [OF w] world_okD(8) [OF w] unfolding world_ok_def rt_def [symmetric]
    by (auto simp: bt_inv_remove)
qed

lemma world_ok_step:
  assumes "relay_step C K P reason w ev w'" and w: "world_ok C w"
  shows "world_ok C w'"
  using assms(1)
proof cases
  case (hello_refused he e rt)
  with accept_hello_same [OF hello_refused(3)] show ?thesis by (auto intro!: world_ok_same [OF w])
next
  case (auth_refused he root rt nonce auth now e rt1)
  have "rt_live rt1 = rt_live rt \<and> rt_chans rt1 = rt_chans rt \<and> rt_next_token rt1 = rt_next_token rt"
    using auth_refused(4) by (auto simp: authenticate_def router_record_def Let_def split: sum.splits)
  with auth_refused accept_hello_same [OF auth_refused(3)] show ?thesis by (auto intro!: world_ok_same [OF w])
next
  case (connect he root rt nonce auth now se rt1 conn token rt2)
  with world_ok_connect [OF w] show ?thesis by simp
next
  case (envelope conn se token takes e now r rt)
  show ?thesis unfolding envelope(2)
    by (rule world_ok_pushes [OF w pushes_handle_envelope [OF envelope(4)]])
      (rule genuine_of_authentic [OF w envelope(3)])
next
  case (writes conn n)
  show ?thesis unfolding writes(2)
    by (rule world_ok_pushes [OF w pushes_writer_take [where Q = "\<lambda>_ _. False"]]) simp
next
  case (closes conn se token clean now)
  with world_ok_close [OF w] show ?thesis by simp
qed (auto intro!: world_ok_same [OF w])

interpretation relays: guarded_system "relay_step C K P reason" "world_ok C" for C K P reason
  by unfold_locales (rule world_ok_step)

end
