(* ===== verification/Relay_Router_Properties.thy ===== *)
theory Relay_Router_Properties
  imports Relay_World Relay_Directory_Facts Relay_Inbox_Properties
begin

text \<open>
  What the relay promises about the frames it routes: who they come from, that a report about one is
  true, that the newest session of a device holds its route, and that proofs cannot be replayed; and
  three ways it does not do what it means to.
\<close>

section \<open>Envelopes on the wire\<close>

text \<open>
  An envelope within the cap survives the wire: it decodes to itself whatever follows it, every proper
  prefix of it is incomplete and never misread, and a reader gets it however the bytes are cut into chunks
  and keeps exactly the bytes that follow.
\<close>

theorem envelopes_survive_chunking:
  assumes "header_law K" and "rh_v (env_header e) = RELAY_VERSION" and "envelope_encode K e = Ok f"
  shows "envelope_decode K (f @ rest) = Ok (e, length f) \<and> length f \<le> 4 + MAX_ENVELOPE_BYTES \<and>
    (\<forall>k < length f. \<exists>want > k. envelope_decode K (take k f) = Err (WireIncomplete want k)) \<and>
    (\<forall>chunks. concat chunks = f @ rest \<longrightarrow> [] \<notin> set chunks \<longrightarrow>
       (\<exists>buf left. read_envelope K [] chunks = (Ok e, buf, left) \<and> buf @ concat left = rest))"
  using envelope_decode_encoded [OF assms] envelope_length [OF assms(3)] envelope_decode_prefix [OF assms(3)]
    read_envelope_chunks [OF assms, of "[]"]
  by (auto, blast+)

definition demo_header :: relay_header where
  "demo_header = \<lparr> rh_v = 1, rh_account_id = ''acct'', rh_src_device = replicate 32 (CHR ''1''),
     rh_dst = replicate 32 (CHR ''2''), rh_seq = 7, rh_kind = KFrame \<rparr>"

definition demo_envelope :: relay_envelope where
  "demo_envelope = \<lparr> env_header = demo_header, env_payload = [5, 6] \<rparr>"

definition demo_codec :: header_codec where
  "demo_codec = \<lparr> header_to_vec = (\<lambda>h. if h = demo_header then Some [9] else None),
     header_from_read = (\<lambda>bs. case bs of b # _ \<Rightarrow> if b = 9 then Some (demo_header, 1) else None | [] \<Rightarrow> None) \<rparr>"

lemma demo_codec_law: "header_law demo_codec"
  by (auto simp: header_law_def demo_codec_def)

lemma demo_encoded: "envelope_encode demo_codec demo_envelope = Ok [3, 0, 0, 0, 9, 5, 6]"
  by (simp add: envelope_encode_def demo_codec_def demo_envelope_def MAX_ENVELOPE_BYTES_def to_le_bytes_def)

theorem envelopes_survive_chunking_witness:
  "\<exists>buf left. read_envelope demo_codec [] [[3, 0], [0, 0, 9], [5, 6, 1]] = (Ok demo_envelope, buf, left) \<and>
     buf @ concat left = [1]"
  using envelopes_survive_chunking [OF demo_codec_law _ demo_encoded, of "[1]"]
  by (force simp: demo_envelope_def demo_header_def RELAY_VERSION_def)

section \<open>Proofs of possession\<close>

lemma proof_payload_inject:
  assumes "length n = length n'" and "length d = length d'"
  shows "proof_payload n a d = proof_payload n' a' d' \<longleftrightarrow> n = n' \<and> a = a' \<and> d = d'"
proof
  assume e: "proof_payload n a d = proof_payload n' a' d'"
  then have "n @ (0 # as_bytes a @ 0 # as_bytes d) = n' @ (0 # as_bytes a' @ 0 # as_bytes d')"
    by (simp add: proof_payload_def)
  then have "n = n'" and r: "(as_bytes a @ [0]) @ as_bytes d = (as_bytes a' @ [0]) @ as_bytes d'"
    using assms(1) by simp_all
  moreover have "length (as_bytes d) = length (as_bytes d')" using assms(2) by (simp add: as_bytes_def)
  ultimately have "as_bytes a = as_bytes a'" "as_bytes d = as_bytes d'"
    by (auto simp: append_eq_append_conv)
  with \<open>n = n'\<close> show "n = n' \<and> a = a' \<and> d = d'" by (simp add: as_bytes_inject)
qed simp

lemma join_label_differs: "join_proof_payload n a k nm \<noteq> proof_payload n' a' d'"
proof
  assume "join_proof_payload n a k nm = proof_payload n' a' d'"
  then have "take 19 (join_proof_payload n a k nm) = take 19 (proof_payload n' a' d')" by simp
  then show False by (simp add: join_proof_payload_def proof_payload_def as_bytes_def chcode_def)
qed

lemma verify_auth_signed:
  "verify_auth C acct ann root nonce auth = Ok d \<Longrightarrow>
     sig_ok C (ad_public_key d) (proof_payload nonce acct (ad_device_id d)) (au_signature auth) \<and> ad_account_id d = acct"
  by (auto simp: verify_auth_def Let_def split: if_splits sum.splits option.splits)

text \<open>
  C29. A recorded handshake is worthless: if a key only ever signed handshakes of other challenges,
  accounts or devices, and directory joins, then no certificate and no recorded signature opens a session
  for it under a fresh challenge. \<open>signed_by_key\<close> is what the holder of the key signed; that nothing else
  verifies under the key is what ed25519 promises.
\<close>

theorem replayed_proof_is_refused:
  assumes unforgeable: "\<And>p s. sig_ok C key p s \<Longrightarrow> p \<in> signed_by_key"
    and only: "signed_by_key \<subseteq> {proof_payload n a d | n a d. length n = 32 \<and> length d = 32 \<and> (n, a, d) \<noteq> (nonce, acct, dev)}
      \<union> {join_proof_payload n a k nm | n a k nm. True}"
    and "length nonce = 32" and "length dev = 32"
    and d: "ad_public_key d = key" "ad_device_id d = dev"
  shows "verify_auth C acct ann root nonce auth \<noteq> Ok d"
proof
  assume "verify_auth C acct ann root nonce auth = Ok d"
  then have "proof_payload nonce acct dev \<in> signed_by_key"
    using verify_auth_signed d unforgeable by metis
  with only consider (p) n a x where "proof_payload nonce acct dev = proof_payload n a x" "length n = 32" "length x = 32"
      "(n, a, x) \<noteq> (nonce, acct, dev)"
    | (j) n a k nm where "proof_payload nonce acct dev = join_proof_payload n a k nm" by blast
  then show False
  proof cases
    case p
    then show ?thesis using proof_payload_inject [of nonce n dev x acct a] assms(3,4) by simp
  next
    case j
    then show ?thesis using join_label_differs by metis
  qed
qed

definition toy_key :: "byte \<Rightarrow> verifying_key" where
  "toy_key b = replicate 32 b"

definition toy_cert :: "byte \<Rightarrow> device_cert" where
  "toy_cert b = \<lparr> dc_payload = \<lparr> cp_version = 1, cp_device = replicate 32 (hex_digit (unat b mod 16)), cp_public_key = toy_key b,
     cp_name = ''d'', cp_role = Owner, cp_issued_at_ms = 0, cp_serial = 1 \<rparr>, dc_signature = [] \<rparr>"

text \<open>A toy suite: the hash repeats a byte of equal halves, and a signature is good when it is of the right length.\<close>

definition toy_crypto :: "(verifying_key \<Rightarrow> bytes \<Rightarrow> bytes \<Rightarrow> bool) \<Rightarrow> crypto" where
  "toy_crypto ok = \<lparr> sha256 = (\<lambda>k. replicate 32 (17 * hd k)), point_ok = (\<lambda>k. length k = 32), is_weak = (\<lambda>_. False),
     sig_ok = ok, payload_to_vec = (\<lambda>_. Some []), cert_to_vec = (\<lambda>_. None),
     cert_from_slice = (\<lambda>bs. if bs = [1] then Some (toy_cert 1) else if bs = [2] then Some (toy_cert 2) else None) \<rparr>"

theorem replayed_proof_is_refused_witness:
  "verify_auth (toy_crypto (\<lambda>k p s. p = proof_payload (replicate 32 4) ''acct'' (replicate 32 (CHR ''1''))))
     ''acct'' (replicate 32 (CHR ''1'')) [] (replicate 32 3) \<lparr> au_v = 1, au_cert = [1], au_signature = replicate 64 0 \<rparr> \<noteq>
   Ok \<lparr> ad_account_id = ''acct'', ad_device_id = replicate 32 (CHR ''1''), ad_public_key = toy_key 1, ad_cert = toy_cert 1 \<rparr>"
proof -
  let ?p = "proof_payload (replicate 32 4) ''acct'' (replicate 32 (CHR ''1''))"
  have "(replicate 32 4, ''acct'', replicate 32 (CHR ''1'')) \<noteq> (replicate 32 (3 :: byte), ''acct'', replicate 32 (CHR ''1''))"
    by simp
  then have s: "{?p} \<subseteq> {proof_payload n a d | n a d. length n = 32 \<and> length d = 32 \<and> (n, a, d) \<noteq> (replicate 32 3, ''acct'', replicate 32 (CHR ''1''))}
      \<union> {join_proof_payload n a k nm | n a k nm. True}"
    by (smt (verit, del_insts) UnI1 insert_subset length_replicate mem_Collect_eq subset_insertI bot.extremum)
  show ?thesis
    by (rule replayed_proof_is_refused [OF _ s]) (simp_all add: toy_crypto_def)
qed

section \<open>Routed frames\<close>

definition initial_world :: "relay_store \<Rightarrow> inbox_db \<Rightarrow> inbox_limits \<Rightarrow> relay_world" where
  "initial_world s db lim = \<lparr> rw_router = router_new s db lim, rw_sessions = [], rw_authed = [] \<rparr>"

lemma world_ok_initial: "world_ok C (initial_world s db lim)"
  by (simp add: world_ok_def initial_world_def router_new_def)


subsection \<open>A concrete relay\<close>

lemma parse_hex_pairs_hex: "parse_hex_pairs (hex bs) = Some bs"
  by (induction bs) (simp_all add: text_simps)

lemma account_root_registered:
  "bt_inv (st_account s) \<Longrightarrow> length root = 32 \<Longrightarrow>
     store_account_root (create_account acct root now s) acct = Some root"
  by (cases "bt_get (st_account s) acct") (simp_all add: store_account_root_def create_account_def
      set_account_root_def bt_get_insert parse_hex_32_def parse_hex_pairs_hex flip: hex_def)

abbreviation toy :: crypto where
  "toy \<equiv> toy_crypto (\<lambda>_ _ _. True)"

definition toy_device :: "byte \<Rightarrow> device_id" where
  "toy_device b = replicate 32 (hex_digit (unat b mod 16))"

lemma canonical_toy: "canonical_id (toy_device b)"
  by (auto simp: canonical_id_def toy_device_def text_simps)

lemma concat_pairs: "concat (replicate n [d, d]) = replicate (2 * n) d"
  by (induction n) simp_all

lemma toy_from_key: "b = 1 \<or> b = 2 \<Longrightarrow> from_key toy (toy_key b) = toy_device b"
proof -
  assume b: "b = 1 \<or> b = 2"
  have "sha256 toy (toy_key b) = replicate 32 (17 * b)" by (simp add: toy_crypto_def toy_key_def)
  moreover have "fmt_02x (17 * b) = [hex_digit (unat b mod 16), hex_digit (unat b mod 16)]"
    using b by (auto simp: fmt_02x_def)
  ultimately show ?thesis
    using concat_pairs [of 16 "hex_digit (unat b mod 16)"] by (simp add: from_key_def toy_device_def)
qed

definition toy_hello :: "byte \<Rightarrow> relay_hello" where
  "toy_hello b = \<lparr> he_v = 1, he_account_id = ''acct'', he_device_id = toy_device b \<rparr>"

definition toy_auth :: "byte \<Rightarrow> relay_auth" where
  "toy_auth b = \<lparr> au_v = 1, au_cert = [b], au_signature = replicate 64 0 \<rparr>"

definition toy_session :: "byte \<Rightarrow> session" where
  "toy_session b = \<lparr> se_account_id = ''acct'', se_device_id = toy_device b, se_nonce = replicate 32 0,
     se_public_key = toy_key b \<rparr>"

lemma toy_verify:
  assumes "b = 1 \<or> b = 2"
  shows "verify_auth toy ''acct'' (toy_device b) root (replicate 32 0) (toy_auth b) =
    Ok \<lparr> ad_account_id = ''acct'', ad_device_id = toy_device b, ad_public_key = toy_key b, ad_cert = toy_cert b \<rparr>"
proof -
  have 1: "cert_decode toy [b] = Ok (toy_cert b)" "cert_public_key toy (toy_cert b) = Some (toy_key b)"
    using assms by (auto simp: cert_decode_def cert_public_key_def toy_crypto_def toy_cert_def toy_key_def)
  have "cp_device (dc_payload (toy_cert b)) = toy_device b" by (simp add: toy_cert_def toy_device_def)
  moreover have "cert_verify toy (toy_cert b) root (toy_key b) = Ok ()"
    using 1 toy_from_key [OF assms] by (simp add: cert_verify_def toy_cert_def toy_device_def CERT_VERSION_def
        FIRST_SERIAL_def) (simp add: toy_crypto_def)
  ultimately show ?thesis
    using 1 by (simp add: verify_auth_def toy_auth_def RELAY_VERSION_def device_id_parse_canonical [OF canonical_toy])
      (simp add: toy_crypto_def)
qed

definition toy_connected :: "byte \<Rightarrow> router \<Rightarrow> router" where
  "toy_connected b rt = router_record ''session.connect'' RelayOk ''acct'' (toy_device b) None
     (rt\<lparr>rt_store := touch_device ''acct'' (toy_device b) 0 (rt_store rt)\<rparr>)"

lemma toy_authenticate:
  "b = 1 \<or> b = 2 \<Longrightarrow> authenticate toy reason (toy_hello b) root (replicate 32 0) (toy_auth b) 0 rt =
     (Ok (toy_session b), toy_connected b rt)"
  by (simp add: authenticate_def toy_hello_def toy_verify toy_session_def toy_connected_def Let_def)

lemma toy_accept:
  "store_account_root (rt_store rt) ''acct'' = Some (toy_key 7) \<Longrightarrow> accept_hello toy (toy_hello b) rt = (Ok (toy_key 7), rt)"
  by (simp add: accept_hello_def toy_hello_def RELAY_VERSION_def) (simp add: toy_crypto_def toy_key_def)

lemma toy_connect_step:
  assumes "store_account_root (rt_store (rw_router w)) ''acct'' = Some (toy_key 7)" and "b = 1 \<or> b = 2"
    and "bt_get (rt_chans (rw_router w)) conn = None"
  shows "relay_step toy K P reason w (EvConnect conn (toy_hello b) (replicate 32 0) (toy_auth b) 0)
    \<lparr> rw_router = snd (open_session (toy_session b) conn (toy_connected b (rw_router w))),
      rw_sessions = bt_insert conn (toy_session b, rt_next_token (rw_router w)) (rw_sessions w),
      rw_authed = (toy_session b, toy_key 7) # rw_authed w \<rparr>"
proof (rule relay_step.connect [OF toy_accept [OF assms(1)] toy_authenticate [OF assms(2)]])
  show "bt_get (rt_chans (toy_connected b (rw_router w))) conn = None"
    using assms(3) by (simp add: toy_connected_def router_record_def)
  show "open_session (toy_session b) conn (toy_connected b (rw_router w)) =
      (rt_next_token (rw_router w), snd (open_session (toy_session b) conn (toy_connected b (rw_router w))))"
    by (simp add: open_session_def register_def Let_def toy_connected_def router_record_def)
qed

definition toy_limits :: inbox_limits where
  "toy_limits = \<lparr> lim_ttl_ms = 1000, lim_max_messages = 10, lim_max_bytes = 100 \<rparr>"

definition toy_db :: inbox_db where
  "toy_db = \<lparr> db_inbox = [], db_stats = [], db_audit = [] \<rparr>"

definition toy_world0 :: relay_world where
  "toy_world0 = initial_world (create_account ''acct'' (toy_key 7) 0 \<lparr> st_account = [], st_machine = [], st_device = [] \<rparr>)
     toy_db toy_limits"

definition toy_world1 :: relay_world where
  "toy_world1 = \<lparr> rw_router = snd (open_session (toy_session 1) 1 (toy_connected 1 (rw_router toy_world0))),
     rw_sessions = [(1, (toy_session 1, 1))], rw_authed = [(toy_session 1, toy_key 7)] \<rparr>"

definition toy_world2 :: relay_world where
  "toy_world2 = \<lparr> rw_router = snd (open_session (toy_session 2) 2 (toy_connected 2 (rw_router toy_world1))),
     rw_sessions = [(1, (toy_session 1, 1)), (2, (toy_session 2, 2))],
     rw_authed = [(toy_session 2, toy_key 7), (toy_session 1, toy_key 7)] \<rparr>"

lemma toy_devices: "toy_device 1 = replicate 32 (CHR ''1'')" "toy_device 2 = replicate 32 (CHR ''2'')"
proof -
  have "hex_digit 1 = CHR ''1''" "hex_digit 2 = CHR ''2''" by (code_simp, code_simp)
  then show "toy_device 1 = replicate 32 (CHR ''1'')" "toy_device 2 = replicate 32 (CHR ''2'')"
    by (simp_all add: toy_device_def)
qed

lemma toy_device_ne: "toy_device 1 \<noteq> toy_device 2" "toy_device 1 < toy_device 2"
  unfolding toy_devices by (simp_all add: replicate_eq_replicate numeral_eq_Suc less_char_def)

lemma toy_root: "store_account_root (rt_store (rw_router toy_world0)) ''acct'' = Some (toy_key 7)"
  unfolding toy_world0_def initial_world_def router_new_def
  by (simp add: account_root_registered toy_key_def)

lemma toy_router0:
  "rt_live (rw_router toy_world0) = []" "rt_chans (rw_router toy_world0) = []" "rt_next_token (rw_router toy_world0) = 1"
  by (simp_all add: toy_world0_def initial_world_def router_new_def)

lemma toy_router1:
  "rt_live (rw_router toy_world1) = [((''acct'', toy_device 1), (1, 1))]"
  "rt_chans (rw_router toy_world1) = [(1, \<lparr> ch_queue = [], ch_open = True \<rparr>)]"
  "rt_next_token (rw_router toy_world1) = 2"
  "rt_store (rw_router toy_world1) = touch_device ''acct'' (toy_device 1) 0 (rt_store (rw_router toy_world0))"
  by (simp_all add: toy_world1_def open_session_def register_def Let_def toy_connected_def router_record_def
      toy_router0 session_key_def toy_session_def)

lemma toy_router2:
  "rt_live (rw_router toy_world2) = [((''acct'', toy_device 1), (1, 1)), ((''acct'', toy_device 2), (2, 2))]"
  "rt_chans (rw_router toy_world2) = [(1, \<lparr> ch_queue = [], ch_open = True \<rparr>), (2, \<lparr> ch_queue = [], ch_open = True \<rparr>)]"
  "rt_next_token (rw_router toy_world2) = 3"
  "rt_store (rw_router toy_world2) = touch_device ''acct'' (toy_device 2) 0 (rt_store (rw_router toy_world1))"
  using toy_device_ne
  by (simp_all add: toy_world2_def open_session_def register_def Let_def toy_connected_def router_record_def
      toy_router1 session_key_def toy_session_def not_less order.strict_implies_order)

lemma toy_step1: "relay_step toy K P reason toy_world0 (EvConnect 1 (toy_hello 1) (replicate 32 0) (toy_auth 1) 0) toy_world1"
  using toy_connect_step [OF toy_root, of 1 1] toy_router0
  by (simp add: toy_world1_def) (simp add: toy_world0_def initial_world_def router_new_def)

lemma toy_step2: "relay_step toy K P reason toy_world1 (EvConnect 2 (toy_hello 2) (replicate 32 0) (toy_auth 2) 0) toy_world2"
proof -
  have r1: "store_account_root (rt_store (rw_router toy_world1)) ''acct'' = Some (toy_key 7)"
    using toy_root by (simp add: toy_router1 touch_device_def store_account_root_def)
  show ?thesis
    using toy_connect_step [OF r1, of 2 2] toy_router1 by (simp add: toy_world2_def) (simp add: toy_world1_def)
qed

lemma toy_frame_parts:
  "rh_account_id (env_header demo_envelope) = ''acct''" "rh_kind (env_header demo_envelope) = KFrame"
  "rh_src_device (env_header demo_envelope) = toy_device 1" "rh_dst (env_header demo_envelope) = toy_device 2"
  "rh_seq (env_header demo_envelope) = 7"
  by (simp_all add: demo_envelope_def demo_header_def toy_devices)

lemma toy_decide:
  assumes "rt_live rt = rt_live (rw_router toy_world2)" and "bt_get (st_device (rt_store rt)) (''acct'', toy_device 2) \<noteq> None"
  shows "decide (toy_session 1) (env_header demo_envelope) rt = Deliver 2"
  using assms toy_device_ne(1)
  by (auto simp: decide_def toy_frame_parts toy_session_def device_id_parse_canonical [OF canonical_toy] device_known_def
      toy_router2)

definition toy_rt3 :: router where
  "toy_rt3 = (rw_router toy_world2)\<lparr>
     rt_store := touch_device ''acct'' (toy_device 1) 5 (rt_store (rw_router toy_world2)),
     rt_chans := [(1, \<lparr> ch_queue = [OStatus 7 Delivered], ch_open = True \<rparr>),
                  (2, \<lparr> ch_queue = [OEnvelope demo_envelope], ch_open = True \<rparr>)]\<rparr>"

lemma toy_frame: "handle_frame K (toy_session 1) 1 demo_envelope 5 (rw_router toy_world2) = (Ok (), toy_rt3)"
proof -
  let ?s = "touch_device ''acct'' (toy_device 1) 5 (rt_store (rw_router toy_world2))"
  let ?rt = "(rw_router toy_world2)\<lparr>rt_store := ?s\<rparr>"
  have "bt_inv (st_device (rt_store (rw_router toy_world0)))"
    by (simp add: toy_world0_def initial_world_def router_new_def create_account_def set_account_root_def)
  then have "bt_get (st_device ?s) (''acct'', toy_device 2) \<noteq> None"
    by (simp add: touch_device_def toy_router2 toy_router1 bt_get_insert bt_inv_insert)
  then have d: "decide (toy_session 1) (env_header demo_envelope) ?rt = Deliver 2"
    by (intro toy_decide) simp_all
  have ne: "toy_device 2 \<noteq> display_id (toy_device 1)"
    by (simp add: toy_devices display_id_def numeral_eq_Suc)
  have "try_send 2 (OEnvelope demo_envelope) ?rt = (True, ?rt\<lparr>rt_chans :=
      [(1, \<lparr> ch_queue = [], ch_open = True \<rparr>), (2, \<lparr> ch_queue = [OEnvelope demo_envelope], ch_open = True \<rparr>)]\<rparr>)"
    by (simp add: try_send_def toy_router2 OUTBOUND_QUEUE_def)
  with d ne toy_device_ne(1) show ?thesis
    unfolding handle_frame_def Let_def toy_frame_parts
    by (simp add: toy_session_def reply_def try_send_def OUTBOUND_QUEUE_def toy_rt3_def)
qed

lemma toy_frame_step:
  "relay_step toy K P reason toy_world2 (EvEnvelope 1 demo_envelope 5) (toy_world2\<lparr>rw_router := toy_rt3\<rparr>)"
proof (rule relay_step.envelope)
  show "bt_get (rw_sessions toy_world2) 1 = Some (toy_session 1, 1)" by (simp add: toy_world2_def)
  show "handle_envelope toy K P (\<lambda>_. 0) (toy_session 1) 1 demo_envelope 5 (rw_router toy_world2) = Returns (Ok (), toy_rt3)"
    using toy_frame by (simp add: handle_envelope_def toy_frame_parts)
qed



section \<open>Routes\<close>

definition connects_as :: "session \<Rightarrow> world_event \<Rightarrow> bool" where
  "connects_as se ev \<longleftrightarrow> (\<exists>conn he nonce auth now. ev = EvConnect conn he nonce auth now \<and>
     he_account_id he = se_account_id se \<and> device_id_parse (he_device_id he) = Ok (se_device_id se))"

lemma authenticate_names:
  "authenticate C reason he root nonce auth now rt = (Ok se, rt1) \<Longrightarrow>
     he_account_id he = se_account_id se \<and> device_id_parse (he_device_id he) = Ok (se_device_id se)"
  by (auto simp: authenticate_def verify_auth_def Let_def split: if_splits sum.splits option.splits)

lemma open_session_live:
  "open_session se conn rt = (token, rt') \<Longrightarrow> token = rt_next_token rt \<and>
     rt_live rt' = bt_insert (session_key se) (conn, token) (rt_live rt)"
  by (auto simp: open_session_def pushes_def dest!: register_pushes)

lemma close_session_live: "rt_live (close_session se conn token clean now rt) = live_without se token rt"
proof -
  have "rt_live (deregister se token rt) = live_without se token rt"
    using deregister_pushes by (simp add: pushes_def)
  then show ?thesis by (auto simp: close_session_def Let_def router_record_def split: option.split)
qed

lemma route_kept:
  assumes w: "world_ok C w" and step: "relay_step C K P reason w ev w'"
    and route: "bt_get (rt_live (rw_router w)) (session_key se) = Some (conn, token)"
    and ev: "\<not> connects_as se ev" "\<And>clean now. ev \<noteq> EvClose conn clean now"
  shows "bt_get (rt_live (rw_router w')) (session_key se) = Some (conn, token)"
  using step
proof cases
  case (hello_refused he e rt)
  with accept_hello_same [OF hello_refused(3)] route show ?thesis by simp
next
  case (auth_refused he root rt nonce auth now e rt1)
  have "rt_live rt1 = rt_live rt"
    using auth_refused(4) by (auto simp: authenticate_def router_record_def Let_def split: sum.splits)
  with auth_refused accept_hello_same [OF auth_refused(3)] route show ?thesis by simp
next
  case (connect he root rt nonce auth now x rt1 conn' token' rt2)
  have "session_key x \<noteq> session_key se"
    using authenticate_names [OF connect(4)] connect(1) ev(1) by (auto simp: connects_as_def session_key_def)
  moreover have "rt_live rt1 = rt_live (rw_router w)"
    using accept_hello_same [OF connect(3)] authenticate_Ok(2) [OF connect(4)] by simp
  ultimately show ?thesis
    using open_session_live [OF connect(6)] route world_okD(1) [OF w] connect(2) by (auto simp: bt_get_insert)
next
  case (envelope conn' x token' takes e now r rt)
  then have "rt_live rt = rt_live (rw_router w)"
    using pushes_handle_envelope [OF envelope(4)] by (simp add: pushes_def)
  with envelope route show ?thesis by simp
next
  case (writes conn' n)
  have "rt_live (writer_take conn' n (rw_router w)) = rt_live (rw_router w)"
    using pushes_writer_take [of "\<lambda>_ _. True" "rw_router w" conn' n] by (simp add: pushes_def)
  with writes route show ?thesis by simp
next
  case (closes conn' x token' clean now)
  have "conn' \<noteq> conn" using ev(2) closes(1) by blast
  have "\<not> (session_key x = session_key se \<and> token' = token)"
  proof
    assume a: "session_key x = session_key se \<and> token' = token"
    obtain y where "bt_get (rw_sessions w) conn = Some (y, token)" using world_okD(6) [OF w route] by blast
    with closes(3) a world_okD(5) [OF w] \<open>conn' \<noteq> conn\<close> show False by blast
  qed
  then show ?thesis
    using route closes(2) by (auto simp: close_session_live live_without_def bt_get_remove)
qed (use route in simp_all)

text \<open>
  C11. The newest session of a device holds its route: from the moment a session is registered, whatever
  any connection does and however late older connections of the same device wind down, frames for the
  device go to that connection, until it closes itself or the device authenticates again.
\<close>

theorem newest_session_keeps_route:
  assumes "trace (relay_step C K P reason) (initial_world s db lim) evs w"
    and "relay_step C K P reason w (EvConnect conn he nonce auth now) w1"
    and "bt_get (rw_sessions w1) conn = Some (se, token)"
    and "trace (relay_step C K P reason) w1 later w2"
    and "\<forall>ev \<in> set later. \<not> connects_as se ev \<and> (\<forall>clean t. ev \<noteq> EvClose conn clean t)"
  shows "bt_get (rt_live (rw_router w2)) (session_key se) = Some (conn, token)"
proof -
  let ?P = "\<lambda>w. bt_get (rt_live (rw_router w)) (session_key se) = Some (conn, token)"
  have w: "world_ok C w" by (rule relays.trace_inv [OF assms(1) world_ok_initial])
  have w1: "world_ok C w1" by (rule world_ok_step [OF assms(2) w])
  have "?P w1"
    using assms(2)
  proof cases
    case (connect root rt x rt1 tok rt2)
    have "(x, tok) = (se, token)" using assms(3) connect(1) world_okD(3) [OF w] by (simp add: bt_get_insert)
    moreover have "rt_live rt1 = rt_live (rw_router w)"
      using accept_hello_same [OF connect(2)] authenticate_Ok(2) [OF connect(3)] by simp
    ultimately show ?thesis
      using open_session_live [OF connect(5)] world_okD(1) [OF w] connect(1) by (simp add: bt_get_insert)
  qed
  then have "?P w2 \<and> (\<forall>l \<in> set later. True)"
    using route_kept by (intro relays.trace_all [OF assms(4) w1 _ assms(5), where P = ?P]) blast+
  then show ?thesis by simp
qed

theorem newest_session_keeps_route_witness:
  "bt_get (rt_live (rw_router (toy_world2\<lparr>rw_router := toy_rt3\<rparr>))) (session_key (toy_session 2)) = Some (2, 2)"
proof -
  fix K P reason
  have t1: "trace (relay_step toy K P reason) toy_world0 [EvConnect 1 (toy_hello 1) (replicate 32 0) (toy_auth 1) 0] toy_world1"
    by (rule trace_cons, rule toy_step1, rule trace_nil)
  have t2: "trace (relay_step toy K P reason) toy_world2 [EvEnvelope 1 demo_envelope 5] (toy_world2\<lparr>rw_router := toy_rt3\<rparr>)"
    by (rule trace_cons, rule toy_frame_step, rule trace_nil)
  have s: "bt_get (rw_sessions toy_world2) 2 = Some (toy_session 2, 2)" by (simp add: toy_world2_def)
  show ?thesis
    by (rule newest_session_keeps_route [OF t1 [unfolded toy_world0_def] toy_step2 s t2]) (simp add: connects_as_def)
qed

section \<open>Reports\<close>

lemma try_send_room:
  "bt_get (rt_chans rt) conn = Some ch \<Longrightarrow> ch_open ch \<Longrightarrow> length (ch_queue ch) < OUTBOUND_QUEUE \<Longrightarrow>
     try_send conn x rt = (True, rt\<lparr>rt_chans := bt_insert conn (ch\<lparr>ch_queue := ch_queue ch @ [x]\<rparr>) (rt_chans rt)\<rparr>)"
  by (simp add: try_send_def)













text \<open>A machine key of four bytes whose second and third are one character.\<close>

definition split_key :: string where
  "split_key = [CHR ''a'', CHR 0xC3, CHR 0xA9, CHR ''b'']"

definition split_request :: join_request where
  "split_request = \<lparr> jq_v = 1, jq_name = ''m'', jq_proto_version = 1, jq_machine_key = split_key, jq_signature = [] \<rparr>"

definition toy_payloads :: payload_codec where
  "toy_payloads = \<lparr> pd_drain = (\<lambda>_. Some \<lparr> dq_v = 1, dq_from_seq = 0 \<rparr>), pd_ack = (\<lambda>_. None), pd_join = (\<lambda>_. Some split_request),
     pd_machines = (\<lambda>_. None), pd_rename = (\<lambda>_. None), pd_remove = (\<lambda>_. None), pd_stale = (\<lambda>_. None) \<rparr>"


section \<open>Where the router stops short\<close>

lemma hex_bytes_split:
  assumes "is_cont c" and "even (length rest)" and "rest = c # tl rest"
  shows "hex_bytes (a # b # rest) = Panics"
proof -
  obtain js where "step_by_2 (length (a # b # rest)) = 0 # js"
    by (simp add: step_by_2_def upt_conv_Cons del: upt_Suc)
  moreover have "slice (a # b # rest) 0 (Suc (Suc 0)) = Panics"
    using assms(1) by (subst assms(3)) (simp add: slice_def is_char_boundary_def)
  ultimately show ?thesis
    using assms(2) by (simp add: hex_bytes_def)
qed

text \<open>
  C39. A join request can stop the relay: whatever the router's state and whoever holds the session, a
  join whose machine key has a multi-byte character across its third byte, and an even number of bytes,
  panics the relay, because the key is cut into pairs of bytes at positions that are no character
  boundaries before it is checked to be hexadecimal.
\<close>

theorem machine_key_text_panics_relay:
  assumes "rh_kind (env_header e) = KJoin" and "pd_join P (env_payload e) = Some req" and "jq_v req = RELAY_VERSION"
    and "jq_machine_key req = a # b # c # rest" and "is_cont c" and "odd (length rest)"
  shows "handle_envelope C K P takes se conn e now rt = Panics"
proof -
  have "public_from_hex (point_ok C) (jq_machine_key req) = Panics"
    using hex_bytes_split [of c "c # rest"] assms(4-6) by (simp add: public_from_hex_panics_iff)
  then show ?thesis
    using assms(1-3) by (simp add: handle_envelope_def decode_payload_def router_join_def)
qed

theorem machine_key_text_panics_relay_witness:
  "handle_envelope toy demo_codec toy_payloads (\<lambda>_. 0) (toy_session 1) 1
     \<lparr> env_header = demo_header\<lparr>rh_kind := KJoin\<rparr>, env_payload = [] \<rparr> 5 (rw_router toy_world2) = Panics"
proof -
  have "is_cont (CHR 0xA9)" by (simp add: is_cont_def chcode_def)
  then show ?thesis
    by (intro machine_key_text_panics_relay [where req = split_request])
      (simp_all add: toy_payloads_def split_request_def split_key_def RELAY_VERSION_def del: length_Cons, simp)
qed

lemma writer_take_0 [simp]: "bt_inv (rt_chans rt) \<Longrightarrow> bt_get (rt_chans (writer_take conn 0 rt)) c = bt_get (rt_chans rt) c"
  by (auto simp: writer_take_def bt_get_insert split: option.split)

lemma inv_writer_take: "bt_inv (rt_chans rt) \<Longrightarrow> bt_inv (rt_chans (writer_take conn n rt))"
  by (simp add: writer_take_def bt_inv_insert split: option.split)

lemma send_batch_stalled:
  assumes "bt_inv (rt_chans rt)" and "bt_get (rt_chans rt) conn = Some ch" and "ch_open ch"
    and "\<forall>j \<in> {i ..< i + length raws}. takes j = 0"
  shows "bt_inv (rt_chans (send_batch takes conn i raws rt)) \<and> bt_get (rt_chans (send_batch takes conn i raws rt)) conn =
    Some (ch\<lparr>ch_queue := ch_queue ch @ map ORaw (take (OUTBOUND_QUEUE - length (ch_queue ch)) raws)\<rparr>)"
  using assms
proof (induction raws arbitrary: i rt ch)
  case (Cons raw raws)
  let ?rt = "writer_take conn 0 rt"
  have i: "takes i = 0" using Cons.prems(4) by simp
  have inv: "bt_inv (rt_chans ?rt)" "bt_get (rt_chans ?rt) conn = Some ch"
    using Cons.prems(1,2) by (simp_all add: inv_writer_take)
  show ?case
  proof (cases "length (ch_queue ch) < OUTBOUND_QUEUE")
    case True
    let ?ch = "ch\<lparr>ch_queue := ch_queue ch @ [ORaw raw]\<rparr>"
    let ?rt' = "?rt\<lparr>rt_chans := bt_insert conn ?ch (rt_chans ?rt)\<rparr>"
    have "OUTBOUND_QUEUE - length (ch_queue ch) = Suc (OUTBOUND_QUEUE - length (ch_queue ?ch))" using True by simp
    moreover have "send_batch takes conn i (raw # raws) rt = send_batch takes conn (i + 1) raws ?rt'"
      using try_send_room [OF inv(2) Cons.prems(3) True] i by simp
    ultimately show ?thesis
      using Cons.IH [of ?rt' ?ch "i + 1"] Cons.prems(3,4) inv by (simp add: bt_inv_insert bt_get_insert)
  qed (use inv i in \<open>simp add: try_send_def\<close>)
qed simp

text \<open>
  The report of a drain can claim messages that were never sent: a batch of more than 64 messages
  fills the queue of the session, the rest of the batch is dropped, and when the writer makes room just
  then the report still goes out, counting the whole batch as delivered and naming a cursor behind it.
\<close>

theorem drain_report_overstates:
  assumes inv: "bt_inv (rt_chans rt)" and own: "bt_get (rt_chans rt) conn = Some \<lparr> ch_queue = [], ch_open = True \<rparr>"
    and d: "drain (se_device_id se) (dq_from_seq req) DEFAULT_DRAIN_LIMIT now (rt_inbox rt) = (d, db)"
    and many: "OUTBOUND_QUEUE < length (dr_raw d)"
    and takes: "\<forall>i < length (dr_raw d). takes i = 0" "takes (length (dr_raw d)) = 1"
  shows "outq (handle_drain takes se conn req now rt) conn =
      map ORaw (tl (take OUTBOUND_QUEUE (dr_raw d))) @ [ODrain (drain_report_of d)] \<and>
    rp_delivered (drain_report_of d) = length (dr_raw d) \<and> rp_next_seq (drain_report_of d) = dr_next_seq d"
proof -
  define rt1 where "rt1 = send_batch takes conn 0 (dr_raw d) (rt\<lparr>rt_inbox := db\<rparr>)"
  let ?sent = "map ORaw (take OUTBOUND_QUEUE (dr_raw d))"
  have b: "bt_inv (rt_chans rt1)" "bt_get (rt_chans rt1) conn = Some \<lparr> ch_queue = ?sent, ch_open = True \<rparr>"
    using send_batch_stalled [of "rt\<lparr>rt_inbox := db\<rparr>" conn "\<lparr> ch_queue = [], ch_open = True \<rparr>" 0 "dr_raw d" takes]
      inv own takes(1) by (simp_all add: rt1_def)
  obtain raw raws where r: "take OUTBOUND_QUEUE (dr_raw d) = raw # raws"
    using many by (cases "take OUTBOUND_QUEUE (dr_raw d)") (auto simp: OUTBOUND_QUEUE_def)
  moreover have "length (raw # raws) \<le> OUTBOUND_QUEUE" unfolding r [symmetric] by simp
  ultimately have "outq (reply conn (ODrain (drain_report_of d)) (writer_take conn 1 rt1)) conn =
      map ORaw raws @ [ODrain (drain_report_of d)]"
    using b by (simp add: reply_def try_send_def writer_take_def bt_get_insert bt_inv_insert outq_def)
  moreover have "length (dr_messages d) = length (dr_raw d)"
    using d by (auto simp: drain_def Let_def split: prod.splits)
  ultimately show ?thesis
    using d takes(2) r by (simp add: handle_drain_def rt1_def drain_report_of_def Let_def)
qed

definition crowded :: router where
  "crowded = (rw_router toy_world2)\<lparr>rt_inbox := toy_db\<lparr>db_inbox := map (\<lambda>i. \<lparr> ib_device = toy_device 1, ib_seq = int i,
     ib_received_at_ms = 0, ib_expires_at_ms = 100, ib_bytes = [] \<rparr>) [1..<66]\<rparr>\<rparr>"

lemma crowded_raw:
  "dr_raw (fst (drain (toy_device 1) 0 DEFAULT_DRAIN_LIMIT 5 (rt_inbox crowded))) = replicate 65 []"
proof -
  let ?rows = "db_inbox (rt_inbox crowded)"
  have rows: "ib_device r = toy_device 1 \<and> 0 \<le> ib_seq r \<and> unexpired 5 r \<and> ib_bytes r = []" if "r \<in> set ?rows" for r
    using that by (auto simp: crowded_def)
  then have q: "set (queue_of (toy_device 1) ?rows) = set ?rows" "length (queue_of (toy_device 1) ?rows) = 65"
    by (auto simp: queue_of_def rows_of_def) (simp add: crowded_def)
  then have "filter (\<lambda>r. sint (0 :: u64) \<le> ib_seq r) (filter (unexpired 5) (queue_of (toy_device 1) ?rows)) =
      queue_of (toy_device 1) ?rows"
    using rows by (simp add: filter_id_conv)
  then have "dr_raw (fst (drain (toy_device 1) 0 DEFAULT_DRAIN_LIMIT 5 (rt_inbox crowded))) =
      map ib_bytes (queue_of (toy_device 1) ?rows)"
    using q(2) unfolding drain_parts by (simp add: DEFAULT_DRAIN_LIMIT_def comp_def)
  also have "\<dots> = replicate 65 []"
    using q rows by (intro replicate_eqI) auto
  finally show ?thesis .
qed

theorem drain_report_overstates_witness:
  "\<exists>rep. outq (handle_drain (\<lambda>i. if i = 65 then 1 else 0) (toy_session 1) 1 \<lparr> dq_v = 1, dq_from_seq = 0 \<rparr> 5 crowded) 1 =
     replicate 63 (ORaw []) @ [ODrain rep] \<and> rp_delivered rep = 65"
proof -
  obtain d db where d: "drain (toy_device 1) 0 DEFAULT_DRAIN_LIMIT 5 (rt_inbox crowded) = (d, db)" by force
  then have "dr_raw d = replicate 65 []" using crowded_raw by simp
  then show ?thesis
    using drain_report_overstates [of crowded 1 "toy_session 1" "\<lparr> dq_v = 1, dq_from_seq = 0 \<rparr>" 5 d db
        "\<lambda>i. if i = 65 then 1 else 0"] d
    by (simp add: crowded_def toy_router2 bt_inv_Cons toy_session_def OUTBOUND_QUEUE_def tl_replicate)
qed

text \<open>
  A machine that returns is not refreshed: a join with a valid proof, of a machine the account
  already has, is granted and changes nothing but the time it was last seen. Its tombstone, the key it is
  dialled by and its protocol version stay what they were, so a removed machine that comes back stays
  removed and one that paired again is still dialled by its old key.
\<close>

theorem returning_machine_is_not_refreshed:
  assumes ok: "store_ok (rt_store rt)" and now: "is_i64 now"
    and req: "jq_v req = RELAY_VERSION" "public_from_hex (point_ok C) (jq_machine_key req) = Returns (Ok key)"
      "verify_join_proof C key (se_nonce se) (se_account_id se) (jq_machine_key req) (jq_name req) (jq_signature req)"
    and m: "find_machine (machine_id_from_key C key) (st_machine (rt_store rt)) = Some m" "m_account_id m = se_account_id se"
  shows "\<exists>rep rt'. router_join C se req seq now rt = Returns (rep, rt') \<and> dy_refused rep = None \<and>
    find_machine (machine_id_from_key C key) (st_machine (rt_store rt')) = Some (m\<lparr>m_last_seen_ms := now\<rparr>)"
proof -
  let ?mid = "machine_id_from_key C key"
  have ms: "machines_ok (st_machine (rt_store rt))" using ok by (simp add: store_ok_def)
  obtain s where hb: "dir_heartbeat ?mid now (rt_store rt) = (Ok (), s)"
    and s: "find_machine ?mid (st_machine s) = Some (m\<lparr>m_last_seen_ms := now\<rparr>)"
    using dir_heartbeat_eq [OF ms] m(1) find_machine_Some [OF m(1)] by (simp add: find_machine_updated)
  have ms': "machines_ok (st_machine s)" using store_ok_heartbeat [OF ok now, of ?mid] by (simp add: hb store_ok_def)
  have "find (\<lambda>r. mr_machine_id r = ?mid) (map (\<lambda>m. row_view m now) (sort_key m_name_key
      (filter (\<lambda>m. m_account_id m = se_account_id se) (st_machine (rt_store rt))))) \<noteq> None"
    using find_machine_Some [OF m(1)] m(2) by (auto simp: find_None_iff)
  then show ?thesis
    using req s by (simp add: router_join_def Let_def dir_list_ok [OF ms] dir_list_ok [OF ms'] hb grant_def)
qed

definition removed_box :: machine_rec where
  "removed_box = (new_rec (toy_device 1) ''acct'' ''box'' False 3 ''ab'' 1)\<lparr>m_tombstone_until_ms := Some 9\<rparr>"

definition removed_store :: relay_store where
  "removed_store = \<lparr> st_account = [(''acct'', \<lparr> ac_created_at_ms = 0, ac_root_key = None \<rparr>)], st_machine = [removed_box],
     st_device = [] \<rparr>"

definition return_request :: join_request where
  "return_request = \<lparr> jq_v = 1, jq_name = ''box'', jq_proto_version = 4, jq_machine_key = hex (toy_key 1),
     jq_signature = replicate 64 0 \<rparr>"

lemma removed_store_ok: "store_ok removed_store"
proof -
  have "name_ok ''box''"
    by (simp add: name_ok_def name_char_def is_ascii_lowercase_def chcode_def)
  moreover have "list_all is_ascii_hexdigit ''ab''"
    by (simp add: is_ascii_hexdigit_def is_ascii_digit_def chcode_def)
  ultimately have "rec_ok removed_box"
    by (simp add: removed_box_def rec_ok_def new_rec_def canonical_toy is_i64_def i64_min_def i64_max_def)
  then show ?thesis
    by (simp add: removed_store_def store_ok_def machines_ok_def unique_name_keys_def)
      (simp add: removed_box_def new_rec_def bt_inv_Cons)
qed

theorem returning_machine_is_not_refreshed_witness:
  "\<exists>rep rt'. router_join toy (toy_session 2) return_request 8 5 ((rw_router toy_world2)\<lparr>rt_store := removed_store\<rparr>) =
     Returns (rep, rt') \<and> dy_refused rep = None \<and>
     find_machine (toy_device 1) (st_machine (rt_store rt')) = Some (removed_box\<lparr>m_last_seen_ms := 5\<rparr>)"
proof -
  have mid: "machine_id_from_key toy (toy_key 1) = toy_device 1"
    by (simp add: machine_id_from_key_def toy_from_key)
  have "public_from_hex (point_ok toy) (jq_machine_key return_request) = Returns (Ok (toy_key 1))"
    by (simp add: return_request_def public_from_hex_def toy_key_def toy_crypto_def)
  moreover have "verify_join_proof toy (toy_key 1) n a (jq_machine_key return_request) nm (jq_signature return_request)" for n a nm
    by (simp add: verify_join_proof_def verify_bytes_def return_request_def toy_crypto_def)
  moreover have "find_machine (machine_id_from_key toy (toy_key 1)) (st_machine removed_store) = Some removed_box"
    unfolding mid by (simp add: find_machine_def removed_store_def removed_box_def)
  ultimately show ?thesis
    using returning_machine_is_not_refreshed [of "(rw_router toy_world2)\<lparr>rt_store := removed_store\<rparr>" 5 return_request toy "toy_key 1"
        "toy_session 2" removed_box 8] removed_store_ok mid
    by (simp add: return_request_def RELAY_VERSION_def is_i64_def i64_min_def i64_max_def toy_session_def removed_box_def)
qed

end
