(* ===== verification/Mesh_Trust.thy ===== *)
theory Mesh_Trust
  imports Mesh_Directory Identity_Authority "HOL-Library.Product_Lexorder"
begin

text \<open>
  Which device may do what on one machine: the rule of \<open>crates/arreo-core/src/mesh/trust.rs\<close>, the ledger of
  \<open>mesh/ledger.rs\<close> over the table \<open>machine_trust\<close> of \<open>store.rs\<close>, and the two gates every verb of a remote
  session passes in \<open>crates/arreo-server/src/daemon.rs\<close>. The store is passed explicitly, because the daemon and
  the command line open it in their own processes. The audit events are those the ledger appends, oldest
  first. Writes succeed; a read fails exactly when a row does not parse.
\<close>

section \<open>The rule\<close>

record trust_record =
  tr_machine_id :: machine_id
  tr_device_id :: device_id
  tr_role :: role
  tr_granted_at_ms :: int
  tr_granted_by :: device_id
  tr_revoked_at_ms :: "int option"

datatype trust_denial =
    NoGrant verb
  | GrantRevoked device_id machine_id int
  | InsufficientRole device_id machine_id role capability

definition is_live :: "trust_record \<Rightarrow> bool" where
  "is_live r \<longleftrightarrow> tr_revoked_at_ms r = None"

definition permits :: "trust_record \<Rightarrow> verb \<Rightarrow> trust_denial + unit" where
  "permits r v = (case tr_revoked_at_ms r of
      Some at \<Rightarrow> Err (GrantRevoked (tr_device_id r) (tr_machine_id r) at)
    | None \<Rightarrow> (case role_check (tr_role r) v of
        Ok _ \<Rightarrow> Ok ()
      | Err _ \<Rightarrow> Err (InsufficientRole (tr_device_id r) (tr_machine_id r) (tr_role r) (required v))))"

definition evaluate :: "trust_record option \<Rightarrow> verb \<Rightarrow> trust_denial + unit" where
  "evaluate r v = (case r of Some r \<Rightarrow> permits r v | None \<Rightarrow> Err (NoGrant v))"

definition needed_role :: "verb \<Rightarrow> role" where
  "needed_role v = (case required v of Observe \<Rightarrow> Viewer | Control \<Rightarrow> Owner)"

text \<open>The derived \<open>Debug\<close> form of a verb, its name.\<close>

definition verb_debug :: "verb \<Rightarrow> string" where
  "verb_debug v = (case v of
      Hello \<Rightarrow> ''Hello'' | Panes \<Rightarrow> ''Panes'' | Read \<Rightarrow> ''Read'' | Attach \<Rightarrow> ''Attach'' | Wait \<Rightarrow> ''Wait''
    | Metrics \<Rightarrow> ''Metrics'' | Send \<Rightarrow> ''Send'' | Spawn \<Rightarrow> ''Spawn'' | Split \<Rightarrow> ''Split'' | Kill \<Rightarrow> ''Kill''
    | Admin \<Rightarrow> ''Admin'' | Sync \<Rightarrow> ''Sync'')"

definition grant_command :: "string \<Rightarrow> device_id \<Rightarrow> verb \<Rightarrow> string" where
  "grant_command machine device v =
     ''arreo machines trust '' @ display_id device @ '' --machine '' @ machine @ '' --role '' @
     operator_term (needed_role v) @ '' --yes''"

definition denial_message :: "string \<Rightarrow> device_id \<Rightarrow> verb \<Rightarrow> trust_denial \<Rightarrow> string" where
  "denial_message machine device v denial = (let cmd = grant_command machine device v in
     case denial of
       GrantRevoked _ _ _ \<Rightarrow> ''machine '' @ machine @ '' revoked this device'' @ CHR 0x27 # ''s grant, so '' @
         verb_debug v @ '' is refused. Re-grant it with: '' @ cmd
     | InsufficientRole _ _ r _ \<Rightarrow> ''machine '' @ machine @ '' granted this device '' @ operator_term r @
         '', which may not '' @ verb_debug v @ '' (it needs '' @ operator_term (needed_role v) @
         ''). Grant it with: '' @ cmd
     | NoGrant _ \<Rightarrow> ''machine '' @ machine @ '' has no grant for this device, so '' @ verb_debug v @
         '' is refused. Grant it with: '' @ cmd)"

section \<open>The table\<close>

record trust_row =
  tw_role :: string
  tw_granted_at_ms :: int
  tw_granted_by :: string
  tw_revoked_at_ms :: "int option"

record trust_store =
  ts_rows :: "(string \<times> string, trust_row) btree"
  ts_meta :: "string option"
  ts_audit :: "audit_event list"

definition read_trust_row :: "(string \<times> string) \<times> trust_row \<Rightarrow> session_error + trust_record" where
  "read_trust_row entry = (case entry of ((mid, dev), row) \<Rightarrow>
     (case machine_id_parse mid of Err _ \<Rightarrow> Err InvalidQuery | Ok m \<Rightarrow>
     (case device_id_parse dev of Err _ \<Rightarrow> Err InvalidQuery | Ok d \<Rightarrow>
     (case role_parse (tw_role row) of Err _ \<Rightarrow> Err InvalidQuery | Ok r \<Rightarrow>
     (case device_id_parse (tw_granted_by row) of Err _ \<Rightarrow> Err InvalidQuery | Ok by_device \<Rightarrow>
        Ok \<lparr> tr_machine_id = m, tr_device_id = d, tr_role = r, tr_granted_at_ms = tw_granted_at_ms row,
             tr_granted_by = by_device, tr_revoked_at_ms = tw_revoked_at_ms row \<rparr>)))))"

fun read_trust_rows :: "((string \<times> string) \<times> trust_row) list \<Rightarrow> session_error + trust_record list" where
  "read_trust_rows [] = Ok []"
| "read_trust_rows (entry # rest) =
     (case read_trust_row entry of Err e \<Rightarrow> Err e
      | Ok r \<Rightarrow> (case read_trust_rows rest of Err e \<Rightarrow> Err e | Ok rs \<Rightarrow> Ok (r # rs)))"

definition trust_records :: "trust_store \<Rightarrow> session_error + trust_record list" where
  "trust_records s = read_trust_rows (ts_rows s)"

definition record_trust :: "trust_record \<Rightarrow> trust_store \<Rightarrow> trust_store" where
  "record_trust r s = s\<lparr> ts_rows := bt_insert (tr_machine_id r, tr_device_id r)
     \<lparr> tw_role = role_as_str (tr_role r), tw_granted_at_ms = tr_granted_at_ms r,
       tw_granted_by = tr_granted_by r, tw_revoked_at_ms = tr_revoked_at_ms r \<rparr> (ts_rows s) \<rparr>"

definition revoke_trust :: "machine_id \<Rightarrow> device_id \<Rightarrow> int \<Rightarrow> trust_store \<Rightarrow> bool \<times> trust_store" where
  "revoke_trust mid dev at s = (case bt_get (ts_rows s) (mid, dev) of
      None \<Rightarrow> (False, s)
    | Some row \<Rightarrow>
        if tw_revoked_at_ms row = None
        then (True, s\<lparr> ts_rows := bt_insert (mid, dev) (row\<lparr>tw_revoked_at_ms := Some at\<rparr>) (ts_rows s) \<rparr>)
        else (False, s))"

definition trust_initialized :: "trust_store \<Rightarrow> bool" where
  "trust_initialized s \<longleftrightarrow> ts_meta s = Some ''1''"

definition mark_trust_initialized :: "trust_store \<Rightarrow> trust_store" where
  "mark_trust_initialized s = s\<lparr>ts_meta := Some ''1''\<rparr>"

section \<open>The ledger\<close>

record trust_ledger =
  lg_machine :: machine_id
  lg_machine_name :: string

record granted_device =
  gd_device :: device_id
  gd_role :: role
  gd_granted_at_ms :: int
  gd_granted_by :: device_id
  gd_revoked_at_ms :: "int option"

definition granted_is_live :: "granted_device \<Rightarrow> bool" where
  "granted_is_live g \<longleftrightarrow> gd_revoked_at_ms g = None"

definition ledger_devices :: "trust_ledger \<Rightarrow> trust_store \<Rightarrow> session_error + granted_device list" where
  "ledger_devices L s = (case trust_records s of
      Err e \<Rightarrow> Err e
    | Ok rs \<Rightarrow> Ok (sort_key gd_device (map (\<lambda>r. \<lparr> gd_device = tr_device_id r, gd_role = tr_role r,
        gd_granted_at_ms = tr_granted_at_ms r, gd_granted_by = tr_granted_by r,
        gd_revoked_at_ms = tr_revoked_at_ms r \<rparr>) (filter (\<lambda>r. tr_machine_id r = lg_machine L) rs))))"

definition ledger_record :: "trust_ledger \<Rightarrow> device_id \<Rightarrow> trust_store \<Rightarrow> session_error + trust_record option" where
  "ledger_record L dev s = (case trust_records s of
      Err e \<Rightarrow> Err e
    | Ok rs \<Rightarrow> Ok (find (\<lambda>r. tr_machine_id r = lg_machine L \<and> tr_device_id r = dev) rs))"

definition audit_with :: "trust_ledger \<Rightarrow> string \<Rightarrow> device_id \<Rightarrow> string \<Rightarrow> int \<Rightarrow> audit_outcome
    \<Rightarrow> trust_store \<Rightarrow> trust_store" where
  "audit_with L action subject detail now oc s = s\<lparr> ts_audit := ts_audit s @
     [\<lparr> ev_ts_ms = word_of_int (max now 0), ev_action = action, ev_kind = Trust, ev_outcome = oc,
        ev_device = display_id subject, ev_agent = lg_machine_name L, ev_prompt = [], ev_peer = None,
        ev_detail = Some detail \<rparr>] \<rparr>"

definition grant_with_reason :: "trust_ledger \<Rightarrow> device_id \<Rightarrow> role \<Rightarrow> device_id \<Rightarrow> int \<Rightarrow> string
    \<Rightarrow> trust_store \<Rightarrow> trust_record \<times> trust_store" where
  "grant_with_reason L dev r granter now reason s =
     (let rec = \<lparr> tr_machine_id = lg_machine L, tr_device_id = dev, tr_role = r, tr_granted_at_ms = now,
                  tr_granted_by = granter, tr_revoked_at_ms = None \<rparr>
      in (rec, audit_with L ''trust.grant'' dev
           (''machine='' @ lg_machine L @ '' role='' @ operator_term r @ '' by='' @ granter @
            (if reason = [] then [] else '' reason='' @ reason)) now OutcomeOk (record_trust rec s)))"

definition ledger_grant :: "trust_ledger \<Rightarrow> device_id \<Rightarrow> role \<Rightarrow> device_id \<Rightarrow> int \<Rightarrow> trust_store
    \<Rightarrow> trust_record \<times> trust_store" where
  "ledger_grant L dev r granter now s = grant_with_reason L dev r granter now [] s"

definition record_refusal :: "trust_ledger \<Rightarrow> device_id \<Rightarrow> string \<Rightarrow> int \<Rightarrow> trust_store \<Rightarrow> trust_store" where
  "record_refusal L dev detail now s = audit_with L ''trust.refuse'' dev detail now Refused s"

definition ledger_revoke :: "trust_ledger \<Rightarrow> device_id \<Rightarrow> int \<Rightarrow> trust_store \<Rightarrow> bool \<times> trust_store" where
  "ledger_revoke L dev now s =
     (let (cut, s1) = revoke_trust (lg_machine L) dev now s
      in (cut, if cut then audit_with L ''trust.revoke'' dev (''machine='' @ lg_machine L) now OutcomeOk s1 else s1))"

datatype ledger_error = LedgerRefused string | LedgerStore session_error

definition ledger_check :: "trust_ledger \<Rightarrow> device_id \<Rightarrow> verb \<Rightarrow> trust_store \<Rightarrow> ledger_error + unit" where
  "ledger_check L dev v s = (case ledger_record L dev s of
      Err e \<Rightarrow> Err (LedgerStore e)
    | Ok r \<Rightarrow> (case evaluate r v of
        Ok _ \<Rightarrow> Ok ()
      | Err denial \<Rightarrow> Err (LedgerRefused (denial_message (lg_machine_name L) dev v denial))))"

definition has_live_grant :: "trust_ledger \<Rightarrow> device_id \<Rightarrow> trust_store \<Rightarrow> session_error + bool" where
  "has_live_grant L dev s = (case ledger_record L dev s of
      Err e \<Rightarrow> Err e | Ok r \<Rightarrow> Ok (case r of None \<Rightarrow> False | Some r \<Rightarrow> is_live r))"

fun backfill_grants :: "trust_ledger \<Rightarrow> device_id list \<Rightarrow> int \<Rightarrow> trust_store \<Rightarrow> trust_store" where
  "backfill_grants L [] now s = s"
| "backfill_grants L (dev # devs) now s =
     backfill_grants L devs now (snd (grant_with_reason L dev Owner dev now ''backfill'' s))"

definition backfill_once :: "trust_ledger \<Rightarrow> device_id list \<Rightarrow> int \<Rightarrow> trust_store \<Rightarrow> device_id list \<times> trust_store" where
  "backfill_once L existing now s =
     (if trust_initialized s then ([], s)
      else (existing, mark_trust_initialized (backfill_grants L existing now s)))"

text \<open>What the daemon passes at boot: the devices of the authority that may still connect.\<close>

definition boot_existing :: "authority \<Rightarrow> device_id list" where
  "boot_existing a = map rec_id (filter (\<lambda>r. is_ok (may_connect r)) (authority_devices a))"

section \<open>The two gates of a session\<close>

record peer_session =
  pe_device :: device_id
  pe_key :: verifying_key
  pe_refusal_recorded :: bool

datatype gate_denial = CertificateGate verb_denial | LedgerGate ledger_error

definition ledger_error_text :: "string \<Rightarrow> ledger_error \<Rightarrow> string" where
  "ledger_error_text sqlite_text e = (case e of
      LedgerRefused m \<Rightarrow> m
    | LedgerStore _ \<Rightarrow> ''cannot read this machine'' @ CHR 0x27 # ''s trust ledger: '' @ sqlite_text)"

text \<open>\<open>sqlite_text\<close> prints the error of the store, \<open>now\<close> is the clock of both gates.\<close>

definition peer_check :: "crypto \<Rightarrow> string \<Rightarrow> trust_ledger \<Rightarrow> verb \<Rightarrow> int \<Rightarrow> peer_session \<Rightarrow> authority \<Rightarrow> trust_store
    \<Rightarrow> (gate_denial + unit) \<times> peer_session \<times> authority \<times> trust_store" where
  "peer_check C sqlite_text L v now pe a s =
     (case check_verb C (pe_key pe) v now a of
        (Err denial, a1) \<Rightarrow> (Err (CertificateGate denial), pe, a1, s)
      | (Ok _, a1) \<Rightarrow>
          (case ledger_check L (pe_device pe) v s of
             Ok _ \<Rightarrow> (Ok (), pe, a1, s)
           | Err denial \<Rightarrow>
               (Err (LedgerGate denial), pe\<lparr>pe_refusal_recorded := True\<rparr>, a1,
                if pe_refusal_recorded pe then s
                else record_refusal L (pe_device pe) (''machine='' @ lg_machine L @ '' verb='' @ verb_debug v @
                  '' reason='' @ ledger_error_text sqlite_text denial) now s)))"

end
