(* ===== verification/Mesh_Resolve.thy ===== *)
theory Mesh_Resolve
  imports Relay_Router
begin

text \<open>
  The shared configuration file (\<open>crates/arreo-core/src/relay/config.rs\<close>) and the way a client finds a machine
  by its name (\<open>mesh/resolve.rs\<close>). Reading a file, parsing TOML and parsing a socket address are arguments,
  as are the identity on disk and the conversation with the relay: \<open>by_name\<close> gets what each of them
  answered. The three kinds of \<open>ResolveError\<close> are \<open>resolve_kind\<close>; instead of the text of its message an
  error says which one it is.
\<close>

section \<open>The configuration file\<close>

datatype file_read = FileAbsent | FileUnreadable | FileText string

record relay_section =
  rs_enabled :: bool
  rs_addr :: "string option"
  rs_account :: "string option"
  rs_peer :: "string option"
  rs_name :: "string option"

record tui_section =
  tu_reduce_motion :: "bool option"
  tu_exit_kills_daemon :: "bool option"

record worktree_section =
  ws_root :: "string option"
  ws_repo :: "string option"

record config_file =
  cf_relay :: "relay_section option"
  cf_tui :: "tui_section option"
  cf_worktree :: "worktree_section option"

datatype incomplete = NoAddr | BadAddr | NoAccount | BadPeer

datatype config_error = ConfigIo | ConfigParse | ConfigIncomplete incomplete

record 'a relay_settings =
  set_addr :: 'a
  set_account :: string
  set_peer :: "device_id option"
  set_name :: string

definition read_config :: "(string \<Rightarrow> config_file option) \<Rightarrow> file_read \<Rightarrow> config_error + config_file option" where
  "read_config toml f = (case f of
      FileAbsent \<Rightarrow> Ok None
    | FileUnreadable \<Rightarrow> Err ConfigIo
    | FileText text \<Rightarrow> (case toml text of None \<Rightarrow> Err ConfigParse | Some c \<Rightarrow> Ok (Some c)))"

definition not_blank :: "string option \<Rightarrow> string option" where
  "not_blank t = (case t of None \<Rightarrow> None | Some x \<Rightarrow> if trim x = [] then None else Some x)"

definition worktree_load :: "(string \<Rightarrow> config_file option) \<Rightarrow> file_read \<Rightarrow> config_error + string option \<times> string option" where
  "worktree_load toml f = (case read_config toml f of
      Err e \<Rightarrow> Err e
    | Ok None \<Rightarrow> Ok (None, None)
    | Ok (Some c) \<Rightarrow> (case cf_worktree c of
        None \<Rightarrow> Ok (None, None)
      | Some w \<Rightarrow> Ok (not_blank (ws_root w), not_blank (ws_repo w))))"

definition tui_load :: "(string \<Rightarrow> config_file option) \<Rightarrow> file_read \<Rightarrow> config_error + bool option \<times> bool option" where
  "tui_load toml f = (case read_config toml f of
      Err e \<Rightarrow> Err e
    | Ok None \<Rightarrow> Ok (None, None)
    | Ok (Some c) \<Rightarrow> (case cf_tui c of
        None \<Rightarrow> Ok (None, None)
      | Some t \<Rightarrow> Ok (tu_reduce_motion t, tu_exit_kills_daemon t)))"

definition load_section :: "(string \<Rightarrow> 'a option) \<Rightarrow> string \<Rightarrow> relay_section \<Rightarrow> config_error + 'a relay_settings" where
  "load_section parse_socket default_name sec =
     (case rs_addr sec of
        None \<Rightarrow> Err (ConfigIncomplete NoAddr)
      | Some raw \<Rightarrow>
          (case parse_socket raw of
             None \<Rightarrow> Err (ConfigIncomplete BadAddr)
           | Some addr \<Rightarrow>
               (case not_blank (rs_account sec) of
                  None \<Rightarrow> Err (ConfigIncomplete NoAccount)
                | Some acct \<Rightarrow>
                    (case (case rs_peer sec of None \<Rightarrow> Ok None
                           | Some raw \<Rightarrow> map_sum id Some (device_id_parse raw)) of
                       Err _ \<Rightarrow> Err (ConfigIncomplete BadPeer)
                     | Ok peer \<Rightarrow> Ok \<lparr> set_addr = addr, set_account = acct, set_peer = peer,
                         set_name = (case map_option trim (rs_name sec) of
                             Some n \<Rightarrow> if n = [] then default_name else n | None \<Rightarrow> default_name) \<rparr>))))"

definition load_config :: "(string \<Rightarrow> config_file option) \<Rightarrow> (string \<Rightarrow> 'a option) \<Rightarrow> string \<Rightarrow> file_read
    \<Rightarrow> config_error + 'a relay_settings option" where
  "load_config toml parse_socket default_name f = (case read_config toml f of
      Err e \<Rightarrow> Err e
    | Ok None \<Rightarrow> Ok None
    | Ok (Some c) \<Rightarrow> (case cf_relay c of
        None \<Rightarrow> Ok None
      | Some sec \<Rightarrow> if \<not> rs_enabled sec then Ok None
          else map_sum id Some (load_section parse_socket default_name sec)))"

section \<open>Resolving a name\<close>

datatype resolve_kind = Usage | UnknownMachine | UnreachableMachine

datatype resolve_error =
    NoConfigPath
  | BadConfig config_error
  | NoRelayConfigured
  | NoIdentity
  | NoCertificate
  | RelayUnreachable
  | NoAnswer
  | RelayRefusedRequest dir_refusal
  | NoSuchName "name list"
  | NameHeld int
  | NoDialKey
  | BadDialKey key_error
  | NotOnline presence int

definition error_kind :: "resolve_error \<Rightarrow> resolve_kind" where
  "error_kind e = (case e of
      NoConfigPath \<Rightarrow> Usage | BadConfig _ \<Rightarrow> Usage
    | NoSuchName _ \<Rightarrow> UnknownMachine | NameHeld _ \<Rightarrow> UnknownMachine
    | _ \<Rightarrow> UnreachableMachine)"

record 'a resolved =
  rv_relay :: 'a
  rv_account :: string
  rv_peer :: device_id
  rv_server_key :: verifying_key
  rv_device :: bytes
  rv_cert :: device_cert
  rv_name :: name
  rv_presence :: presence
  rv_last_seen_ms :: int

definition resolve_account :: "string option \<Rightarrow> string option \<Rightarrow> (string \<Rightarrow> config_error + 'a relay_settings option)
    \<Rightarrow> resolve_error + 'a \<times> string" where
  "resolve_account config env load =
     (case (case config of Some p \<Rightarrow> Some p | None \<Rightarrow> env) of
        None \<Rightarrow> Err NoConfigPath
      | Some path \<Rightarrow> (case load path of
          Ok (Some st) \<Rightarrow> Ok (set_addr st, set_account st)
        | Ok None \<Rightarrow> Err NoRelayConfigured
        | Err e \<Rightarrow> Err (BadConfig e)))"

text \<open>The key and the certificate on disk: \<open>None\<close> where a file does not load.\<close>

definition own_device :: "bytes option \<Rightarrow> device_cert option \<Rightarrow> resolve_error + bytes \<times> device_cert" where
  "own_device key_file cert_file = (case key_file of
      None \<Rightarrow> Err NoIdentity
    | Some key \<Rightarrow> (case cert_file of None \<Rightarrow> Err NoCertificate | Some cert \<Rightarrow> Ok (key, cert)))"

text \<open>What \<open>by_name\<close> does with the relay's listing: the row to dial and its key.\<close>

definition resolve_row :: "crypto \<Rightarrow> name \<Rightarrow> directory_reply \<Rightarrow> (resolve_error + machine_row \<times> verifying_key) run" where
  "resolve_row C nm rep = (case dy_refused rep of
      Some reason \<Rightarrow> Returns (Err (RelayRefusedRequest reason))
    | None \<Rightarrow>
        (case find (\<lambda>row. mr_name row = nm) (dy_machines rep) of
           None \<Rightarrow> Returns (Err (NoSuchName (map mr_name
             (filter (\<lambda>row. mr_tombstone_until_ms row = None) (dy_machines rep)))))
         | Some row \<Rightarrow>
             (case mr_tombstone_until_ms row of
                Some until \<Rightarrow> Returns (Err (NameHeld until))
              | None \<Rightarrow>
                  (case mr_daemon_key row of
                     None \<Rightarrow> Returns (Err NoDialKey)
                   | Some text \<Rightarrow>
                       (case verifying_key_from_hex (point_ok C) text of
                          Panics \<Rightarrow> Panics
                        | Returns (Err e) \<Rightarrow> Returns (Err (BadDialKey e))
                        | Returns (Ok key) \<Rightarrow>
                            Returns (if mr_presence row \<noteq> Online
                              then Err (NotOnline (mr_presence row) (mr_last_seen_ms row))
                              else Ok (row, key)))))))"

text \<open>\<open>dialed\<close>: what dialing the relay gave, \<open>None\<close> for a failure; inside it, the answer to the request.\<close>

definition by_name :: "crypto \<Rightarrow> name \<Rightarrow> resolve_error + 'a \<times> string \<Rightarrow> resolve_error + bytes \<times> device_cert
    \<Rightarrow> directory_reply option option \<Rightarrow> (resolve_error + 'a resolved) run" where
  "by_name C nm acct own dialed =
     (case acct of Err e \<Rightarrow> Returns (Err e) | Ok (relay, account) \<Rightarrow>
     (case own of Err e \<Rightarrow> Returns (Err e) | Ok (key, cert) \<Rightarrow>
     (case dialed of None \<Rightarrow> Returns (Err RelayUnreachable) | Some None \<Rightarrow> Returns (Err NoAnswer)
      | Some (Some rep) \<Rightarrow>
        (case resolve_row C nm rep of
           Panics \<Rightarrow> Panics
         | Returns (Err e) \<Rightarrow> Returns (Err e)
         | Returns (Ok (row, server_key)) \<Rightarrow> Returns (Ok
             \<lparr> rv_relay = relay, rv_account = account, rv_peer = from_key C server_key,
               rv_server_key = server_key, rv_device = key, rv_cert = cert, rv_name = mr_name row,
               rv_presence = mr_presence row, rv_last_seen_ms = mr_last_seen_ms row \<rparr>)))))"

end
