(* ===== verification/Mesh_Properties.thy ===== *)
theory Mesh_Properties
  imports Mesh_Trust Mesh_Resolve Relay_Directory_Facts Step_Systems "HOL-Library.Sublist"
begin

text \<open>
  What a machine's trust ledger promises about the verbs of a device, and what a client gets when it
  looks up a machine by its name in the listing of the relay.
\<close>

section \<open>The table\<close>

definition trust_entry_ok :: "(string \<times> string) \<times> trust_row \<Rightarrow> bool" where
  "trust_entry_ok entry = (case entry of ((mid, dev), row) \<Rightarrow>
     canonical_id mid \<and> canonical_id dev \<and> canonical_id (tw_granted_by row) \<and> (\<exists>r. tw_role row = role_as_str r))"

definition trust_ok :: "trust_store \<Rightarrow> bool" where
  "trust_ok s \<longleftrightarrow> bt_inv (ts_rows s) \<and> (\<forall>entry \<in> set (ts_rows s). trust_entry_ok entry)"

definition trust_view :: "string \<times> string \<Rightarrow> trust_row \<Rightarrow> trust_record" where
  "trust_view k row = \<lparr> tr_machine_id = fst k, tr_device_id = snd k,
     tr_role = (if tw_role row = role_as_str Owner then Owner else Viewer),
     tr_granted_at_ms = tw_granted_at_ms row, tr_granted_by = tw_granted_by row, tr_revoked_at_ms = tw_revoked_at_ms row \<rparr>"

lemma trust_view_simps [simp]:
  "tr_machine_id (trust_view k row) = fst k" "tr_device_id (trust_view k row) = snd k"
  "tr_revoked_at_ms (trust_view k row) = tw_revoked_at_ms row"
  "tr_role (trust_view k row) = (if tw_role row = role_as_str Owner then Owner else Viewer)"
  by (simp_all add: trust_view_def)

lemma role_as_str_eq [simp]: "role_as_str r = role_as_str r' \<longleftrightarrow> r = r'"
  using role_as_str_inject by blast

lemma read_trust_row_ok: "trust_entry_ok (k, row) \<Longrightarrow> read_trust_row (k, row) = Ok (trust_view k row)"
proof -
  assume k: "trust_entry_ok (k, row)"
  then obtain r where "tw_role row = role_as_str r" by (cases k) (auto simp: trust_entry_ok_def)
  with k show ?thesis
    by (cases k; cases r) (simp_all add: trust_entry_ok_def read_trust_row_def trust_view_def machine_id_parse_canonical
        device_id_parse_canonical role_parse_as_str)
qed

lemma read_trust_rows_ok:
  "\<forall>entry \<in> set rows. trust_entry_ok entry \<Longrightarrow> read_trust_rows rows = Ok (map (\<lambda>(k, row). trust_view k row) rows)"
  by (induction rows) (auto simp: read_trust_row_ok)

lemma find_view:
  "find (\<lambda>r. tr_machine_id r = m \<and> tr_device_id r = d) (map (\<lambda>(k, row). trust_view k row) rows) =
     map_option (trust_view (m, d)) (bt_get rows (m, d))"
  by (induction rows) (auto simp: bt_get_def)

lemma ledger_record_ok:
  "trust_ok s \<Longrightarrow> ledger_record L dev s =
     Ok (map_option (trust_view (lg_machine L, dev)) (bt_get (ts_rows s) (lg_machine L, dev)))"
  by (simp add: ledger_record_def trust_records_def trust_ok_def read_trust_rows_ok find_view)

definition live_role :: "trust_ledger \<Rightarrow> device_id \<Rightarrow> trust_store \<Rightarrow> role option" where
  "live_role L dev s = (case bt_get (ts_rows s) (lg_machine L, dev) of
      None \<Rightarrow> None
    | Some row \<Rightarrow> if tw_revoked_at_ms row = None then Some (if tw_role row = role_as_str Owner then Owner else Viewer) else None)"

lemma evaluate_view:
  "evaluate (map_option (trust_view k) row) v = Ok () \<longleftrightarrow>
     (\<exists>w. row = Some w \<and> tw_revoked_at_ms w = None \<and> role_check (tr_role (trust_view k w)) v = Ok ())"
  by (auto simp: evaluate_def permits_def split: option.splits sum.splits)

lemma ledger_check_Ok_iff:
  assumes "trust_ok s"
  shows "ledger_check L dev v s = Ok () \<longleftrightarrow> (\<exists>r. live_role L dev s = Some r \<and> role_check r v = Ok ())"
  using evaluate_view [of "(lg_machine L, dev)" "bt_get (ts_rows s) (lg_machine L, dev)" v] assms
  by (auto simp: ledger_check_def ledger_record_ok live_role_def split: option.splits sum.splits)

lemma ledger_check_refused:
  assumes "trust_ok s" and "ledger_check L dev v s \<noteq> Ok ()"
  shows "\<exists>denial. evaluate (map_option (trust_view (lg_machine L, dev)) (bt_get (ts_rows s) (lg_machine L, dev))) v = Err denial \<and>
    ledger_check L dev v s = Err (LedgerRefused (denial_message (lg_machine_name L) dev v denial))"
  using assms by (auto simp: ledger_check_def ledger_record_ok split: sum.splits)

section \<open>What the operations change\<close>

lemma trust_ok_insert:
  "trust_ok s \<Longrightarrow> trust_entry_ok (k, row) \<Longrightarrow> trust_ok (s\<lparr>ts_rows := bt_insert k row (ts_rows s)\<rparr>)"
  by (auto simp: trust_ok_def bt_inv_insert set_bt_insert)

lemma audit_with_simps [simp]:
  "ts_rows (audit_with L a d t now oc s) = ts_rows s" "ts_meta (audit_with L a d t now oc s) = ts_meta s"
  "trust_ok (audit_with L a d t now oc s) = trust_ok s" "trust_initialized (audit_with L a d t now oc s) = trust_initialized s"
  "length (ts_audit (audit_with L a d t now oc s)) = length (ts_audit s) + 1"
  "live_role L' d' (audit_with L a d t now oc s) = live_role L' d' s"
  by (simp_all add: audit_with_def trust_ok_def trust_initialized_def live_role_def)

definition granted_row :: "role \<Rightarrow> device_id \<Rightarrow> int \<Rightarrow> trust_row" where
  "granted_row r granter now = \<lparr> tw_role = role_as_str r, tw_granted_at_ms = now, tw_granted_by = granter, tw_revoked_at_ms = None \<rparr>"

lemma grant_rows:
  "ts_rows (snd (grant_with_reason L dev r granter now reason s)) =
     bt_insert (lg_machine L, dev) (granted_row r granter now) (ts_rows s)"
  "ts_meta (snd (grant_with_reason L dev r granter now reason s)) = ts_meta s"
  by (simp_all add: grant_with_reason_def record_trust_def granted_row_def Let_def)

definition ids_ok :: "trust_ledger \<Rightarrow> device_id list \<Rightarrow> bool" where
  "ids_ok L devs \<longleftrightarrow> canonical_id (lg_machine L) \<and> (\<forall>d \<in> set devs. canonical_id d)"

lemma trust_ok_grant:
  assumes "trust_ok s" and "ids_ok L [dev, granter]"
  shows "trust_ok (snd (grant_with_reason L dev r granter now reason s))"
proof -
  have "trust_entry_ok ((lg_machine L, dev), granted_row r granter now)"
    using assms(2) by (auto simp: ids_ok_def trust_entry_ok_def granted_row_def)
  then have "trust_ok (s\<lparr>ts_rows := bt_insert (lg_machine L, dev) (granted_row r granter now) (ts_rows s)\<rparr>)"
    by (rule trust_ok_insert [OF assms(1)])
  then show ?thesis by (simp add: trust_ok_def grant_rows)
qed

lemma live_role_grant:
  assumes "trust_ok s"
  shows "live_role L' d (snd (grant_with_reason L dev r granter now reason s)) =
    (if lg_machine L' = lg_machine L \<and> d = dev then Some r else live_role L' d s)"
  using assms by (cases r) (auto simp: live_role_def grant_rows granted_row_def bt_get_insert trust_ok_def)

lemma revoke_rows:
  "ledger_revoke L dev now s = (hit, s1) \<Longrightarrow> trust_ok s \<Longrightarrow>
     trust_ok s1 \<and> ts_meta s1 = ts_meta s \<and>
     live_role L' d s1 = (if lg_machine L' = lg_machine L \<and> d = dev then None else live_role L' d s)"
proof -
  assume r: "ledger_revoke L dev now s = (hit, s1)" and s: "trust_ok s"
  show ?thesis
  proof (cases "bt_get (ts_rows s) (lg_machine L, dev)")
    case None
    with r s show ?thesis by (auto simp: ledger_revoke_def revoke_trust_def live_role_def)
  next
    case (Some row)
    then have "trust_entry_ok ((lg_machine L, dev), row)"
      using s bt_get_in_set by (fastforce simp: trust_ok_def)
    then have "trust_entry_ok ((lg_machine L, dev), row\<lparr>tw_revoked_at_ms := Some now\<rparr>)" by (simp add: trust_entry_ok_def)
    from trust_ok_insert [OF s this] Some r s show ?thesis
      by (auto simp: ledger_revoke_def revoke_trust_def live_role_def bt_get_insert trust_ok_def split: if_splits)
  qed
qed

lemma backfill_grants_facts:
  "trust_ok s \<Longrightarrow> ids_ok L devs \<Longrightarrow> trust_ok (backfill_grants L devs now s) \<and>
     live_role L' d (backfill_grants L devs now s) =
       (if lg_machine L' = lg_machine L \<and> d \<in> set devs then Some Owner else live_role L' d s)"
proof (induction devs arbitrary: s)
  case (Cons dev devs)
  have "trust_ok (snd (grant_with_reason L dev Owner dev now ''backfill'' s))"
    by (rule trust_ok_grant) (use Cons.prems in \<open>auto simp: ids_ok_def\<close>)
  with Cons.IH [OF this] Cons.prems show ?case by (auto simp: ids_ok_def live_role_grant)
qed simp

section \<open>Every sequence of ledger operations\<close>

datatype trust_op =
    TGrant device_id role device_id string
  | TRevoke device_id
  | TRefuse device_id string
  | TBackfill "device_id list"

fun trust_exec :: "trust_ledger \<Rightarrow> trust_op \<Rightarrow> int \<Rightarrow> trust_store \<Rightarrow> trust_store" where
  "trust_exec L (TGrant dev r granter reason) now s = snd (grant_with_reason L dev r granter now reason s)"
| "trust_exec L (TRevoke dev) now s = snd (ledger_revoke L dev now s)"
| "trust_exec L (TRefuse dev detail) now s = record_refusal L dev detail now s"
| "trust_exec L (TBackfill devs) now s = snd (backfill_once L devs now s)"

fun op_ids :: "trust_op \<Rightarrow> device_id list" where
  "op_ids (TGrant dev r granter reason) = [dev, granter]"
| "op_ids (TRevoke dev) = [dev]"
| "op_ids (TRefuse dev detail) = [dev]"
| "op_ids (TBackfill devs) = devs"

inductive trust_step :: "trust_store \<Rightarrow> trust_ledger \<times> trust_op \<times> int \<Rightarrow> trust_store \<Rightarrow> bool" where
  "ids_ok L (op_ids op) \<Longrightarrow> trust_step s (L, op, now) (trust_exec L op now s)"

inductive_simps trust_step_iff: "trust_step s (L, op, now) s'"

lemma trust_ok_mark [simp]: "trust_ok (mark_trust_initialized s) = trust_ok s"
  "live_role L d (mark_trust_initialized s) = live_role L d s"
  by (simp_all add: trust_ok_def mark_trust_initialized_def live_role_def)

lemma trust_ok_exec: "trust_ok s \<Longrightarrow> ids_ok L (op_ids op) \<Longrightarrow> trust_ok (trust_exec L op now s)"
proof (cases op)
  case (TRevoke dev)
  assume "trust_ok s"
  then show ?thesis using TRevoke revoke_rows [of L dev now s] by (cases "ledger_revoke L dev now s") auto
qed (auto simp: trust_ok_grant record_refusal_def backfill_once_def backfill_grants_facts)

interpretation trusts: guarded_system trust_step trust_ok
proof
  fix s s' :: trust_store and l :: "trust_ledger \<times> trust_op \<times> int"
  assume "trust_ok s" and "trust_step s l s'"
  then show "trust_ok s'" by (cases l) (auto simp: trust_step_iff trust_ok_exec)
qed

text \<open>Whether a label grants the device something on the machine.\<close>

definition grants :: "trust_ledger \<Rightarrow> device_id \<Rightarrow> trust_ledger \<times> trust_op \<times> int \<Rightarrow> bool" where
  "grants L dev l = (case l of (L', op, _) \<Rightarrow> lg_machine L' = lg_machine L \<and>
     (case op of TGrant d _ _ _ \<Rightarrow> d = dev | _ \<Rightarrow> False))"

lemma live_role_exec:
  assumes "trust_ok s" and "ids_ok L' (op_ids op)" and "trust_initialized s" and "\<not> grants L dev (L', op, now)"
    and "live_role L dev s = None"
  shows "live_role L dev (trust_exec L' op now s) = None \<and> trust_initialized (trust_exec L' op now s)"
proof (cases op)
  case (TRevoke d)
  then show ?thesis
    using assms revoke_rows [of L' d now s] by (cases "ledger_revoke L' d now s") (auto simp: trust_initialized_def)
qed (use assms in \<open>auto simp: live_role_grant grants_def record_refusal_def backfill_once_def
    trust_initialized_def grant_rows\<close>)

text \<open>
  C5. A grant that was cut stays cut: once an initialised ledger has cut the grant of a device, then
  whatever the console, pairings, other sessions and a restarted daemon write, for this or any other
  machine, every verb of the device is refused on this machine with a message an operator can act on,
  until somebody grants the device something on this machine again. That holds for the session of the
  device too, whatever its certificate says.
\<close>

theorem cut_grant_stays_cut:
  assumes "trust_ok s" and "trust_initialized s" and "ledger_revoke L dev now s = (hit, s1)"
    and "trace trust_step s1 later s2" and "\<forall>l \<in> set later. \<not> grants L dev l"
  shows "(\<exists>m. ledger_check L dev v s2 = Err (LedgerRefused m)) \<and>
    (pe_device pe = dev \<longrightarrow> fst (peer_check C sq L v t pe a s2) \<noteq> Ok ())"
proof -
  let ?P = "\<lambda>s. live_role L dev s = None \<and> trust_initialized s"
  have s1: "trust_ok s1" "?P s1" using revoke_rows [OF assms(3,1)] assms(2) by (simp_all add: trust_initialized_def)
  have keep: "?P s' \<and> True" if "trust_ok s" "?P s" "\<not> grants L dev l" "trust_step s l s'" for s l s'
    using that live_role_exec by (cases l) (auto simp: trust_step_iff)
  have "?P s2 \<and> (\<forall>l \<in> set later. True)"
    by (rule trusts.trace_all [OF assms(4) s1(1), where P = ?P, OF s1(2) assms(5) keep])
  moreover have s2: "trust_ok s2" by (rule trusts.trace_inv [OF assms(4) s1(1)])
  ultimately have "ledger_check L dev v s2 \<noteq> Ok ()" by (simp add: ledger_check_Ok_iff)
  then have r: "\<exists>m. ledger_check L dev v s2 = Err (LedgerRefused m)"
    using ledger_check_refused [OF s2] by blast
  then show ?thesis
    by (auto simp: peer_check_def split: prod.splits sum.splits)
qed

text \<open>
  C26. A grant is exactly one grant: afterwards the device passes the ledger for exactly the verbs of the
  role, so the role that a refusal recommends is enough for the refused verb and no lower one is; and no
  other device, and no other machine over the same store, is affected for any verb.
\<close>

theorem grant_is_exact:
  assumes "trust_ok s" and "ids_ok L [dev, granter]" and "ledger_grant L dev r granter now s = (rec, s1)"
  shows "(ledger_check L dev v s1 = Ok () \<longleftrightarrow> r = Owner \<or> r = needed_role v) \<and>
    ((lg_machine L', dev') \<noteq> (lg_machine L, dev) \<longrightarrow>
      ledger_check L' dev' v' s1 = ledger_check L' dev' v' s) \<and>
    (\<exists>m. ledger_check L dev v s = Err (LedgerRefused (m @ grant_command (lg_machine_name L) dev v)) \<or>
         ledger_check L dev v s = Ok ())"
proof -
  have s1: "s1 = snd (grant_with_reason L dev r granter now [] s)" using assms(3) by (simp add: ledger_grant_def)
  have ok: "trust_ok s1" unfolding s1 by (rule trust_ok_grant [OF assms(1,2)])
  have "live_role L dev s1 = Some r" unfolding s1 live_role_grant [OF assms(1)] by simp
  then have 1: "ledger_check L dev v s1 = Ok () \<longleftrightarrow> r = Owner \<or> r = needed_role v"
    using ledger_check_Ok_iff [OF ok] by (cases "required v"; cases r) (auto simp: role_check_Ok_iff needed_role_def)
  have 2: "ledger_check L' dev' v' s1 = ledger_check L' dev' v' s" if "(lg_machine L', dev') \<noteq> (lg_machine L, dev)"
  proof -
    have "bt_get (ts_rows s1) (lg_machine L', dev') = bt_get (ts_rows s) (lg_machine L', dev')"
      using that assms(1) unfolding s1 grant_rows trust_ok_def by (auto simp: bt_get_insert)
    then show ?thesis by (simp add: ledger_check_def ledger_record_ok ok assms(1))
  qed
  have "suffix (grant_command (lg_machine_name L) dev v) (denial_message (lg_machine_name L) dev v denial)" for denial
    unfolding denial_message_def Let_def
    by (cases denial; simp only: trust_denial.case; intro suffix_appendI suffix_ConsI suffix_order.refl)
  then have "\<exists>m. denial_message (lg_machine_name L) dev v denial = m @ grant_command (lg_machine_name L) dev v" for denial
    by (auto simp: suffix_def)
  then have 3: "\<exists>m. ledger_check L dev v s = Err (LedgerRefused (m @ grant_command (lg_machine_name L) dev v)) \<or>
      ledger_check L dev v s = Ok ()"
    using ledger_check_refused [OF assms(1)] by metis
  from 1 2 3 show ?thesis by blast
qed

text \<open>
  C40. The first start of the daemon restores access that was taken away: grants are written and cut from
  the command line without a daemon, and the daemon's one-time backfill, as long as it has not run,
  writes a live operator grant for every device that may connect, also over one that was cut or was for
  a viewer.
\<close>

theorem backfill_restores_cut_grant:
  assumes "trust_ok s" and "ids_ok L (boot_existing a)" and "\<not> trust_initialized s"
    and "dev \<in> set (boot_existing a)" and "ledger_revoke L dev t s = (hit, s1)"
  shows "ledger_check L dev v s1 \<noteq> Ok () \<and> ledger_check L dev v (snd (backfill_once L (boot_existing a) now s1)) = Ok ()"
proof -
  have s1: "trust_ok s1" "live_role L dev s1 = None" "\<not> trust_initialized s1"
    using revoke_rows [OF assms(5,1)] assms(3) by (simp_all add: trust_initialized_def)
  have "trust_ok (backfill_grants L (boot_existing a) now s1)"
    "live_role L dev (backfill_grants L (boot_existing a) now s1) = Some Owner"
    using backfill_grants_facts [OF s1(1) assms(2)] assms(4) by simp_all
  then show ?thesis
    using s1 by (simp add: ledger_check_Ok_iff role_check_Ok_iff backfill_once_def)
qed

section \<open>A concrete ledger\<close>

definition demo_ledger :: trust_ledger where
  "demo_ledger = \<lparr> lg_machine = replicate 32 (CHR ''2''), lg_machine_name = ''pi'' \<rparr>"

definition demo_phone :: device_id where
  "demo_phone = replicate 32 (CHR ''1'')"

definition demo_trust :: "string option \<Rightarrow> trust_store" where
  "demo_trust meta = \<lparr> ts_rows = [((lg_machine demo_ledger, demo_phone), granted_row Viewer demo_phone 1)],
     ts_meta = meta, ts_audit = [] \<rparr>"

lemma canonical_digits: "is_ascii_digit c \<Longrightarrow> canonical_id (replicate 32 c)"
  by (auto simp: canonical_id_def is_ascii_hexdigit_def is_ascii_digit_def ascii_lower_def chcode_def)

lemma demo_ids: "canonical_id demo_phone" "canonical_id (lg_machine demo_ledger)"
  by (simp_all add: demo_phone_def demo_ledger_def canonical_digits is_ascii_digit_def chcode_def)

lemma demo_trust_ok: "trust_ok (demo_trust meta)"
  using demo_ids by (auto simp: trust_ok_def demo_trust_def trust_entry_ok_def granted_row_def bt_inv_Cons)

theorem cut_grant_stays_cut_witness:
  "\<exists>m. ledger_check demo_ledger demo_phone Hello
     (trust_exec demo_ledger (TBackfill [demo_phone]) 9 (snd (ledger_revoke demo_ledger demo_phone 5 (demo_trust (Some ''1''))))) =
     Err (LedgerRefused m)"
proof -
  let ?s1 = "snd (ledger_revoke demo_ledger demo_phone 5 (demo_trust (Some ''1'')))"
  have i: "trust_initialized (demo_trust (Some ''1''))" by (simp add: trust_initialized_def demo_trust_def)
  have t: "trace trust_step ?s1 [(demo_ledger, TBackfill [demo_phone], 9)] (trust_exec demo_ledger (TBackfill [demo_phone]) 9 ?s1)"
    using demo_ids by (auto simp: trace_Cons_iff trust_step_iff ids_ok_def)
  obtain hit where h: "ledger_revoke demo_ledger demo_phone 5 (demo_trust (Some ''1'')) = (hit, ?s1)"
    by (metis prod.collapse)
  show ?thesis
    using cut_grant_stays_cut [OF demo_trust_ok i h t, of Hello] by (simp add: grants_def)
qed

theorem grant_is_exact_witness:
  "ledger_check demo_ledger demo_phone Send (snd (ledger_grant demo_ledger demo_phone Owner demo_phone 7 (demo_trust None))) = Ok () \<and>
   ledger_check demo_ledger demo_phone Send (snd (ledger_grant demo_ledger demo_phone Viewer demo_phone 7 (demo_trust None))) \<noteq> Ok ()"
proof -
  have g: "ledger_grant demo_ledger demo_phone r demo_phone 7 (demo_trust None) =
      (fst (ledger_grant demo_ledger demo_phone r demo_phone 7 (demo_trust None)),
       snd (ledger_grant demo_ledger demo_phone r demo_phone 7 (demo_trust None)))" for r by simp
  have i: "ids_ok demo_ledger [demo_phone, demo_phone]" using demo_ids by (simp add: ids_ok_def)
  show ?thesis
    using grant_is_exact [OF demo_trust_ok i g, of Send] by (simp add: needed_role_def required_def)
qed

text \<open>An authority that pinned the phone.\<close>

definition demo_authority :: authority where
  "demo_authority = \<lparr> au_root = [], au_files = [], au_store = [], au_audit = [],
     au_index = \<lparr> ix_devices = [(demo_phone, (\<lparr> rec_id = demo_phone, rec_name = ''phone'', rec_role = Viewer,
       rec_public_key = [], rec_serial = 1, rec_issued_at_ms = 0, rec_last_seen_ms = None, rec_revoked = False,
       rec_revoked_at_ms = None, rec_revoked_by = None, rec_retired_to = None \<rparr>,
       \<lparr> dc_payload = \<lparr> cp_version = 1, cp_device = demo_phone, cp_public_key = [], cp_name = ''phone'', cp_role = Viewer,
         cp_issued_at_ms = 0, cp_serial = 1 \<rparr>, dc_signature = [] \<rparr>))], ix_retired = [] \<rparr>, au_certs = [] \<rparr>"

lemma demo_boot: "boot_existing demo_authority = [demo_phone]"
  by (simp add: boot_existing_def authority_devices_def demo_authority_def may_connect_def is_ok_def
      store_devices_or_default_def store_devices_def bt_values_def index_iter_def)

theorem backfill_restores_cut_grant_witness:
  "ledger_check demo_ledger demo_phone Kill
     (snd (backfill_once demo_ledger (boot_existing demo_authority) 9
       (snd (ledger_revoke demo_ledger demo_phone 5 (demo_trust None))))) = Ok ()"
proof -
  obtain hit s1 where h: "ledger_revoke demo_ledger demo_phone 5 (demo_trust None) = (hit, s1)" by force
  have "ids_ok demo_ledger (boot_existing demo_authority)" using demo_ids by (simp add: ids_ok_def demo_boot)
  moreover have "\<not> trust_initialized (demo_trust None)" by (simp add: trust_initialized_def demo_trust_def)
  ultimately show ?thesis
    using backfill_restores_cut_grant [OF demo_trust_ok _ _ _ h, of demo_authority Kill 9] by (simp add: h demo_boot)
qed

section \<open>Looking up a machine by name\<close>

lemma find_first_None:
  "sorted (map f xs) \<Longrightarrow> x \<in> set xs \<Longrightarrow> P x \<Longrightarrow> f x = None \<Longrightarrow> \<exists>y. find P xs = Some y \<and> y \<in> set xs \<and> P y \<and> f y = None"
  for f :: "'a \<Rightarrow> 'b :: linorder option"
proof (induction xs)
  case (Cons a xs)
  then show ?case by (cases "P a"; cases "x = a") (auto, metis less_eq_option_None_is_None)
qed simp

lemma find_only: "m \<in> set xs \<Longrightarrow> (\<And>x. x \<in> set xs \<Longrightarrow> P x \<longleftrightarrow> x = m) \<Longrightarrow> find P xs = Some m"
  by (induction xs) auto

lemma find_map_view: "find (\<lambda>row. mr_name row = nm) (map (\<lambda>m. row_view m now) ms) =
    map_option (\<lambda>m. row_view m now) (find (\<lambda>m. m_name m = nm) ms)"
  by (induction ms) auto

lemma listing:
  assumes "machines_ok (st_machine (rt_store rt))"
  shows "router_machines se True seq now rt = answer seq (map (\<lambda>m. row_view m now)
    (sort_key m_name_key (filter (\<lambda>m. m_account_id m = se_account_id se) (st_machine (rt_store rt)))))"
  using assms by (simp add: router_machines_def dir_list_ok)

text \<open>
  A name that changed hands cannot be looked up: when a machine's tombstone ran out and another
  machine of the account took its name, the relay resolves the name to the new machine, but every client
  is told that the name is unknown and still held, because the old row comes first in the listing and
  the lookup takes the first row of that name.
\<close>

theorem reclaimed_name_is_unknown_to_clients:
  assumes "store_ok (rt_store rt)" and "old \<in> set (st_machine (rt_store rt))" and "m_account_id old = se_account_id se"
    and "m_name old = nm" and "m_name_key old = None" and "dir_resolve (rt_store rt) (se_account_id se) nm = Ok (Some mid)"
  shows "\<exists>until. by_name C nm (Ok (relay, se_account_id se)) (Ok own) (Some (Some (router_machines se True seq now rt))) =
    Returns (Err (NameHeld until)) \<and> error_kind (NameHeld until) = UnknownMachine"
proof -
  let ?ms = "sort_key m_name_key (filter (\<lambda>m. m_account_id m = se_account_id se) (st_machine (rt_store rt)))"
  have ms: "machines_ok (st_machine (rt_store rt))" using assms(1) by (simp add: store_ok_def)
  have "sorted (map m_name_key ?ms)" "old \<in> set ?ms" using assms(2,3) by simp_all
  from find_first_None [OF this, of "\<lambda>m. m_name m = nm"] assms(4,5)
  obtain m where m: "find (\<lambda>m. m_name m = nm) ?ms = Some m" "m \<in> set (st_machine (rt_store rt))" "m_name_key m = None"
    by auto
  then obtain until where "m_tombstone_until_ms m = Some until" using ms by (auto simp: machines_ok_def rec_ok_def)
  then have "resolve_row C nm (router_machines se True seq now rt) = Returns (Err (NameHeld until))"
    using m(1) by (simp add: resolve_row_def listing [OF ms] answer_def find_map_view)
  then show ?thesis by (cases own) (simp add: by_name_def error_kind_def)
qed

text \<open>
  C27. Otherwise a lookup refines the directory: when no released row carries the name, a client that
  reaches the relay dials exactly the machine the name resolves to, with the key of its row, and only
  when that machine has no tombstone and is online; in every other case the error says which of these is missing.
\<close>

theorem lookup_refines_directory:
  assumes ok: "store_ok (rt_store rt)"
    and none: "\<And>m. m \<in> set (st_machine (rt_store rt)) \<Longrightarrow> m_account_id m = se_account_id se \<Longrightarrow> m_name m = nm \<Longrightarrow> m_name_key m \<noteq> None"
  shows "resolve_row C nm (router_machines se True seq now rt) =
    (case holder_of (st_machine (rt_store rt)) (se_account_id se) nm of
       None \<Rightarrow> Returns (Err (NoSuchName (map m_name (filter (\<lambda>m. m_tombstone_until_ms m = None) (sort_key m_name_key
         (filter (\<lambda>m. m_account_id m = se_account_id se) (st_machine (rt_store rt))))))))
     | Some m \<Rightarrow> (case m_tombstone_until_ms m of
         Some until \<Rightarrow> Returns (Err (NameHeld until))
       | None \<Rightarrow> (case m_daemon_key m of
           None \<Rightarrow> Returns (Err NoDialKey)
         | Some text \<Rightarrow> (case verifying_key_from_hex (point_ok C) text of
             Panics \<Rightarrow> Panics
           | Returns (Err e) \<Rightarrow> Returns (Err (BadDialKey e))
           | Returns (Ok key) \<Rightarrow> Returns
               (if presence_of (m_last_seen_ms m) now \<noteq> Online
                then Err (NotOnline (presence_of (m_last_seen_ms m) now) (m_last_seen_ms m))
                else Ok (row_view m now, key))))))"
proof -
  let ?acct = "se_account_id se"
  let ?ms = "sort_key m_name_key (filter (\<lambda>m. m_account_id m = ?acct) (st_machine (rt_store rt)))"
  have ms: "machines_ok (st_machine (rt_store rt))" using ok by (simp add: store_ok_def)
  have key: "m_name m = nm \<longleftrightarrow> m_name_key m = Some nm" if "m \<in> set ?ms" for m
    using that none [of m] ms by (auto simp: machines_ok_def rec_ok_def)
  have f: "find (\<lambda>m. m_name m = nm) ?ms = holder_of (st_machine (rt_store rt)) ?acct nm"
  proof (cases "holder_of (st_machine (rt_store rt)) ?acct nm")
    case None
    then have "m_name m \<noteq> nm" if "m \<in> set ?ms" for m
      using that key by (auto simp: holder_of_def find_None_iff)
    with None show ?thesis by (auto simp: find_None_iff)
  next
    case (Some m)
    then have m: "m \<in> set ?ms" "m_name_key m = Some nm" using holder_of_Some [OF Some] by auto
    have "m_name x = nm \<longleftrightarrow> x = m" if x: "x \<in> set ?ms" for x
      using x m ms key [OF x] unique_keys_holder [of "st_machine (rt_store rt)" x m nm] by (auto simp: machines_ok_def)
    with m(1) have "find (\<lambda>m. m_name m = nm) ?ms = Some m" by (rule find_only)
    with Some show ?thesis by simp
  qed
  have view: "mr_daemon_key (row_view m now) = m_daemon_key m" "mr_last_seen_ms (row_view m now) = m_last_seen_ms m" for m
    by (simp_all add: row_view_def)
  have row: "dy_refused (answer seq rows) = None" "dy_machines (answer seq rows) = rows" for rows
    by (simp_all add: answer_def)
  show ?thesis
    unfolding resolve_row_def listing [OF ms] row option.case find_map_view f
    by (cases "holder_of (st_machine (rt_store rt)) ?acct nm") (simp_all only: option.case option.map view row_view_simps filter_map map_map comp_def)
qed

definition held_rec :: "char \<Rightarrow> machine_rec" where
  "held_rec c = new_rec (replicate 32 c) ''acct'' ''box'' False 3 ''ab'' 1"

definition named_store :: "machine_rec list \<Rightarrow> relay_store" where
  "named_store ms = \<lparr> st_account = [(''acct'', \<lparr> ac_created_at_ms = 0, ac_root_key = None \<rparr>)], st_machine = ms, st_device = [] \<rparr>"

definition named_router :: "machine_rec list \<Rightarrow> router" where
  "named_router ms = router_new (named_store ms) \<lparr> db_inbox = [], db_stats = [], db_audit = [] \<rparr>
     \<lparr> lim_ttl_ms = 1, lim_max_messages = 1, lim_max_bytes = 1 \<rparr>"

definition named_session :: session where
  "named_session = \<lparr> se_account_id = ''acct'', se_device_id = demo_phone, se_nonce = [], se_public_key = [] \<rparr>"

definition lost_rec :: machine_rec where
  "lost_rec = (held_rec (CHR ''1''))\<lparr>m_name_key := None, m_tombstone_until_ms := Some 9\<rparr>"

lemma named_recs_ok: "rec_ok (held_rec (CHR ''2''))" "rec_ok lost_rec"
proof -
  have "name_ok ''box''" by (simp add: name_ok_def name_char_def is_ascii_lowercase_def chcode_def)
  moreover have "list_all is_ascii_hexdigit ''ab''" by (simp add: is_ascii_hexdigit_def is_ascii_digit_def chcode_def)
  moreover have "canonical_id (replicate 32 (CHR ''1''))" "canonical_id (replicate 32 (CHR ''2''))"
    by (simp_all add: canonical_digits is_ascii_digit_def chcode_def)
  ultimately show "rec_ok (held_rec (CHR ''2''))" "rec_ok lost_rec"
    by (simp_all add: lost_rec_def held_rec_def rec_ok_def new_rec_def is_i64_def i64_min_def i64_max_def)
qed

lemma named_stores_ok: "store_ok (named_store [lost_rec, held_rec (CHR ''2'')])" "store_ok (named_store [held_rec (CHR ''2'')])"
  using named_recs_ok
  by (auto simp: store_ok_def named_store_def machines_ok_def unique_name_keys_def bt_inv_Cons)
    (simp_all add: lost_rec_def held_rec_def new_rec_def)

definition mesh_crypto :: crypto where
  "mesh_crypto = \<lparr> sha256 = (\<lambda>_. replicate 32 0), point_ok = (\<lambda>k. length k = 32), is_weak = (\<lambda>_. False), sig_ok = (\<lambda>_ _ _. False),
     payload_to_vec = (\<lambda>_. None), cert_to_vec = (\<lambda>_. None), cert_from_slice = (\<lambda>_. None) \<rparr>"

definition mesh_cert :: device_cert where
  "mesh_cert = \<lparr> dc_payload = \<lparr> cp_version = 1, cp_device = demo_phone, cp_public_key = [], cp_name = ''phone'', cp_role = Viewer,
     cp_issued_at_ms = 0, cp_serial = 1 \<rparr>, dc_signature = [] \<rparr>"

theorem reclaimed_name_is_unknown_to_clients_witness:
  "\<exists>until. by_name mesh_crypto ''box'' (Ok ((), ''acct'')) (Ok ([], mesh_cert)) (Some (Some (router_machines named_session True 4 20
     (named_router [lost_rec, held_rec (CHR ''2'')])))) = Returns (Err (NameHeld until))"
proof -
  let ?rt = "named_router [lost_rec, held_rec (CHR ''2'')]"
  have st: "rt_store ?rt = named_store [lost_rec, held_rec (CHR ''2'')]" by (simp add: named_router_def router_new_def)
  have parts: "m_account_id lost_rec = ''acct''" "m_name lost_rec = ''box''" "m_name_key lost_rec = None" "se_account_id named_session = ''acct''"
    by (simp_all add: lost_rec_def held_rec_def named_session_def)
  have "holder_of (st_machine (rt_store ?rt)) ''acct'' ''box'' = Some (held_rec (CHR ''2''))"
    by (simp add: st named_store_def holder_of_def parts) (simp add: held_rec_def)
  moreover have "canonical_id (m_machine_id (held_rec (CHR ''2'')))" using named_recs_ok(1) by (simp add: rec_ok_def)
  ultimately have "dir_resolve (rt_store ?rt) ''acct'' ''box'' = Ok (Some (m_machine_id (held_rec (CHR ''2''))))"
    by (simp add: dir_resolve_def machine_id_parse_canonical)
  then show ?thesis
    using reclaimed_name_is_unknown_to_clients [of ?rt lost_rec named_session "''box''" _ mesh_crypto "()" "([], mesh_cert)" 4 20] named_stores_ok(1)
    by (auto simp: st parts named_store_def)
qed

theorem lookup_refines_directory_witness:
  "resolve_row mesh_crypto ''box'' (router_machines named_session True 4 20 (named_router [held_rec (CHR ''2'')])) =
     Returns (Err (BadDialKey PublicKey))"
proof -
  let ?rt = "named_router [held_rec (CHR ''2'')]"
  have st: "rt_store ?rt = named_store [held_rec (CHR ''2'')]" by (simp add: named_router_def router_new_def)
  have h: "holder_of (st_machine (rt_store ?rt)) ''acct'' ''box'' = Some (held_rec (CHR ''2''))" "se_account_id named_session = ''acct''"
    by (simp add: st named_store_def holder_of_def) (simp_all add: held_rec_def named_session_def)
  have parts: "m_tombstone_until_ms (held_rec (CHR ''2'')) = None" "m_daemon_key (held_rec (CHR ''2'')) = Some ''ab''"
    "m_name_key (held_rec (CHR ''2'')) = Some ''box''"
    by (simp_all add: held_rec_def new_rec_def)
  have ok: "store_ok (rt_store ?rt)" using named_stores_ok(2) by (simp add: st)
  have none: "m_name_key m \<noteq> None" if "m \<in> set (st_machine (rt_store ?rt))" for m
    using that by (simp add: st named_store_def parts)
  have "resolve_row mesh_crypto ''box'' (router_machines named_session True 4 20 ?rt) =
      (case verifying_key_from_hex (point_ok mesh_crypto) ''ab'' of Panics \<Rightarrow> Panics | Returns (Err e) \<Rightarrow> Returns (Err (BadDialKey e))
       | Returns (Ok key) \<Rightarrow> Returns (if presence_of (m_last_seen_ms (held_rec (CHR ''2''))) 20 \<noteq> Online
           then Err (NotOnline (presence_of (m_last_seen_ms (held_rec (CHR ''2''))) 20) (m_last_seen_ms (held_rec (CHR ''2''))))
           else Ok (row_view (held_rec (CHR ''2'')) 20, key)))"
    by (subst lookup_refines_directory [OF ok none]) (simp_all only: h parts option.case)
  moreover have "trim ''ab'' = ''ab''" by code_simp
  ultimately show ?thesis by (simp add: verifying_key_from_hex_def)
qed

end
