(* ===== verification/Secrets_Scan.thy ===== *)
theory Secrets_Scan
  imports Mesh_Directory
begin

text \<open>
  The secret scanner of \<open>crates/arreo-core/src/fixtures.rs\<close> and the redaction of audit rows that uses it
  (\<open>redact\<close> and \<open>mask_tokens\<close> of \<open>store.rs\<close>). Text is its UTF-8 bytes; every slice of the source is at the
  start of an ASCII pattern or of a character, so none of them can panic. \<open>str::to_lowercase\<close> is the Unicode
  table of the standard library and an argument; on ASCII text it is \<open>to_ascii_lowercase\<close>.
\<close>

section \<open>Searching text\<close>

fun str_find :: "string \<Rightarrow> string \<Rightarrow> nat option" where
  "str_find pat [] = (if pat = [] then Some 0 else None)"
| "str_find pat (c # s) =
     (if take (length pat) (c # s) = pat then Some 0 else map_option Suc (str_find pat s))"

lemma str_find_take: "str_find pat s = Some i \<Longrightarrow> take (length pat) (drop i s) = pat \<and> i + length pat \<le> length s"
proof (induction s arbitrary: i)
  case (Cons c s)
  show ?case
  proof (cases "take (length pat) (c # s) = pat")
    case True
    then have "length pat \<le> length (c # s)" by (metis length_take min.cobounded1)
    with True Cons.prems show ?thesis by auto
  next
    case False
    with Cons show ?thesis by (auto split: if_splits)
  qed
qed (auto split: if_splits)

definition str_contains :: "string \<Rightarrow> string \<Rightarrow> bool" where
  "str_contains pat s \<longleftrightarrow> str_find pat s \<noteq> None"

definition strip_prefix :: "string \<Rightarrow> string \<Rightarrow> string option" where
  "strip_prefix pat s = (if take (length pat) s = pat then Some (drop (length pat) s) else None)"

definition strip_suffix :: "char \<Rightarrow> string \<Rightarrow> string option" where
  "strip_suffix c s = (if s \<noteq> [] \<and> last s = c then Some (butlast s) else None)"

text \<open>\<open>trim_matches\<close> with a set of ASCII characters.\<close>

definition trim_matches :: "(char \<Rightarrow> bool) \<Rightarrow> string \<Rightarrow> string" where
  "trim_matches P s = rev (dropWhile P (rev (dropWhile P s)))"

section \<open>Tokens\<close>

definition MIN_TOKEN_RUN :: nat where "MIN_TOKEN_RUN = 8"

definition TOKEN_PREFIXES :: "(string \<times> string \<times> nat) list" where
  "TOKEN_PREFIXES =
    [(''sk-'', ''api key (sk- prefix)'', 8),
     (''AKIA'', ''aws access key id'', 16),
     (''ghp_'', ''github token'', 8),
     (''gho_'', ''github oauth token'', 8),
     (''xox'', ''slack token'', 8),
     (''vbk_'', ''verboo api key'', 8),
     (''xai-'', ''xai api key'', 8),
     (''glpat-'', ''gitlab token'', 8),
     (''hf_'', ''huggingface token'', 8),
     (''AIza'', ''google api key'', 30),
     (''eyJ'', ''jwt'', 40)]"

definition token_stop :: "string \<Rightarrow> bool" where
  "token_stop c \<longleftrightarrow> is_whitespace c \<or> c \<in> {[CHR 0x22], [CHR 0x27], [CHR 0x60], '','', '';'', '')'', '']'', ''}'', ''>''}"

definition token_run_len :: "string \<Rightarrow> nat" where
  "token_run_len rest = length (concat (takeWhile (\<lambda>c. \<not> token_stop c) (chars_of rest)))"

text \<open>
  The inner loop of \<open>find_token\<close>, on what is left of the line and where that starts. The prefixes are not
  empty; the test for an empty one is there to make the function total.
\<close>

function token_after :: "string \<Rightarrow> nat \<Rightarrow> nat \<Rightarrow> string \<Rightarrow> (nat \<times> nat) option" where
  "token_after pre min_run off rest =
     (case str_find pre rest of
        None \<Rightarrow> None
      | Some rel \<Rightarrow>
          (let tail = drop (rel + length pre) rest; n = length pre + token_run_len tail in
           if max min_run MIN_TOKEN_RUN \<le> n then Some (off + rel, n)
           else if pre = [] then None
           else token_after pre min_run (off + rel + length pre) tail))"
  by pat_completeness auto

termination
proof (relation "measure (\<lambda>(_, _, _, rest). length rest)")
  fix pre rest :: string and min_run off rel tail n :: nat and t
  assume "str_find pre rest = Some rel" and "t = drop (rel + length pre) rest" and "pre \<noteq> []"
  then show "((pre, min_run, off + rel + length pre, t), (pre, min_run, off, rest)) \<in> measure (\<lambda>(_, _, _, rest). length rest)"
    using str_find_take [of pre rest rel] by (cases pre) auto
qed simp

declare token_after.simps [simp del]

fun find_token_loop :: "string \<Rightarrow> (string \<times> string \<times> nat) list \<Rightarrow> (nat \<times> nat \<times> string) option
    \<Rightarrow> (nat \<times> nat \<times> string) option" where
  "find_token_loop line [] best = best"
| "find_token_loop line ((pre, label, min_run) # ps) best =
     find_token_loop line ps (case token_after pre min_run 0 line of
        None \<Rightarrow> best
      | Some (at, n) \<Rightarrow> (case best of
          None \<Rightarrow> Some (at, n, label)
        | Some (seen, _, _) \<Rightarrow> if at < seen then Some (at, n, label) else best))"

definition find_token :: "string \<Rightarrow> (nat \<times> nat \<times> string) option" where
  "find_token line = find_token_loop line TOKEN_PREFIXES None"

lemma token_after_long: "token_after pre min_run off rest = Some (at, n) \<Longrightarrow> MIN_TOKEN_RUN \<le> n \<and> off \<le> at"
proof (induction pre min_run off rest rule: token_after.induct)
  case (1 pre min_run off rest)
  show ?case
  proof (cases "str_find pre rest")
    case None
    with "1.prems" show ?thesis by (simp add: token_after.simps)
  next
    case (Some rel)
    then show ?thesis
      using "1.prems" [unfolded token_after.simps [of pre min_run off rest]] "1.IH" [OF Some refl refl]
      by (auto simp: Let_def split: if_splits)
  qed
qed

lemma find_token_loop_long:
  "find_token_loop line ps best = Some (at, n, label) \<Longrightarrow> (\<And>a m l. best = Some (a, m, l) \<Longrightarrow> MIN_TOKEN_RUN \<le> m) \<Longrightarrow> MIN_TOKEN_RUN \<le> n"
proof (induction ps arbitrary: best)
  case (Cons p ps)
  obtain pre lab min_run where p: "p = (pre, lab, min_run)" by (cases p)
  let ?best = "case token_after pre min_run 0 line of None \<Rightarrow> best | Some (at, n) \<Rightarrow>
      (case best of None \<Rightarrow> Some (at, n, lab) | Some (seen, _, _) \<Rightarrow> if at < seen then Some (at, n, lab) else best)"
  have "MIN_TOKEN_RUN \<le> m" if "?best = Some (a, m, l)" for a m l
    using that Cons.prems(2) by (auto dest!: token_after_long split: option.splits if_splits)
  with Cons.IH [of ?best] Cons.prems(1) show ?case by (simp add: p)
qed auto

lemma find_token_long: "find_token line = Some (at, n, label) \<Longrightarrow> MIN_TOKEN_RUN \<le> n"
  unfolding find_token_def by (erule find_token_loop_long) simp

definition MASKED :: string where "MASKED = ''[REDACTED:token]''"

function mask_loop :: "string \<Rightarrow> string \<Rightarrow> bool \<Rightarrow> string \<times> bool" where
  "mask_loop rest out masked =
     (case find_token rest of
        None \<Rightarrow> (out @ rest, masked)
      | Some (at, n, _) \<Rightarrow>
          if rest = [] then (out @ rest, masked)
          else mask_loop (drop (at + n) rest) (out @ take at rest @ MASKED) True)"
  by pat_completeness auto
termination
  by (relation "measure (\<lambda>(rest, _, _). length rest)") (auto dest!: find_token_long simp: MIN_TOKEN_RUN_def)

declare mask_loop.simps [simp del]

definition mask_tokens :: "string \<Rightarrow> string \<times> bool" where
  "mask_tokens line = mask_loop line [] False"

section \<open>References\<close>

definition is_env_name :: "string \<Rightarrow> bool" where
  "is_env_name nm = (case nm of
      [] \<Rightarrow> False
    | first # _ \<Rightarrow> is_ascii_uppercase first \<and> length nm \<le> 64 \<and>
        list_all (\<lambda>c. is_ascii_uppercase c \<or> is_ascii_digit c \<or> c = CHR ''_'') nm)"

definition is_env_reference :: "string \<Rightarrow> bool" where
  "is_env_reference raw =
     (let v = trim_matches (\<lambda>c. c \<in> {CHR 0x22, CHR 0x27, CHR '','', CHR '';''}) (trim raw) in
      if v = [] then False
      else case strip_prefix ''{env:'' v of
        Some rest \<Rightarrow> (case strip_suffix (CHR ''}'') rest of None \<Rightarrow> False | Some nm \<Rightarrow> is_env_name nm)
      | None \<Rightarrow>
          (case strip_prefix ''${'' v of
             Some rest \<Rightarrow> (case strip_suffix (CHR ''}'') rest of None \<Rightarrow> False | Some nm \<Rightarrow> is_env_name nm)
           | None \<Rightarrow>
               (case strip_prefix ''$'' v of
                  Some rest \<Rightarrow> is_env_name rest
                | None \<Rightarrow> is_env_name v)))"

definition is_separator :: "char \<Rightarrow> bool" where
  "is_separator c \<longleftrightarrow> c = CHR ''='' \<or> c = CHR '':''"

definition assignment_value :: "string \<Rightarrow> string option" where
  "assignment_value line = (case dropWhile (\<lambda>c. \<not> is_separator c) line of
      [] \<Rightarrow> None
    | _ # rest \<Rightarrow> Some (trim_matches (\<lambda>c. c \<in> {CHR 0x22, CHR 0x27}) (trim rest)))"

section \<open>The scanner\<close>

function token_findings :: "nat \<Rightarrow> nat \<Rightarrow> string \<Rightarrow> string list" where
  "token_findings n tokens rest =
     (case find_token rest of
        None \<Rightarrow> []
      | Some (at, len, label) \<Rightarrow>
          (''line '' @ show_nat n @ '': possible '' @ label) #
          (if 8 < tokens + 1 \<or> rest = [] then [] else token_findings n (tokens + 1) (drop (at + len) rest)))"
  by pat_completeness auto
termination
  by (relation "measure (\<lambda>(_, _, rest). length rest)") (auto dest!: find_token_long simp: MIN_TOKEN_RUN_def)

declare token_findings.simps [simp del]

definition key_block_findings :: "nat \<Rightarrow> string \<Rightarrow> string list" where
  "key_block_findings n line =
     map (\<lambda>_. ''line '' @ show_nat n @ '': possible private key block'')
       (filter (\<lambda>needle. str_contains needle line)
         [''BEGIN PRIVATE KEY'', ''BEGIN RSA PRIVATE KEY'', ''BEGIN OPENSSH PRIVATE KEY''])"

definition assignment_finding :: "nat \<Rightarrow> string \<Rightarrow> string \<Rightarrow> string list" where
  "assignment_finding n line lower =
     (case find (\<lambda>key. str_contains key lower \<and>
             (case str_find key lower of None \<Rightarrow> 0 | Some i \<Rightarrow> i) + length key + 8 < length line)
        [''api_key'', ''apikey'', ''api-key'', ''aws_secret'', ''client_secret''] of
        None \<Rightarrow> []
      | Some key \<Rightarrow> [''line '' @ show_nat n @ '': possible secret assignment ('' @ key @ '')''])"

text \<open>\<open>line.split(['=', ':']).nth(1)\<close>.\<close>

definition second_field :: "string \<Rightarrow> string option" where
  "second_field line = (case dropWhile (\<lambda>c. \<not> is_separator c) line of
      [] \<Rightarrow> None | _ # rest \<Rightarrow> Some (takeWhile (\<lambda>c. \<not> is_separator c) rest))"

definition password_finding :: "nat \<Rightarrow> string \<Rightarrow> string \<Rightarrow> string list" where
  "password_finding n line lower =
     (if (str_contains ''password'' lower \<or> str_contains ''passwd'' lower) \<and>
         (case second_field line of None \<Rightarrow> False | Some v \<Rightarrow> 12 \<le> length (trim v))
      then [''line '' @ show_nat n @ '': possible password assignment''] else [])"

definition scan_line :: "(string \<Rightarrow> string) \<Rightarrow> nat \<Rightarrow> string \<Rightarrow> string list" where
  "scan_line to_lower n line =
     (let lower = to_lower line;
          reference = (case assignment_value line of None \<Rightarrow> False | Some v \<Rightarrow> is_env_reference v)
      in token_findings n 0 line @ key_block_findings n line @
         (if reference then [] else assignment_finding n line lower) @
         (if reference then [] else password_finding n line lower))"

fun scan_lines :: "(string \<Rightarrow> string) \<Rightarrow> nat \<Rightarrow> string list \<Rightarrow> string list" where
  "scan_lines to_lower n [] = []"
| "scan_lines to_lower n (l # ls) = scan_line to_lower n l @ scan_lines to_lower (n + 1) ls"

definition scan_secrets :: "(string \<Rightarrow> string) \<Rightarrow> string \<Rightarrow> string list" where
  "scan_secrets to_lower text = scan_lines to_lower 1 (str_lines text)"

section \<open>Redaction\<close>

definition mask_value :: "(string \<Rightarrow> string) \<Rightarrow> char \<Rightarrow> string \<Rightarrow> string \<times> bool" where
  "mask_value to_lower sep line =
     (case dropWhile (\<lambda>c. c \<noteq> sep) line of
        [] \<Rightarrow> (line, False)
      | _ # rest \<Rightarrow>
          (let key = takeWhile (\<lambda>c. c \<noteq> sep) line @ [sep];
               v = trim rest;
               lower = to_lower key;
               names_a_secret = (\<exists>word \<in> set [''secret'', ''password'', ''passwd'']. str_contains word lower);
               long_enough = (v \<noteq> [] \<and> 8 \<le> length v)
           in if v \<noteq> [] \<and> \<not> is_env_reference v \<and> (names_a_secret \<or> (long_enough \<and> str_contains ''key'' lower))
              then (key @ ''[REDACTED:value]'', True) else (line, False)))"

definition redact_line :: "(string \<Rightarrow> string) \<Rightarrow> string \<Rightarrow> string \<times> bool" where
  "redact_line to_lower line0 =
     (let (line1, d1) = mask_tokens line0;
          (line2, d2) = mask_value to_lower (CHR ''='') line1;
          (line3, d3) = mask_value to_lower (CHR '':'') line2
      in if str_contains ''BEGIN'' line3 \<and> str_contains ''PRIVATE KEY'' line3
         then (''[REDACTED:private-key-block]'', True)
         else (line3, d1 \<or> d2 \<or> d3))"

fun join_lines :: "string list \<Rightarrow> string" where
  "join_lines [] = []"
| "join_lines [l] = l"
| "join_lines (l # ls) = l @ NEWLINE # join_lines ls"

definition redact :: "(string \<Rightarrow> string) \<Rightarrow> string \<Rightarrow> string \<times> bool" where
  "redact to_lower prompt =
     (if scan_secrets to_lower prompt = [] then (prompt, False)
      else let outs = map (redact_line to_lower) (str_lines prompt) in
        if \<not> list_ex snd outs
        then (join_lines (map (\<lambda>_. ''[REDACTED:secret]'') (str_lines prompt)), True)
        else (join_lines (map fst outs), True))"

section \<open>A line that is one token\<close>

lemma find_token_Nil: "find_token [] = None"
  by code_simp

lemma mask_tokens_whole: "find_token line = Some (0, length line, label) \<Longrightarrow> mask_tokens line = (MASKED, True)"
  using find_token_Nil by (cases "line = []") (simp_all add: mask_tokens_def mask_loop.simps [of line] mask_loop.simps [of "[]"])

lemma scan_secrets_token: "find_token line \<noteq> None \<Longrightarrow> str_lines line = [line] \<Longrightarrow> scan_secrets to_lower line \<noteq> []"
  by (auto simp: scan_secrets_def scan_line_def Let_def token_findings.simps [of _ 0 line])

lemma redact_line_token:
  assumes "find_token line = Some (0, length line, label)"
  shows "redact_line to_ascii_lowercase line = (MASKED, True)"
proof -
  have "mask_value to_ascii_lowercase (CHR ''='') MASKED = (MASKED, False)" by code_simp
  moreover have "mask_value to_ascii_lowercase (CHR '':'') MASKED = (MASKED, False)" by code_simp
  moreover have "\<not> str_contains ''BEGIN'' MASKED" by code_simp
  ultimately show ?thesis
    using mask_tokens_whole [OF assms] by (simp add: redact_line_def)
qed

lemma redact_token:
  assumes "find_token line = Some (0, length line, label)" and "str_lines line = [line]"
  shows "redact to_ascii_lowercase line = (MASKED, True)"
  using redact_line_token [OF assms(1)] scan_secrets_token [of line] assms by (simp add: redact_def)

end
