(* ===== verification/Audit_Log.thy ===== *)
theory Audit_Log
  imports Secrets_Scan Identity_Authority Civil_Time Sync_Merge
begin

text \<open>
  The audit log of a machine: the table \<open>audit\<close> of \<open>crates/arreo-core/src/store.rs\<close> and every operation on
  it. The table is the list of its rows by \<open>rowid\<close>; a new row has the greatest one. Rows of an older schema
  are not modelled. \<open>to_lower\<close> is \<open>str::to_lowercase\<close>, \<open>parse_peer\<close> the standard library's parser of socket
  addresses; numbers and the printer of \<open>serde_json\<close> are arguments.
\<close>

section \<open>Events and rows\<close>

definition outcome_as_str :: "audit_outcome \<Rightarrow> string" where
  "outcome_as_str oc = (case oc of OutcomeOk \<Rightarrow> ''ok'' | Refused \<Rightarrow> ''refused'' | Expired \<Rightarrow> ''expired'')"

definition outcome_parse :: "string \<Rightarrow> audit_outcome" where
  "outcome_parse t = (if t = ''refused'' then Refused else if t = ''expired'' then Expired else OutcomeOk)"

definition audit_kind_as_str :: "audit_kind \<Rightarrow> string" where
  "audit_kind_as_str k = (case k of
      Prompt \<Rightarrow> ''prompt'' | AuthReject \<Rightarrow> ''auth_reject'' | DeviceChange \<Rightarrow> ''device_change''
    | PairingFailed \<Rightarrow> ''pairing_failed'' | UnknownKind \<Rightarrow> ''unknown'' | Trust \<Rightarrow> ''trust'')"

definition audit_kind_parse :: "string \<Rightarrow> audit_kind" where
  "audit_kind_parse t =
     (if t = ''prompt'' then Prompt else if t = ''auth_reject'' then AuthReject
      else if t = ''device_change'' then DeviceChange else if t = ''pairing_failed'' then PairingFailed
      else if t = ''trust'' then Trust else UnknownKind)"

lemma outcome_parse_as_str [simp]: "outcome_parse (outcome_as_str oc) = oc"
  by (cases oc) (simp_all add: outcome_parse_def outcome_as_str_def)

lemma audit_kind_parse_as_str [simp]: "audit_kind_parse (audit_kind_as_str k) = k"
  by (cases k) (simp_all add: audit_kind_parse_def audit_kind_as_str_def)

record audit_row =
  ar_ts_ms :: int
  ar_device :: string
  ar_agent :: string
  ar_prompt :: string
  ar_redacted :: bool
  ar_kind :: string
  ar_action :: string
  ar_outcome :: string
  ar_peer :: "string option"
  ar_detail :: "string option"

record stored_audit =
  sa_ts_ms :: u64
  sa_device :: string
  sa_agent :: string
  sa_prompt :: string
  sa_redacted :: bool
  sa_kind :: audit_kind
  sa_action :: string
  sa_outcome :: audit_outcome
  sa_peer :: "string option"
  sa_detail :: "string option"

definition read_audit_row :: "audit_row \<Rightarrow> stored_audit" where
  "read_audit_row r =
     \<lparr> sa_ts_ms = word_of_int (ar_ts_ms r), sa_device = ar_device r, sa_agent = ar_agent r,
       sa_prompt = ar_prompt r, sa_redacted = ar_redacted r, sa_kind = audit_kind_parse (ar_kind r),
       sa_action = ar_action r, sa_outcome = outcome_parse (ar_outcome r), sa_peer = ar_peer r,
       sa_detail = ar_detail r \<rparr>"

section \<open>Addresses\<close>

datatype ip_addr =
    V4 byte byte byte byte
  | V6 "16 word" "16 word" "16 word" "16 word" "16 word" "16 word" "16 word" "16 word"

text \<open>\<open>{:x}\<close>.\<close>

function show_hex :: "nat \<Rightarrow> string" where
  "show_hex n = (if n < 16 then [hex_digit n] else show_hex (n div 16) @ [hex_digit (n mod 16)])"
  by pat_completeness auto
termination
  by (relation "measure id") auto

declare show_hex.simps [simp del]

definition truncate_peer :: "ip_addr \<Rightarrow> string" where
  "truncate_peer ip = (case ip of
      V4 a b c d \<Rightarrow> show_nat (unat a) @ ''.'' @ show_nat (unat b) @ ''.'' @ show_nat (unat c) @ ''.0/24''
    | V6 a b c d e f g h \<Rightarrow>
        show_hex (unat a) @ '':'' @ show_hex (unat b) @ '':'' @ show_hex (unat c) @ ''::/48'')"

definition redact_peer_text :: "(string \<Rightarrow> ip_addr option) \<Rightarrow> string \<Rightarrow> string" where
  "redact_peer_text parse_peer peer = (case parse_peer peer of
      Some ip \<Rightarrow> truncate_peer ip | None \<Rightarrow> peer)"

section \<open>Operations\<close>

definition LOCAL_CLI :: string where "LOCAL_CLI = ''local-cli''"
definition PRUNE :: string where "PRUNE = ''audit.prune''"

text \<open>\<open>as i64\<close>, and the two clamped conversions.\<close>

definition as_i64 :: "u64 \<Rightarrow> int" where
  "as_i64 v = sint v"

definition clamp_ms :: "u64 \<Rightarrow> int" where
  "clamp_ms v = min (uint v) i64_max"

definition clamp_limit :: "u64 \<Rightarrow> int" where
  "clamp_limit n = min (uint n) i64_max"

text \<open>\<open>LIMIT\<close>: a negative one is none.\<close>

definition sql_limit :: "int \<Rightarrow> 'a list \<Rightarrow> 'a list" where
  "sql_limit n rows = (if n < 0 then rows else take (nat n) rows)"

definition audit_record :: "(string \<Rightarrow> string) \<Rightarrow> (string \<Rightarrow> ip_addr option) \<Rightarrow> audit_event \<Rightarrow> audit_row list \<Rightarrow> audit_row list" where
  "audit_record to_lower parse_peer ev t =
     (let (prompt, redacted) = redact to_lower (ev_prompt ev);
          peer = map_option (redact_peer_text parse_peer) (ev_peer ev)
      in t @ [\<lparr> ar_ts_ms = as_i64 (ev_ts_ms ev), ar_device = ev_device ev, ar_agent = ev_agent ev,
                ar_prompt = prompt, ar_redacted = redacted, ar_kind = audit_kind_as_str (ev_kind ev),
                ar_action = ev_action ev, ar_outcome = outcome_as_str (ev_outcome ev), ar_peer = peer,
                ar_detail = ev_detail ev \<rparr>])"

record audit_query_spec =
  aq_since_ms :: "u64 option"
  aq_until_ms :: "u64 option"
  aq_action :: "string option"
  aq_limit :: u64

definition query_all :: "u64 \<Rightarrow> audit_query_spec" where
  "query_all limit = \<lparr> aq_since_ms = None, aq_until_ms = None, aq_action = None, aq_limit = limit \<rparr>"

definition query_matches :: "audit_query_spec \<Rightarrow> audit_row \<Rightarrow> bool" where
  "query_matches q r \<longleftrightarrow>
     (case aq_since_ms q of None \<Rightarrow> True | Some s \<Rightarrow> clamp_ms s \<le> ar_ts_ms r) \<and>
     (case aq_until_ms q of None \<Rightarrow> True | Some u \<Rightarrow> ar_ts_ms r \<le> clamp_ms u) \<and>
     (case aq_action q of None \<Rightarrow> True | Some a \<Rightarrow> ar_action r = a)"

text \<open>\<open>ORDER BY ts_ms ASC, rowid ASC\<close> is the stable sort of the table, the descending order its reverse.\<close>

definition audit_query :: "audit_query_spec \<Rightarrow> audit_row list \<Rightarrow> stored_audit list" where
  "audit_query q t = map read_audit_row (sql_limit (clamp_limit (aq_limit q)) (sort_key ar_ts_ms (filter (query_matches q) t)))"

definition audit_recent :: "u64 \<Rightarrow> audit_row list \<Rightarrow> stored_audit list" where
  "audit_recent limit t = map read_audit_row (sql_limit (as_i64 limit) (rev (sort_key ar_ts_ms t)))"

definition audit_by_action :: "string \<Rightarrow> u64 \<Rightarrow> audit_row list \<Rightarrow> stored_audit list" where
  "audit_by_action action limit t = audit_query ((query_all limit)\<lparr>aq_action := Some action\<rparr>) t"

definition audit_recent_by_action :: "string \<Rightarrow> u64 \<Rightarrow> audit_row list \<Rightarrow> stored_audit list" where
  "audit_recent_by_action action limit t =
     map read_audit_row (sql_limit (as_i64 limit) (rev (sort_key ar_ts_ms (filter (\<lambda>r. ar_action r = action) t))))"

text \<open>\<open>LENGTH\<close> of a text column: its characters up to a NUL.\<close>

definition sql_length :: "string \<Rightarrow> nat" where
  "sql_length s = length (takeWhile (\<lambda>c. c \<noteq> [CHR 0x00]) (chars_of s))"

definition audit_size :: "audit_row list \<Rightarrow> nat \<times> nat" where
  "audit_size t = (length t,
     \<Sum>r \<leftarrow> t. sql_length (ar_device r) + sql_length (ar_agent r) + sql_length (ar_prompt r) + sql_length (ar_action r) +
       (case ar_peer r of None \<Rightarrow> 0 | Some p \<Rightarrow> sql_length p) + (case ar_detail r of None \<Rightarrow> 0 | Some d \<Rightarrow> sql_length d))"

definition pruned :: "u64 \<Rightarrow> audit_row \<Rightarrow> bool" where
  "pruned before r \<longleftrightarrow> ar_ts_ms r < clamp_ms before \<and> ar_action r \<noteq> PRUNE"

definition prune_event :: "u64 \<Rightarrow> u64 \<Rightarrow> nat \<Rightarrow> audit_event" where
  "prune_event before now removed =
     \<lparr> ev_ts_ms = now, ev_action = PRUNE, ev_kind = UnknownKind, ev_outcome = OutcomeOk,
       ev_device = LOCAL_CLI, ev_agent = [],
       ev_prompt = ''removed '' @ show_nat removed @ '' row(s) older than '' @ show_nat (unat before),
       ev_peer = None,
       ev_detail = Some (''before_ms='' @ show_nat (unat before) @ '' removed='' @ show_nat removed) \<rparr>"

definition audit_prune :: "(string \<Rightarrow> string) \<Rightarrow> (string \<Rightarrow> ip_addr option) \<Rightarrow> u64 \<Rightarrow> u64 \<Rightarrow> audit_row list \<Rightarrow> nat \<times> audit_row list" where
  "audit_prune to_lower parse_peer before now t =
     (let removed = length (filter (pruned before) t) in
      (removed, audit_record to_lower parse_peer (prune_event before now removed) (filter (\<lambda>r. \<not> pruned before r) t)))"

section \<open>Export\<close>

datatype export_format = Jsonl | Json

definition format_as_str :: "export_format \<Rightarrow> string" where
  "format_as_str f = (case f of Jsonl \<Rightarrow> ''jsonl'' | Json \<Rightarrow> ''json'')"

definition format_parse :: "string \<Rightarrow> export_format option" where
  "format_parse t = (if t = ''jsonl'' then Some Jsonl else if t = ''json'' then Some Json else None)"

definition json_text :: "string option \<Rightarrow> 'n json" where
  "json_text v = (case v of None \<Rightarrow> JNull | Some s \<Rightarrow> JString s)"

text \<open>The fields in the order of the \<open>BTreeMap\<close>.\<close>

definition audit_json :: "(u64 \<Rightarrow> 'n) \<Rightarrow> stored_audit \<Rightarrow> 'n json" where
  "audit_json num e = JObject
     [(''action'', JString (sa_action e)), (''agent'', JString (sa_agent e)), (''detail'', json_text (sa_detail e)),
      (''device'', JString (sa_device e)), (''kind'', JString (audit_kind_as_str (sa_kind e))),
      (''outcome'', JString (outcome_as_str (sa_outcome e))), (''peer'', json_text (sa_peer e)),
      (''prompt'', JString (sa_prompt e)), (''redacted'', JBool (sa_redacted e)), (''ts_ms'', JNumber (num (sa_ts_ms e)))]"

fun export_jsonl :: "('n json \<Rightarrow> 'e + string) \<Rightarrow> 'n json list \<Rightarrow> 'e + string" where
  "export_jsonl to_string [] = Ok []"
| "export_jsonl to_string (v # vs) = (case to_string v of Err e \<Rightarrow> Err e
     | Ok s \<Rightarrow> (case export_jsonl to_string vs of Err e \<Rightarrow> Err e | Ok out \<Rightarrow> Ok (s @ NEWLINE # out)))"

definition render_export :: "('n json \<Rightarrow> 'e + string) \<Rightarrow> ('n json \<Rightarrow> 'e + string) \<Rightarrow> 'n json list \<Rightarrow> export_format \<Rightarrow> 'e + string" where
  "render_export to_string to_string_pretty rows f = (case f of
      Jsonl \<Rightarrow> export_jsonl to_string rows
    | Json \<Rightarrow> map_sum id (\<lambda>s. s @ [NEWLINE]) (to_string_pretty (JArray rows)))"

definition audit_export :: "(u64 \<Rightarrow> 'n) \<Rightarrow> ('n json \<Rightarrow> 'e + string) \<Rightarrow> ('n json \<Rightarrow> 'e + string) \<Rightarrow> audit_query_spec
    \<Rightarrow> export_format \<Rightarrow> audit_row list \<Rightarrow> 'e + string" where
  "audit_export num to_string to_string_pretty q f t =
     render_export to_string to_string_pretty (map (audit_json num) (audit_query q t)) f"

end
