(* ===== verification/Audit_Properties.thy ===== *)
theory Audit_Properties
  imports Audit_Log Step_Systems
begin

text \<open>
  What is shown of the secret scanner, the redaction and the audit log: the masker hides exactly the tokens
  the scanner reports, one masked line lets another one through, and the log accounts for every row it ever
  held.
\<close>

section \<open>Tokens\<close>

definition is_token :: "string \<Rightarrow> bool" where
  "is_token t \<longleftrightarrow> (\<exists>(pre, _, min_run) \<in> set TOKEN_PREFIXES. prefix pre t \<and> max min_run MIN_TOKEN_RUN \<le> length t)"

lemma token_run_le: "token_run_len s \<le> length s"
proof -
  have "length (concat (takeWhile P cs)) \<le> length (concat cs)" for P and cs :: "string list"
    by (induction cs) auto
  from this [of _ "chars_of s"] show ?thesis by (simp add: token_run_len_def concat_chars_of)
qed

lemma token_after_Some:
  "token_after pre min_run off rest = Some (at, n) \<Longrightarrow>
    off \<le> at \<and> (at - off) + n \<le> length rest \<and> prefix pre (drop (at - off) rest) \<and> length pre \<le> n \<and> max min_run MIN_TOKEN_RUN \<le> n"
proof (induction pre min_run off rest rule: token_after.induct)
  case (1 pre min_run off rest)
  obtain rel where rel: "str_find pre rest = Some rel"
    using "1.prems" [unfolded token_after.simps [of pre min_run off rest]] by (cases "str_find pre rest") auto
  let ?tail = "drop (rel + length pre) rest" and ?n = "length pre + token_run_len (drop (rel + length pre) rest)"
  have at_rel: "prefix pre (drop rel rest) \<and> rel + length pre \<le> length rest"
    using str_find_take [OF rel] by (metis take_is_prefix)
  show ?case
  proof (cases "max min_run MIN_TOKEN_RUN \<le> ?n")
    case True
    then have "at = off + rel \<and> n = ?n"
      using "1.prems" [unfolded token_after.simps [of pre min_run off rest]] rel by simp
    with True at_rel token_run_le [of ?tail] show ?thesis by auto
  next
    case False
    then have ne: "pre \<noteq> []" and deeper: "token_after pre min_run (off + rel + length pre) ?tail = Some (at, n)"
      using "1.prems" [unfolded token_after.simps [of pre min_run off rest]] rel by (auto split: if_splits)
    have "drop (at - (off + rel + length pre)) ?tail = drop (at - off) rest" if "off + rel + length pre \<le> at"
      using that by (simp add: algebra_simps)
    with "1.IH" [OF rel refl refl False ne deeper] at_rel show ?thesis by auto
  qed
qed

lemma find_token_loop_Some:
  "find_token_loop line ps best = Some (at, n, label) \<Longrightarrow>
    best = Some (at, n, label) \<or> (\<exists>pre min_run. (pre, label, min_run) \<in> set ps \<and> token_after pre min_run 0 line = Some (at, n))"
proof (induction ps arbitrary: best)
  case (Cons p ps)
  obtain pre lab min_run where p: "p = (pre, lab, min_run)" by (cases p)
  show ?case
    using Cons.prems Cons.IH unfolding p by (fastforce split: option.splits if_splits prod.splits)
qed simp

lemma find_token_Some:
  assumes "find_token line = Some (at, n, label)"
  shows "at + n \<le> length line \<and> is_token (take n (drop at line))"
proof -
  obtain pre min_run where mem: "(pre, label, min_run) \<in> set TOKEN_PREFIXES" and tok: "token_after pre min_run 0 line = Some (at, n)"
    using find_token_loop_Some [OF assms [unfolded find_token_def]] by auto
  note facts = token_after_Some [OF tok]
  then have "prefix pre (take n (drop at line))" by (auto simp: prefix_def)
  with mem facts show ?thesis unfolding is_token_def by (intro conjI bexI [OF _ mem]) auto
qed



text \<open>\<open>pieces line ps rest\<close>: the gaps and tokens both loops walk over, and what is left.\<close>

function pieces :: "string \<Rightarrow> (string \<times> string) list \<times> string" where
  "pieces rest = (case find_token rest of
      None \<Rightarrow> ([], rest)
    | Some (at, n, _) \<Rightarrow> if rest = [] then ([], rest)
        else let (ps, left) = pieces (drop (at + n) rest) in ((take at rest, take n (drop at rest)) # ps, left))"
  by pat_completeness auto
termination
  by (relation "measure length") (auto dest!: find_token_long simp: MIN_TOKEN_RUN_def)

declare pieces.simps [simp del]

lemma find_token_nonempty: "find_token line = Some (at, n, label) \<Longrightarrow> line \<noteq> []"
  using find_token_Some [of line at n label] find_token_long [of line at n label] by (auto simp: MIN_TOKEN_RUN_def)

lemma pieces_step:
  assumes "find_token rest = Some (at, n, label)"
  shows "pieces rest = ((take at rest, take n (drop at rest)) # fst (pieces (drop (at + n) rest)), snd (pieces (drop (at + n) rest)))"
  using assms find_token_nonempty [OF assms] by (subst pieces.simps) (simp add: split_beta Let_def)

lemma pieces_none: "find_token rest = None \<Longrightarrow> pieces rest = ([], rest)"
  by (subst pieces.simps) simp



lemma length_token_findings: "k \<le> 8 \<Longrightarrow> length (token_findings n k rest) = min (9 - k) (length (fst (pieces rest)))"
proof (induction n k rest rule: token_findings.induct)
  case (1 n k rest)
  show ?case
  proof (cases "find_token rest")
    case None
    then show ?thesis by (subst token_findings.simps) (simp add: pieces_none)
  next
    case (Some tok)
    then obtain at len label where tok: "find_token rest = Some (at, len, label)" by (cases tok) auto
    note ne = find_token_nonempty [OF tok]
    show ?thesis
    proof (cases "k = 8")
      case True
      then show ?thesis using tok by (subst token_findings.simps) (simp add: pieces_step [OF tok])
    next
      case False
      with "1.prems" have "\<not> (8 < k + 1 \<or> rest = [])" using ne by simp
      from "1.IH" [OF tok refl refl this] False "1.prems" show ?thesis
        using tok ne by (subst token_findings.simps) (simp add: pieces_step [OF tok])
    qed
  qed
qed


section \<open>Redaction\<close>

lemma str_lines_two:
  assumes "NEWLINE \<notin> set a" and "last (CHR ''x'' # a) \<noteq> CARRIAGE" and "NEWLINE \<notin> set b" and "b \<noteq> []"
  shows "str_lines (a @ NEWLINE # b) = [a, b]"
  using assms by (simp add: str_lines_def Let_def split_on_append split_on_plain strip_cr_def split: if_splits)

lemma scan_line_ne: "scan_line to_lower n line = [] \<longleftrightarrow> scan_line to_lower m line = []"
proof -
  have "token_findings n 0 line = [] \<longleftrightarrow> token_findings m 0 line = []"
    using length_token_findings [of 0 n line] length_token_findings [of 0 m line] by (metis length_0_conv le0)
  moreover have "key_block_findings n line = [] \<longleftrightarrow> key_block_findings m line = []"
    by (simp add: key_block_findings_def)
  moreover have "assignment_finding n line low = [] \<longleftrightarrow> assignment_finding m line low = []" for low
    unfolding assignment_finding_def by (simp split: option.split)
  moreover have "password_finding n line low = [] \<longleftrightarrow> password_finding m line low = []" for low
    unfolding password_finding_def by simp
  ultimately show ?thesis by (simp add: scan_line_def Let_def)
qed

text \<open>
  C37. A masked line lets the secret of another line through: a line that the scanner flags and no rule
  masks is hidden as a whole when it is the only one, but when any other line of the text was masked it is
  stored as it arrived, in a row that says it was redacted.
\<close>

theorem flagged_line_is_stored:
  assumes "NEWLINE \<notin> set l1" and "NEWLINE \<notin> set l2" and "last (CHR ''x'' # l1) \<noteq> CARRIAGE" and "l2 \<noteq> []"
    and masked: "redact_line to_lower l1 = (out1, True)"
    and flagged: "scan_secrets to_lower l2 \<noteq> []" and unclaimed: "redact_line to_lower l2 = (l2, False)"
  shows "redact to_lower l2 = (''[REDACTED:secret]'', True) \<and>
    redact to_lower (l1 @ NEWLINE # l2) = (out1 @ NEWLINE # l2, True) \<and>
    (\<exists>r. audit_record to_lower parse_peer (ev\<lparr>ev_prompt := l1 @ NEWLINE # l2\<rparr>) t = t @ [r] \<and>
      ar_prompt r = out1 @ NEWLINE # l2 \<and> ar_redacted r)"
proof -
  have alone: "str_lines l2 = [l2]" using assms(2,4) by (simp add: str_lines_def split_on_plain)
  have both: "str_lines (l1 @ NEWLINE # l2) = [l1, l2]" using assms(1-4) by (intro str_lines_two)
  have "scan_secrets to_lower (l1 @ NEWLINE # l2) \<noteq> []"
    using flagged scan_line_ne [of to_lower 1 l2 2] unfolding scan_secrets_def both alone by (simp add: numeral_2_eq_2)
  then have two: "redact to_lower (l1 @ NEWLINE # l2) = (out1 @ NEWLINE # l2, True)"
    using masked unclaimed by (simp add: redact_def both)
  moreover have "redact to_lower l2 = (''[REDACTED:secret]'', True)"
    using flagged unclaimed by (simp add: redact_def alone)
  ultimately show ?thesis by (simp add: audit_record_def)
qed

theorem flagged_line_is_stored_witness:
  "redact to_ascii_lowercase ''my api_key hunter2hunter2'' = (''[REDACTED:secret]'', True) \<and>
   redact to_ascii_lowercase (''sk-12345678'' @ NEWLINE # ''my api_key hunter2hunter2'') =
     (''[REDACTED:token]'' @ NEWLINE # ''my api_key hunter2hunter2'', True)"
proof -
  have "find_token ''sk-12345678'' = Some (0, length ''sk-12345678'', ''api key (sk- prefix)'')" by code_simp
  from redact_line_token [OF this] have "redact_line to_ascii_lowercase ''sk-12345678'' = (''[REDACTED:token]'', True)"
    unfolding MASKED_def .
  moreover have "redact_line to_ascii_lowercase ''my api_key hunter2hunter2'' = (''my api_key hunter2hunter2'', False)" by code_simp
  moreover have "scan_secrets to_ascii_lowercase ''my api_key hunter2hunter2'' \<noteq> []" by code_simp
  ultimately show ?thesis
    using flagged_line_is_stored [of "''sk-12345678''" "''my api_key hunter2hunter2''"] by (simp add: CARRIAGE_def)
qed

section \<open>The log\<close>

datatype log_op = Append audit_event | Prune u64 u64

definition log_exec :: "(string \<Rightarrow> string) \<Rightarrow> (string \<Rightarrow> ip_addr option) \<Rightarrow> log_op \<Rightarrow> audit_row list \<Rightarrow> audit_row list" where
  "log_exec to_lower parse_peer l t = (case l of
      Append ev \<Rightarrow> audit_record to_lower parse_peer ev t
    | Prune before now \<Rightarrow> snd (audit_prune to_lower parse_peer before now t))"

text \<open>Every writer but \<open>audit_prune\<close> uses another action.\<close>

definition log_step :: "(string \<Rightarrow> string) \<Rightarrow> (string \<Rightarrow> ip_addr option) \<Rightarrow> audit_row list \<Rightarrow> log_op \<Rightarrow> audit_row list \<Rightarrow> bool" where
  "log_step to_lower parse_peer t l t' \<longleftrightarrow>
     t' = log_exec to_lower parse_peer l t \<and> (\<forall>ev. l = Append ev \<longrightarrow> ev_action ev \<noteq> PRUNE)"

definition removed_in :: "audit_row \<Rightarrow> nat" where
  "removed_in r = (case ar_detail r of None \<Rightarrow> 0 | Some d \<Rightarrow>
     (case rsplit_once (CHR ''='') d of None \<Rightarrow> 0 | Some (_, v) \<Rightarrow> digits_value v))"

definition entries :: "audit_row list \<Rightarrow> audit_row list" where
  "entries t = filter (\<lambda>r. ar_action r \<noteq> PRUNE) t"

definition prunings :: "audit_row list \<Rightarrow> audit_row list" where
  "prunings t = filter (\<lambda>r. ar_action r = PRUNE) t"

definition row_of_event :: "(string \<Rightarrow> string) \<Rightarrow> (string \<Rightarrow> ip_addr option) \<Rightarrow> audit_event \<Rightarrow> audit_row" where
  "row_of_event to_lower parse_peer ev = last (audit_record to_lower parse_peer ev [])"

lemma audit_record_eq: "audit_record to_lower parse_peer ev t = t @ [row_of_event to_lower parse_peer ev]"
  by (simp add: audit_record_def row_of_event_def Let_def split_beta)

lemma row_of_event_simps [simp]:
  "ar_action (row_of_event to_lower parse_peer ev) = ev_action ev"
  "ar_ts_ms (row_of_event to_lower parse_peer ev) = as_i64 (ev_ts_ms ev)"
  "ar_detail (row_of_event to_lower parse_peer ev) = ev_detail ev"
  by (simp_all add: row_of_event_def audit_record_def Let_def split_beta)

lemma rsplit_once_eq: "c \<notin> set v \<Longrightarrow> rsplit_once c (k @ c # v) = Some (k, v)"
  using split_once_eq [of c "rev v" "rev k"] by (simp add: rsplit_once_def)

lemma removed_in_prune [simp]: "removed_in (row_of_event to_lower parse_peer (prune_event before now n)) = n"
proof -
  have "CHR ''='' \<notin> set (show_nat n)" using show_nat_all_digits [of n] by (auto simp: is_ascii_digit_def chcode_def)
  from rsplit_once_eq [OF this, of "''before_ms='' @ show_nat (unat before) @ '' removed''"]
  show ?thesis by (simp add: removed_in_def prune_event_def digits_value_show)
qed

lemma prune_event_action [simp]: "ev_action (prune_event before now n) = PRUNE"
  by (simp add: prune_event_def)

lemma filter_pruned:
  "prunings (filter (\<lambda>r. \<not> pruned before r) t) = prunings t"
  "length (entries (filter (\<lambda>r. \<not> pruned before r) t)) + length (filter (pruned before) t) = length (entries t)"
  by (induction t) (auto simp: prunings_def entries_def pruned_def)

definition held :: "audit_row list \<Rightarrow> nat" where
  "held t = length (entries t) + (\<Sum>r \<leftarrow> prunings t. removed_in r)"

lemma log_exec_facts:
  "ev_action ev \<noteq> PRUNE \<Longrightarrow> held (log_exec to_lower parse_peer (Append ev) t) = held t + 1"
  "held (log_exec to_lower parse_peer (Prune before now) t) = held t"
  "ev_action ev \<noteq> PRUNE \<Longrightarrow> prunings (log_exec to_lower parse_peer (Append ev) t) = prunings t"
  "length (prunings (log_exec to_lower parse_peer (Prune before now) t)) = length (prunings t) + 1"
  using filter_pruned [of before t]
  by (simp_all add: log_exec_def audit_prune_def audit_record_eq held_def entries_def prunings_def Let_def)

definition appends :: "log_op list \<Rightarrow> audit_event list" where
  "appends ls = concat (map (\<lambda>l. case l of Append ev \<Rightarrow> [ev] | Prune _ _ \<Rightarrow> []) ls)"

definition bounds :: "log_op list \<Rightarrow> u64 list" where
  "bounds ls = concat (map (\<lambda>l. case l of Append _ \<Rightarrow> [] | Prune before _ \<Rightarrow> [before]) ls)"

lemma log_trace_counts:
  "trace (log_step to_lower parse_peer) t ls t' \<Longrightarrow>
    held t' = held t + length (appends ls) \<and> length (prunings t') = length (prunings t) + length (bounds ls)"
proof (induction rule: trace.induct)
  case (trace_cons t l t1 ls t2)
  then show ?case by (cases l) (auto simp: log_step_def log_exec_facts appends_def bounds_def)
qed (simp add: appends_def bounds_def)

lemma log_trace_keeps:
  "trace (log_step to_lower parse_peer) t ls t' \<Longrightarrow> r \<in> set t \<Longrightarrow>
    ar_action r = PRUNE \<or> (\<forall>before \<in> set (bounds ls). clamp_ms before \<le> ar_ts_ms r) \<Longrightarrow> r \<in> set t'"
proof (induction rule: trace.induct)
  case (trace_cons t l t1 ls t2)
  have "r \<in> set t1"
    using trace_cons.hyps(1) trace_cons.prems
    by (cases l) (auto simp: log_step_def log_exec_def audit_prune_def audit_record_eq pruned_def bounds_def Let_def)
  with trace_cons show ?case by (auto simp: bounds_def)
qed

lemma log_trace_appended:
  "trace (log_step to_lower parse_peer) t ls t' \<Longrightarrow> ev \<in> set (appends ls) \<Longrightarrow>
    (\<forall>before \<in> set (bounds ls). clamp_ms before \<le> as_i64 (ev_ts_ms ev)) \<Longrightarrow> row_of_event to_lower parse_peer ev \<in> set t'"
proof (induction rule: trace.induct)
  case (trace_cons t l t1 ls t2)
  show ?case
  proof (cases "l = Append ev")
    case True
    then have "row_of_event to_lower parse_peer ev \<in> set t1"
      using trace_cons.hyps(1) by (simp add: log_step_def log_exec_def audit_record_eq)
    moreover have "bounds (l # ls) = bounds ls" by (simp add: True bounds_def)
    ultimately show ?thesis using log_trace_keeps [OF trace_cons.hyps(2)] trace_cons.prems(2) by simp
  next
    case False
    with trace_cons show ?thesis by (cases l) (auto simp: appends_def bounds_def)
  qed
qed (simp add: appends_def)

text \<open>
  C14. The audit log accounts for every row: after any sequence of events and prunings, starting from an
  empty log, the rows that are there and the numbers that the records of the prunings state add up to the
  number of events; there is one record for each pruning, whatever later prunings removed; and an event no
  older than any of the bounds asked for is still there.
\<close>

theorem log_accounts_for_every_row:
  assumes "trace (log_step to_lower parse_peer) [] ls t"
  shows "length (entries t) + (\<Sum>r \<leftarrow> prunings t. removed_in r) = length (appends ls) \<and>
    length (prunings t) = length (bounds ls) \<and>
    (\<forall>ev \<in> set (appends ls). (\<forall>before \<in> set (bounds ls). clamp_ms before \<le> as_i64 (ev_ts_ms ev)) \<longrightarrow>
      row_of_event to_lower parse_peer ev \<in> set t)"
  using log_trace_counts [OF assms] log_trace_appended [OF assms] by (auto simp: held_def entries_def prunings_def)

definition demo_ops :: "log_op list" where
  "demo_ops = [Append (event_new ''pane.spawn'' Prompt OutcomeOk 3), Append (event_new ''pane.kill'' Prompt OutcomeOk 7),
     Prune 5 9, Append (event_new ''pane.spawn'' Prompt OutcomeOk 11), Prune 9 12]"

theorem log_accounts_for_every_row_witness:
  "\<exists>t. trace (log_step to_ascii_lowercase (\<lambda>_. None)) [] demo_ops t \<and>
     length (entries t) + (\<Sum>r \<leftarrow> prunings t. removed_in r) = 3 \<and> length (prunings t) = 2 \<and> length (entries t) = 1"
proof -
  let ?run = "\<lambda>l t. log_exec to_ascii_lowercase (\<lambda>_. None) l t"
  have "trace (log_step to_ascii_lowercase (\<lambda>_. None)) [] demo_ops (fold ?run demo_ops [])"
    by (simp add: demo_ops_def trace_Cons_iff log_step_def event_new_def PRUNE_def)
  moreover have "length (entries (fold ?run demo_ops [])) = 1" by code_simp
  moreover have "length (appends demo_ops) = 3 \<and> length (bounds demo_ops) = 2"
    by (simp add: demo_ops_def appends_def bounds_def)
  ultimately show ?thesis using log_accounts_for_every_row by fastforce
qed

end
