(* ===== verification/Pane_Ring.thy ===== *)
theory Pane_Ring
  imports Text_Utf8 Mesh_Directory
begin

text \<open>
  The bounded buffer of a pane's output, \<open>RingBuffer\<close> and \<open>Scrollback\<close> of \<open>crates/arreo-core/src/pty.rs\<close>: the last
  lines, the unterminated one, and the journal of raw bytes that the state engine is fed from. Raw output is
  a string, one character per byte. The counters are \<open>nat\<close>. \<open>String::truncate\<close> panics inside a character.
\<close>

definition HOT_LINES :: nat where "HOT_LINES = 512"
definition MAX_LINE_BYTES :: nat where "MAX_LINE_BYTES = 64 * 1024"
definition MAX_RAW_JOURNAL :: nat where "MAX_RAW_JOURNAL = 1024 * 1024"

record ring_buffer =
  rb_lines :: "string list"
  rb_capacity :: nat
  rb_pending :: string
  rb_dropped :: nat
  rb_dropped_bytes :: nat
  rb_raw :: string
  rb_raw_truncated :: bool

definition ring_new :: "nat \<Rightarrow> ring_buffer" where
  "ring_new capacity = \<lparr> rb_lines = [], rb_capacity = capacity, rb_pending = [], rb_dropped = 0,
     rb_dropped_bytes = 0, rb_raw = [], rb_raw_truncated = False \<rparr>"

definition truncate_str :: "nat \<Rightarrow> string \<Rightarrow> string run" where
  "truncate_str n s = (if n \<le> length s then if is_char_boundary s n then Returns (take n s) else Panics else Returns s)"

definition append_line :: "string \<Rightarrow> ring_buffer \<Rightarrow> ring_buffer" where
  "append_line line r =
     (if rb_capacity r \<le> length (rb_lines r)
      then r\<lparr> rb_lines := tl (rb_lines r) @ [line], rb_dropped := rb_dropped r + 1 \<rparr>
      else r\<lparr> rb_lines := rb_lines r @ [line] \<rparr>)"

definition push_line :: "string \<Rightarrow> ring_buffer \<Rightarrow> ring_buffer run" where
  "push_line line r =
     (if MAX_LINE_BYTES < length line then
        (case truncate_str MAX_LINE_BYTES line of
           Panics \<Rightarrow> Panics
         | Returns l \<Rightarrow> Returns (append_line l (r\<lparr> rb_dropped_bytes := rb_dropped_bytes r + (length line - MAX_LINE_BYTES) \<rparr>)))
      else Returns (append_line line r))"

definition strip_eol :: "string \<Rightarrow> string" where
  "strip_eol line = rev (dropWhile (\<lambda>c. c = NEWLINE \<or> c = CARRIAGE) (rev line))"

lemma push_line_fields:
  "push_line line r = Returns r' \<Longrightarrow> rb_pending r' = rb_pending r \<and> rb_capacity r' = rb_capacity r \<and>
    rb_raw r' = rb_raw r \<and> rb_raw_truncated r' = rb_raw_truncated r"
  by (auto simp: push_line_def append_line_def split: if_splits run.splits)

text \<open>The loop over the newlines in \<open>pending\<close>.\<close>

function push_pending :: "ring_buffer \<Rightarrow> ring_buffer run" where
  "push_pending r = (case split_once NEWLINE (rb_pending r) of
      None \<Rightarrow> Returns r
    | Some (line, rest) \<Rightarrow>
        (case push_line (strip_eol (line @ [NEWLINE])) (r\<lparr>rb_pending := rest\<rparr>) of
           Panics \<Rightarrow> Panics
         | Returns r1 \<Rightarrow> push_pending r1))"
  by pat_completeness auto
termination
  by (relation "measure (\<lambda>r. length (rb_pending r))") (auto dest!: split_once_Some push_line_fields)

declare push_pending.simps [simp del]

definition journal :: "string \<Rightarrow> ring_buffer \<Rightarrow> ring_buffer" where
  "journal bs r =
     (if rb_raw_truncated r then r
      else let room = MAX_RAW_JOURNAL - length (rb_raw r) in
        if length bs \<le> room then r\<lparr>rb_raw := rb_raw r @ bs\<rparr>
        else r\<lparr>rb_raw := rb_raw r @ take room bs, rb_raw_truncated := True\<rparr>)"

definition bound_pending :: "ring_buffer \<Rightarrow> ring_buffer run" where
  "bound_pending r =
     (if MAX_LINE_BYTES < length (rb_pending r) then
        (case truncate_str MAX_LINE_BYTES (rb_pending r) of
           Panics \<Rightarrow> Panics
         | Returns p \<Rightarrow> Returns (r\<lparr> rb_dropped_bytes := rb_dropped_bytes r + (length (rb_pending r) - MAX_LINE_BYTES),
             rb_pending := p \<rparr>))
      else Returns r)"

definition push_bytes :: "string \<Rightarrow> ring_buffer \<Rightarrow> ring_buffer run" where
  "push_bytes bs r =
     (let r1 = journal bs r; r2 = r1\<lparr>rb_pending := rb_pending r1 @ utf8_lossy bs\<rparr> in
      case push_pending r2 of Panics \<Rightarrow> Panics | Returns r3 \<Rightarrow> bound_pending r3)"

fun prepend_history :: "string list \<Rightarrow> ring_buffer \<Rightarrow> ring_buffer run" where
  "prepend_history [] r = Returns r"
| "prepend_history (line # lines) r = (case push_line line r of Panics \<Rightarrow> Panics | Returns r1 \<Rightarrow> prepend_history lines r1)"

definition lines_with_partial :: "ring_buffer \<Rightarrow> string list" where
  "lines_with_partial r = rb_lines r @
     (if rb_pending r = [] then []
      else [rev (dropWhile (\<lambda>c. c = CARRIAGE) (rev (concat (take MAX_LINE_BYTES (chars_of (rb_pending r))))))])"

record scrollback =
  sc_lines :: "string list"
  sc_pending :: string
  sc_raw :: string
  sc_raw_truncated :: bool
  sc_dropped :: nat
  sc_dropped_bytes :: nat

definition scrollback_of :: "ring_buffer \<Rightarrow> scrollback" where
  "scrollback_of r = \<lparr> sc_lines = rb_lines r, sc_pending = rb_pending r, sc_raw = rb_raw r,
     sc_raw_truncated = rb_raw_truncated r, sc_dropped = rb_dropped r, sc_dropped_bytes = rb_dropped_bytes r \<rparr>"

fun floor_boundary :: "string \<Rightarrow> nat \<Rightarrow> nat" where
  "floor_boundary s 0 = 0"
| "floor_boundary s (Suc n) = (if is_char_boundary s (Suc n) then Suc n else floor_boundary s n)"

definition seed :: "scrollback \<Rightarrow> ring_buffer \<Rightarrow> ring_buffer run" where
  "seed sc r = (case prepend_history (sc_lines sc) r of
      Panics \<Rightarrow> Panics
    | Returns r1 \<Rightarrow>
        (let end_at = floor_boundary (sc_pending sc) (min (length (sc_pending sc)) MAX_LINE_BYTES) in
         Returns (r1\<lparr> rb_pending := take end_at (sc_pending sc),
           rb_raw := take MAX_RAW_JOURNAL (sc_raw sc),
           rb_raw_truncated := (sc_raw_truncated sc \<or> MAX_RAW_JOURNAL < length (sc_raw sc)),
           rb_dropped := sc_dropped sc, rb_dropped_bytes := sc_dropped_bytes sc \<rparr>)))"

definition bytes_held :: "ring_buffer \<Rightarrow> nat" where
  "bytes_held r = (\<Sum>l \<leftarrow> rb_lines r. length l) + length (rb_pending r) + length (rb_raw r)"

fun push_chunks :: "string list \<Rightarrow> ring_buffer \<Rightarrow> ring_buffer run" where
  "push_chunks [] r = Returns r"
| "push_chunks (c # cs) r = (case push_bytes c r of Panics \<Rightarrow> Panics | Returns r1 \<Rightarrow> push_chunks cs r1)"

end
