(* ===== verification/Pane_Properties.thy ===== *)
theory Pane_Properties
  imports Pane_Ring
begin

text \<open>
  What is shown of the output of a pane: the buffer is bounded and forgets no line it does not count, a
  handoff restores it; and two places where output is lost, or stops the daemon.
\<close>

section \<open>The buffer\<close>

definition ring_ok :: "ring_buffer \<Rightarrow> bool" where
  "ring_ok r \<longleftrightarrow> 0 < rb_capacity r \<and> length (rb_lines r) \<le> rb_capacity r \<and>
     (\<forall>l \<in> set (rb_lines r). length l \<le> MAX_LINE_BYTES) \<and> length (rb_raw r) \<le> MAX_RAW_JOURNAL"

lemma truncate_str_Returns: "truncate_str n s = Returns t \<Longrightarrow> length t \<le> n"
  by (auto simp: truncate_str_def split: if_splits)

lemma push_line_ok:
  assumes "push_line line r = Returns r'" and "ring_ok r"
  shows "ring_ok r' \<and> rb_dropped r' + length (rb_lines r') = rb_dropped r + length (rb_lines r) + 1"
proof -
  have "append_line l r0 = r' \<Longrightarrow> length l \<le> MAX_LINE_BYTES \<Longrightarrow> rb_lines r0 = rb_lines r \<Longrightarrow> rb_capacity r0 = rb_capacity r \<Longrightarrow>
    rb_raw r0 = rb_raw r \<Longrightarrow> rb_dropped r0 = rb_dropped r \<Longrightarrow> ?thesis" for l r0
    using assms(2) by (cases "rb_lines r") (auto simp: append_line_def ring_ok_def split: if_splits)
  then show ?thesis
    using assms(1) by (fastforce simp: push_line_def dest: truncate_str_Returns split: if_splits run.splits)
qed

lemma count_split_once: "split_once NEWLINE s = Some (a, b) \<Longrightarrow> count_list s NEWLINE = count_list b NEWLINE + 1"
  by (auto dest!: split_once_Some)

lemma split_once_None: "split_once c s = None \<longleftrightarrow> c \<notin> set s"
proof -
  have "split_once c s = None \<longleftrightarrow> dropWhile (\<lambda>x. x \<noteq> c) s = []"
    unfolding split_once_def by (cases "dropWhile (\<lambda>x. x \<noteq> c) s") (simp_all del: dropWhile_eq_Nil_conv)
  then show ?thesis by (auto simp: dropWhile_eq_Nil_conv)
qed

lemma push_pending_ok:
  "push_pending r = Returns r' \<Longrightarrow> ring_ok r \<Longrightarrow>
    ring_ok r' \<and> rb_capacity r' = rb_capacity r \<and> rb_raw r' = rb_raw r \<and> rb_raw_truncated r' = rb_raw_truncated r \<and> NEWLINE \<notin> set (rb_pending r') \<and>
    rb_dropped r' + length (rb_lines r') = rb_dropped r + length (rb_lines r) + count_list (rb_pending r) NEWLINE"
proof (induction r rule: push_pending.induct)
  case (1 r)
  show ?case
  proof (cases "split_once NEWLINE (rb_pending r)")
    case None
    then have "r' = r" using "1.prems"(1) by (simp add: push_pending.simps [of r])
    with None "1.prems"(2) show ?thesis by (simp add: split_once_None count_list_0_iff)
  next
    case (Some ab)
    then obtain a b where ab: "split_once NEWLINE (rb_pending r) = Some (a, b)" by (cases ab) auto
    let ?r = "r\<lparr>rb_pending := b\<rparr>"
    obtain r1 where r1: "push_line (strip_eol (a @ [NEWLINE])) ?r = Returns r1" and more: "push_pending r1 = Returns r'"
      using "1.prems"(1) ab by (auto simp: push_pending.simps [of r] split: run.splits)
    have "ring_ok ?r" using "1.prems"(2) by (simp add: ring_ok_def)
    note step = push_line_ok [OF r1 this] push_line_fields [OF r1]
    then show ?thesis using "1.IH" [OF ab refl r1 more] count_split_once [OF ab] by auto
  qed
qed

lemma push_bytes_ok:
  assumes "push_bytes c r = Returns r'" and "ring_ok r"
  shows "ring_ok r' \<and> rb_capacity r' = rb_capacity r \<and> length (rb_pending r') \<le> MAX_LINE_BYTES \<and> NEWLINE \<notin> set (rb_pending r') \<and>
    rb_dropped r' + length (rb_lines r') = rb_dropped r + length (rb_lines r) + count_list (rb_pending r) NEWLINE + count_list (utf8_lossy c) NEWLINE \<and>
    rb_raw r' = rb_raw (journal c r) \<and> rb_raw_truncated r' = rb_raw_truncated (journal c r)"
proof -
  let ?r2 = "(journal c r)\<lparr>rb_pending := rb_pending (journal c r) @ utf8_lossy c\<rparr>"
  obtain r3 where r3: "push_pending ?r2 = Returns r3" and r': "bound_pending r3 = Returns r'"
    using assms(1) by (auto simp: push_bytes_def Let_def split: run.splits)
  have "ring_ok ?r2" using assms(2) by (auto simp: ring_ok_def journal_def Let_def)
  note facts = push_pending_ok [OF r3 this]
  have "rb_lines ?r2 = rb_lines r \<and> rb_dropped ?r2 = rb_dropped r \<and> rb_capacity ?r2 = rb_capacity r \<and> rb_pending (journal c r) = rb_pending r"
    by (simp add: journal_def Let_def)
  then show ?thesis
    using facts r' by (auto simp: bound_pending_def ring_ok_def truncate_str_def dest: in_set_takeD split: if_splits run.splits)
qed

lemma journal_chunks:
  "rb_raw_truncated r = (MAX_RAW_JOURNAL < length s) \<Longrightarrow> rb_raw r = take MAX_RAW_JOURNAL s \<Longrightarrow>
    rb_raw_truncated (journal c r) = (MAX_RAW_JOURNAL < length (s @ c)) \<and> rb_raw (journal c r) = take MAX_RAW_JOURNAL (s @ c)"
  by (auto simp: journal_def Let_def)

lemma push_chunks_ok:
  "push_chunks cs r0 = Returns r \<Longrightarrow> ring_ok r0 \<Longrightarrow> NEWLINE \<notin> set (rb_pending r0) \<Longrightarrow> length (rb_pending r0) \<le> MAX_LINE_BYTES \<Longrightarrow>
    rb_raw_truncated r0 = (MAX_RAW_JOURNAL < length s) \<Longrightarrow> rb_raw r0 = take MAX_RAW_JOURNAL s \<Longrightarrow>
    ring_ok r \<and> rb_capacity r = rb_capacity r0 \<and> NEWLINE \<notin> set (rb_pending r) \<and> length (rb_pending r) \<le> MAX_LINE_BYTES \<and>
    rb_dropped r + length (rb_lines r) = rb_dropped r0 + length (rb_lines r0) + count_list (concat (map utf8_lossy cs)) NEWLINE \<and>
    rb_raw r = take MAX_RAW_JOURNAL (s @ concat cs) \<and> rb_raw_truncated r = (MAX_RAW_JOURNAL < length (s @ concat cs))"
proof (induction cs arbitrary: r0 s)
  case (Cons c cs)
  obtain r1 where r1: "push_bytes c r0 = Returns r1" and more: "push_chunks cs r1 = Returns r"
    using Cons.prems(1) by (auto split: run.splits)
  note step = push_bytes_ok [OF r1 Cons.prems(2)] journal_chunks [OF Cons.prems(5,6), of c]
  have "count_list (rb_pending r0) NEWLINE = 0" using Cons.prems(3) by (simp add: count_list_0_iff)
  with Cons.IH [OF more, of "s @ c"] step show ?case by auto
qed simp

lemma pane_ring:
  assumes "push_chunks cs (ring_new capacity) = Returns r" and "0 < capacity"
  shows "ring_ok r \<and> rb_capacity r = capacity \<and> NEWLINE \<notin> set (rb_pending r) \<and> length (rb_pending r) \<le> MAX_LINE_BYTES \<and>
    rb_dropped r + length (rb_lines r) = count_list (concat (map utf8_lossy cs)) NEWLINE \<and>
    rb_raw r = take MAX_RAW_JOURNAL (concat cs) \<and> rb_raw_truncated r = (MAX_RAW_JOURNAL < length (concat cs))"
  using push_chunks_ok [OF assms(1), of "[]"] assms(2) by (simp add: ring_ok_def ring_new_def)

text \<open>
  C19. The buffer of a pane is bounded and accounts for what it drops: whatever is printed, in whatever
  pieces it is read, as long as the daemon survives it there are at most as many lines as the capacity,
  each of at most 64 KiB, and at most 64 KiB of an unfinished line without a newline in it; lines held and
  lines counted as dropped add up to the lines that were finished; and the journal is the first MiB of the
  output, marked exactly when there was more.
\<close>

theorem ring_is_bounded_and_counts:
  assumes "push_chunks cs (ring_new capacity) = Returns r" and "0 < capacity"
  shows "length (rb_lines r) \<le> capacity \<and> (\<forall>l \<in> set (rb_lines r). length l \<le> MAX_LINE_BYTES) \<and>
    length (rb_pending r) \<le> MAX_LINE_BYTES \<and> NEWLINE \<notin> set (rb_pending r) \<and>
    rb_dropped r + length (rb_lines r) = count_list (concat (map utf8_lossy cs)) NEWLINE \<and>
    rb_raw r = take MAX_RAW_JOURNAL (concat cs) \<and> rb_raw_truncated r = (MAX_RAW_JOURNAL < length (concat cs))"
  using pane_ring [OF assms] by (auto simp: ring_ok_def)

definition demo_ring :: ring_buffer where
  "demo_ring = \<lparr> rb_lines = [''two''], rb_capacity = 1, rb_pending = ''$ '', rb_dropped = 1, rb_dropped_bytes = 0,
     rb_raw = ''one'' @ [CARRIAGE, NEWLINE] @ ''two'' @ [NEWLINE] @ ''$ '', rb_raw_truncated = False \<rparr>"

definition demo_chunks :: "string list" where
  "demo_chunks = [''one'' @ [CARRIAGE], [NEWLINE] @ ''two'', [NEWLINE] @ ''$ '']"

lemma demo_push: "push_chunks demo_chunks (ring_new 1) = Returns demo_ring"
  by (simp add: demo_chunks_def demo_ring_def ring_new_def push_bytes_def journal_def MAX_RAW_JOURNAL_def MAX_LINE_BYTES_def
    utf8_lossy_ascii CARRIAGE_def chcode_def push_pending.simps split_once_def push_line_def append_line_def strip_eol_def
    bound_pending_def)

theorem ring_is_bounded_and_counts_witness:
  "push_chunks demo_chunks (ring_new 1) = Returns demo_ring \<and> rb_dropped demo_ring + length (rb_lines demo_ring) = 2"
  using ring_is_bounded_and_counts [OF demo_push] demo_push
  by (simp add: demo_chunks_def utf8_lossy_ascii CARRIAGE_def chcode_def demo_ring_def)

lemma prepend_history_fits:
  "length (rb_lines r) + length ls \<le> rb_capacity r \<Longrightarrow> \<forall>l \<in> set ls. length l \<le> MAX_LINE_BYTES \<Longrightarrow>
    prepend_history ls r = Returns (r\<lparr>rb_lines := rb_lines r @ ls\<rparr>)"
  by (induction ls arbitrary: r) (auto simp: push_line_def append_line_def)

lemma floor_boundary_end: "floor_boundary s (length s) = length s"
  by (cases "length s") (auto simp: is_char_boundary_def)

text \<open>
  A handoff restores a pane's buffer: seeding a new buffer of the same capacity from the captured
  scrollback gives the buffer back, lines, unfinished line, journal and counters.
\<close>

theorem handoff_restores_ring:
  assumes "push_chunks cs (ring_new capacity) = Returns r" and "0 < capacity"
  shows "seed (scrollback_of r) (ring_new (rb_capacity r)) = Returns r"
proof -
  note facts = pane_ring [OF assms]
  then have "prepend_history (rb_lines r) (ring_new (rb_capacity r)) = Returns ((ring_new (rb_capacity r))\<lparr>rb_lines := rb_lines r\<rparr>)"
    by (subst prepend_history_fits) (auto simp: ring_ok_def ring_new_def)
  with facts show ?thesis
    by (simp add: seed_def scrollback_of_def min_absorb1 floor_boundary_end ring_new_def ring_ok_def)
qed

theorem handoff_restores_ring_witness: "seed (scrollback_of demo_ring) (ring_new 1) = Returns demo_ring"
  using handoff_restores_ring [OF demo_push] by (simp add: demo_ring_def)

section \<open>Where output is lost\<close>

lemma push_pending_none: "NEWLINE \<notin> set (rb_pending r) \<Longrightarrow> push_pending r = Returns r"
  by (simp add: push_pending.simps [of r] split_once_None [THEN iffD2])

text \<open>
  C38. A long unfinished line stops the daemon: when an unfinished line and what is read next exceed
  64 KiB and the 64 KiB end inside a character, the read panics.
\<close>

theorem long_line_panics:
  assumes "NEWLINE \<notin> set (rb_pending r @ utf8_lossy c)" and "MAX_LINE_BYTES < length (rb_pending r @ utf8_lossy c)"
    and "is_cont ((rb_pending r @ utf8_lossy c) ! MAX_LINE_BYTES)"
  shows "push_bytes c r = Panics"
proof -
  have "rb_pending (journal c r) = rb_pending r" by (simp add: journal_def Let_def)
  with assms show ?thesis
    by (simp add: push_bytes_def Let_def push_pending_none bound_pending_def truncate_str_def is_char_boundary_def MAX_LINE_BYTES_def)
qed

definition accented :: string where
  "accented = [CHR 0xC3, CHR 0xA9]"

lemma lossy_accented: "utf8_lossy accented = accented"
  by (simp add: accented_def utf8_lossy.simps(2) utf8_step_def code_in_def chcode_def)

definition long_ring :: ring_buffer where
  "long_ring = (ring_new HOT_LINES)\<lparr>rb_pending := replicate (MAX_LINE_BYTES - 1) (CHR ''a'')\<rparr>"

theorem long_line_panics_witness: "push_bytes accented long_ring = Panics"
proof -
  have "(rb_pending long_ring @ accented) ! MAX_LINE_BYTES = CHR 0xA9"
    by (simp add: long_ring_def accented_def nth_append MAX_LINE_BYTES_def ring_new_def)
  moreover have "length (rb_pending long_ring) = MAX_LINE_BYTES - 1 \<and> NEWLINE \<notin> set (rb_pending long_ring)"
    by (simp add: long_ring_def ring_new_def)
  moreover have "is_cont (CHR 0xA9)" by (simp add: is_cont_def chcode_def)
  ultimately show ?thesis
    using long_line_panics [of long_ring accented] by (simp add: lossy_accented) (simp add: accented_def MAX_LINE_BYTES_def)
qed

text \<open>A character that two reads share is lost: each half becomes a replacement character.\<close>

theorem split_character_is_lost:
  assumes "code_in 194 223 a" and "code_in 128 191 b" and "length (rb_pending r) + 6 \<le> MAX_LINE_BYTES" and "NEWLINE \<notin> set (rb_pending r)"
  shows "\<exists>r1 r2. push_bytes [a, b] r = Returns r1 \<and> rb_pending r1 = rb_pending r @ [a, b] \<and>
    push_chunks [[a], [b]] r = Returns r2 \<and> rb_pending r2 = rb_pending r @ REPLACEMENT @ REPLACEMENT"
proof -
  have ab: "utf8_lossy [a, b] = [a, b]" "utf8_lossy [a] = REPLACEMENT" "utf8_lossy [b] = REPLACEMENT"
    using assms(1,2) by (auto simp: utf8_lossy.simps(2) utf8_step_def code_in_def)
  have nl: "NEWLINE \<notin> set [a, b]" "NEWLINE \<notin> set REPLACEMENT" "length REPLACEMENT = 3"
    using assms(1,2) by (auto simp: code_in_def chcode_def REPLACEMENT_def)
  have j: "rb_pending (journal c x) = rb_pending x" for c x by (simp add: journal_def Let_def)
  have push: "\<exists>r1. push_bytes c x = Returns r1 \<and> rb_pending r1 = rb_pending x @ utf8_lossy c"
    if "NEWLINE \<notin> set (rb_pending x @ utf8_lossy c)" and "length (rb_pending x @ utf8_lossy c) \<le> MAX_LINE_BYTES" for c x
    using that by (simp add: push_bytes_def Let_def push_pending_none bound_pending_def j)
  obtain r1 where "push_bytes [a, b] r = Returns r1 \<and> rb_pending r1 = rb_pending r @ [a, b]"
    using push [of r "[a, b]"] ab nl assms(3,4) by auto
  moreover obtain ra where "push_bytes [a] r = Returns ra \<and> rb_pending ra = rb_pending r @ REPLACEMENT"
    using push [of r "[a]"] ab nl assms(3,4) by auto
  moreover then obtain rb where "push_bytes [b] ra = Returns rb \<and> rb_pending rb = rb_pending r @ REPLACEMENT @ REPLACEMENT"
    using push [of ra "[b]"] ab nl assms(3,4) by auto
  ultimately show ?thesis by auto
qed

end
