(* ===== verification/State_Engine.thy ===== *)
theory State_Engine
  imports Pane_Ring Secrets_Scan
begin

text \<open>
  The detection engine of \<open>crates/arreo-core/src/state/engine.rs\<close>: bytes and an explicit clock in, state events
  out; and what it uses of an adapter (\<open>state/adapter.rs\<close>): patterns, thresholds and the resume strategy. The
  regular expressions are a third-party library and the argument \<open>R\<close>.
\<close>

section \<open>Adapters\<close>

record 'r regex_lib =
  rx_new :: "string \<Rightarrow> 'r option"
  rx_is_match :: "'r \<Rightarrow> string \<Rightarrow> bool"
  rx_captures_len :: "'r \<Rightarrow> nat"
  rx_group_1 :: "'r \<Rightarrow> string \<Rightarrow> string option"

datatype resume_kind = Pin | Continue

definition resume_kind_parse :: "string \<Rightarrow> resume_kind option" where
  "resume_kind_parse t = (if t = ''pin'' then Some Pin else if t = ''continue'' then Some Continue else None)"

definition resume_kind_as_str :: "resume_kind \<Rightarrow> string" where
  "resume_kind_as_str k = (case k of Pin \<Rightarrow> ''pin'' | Continue \<Rightarrow> ''continue'')"

record 'r resume =
  re_kind :: resume_kind
  re_argv :: "string list"
  re_exact_argv :: "string list option"
  re_session_pattern :: "string option"
  re_session_re :: "'r option"

record 'r adapter =
  ad_idle_after_ms :: u64
  ad_question_after_ms :: u64
  ad_blocked_after_ms :: u64
  ad_bell_means_attention :: bool
  ad_done_on_exit :: bool
  ad_question_patterns :: "string list"
  ad_error_patterns :: "string list"
  ad_harness :: "string option"
  ad_programs :: "string list"
  ad_resume :: "'r resume option"
  ad_question_res :: "'r list"
  ad_error_res :: "'r list"

definition resume_capture :: "'r regex_lib \<Rightarrow> 'r resume \<Rightarrow> string \<Rightarrow> string option" where
  "resume_capture R r text = (case re_session_re r of None \<Rightarrow> None | Some re \<Rightarrow> rx_group_1 R re text)"

definition captures_session :: "'r adapter \<Rightarrow> bool" where
  "captures_session a = (case ad_resume a of
      None \<Rightarrow> False | Some r \<Rightarrow> re_session_pattern r \<noteq> None \<and> re_session_re r \<noteq> None)"

definition match_question :: "'r regex_lib \<Rightarrow> 'r adapter \<Rightarrow> string \<Rightarrow> string option" where
  "match_question R a tail =
     map_option snd (find (\<lambda>(re, _). rx_is_match R re tail) (zip (ad_question_res a) (ad_question_patterns a)))"

definition match_error :: "'r regex_lib \<Rightarrow> 'r adapter \<Rightarrow> string \<Rightarrow> bool" where
  "match_error R a text = list_ex (\<lambda>re. rx_is_match R re text) (ad_error_res a)"

section \<open>Events\<close>

datatype pane_state = StUnknown | StWorking | StIdle | StQuestion | StBlocked | StDone

datatype confidence = Direct | Inferred string

record provenance =
  pv_confidence :: confidence
  pv_matched_pattern :: "string option"

record state_event =
  se_t_ms :: u64
  se_state :: pane_state
  se_confidence :: confidence
  se_matched_pattern :: "string option"
  se_exit_code :: "int option"

section \<open>Reading a terminal stream\<close>

abbreviation ESC :: char where "ESC \<equiv> CHR 0x1B"
abbreviation BEL :: char where "BEL \<equiv> CHR 0x07"

definition is_control :: "string \<Rightarrow> bool" where
  "is_control c = (case map chcode c of
      [a] \<Rightarrow> a < 32 \<or> a = 127
    | [a, b] \<Rightarrow> a = 194 \<and> 128 \<le> b \<and> b \<le> 159
    | _ \<Rightarrow> False)"

definition is_ascii_alphabetic :: "string \<Rightarrow> bool" where
  "is_ascii_alphabetic c = (case c of [a] \<Rightarrow> is_ascii_lowercase a \<or> is_ascii_uppercase a | _ \<Rightarrow> False)"

fun skip_csi :: "string list \<Rightarrow> string list" where
  "skip_csi [] = []"
| "skip_csi (c # cs) = (if is_ascii_alphabetic c \<or> c = ''~'' then cs else skip_csi cs)"

lemma length_skip_csi: "length (skip_csi cs) \<le> length cs"
  by (induction cs) auto

function strip_chars :: "string list \<Rightarrow> string" where
  "strip_chars [] = []"
| "strip_chars (c # cs) =
     (if c = [ESC] then
        (case cs of d # ds \<Rightarrow> if d = ''['' then strip_chars (skip_csi ds) else strip_chars cs | [] \<Rightarrow> strip_chars cs)
      else if is_control c \<and> c \<noteq> [NEWLINE] \<and> c \<noteq> [TAB] then strip_chars cs
      else c @ strip_chars cs)"
  by pat_completeness auto
termination
  by (relation "measure length") (auto simp: le_imp_less_Suc le_SucI length_skip_csi)

declare strip_chars.simps(2) [simp del]

definition strip_ansi :: "string \<Rightarrow> string" where
  "strip_ansi bs = strip_chars (chars_of (utf8_lossy bs))"

record bell_scan =
  bs_bell :: bool
  bs_osc_active :: bool
  bs_esc_pending :: bool

definition bell_byte :: "char \<Rightarrow> bell_scan \<Rightarrow> bell_scan" where
  "bell_byte b s =
     (if bs_esc_pending s then
        (let s1 = s\<lparr>bs_esc_pending := False\<rparr> in
         if bs_osc_active s
         then if b \<in> {CHR 0x5C, BEL, CHR 0x9C, CHR 0x18, CHR 0x1A} then s1\<lparr>bs_osc_active := False\<rparr> else s1
         else if b = CHR 0x5D then s1\<lparr>bs_osc_active := True\<rparr>
         else if b = BEL then s1\<lparr>bs_bell := True\<rparr> else s1)
      else if bs_osc_active s then
        (if b = BEL \<or> b = CHR 0x9C then s\<lparr>bs_osc_active := False\<rparr>
         else if b = CHR 0x18 \<or> b = CHR 0x1A then s\<lparr>bs_osc_active := False\<rparr>
         else if b = ESC then s\<lparr>bs_esc_pending := True\<rparr> else s)
      else if b = ESC then s\<lparr>bs_esc_pending := True\<rparr>
      else if b = BEL then s\<lparr>bs_bell := True\<rparr> else s)"

text \<open>The bell, and the two flags that the engine keeps between feeds.\<close>

definition scan_bell :: "string \<Rightarrow> bool \<Rightarrow> bool \<Rightarrow> bell_scan" where
  "scan_bell bytes osc_active esc_pending =
     fold bell_byte bytes \<lparr> bs_bell = False, bs_osc_active = osc_active, bs_esc_pending = esc_pending \<rparr>"

definition tail_lines :: "string \<Rightarrow> nat \<Rightarrow> string" where
  "tail_lines text n = (let ls = str_lines text in join_lines (drop (length ls - n) ls))"

section \<open>The engine\<close>

record 'r engine =
  en_adapter :: "'r adapter"
  en_state :: pane_state
  en_provenance :: "provenance option"
  en_text :: string
  en_last_output_ms :: "u64 option"
  en_bell_pending :: bool
  en_osc_active :: bool
  en_esc_pending :: bool
  en_error_armed :: bool
  en_exited :: bool
  en_session :: "string option"
  en_capture_carry :: string
  en_session_learned :: bool

definition TEXT_CAP :: nat where "TEXT_CAP = 64 * 1024"
definition CAPTURE_CARRY_BYTES :: nat where "CAPTURE_CARRY_BYTES = 4096"

definition engine_new :: "'r adapter \<Rightarrow> 'r engine" where
  "engine_new a = \<lparr> en_adapter = a, en_state = StUnknown, en_provenance = None, en_text = [],
     en_last_output_ms = None, en_bell_pending = False, en_osc_active = False, en_esc_pending = False,
     en_error_armed = False, en_exited = False, en_session = None, en_capture_carry = [], en_session_learned = False \<rparr>"

definition engine_record :: "state_event \<Rightarrow> 'r engine \<Rightarrow> 'r engine" where
  "engine_record ev en = en\<lparr> en_state := se_state ev,
     en_provenance := Some \<lparr> pv_confidence = se_confidence ev, pv_matched_pattern = se_matched_pattern ev \<rparr> \<rparr>"

definition set_session :: "string \<Rightarrow> 'r engine \<Rightarrow> 'r engine" where
  "set_session sid en = (if en_session en = None then en\<lparr>en_session := Some sid\<rparr> else en)"

definition take_session_learned :: "'r engine \<Rightarrow> bool \<times> 'r engine" where
  "take_session_learned en = (en_session_learned en, en\<lparr>en_session_learned := False\<rparr>)"

text \<open>Dropping the front of a text at a character boundary so that about \<open>cap\<close> bytes stay.\<close>

definition keep_end :: "nat \<Rightarrow> string \<Rightarrow> string" where
  "keep_end cap s = (if cap < length s then drop (floor_boundary s (length s - cap)) s else s)"

definition capture :: "'r regex_lib \<Rightarrow> string \<Rightarrow> 'r engine \<Rightarrow> 'r engine" where
  "capture R fresh en =
     (if en_session en \<noteq> None \<or> \<not> captures_session (en_adapter en) then en
      else let carry = en_capture_carry en @ fresh in
        (case (case ad_resume (en_adapter en) of None \<Rightarrow> None | Some r \<Rightarrow> resume_capture R r carry) of
           Some sid \<Rightarrow> en\<lparr> en_session := Some sid, en_session_learned := True, en_capture_carry := [] \<rparr>
         | None \<Rightarrow> en\<lparr> en_capture_carry := keep_end CAPTURE_CARRY_BYTES carry \<rparr>))"

definition mk_event :: "u64 \<Rightarrow> pane_state \<Rightarrow> confidence \<Rightarrow> string option \<Rightarrow> state_event" where
  "mk_event now st conf pattern =
     \<lparr> se_t_ms = now, se_state = st, se_confidence = conf, se_matched_pattern = pattern, se_exit_code = None \<rparr>"

definition engine_tick :: "'r regex_lib \<Rightarrow> u64 \<Rightarrow> 'r engine \<Rightarrow> state_event list \<times> 'r engine" where
  "engine_tick R now en =
     (if en_exited en then ([], en)
      else case en_last_output_ms en of
        None \<Rightarrow> ([], en)
      | Some seen \<Rightarrow>
          (let silent = saturating_sub now seen; tail = tail_lines (en_text en) 3; a = en_adapter en;
               emit = (\<lambda>ev. ([ev], engine_record ev en))
           in case (if ad_question_after_ms a \<le> silent then match_question R a tail else None) of
             Some pattern \<Rightarrow>
               if en_state en \<noteq> StQuestion
               then emit (mk_event now StQuestion (Inferred ''silence+prompt-shape'') (Some pattern)) else ([], en)
           | None \<Rightarrow>
               if en_error_armed en \<and> ad_blocked_after_ms a \<le> silent then
                 if en_state en \<noteq> StBlocked then emit (mk_event now StBlocked (Inferred ''error-shape+silence'') None) else ([], en)
               else if ad_idle_after_ms a \<le> silent \<and> en_state en \<noteq> StIdle
               then emit (mk_event now StIdle (Inferred ''silence'') None) else ([], en)))"

text \<open>What a feed does to everything but the state.\<close>

definition take_output :: "'r regex_lib \<Rightarrow> string \<Rightarrow> u64 \<Rightarrow> 'r engine \<Rightarrow> 'r engine" where
  "take_output R bytes now en =
     (let sc = scan_bell bytes (en_osc_active en) (en_esc_pending en);
          visible = strip_ansi bytes;
          en1 = en\<lparr> en_bell_pending := en_bell_pending en \<or> bs_bell sc, en_osc_active := bs_osc_active sc,
                    en_esc_pending := bs_esc_pending sc, en_text := keep_end TEXT_CAP (en_text en @ visible),
                    en_error_armed := en_error_armed en \<or> match_error R (en_adapter en) visible \<rparr>
      in (capture R visible en1)\<lparr> en_last_output_ms := Some now \<rparr>)"

definition feed_working :: "u64 \<Rightarrow> 'r engine \<Rightarrow> state_event list \<times> 'r engine" where
  "feed_working now en =
     (if en_state en \<noteq> StWorking
      then let ev = mk_event now StWorking Direct None in ([ev], engine_record ev en) else ([], en))"

definition feed_bell :: "'r regex_lib \<Rightarrow> u64 \<Rightarrow> 'r engine \<Rightarrow> state_event list \<times> 'r engine" where
  "feed_bell R now en =
     (if en_bell_pending en \<and> ad_bell_means_attention (en_adapter en) then
        (let en1 = en\<lparr>en_bell_pending := False\<rparr>;
             ev = (case match_question R (en_adapter en) (tail_lines (en_text en) 3) of
                Some pattern \<Rightarrow> mk_event now StQuestion (Inferred ''bell+prompt-shape'') (Some pattern)
              | None \<Rightarrow> mk_event now StBlocked (Inferred ''bell'') None)
         in ([ev], engine_record ev en1))
      else ([], en))"

definition engine_feed :: "'r regex_lib \<Rightarrow> string \<Rightarrow> u64 \<Rightarrow> 'r engine \<Rightarrow> state_event list \<times> 'r engine" where
  "engine_feed R bytes now en =
     (if en_exited en then ([], en)
      else if bytes \<noteq> [] then
        (let (e1, en1) = feed_working now (take_output R bytes now en); (e2, en2) = feed_bell R now en1
         in (e1 @ e2, en2))
      else engine_tick R now en)"

definition child_exited :: "int \<Rightarrow> u64 \<Rightarrow> 'r engine \<Rightarrow> state_event list \<times> 'r engine" where
  "child_exited code now en =
     (if en_exited en \<or> \<not> ad_done_on_exit (en_adapter en) then ([], en)
      else let ev = (mk_event now StDone Direct None)\<lparr>se_exit_code := Some code\<rparr>
        in ([ev], engine_record ev (en\<lparr>en_exited := True\<rparr>)))"

section \<open>Resume strategies\<close>

definition SESSION_PLACEHOLDER :: string where "SESSION_PLACEHOLDER = ''{session}''"

definition ends_with_template :: "string list \<Rightarrow> string list \<Rightarrow> bool" where
  "ends_with_template template args =
     (if length args < length template then False
      else list_all (\<lambda>(a, t). t = SESSION_PLACEHOLDER \<or> a = t) (zip (drop (length args - length template) args) template))"

fun list_position :: "('a \<Rightarrow> bool) \<Rightarrow> 'a list \<Rightarrow> nat option" where
  "list_position P [] = None"
| "list_position P (x # xs) = (if P x then Some 0 else map_option Suc (list_position P xs))"

definition slot_of :: "string list \<Rightarrow> nat option" where
  "slot_of template = list_position (\<lambda>e. e = SESSION_PLACEHOLDER) template"

definition session_slot :: "string list \<Rightarrow> string list \<Rightarrow> nat option" where
  "session_slot template args = (case slot_of template of
      None \<Rightarrow> None
    | Some slot \<Rightarrow> if ends_with_template template args then Some (length args - length template + slot) else None)"

definition apply_template :: "string list \<Rightarrow> string list \<Rightarrow> string option \<Rightarrow> string list" where
  "apply_template template args session = (case session_slot template args of
      Some slot \<Rightarrow> (case session of Some sid \<Rightarrow> args[slot := sid] | None \<Rightarrow> args)
    | None \<Rightarrow> args @ map (\<lambda>e. case session of
          Some sid \<Rightarrow> if e = SESSION_PLACEHOLDER then sid else e | None \<Rightarrow> e) template)"

fun base_args_loop :: "string list list \<Rightarrow> string list \<Rightarrow> string list \<times> string option" where
  "base_args_loop [] args = (args, None)"
| "base_args_loop (template # ts) args =
     (if template = [] \<or> \<not> ends_with_template template args then base_args_loop ts args
      else (take (length args - length template) args, map_option (\<lambda>i. args ! i) (session_slot template args)))"

definition base_args :: "'r resume \<Rightarrow> string list \<Rightarrow> string list \<times> string option" where
  "base_args r args = base_args_loop [re_argv r, case re_exact_argv r of None \<Rightarrow> [] | Some t \<Rightarrow> t] args"

definition resume_args :: "'r resume \<Rightarrow> string list \<Rightarrow> string option \<Rightarrow> string list option" where
  "resume_args r args session = (case re_kind r of
      Pin \<Rightarrow> (case session of None \<Rightarrow> None | Some sid \<Rightarrow> Some (apply_template (re_argv r) args (Some sid)))
    | Continue \<Rightarrow> Some (case session of
        Some sid \<Rightarrow> apply_template (case re_exact_argv r of Some t \<Rightarrow> t | None \<Rightarrow> re_argv r) args (Some sid)
      | None \<Rightarrow> apply_template (re_argv r) args None))"

section \<open>Validation\<close>

record raw_resume =
  rr_kind :: string
  rr_argv :: "string list"
  rr_exact_argv :: "string list option"
  rr_session_pattern :: "string option"

record raw_adapter =
  ra_idle_after_ms :: u64
  ra_question_after_ms :: u64
  ra_blocked_after_ms :: u64
  ra_bell_means_attention :: bool
  ra_done_on_exit :: bool
  ra_question_patterns :: "string list"
  ra_error_patterns :: "string list"
  ra_harness :: "string option"
  ra_programs :: "string list"
  ra_resume :: "raw_resume option"

datatype adapter_invalid =
    NoQuestionPatterns | NoErrorPatterns | ZeroThreshold | BadHarness string | BadProgram string
  | HarnessWithoutPrograms | ProgramsWithoutHarness | ResumeWithoutHarness | BadKind string
  | EmptyElement | EmbeddedPlaceholder string | TwoPlaceholders | EmptyArgv | ExactForPin | PinWithoutId
  | ContinueWithId | EmptyExact | ExactWithoutId | BadRegex string | WrongGroups string

datatype adapter_error = AdapterIo | AdapterParse | AdapterInvalid adapter_invalid

fun check_elements :: "string list \<Rightarrow> adapter_invalid + unit" where
  "check_elements [] = Ok ()"
| "check_elements (e # es) =
     (if e = [] then Err EmptyElement
      else if str_contains SESSION_PLACEHOLDER e \<and> e \<noteq> SESSION_PLACEHOLDER then Err (EmbeddedPlaceholder e)
      else check_elements es)"

definition check_template :: "string list \<Rightarrow> adapter_invalid + unit" where
  "check_template template = (case check_elements template of
      Err e \<Rightarrow> Err e
    | Ok _ \<Rightarrow> if 1 < length (filter (\<lambda>e. e = SESSION_PLACEHOLDER) template) then Err TwoPlaceholders else Ok ())"

definition check_kind :: "resume_kind \<Rightarrow> raw_resume \<Rightarrow> adapter_invalid + unit" where
  "check_kind k raw = (case k of
      Pin \<Rightarrow> if rr_exact_argv raw \<noteq> None then Err ExactForPin
        else if slot_of (rr_argv raw) = None then Err PinWithoutId else Ok ()
    | Continue \<Rightarrow> if slot_of (rr_argv raw) \<noteq> None then Err ContinueWithId
        else (case rr_exact_argv raw of
            None \<Rightarrow> Ok ()
          | Some ex \<Rightarrow> if ex = [] then Err EmptyExact
              else (case check_template ex of Err e \<Rightarrow> Err e
                | Ok _ \<Rightarrow> if slot_of ex = None then Err ExactWithoutId else Ok ())))"

definition compile_session :: "'r regex_lib \<Rightarrow> string option \<Rightarrow> adapter_invalid + 'r option" where
  "compile_session R pattern = (case pattern of
      None \<Rightarrow> Ok None
    | Some p \<Rightarrow> (case rx_new R p of
        None \<Rightarrow> Err (BadRegex p)
      | Some re \<Rightarrow> if rx_captures_len R re \<noteq> 2 then Err (WrongGroups p) else Ok (Some re)))"

definition validated_resume :: "'r regex_lib \<Rightarrow> raw_resume \<Rightarrow> adapter_invalid + 'r resume" where
  "validated_resume R raw = (case resume_kind_parse (rr_kind raw) of
      None \<Rightarrow> Err (BadKind (rr_kind raw))
    | Some k \<Rightarrow>
        (case check_template (rr_argv raw) of Err e \<Rightarrow> Err e | Ok _ \<Rightarrow>
           if rr_argv raw = [] then Err EmptyArgv
           else (case check_kind k raw of Err e \<Rightarrow> Err e | Ok _ \<Rightarrow>
             (case compile_session R (rr_session_pattern raw) of Err e \<Rightarrow> Err e | Ok re \<Rightarrow>
                Ok \<lparr> re_kind = k, re_argv = rr_argv raw, re_exact_argv = rr_exact_argv raw,
                     re_session_pattern = rr_session_pattern raw, re_session_re = re \<rparr>))))"

fun compile_patterns :: "'r regex_lib \<Rightarrow> string list \<Rightarrow> adapter_invalid + 'r list" where
  "compile_patterns R [] = Ok []"
| "compile_patterns R (p # ps) = (case rx_new R p of
      None \<Rightarrow> Err (BadRegex p)
    | Some re \<Rightarrow> (case compile_patterns R ps of Err e \<Rightarrow> Err e | Ok res \<Rightarrow> Ok (re # res)))"

definition harness_check :: "raw_adapter \<Rightarrow> adapter_invalid + unit" where
  "harness_check raw =
     (if (case ra_harness raw of None \<Rightarrow> False | Some h \<Rightarrow> h = [] \<or> trim h \<noteq> h)
      then Err (BadHarness (case ra_harness raw of Some h \<Rightarrow> h | None \<Rightarrow> []))
      else case find (\<lambda>p. p = [] \<or> CHR ''/'' \<in> set p) (ra_programs raw) of
          Some p \<Rightarrow> Err (BadProgram p)
        | None \<Rightarrow>
            if ra_harness raw \<noteq> None \<and> ra_programs raw = [] then Err HarnessWithoutPrograms
            else if ra_harness raw = None \<and> ra_programs raw \<noteq> [] then Err ProgramsWithoutHarness else Ok ())"

definition resume_check :: "'r regex_lib \<Rightarrow> raw_adapter \<Rightarrow> adapter_invalid + 'r resume option" where
  "resume_check R raw = (case ra_resume raw of
      None \<Rightarrow> Ok None
    | Some r \<Rightarrow> if ra_harness raw = None then Err ResumeWithoutHarness else map_sum id Some (validated_resume R r))"

definition validated :: "'r regex_lib \<Rightarrow> raw_adapter \<Rightarrow> adapter_invalid + 'r adapter" where
  "validated R raw =
     (if ra_question_patterns raw = [] then Err NoQuestionPatterns
      else if ra_error_patterns raw = [] then Err NoErrorPatterns
      else if ra_idle_after_ms raw = 0 \<or> ra_question_after_ms raw = 0 \<or> ra_blocked_after_ms raw = 0 then Err ZeroThreshold
      else case harness_check raw of Err e \<Rightarrow> Err e | Ok _ \<Rightarrow>
        (case resume_check R raw of Err e \<Rightarrow> Err e | Ok res \<Rightarrow>
        (case compile_patterns R (ra_question_patterns raw) of Err e \<Rightarrow> Err e | Ok qs \<Rightarrow>
        (case compile_patterns R (ra_error_patterns raw) of Err e \<Rightarrow> Err e | Ok es \<Rightarrow>
           Ok \<lparr> ad_idle_after_ms = ra_idle_after_ms raw, ad_question_after_ms = ra_question_after_ms raw,
                ad_blocked_after_ms = ra_blocked_after_ms raw, ad_bell_means_attention = ra_bell_means_attention raw,
                ad_done_on_exit = ra_done_on_exit raw, ad_question_patterns = ra_question_patterns raw,
                ad_error_patterns = ra_error_patterns raw, ad_harness = ra_harness raw, ad_programs = ra_programs raw,
                ad_resume = res, ad_question_res = qs, ad_error_res = es \<rparr>))))"

definition from_toml :: "'r regex_lib \<Rightarrow> (string \<Rightarrow> raw_adapter option) \<Rightarrow> string \<Rightarrow> adapter_error + 'r adapter" where
  "from_toml R toml text = (case toml text of
      None \<Rightarrow> Err AdapterParse | Some raw \<Rightarrow> map_sum AdapterInvalid id (validated R raw))"

section \<open>The registry\<close>

record 'r adapter_registry =
  ag_default :: "'r adapter"
  ag_harnesses :: "'r adapter list"

datatype registry_error = NoHarnessId | HarnessTwice string | ProgramTwice string

fun claim_programs :: "string list \<Rightarrow> string list \<Rightarrow> registry_error + string list" where
  "claim_programs [] seen = Ok seen"
| "claim_programs (p # ps) seen = (if p \<in> set seen then Err (ProgramTwice p) else claim_programs ps (seen @ [p]))"

fun claim_adapters :: "'r adapter list \<Rightarrow> string list \<Rightarrow> string list \<Rightarrow> registry_error + unit" where
  "claim_adapters [] hs ps = Ok ()"
| "claim_adapters (a # rest) hs ps = (case ad_harness a of
      None \<Rightarrow> Err NoHarnessId
    | Some h \<Rightarrow> if h \<in> set hs then Err (HarnessTwice h)
        else (case claim_programs (ad_programs a) ps of Err e \<Rightarrow> Err e
          | Ok ps1 \<Rightarrow> claim_adapters rest (hs @ [h]) ps1))"

definition registry_new :: "'r adapter \<Rightarrow> 'r adapter list \<Rightarrow> registry_error + 'r adapter_registry" where
  "registry_new d harnesses = (case claim_adapters harnesses [] [] of
      Err e \<Rightarrow> Err e | Ok _ \<Rightarrow> Ok \<lparr> ag_default = d, ag_harnesses = harnesses \<rparr>)"

text \<open>\<open>Path::file_name\<close> on Unix: the last component that is not empty or a dot, unless it is two dots.\<close>

definition file_name :: "string \<Rightarrow> string option" where
  "file_name path = (case rev (filter (\<lambda>c. c \<noteq> [] \<and> c \<noteq> ''.'') (split_on (CHR ''/'') path)) of
      [] \<Rightarrow> None | c # _ \<Rightarrow> if c = ''..'' then None else Some c)"

definition for_program :: "'r adapter_registry \<Rightarrow> string \<Rightarrow> 'r adapter" where
  "for_program g program =
     (let base = (case file_name program of Some n \<Rightarrow> n | None \<Rightarrow> program) in
      case find (\<lambda>a. base \<in> set (ad_programs a)) (ag_harnesses g) of Some a \<Rightarrow> a | None \<Rightarrow> ag_default g)"

definition by_harness :: "'r adapter_registry \<Rightarrow> string \<Rightarrow> 'r adapter option" where
  "by_harness g harness = find (\<lambda>a. ad_harness a = Some harness) (ag_harnesses g)"

definition for_record :: "'r adapter_registry \<Rightarrow> string option \<Rightarrow> string \<Rightarrow> 'r adapter" where
  "for_record g harness program =
     (case (case harness of None \<Rightarrow> None | Some h \<Rightarrow> by_harness g h) of
        Some a \<Rightarrow> a | None \<Rightarrow> for_program g program)"

end
