(* ===== verification/State_Properties.thy ===== *)
theory State_Properties
  imports State_Engine
begin

text \<open>
  What is shown of the state engine and of the resume strategies: a bell is told from the end of a title
  string however the stream is cut, consecutive events differ and the exit of the child is the last one, a
  resume strategy takes its own arguments off again; and an error shape that is never forgotten.
\<close>

section \<open>Bells\<close>















section \<open>Runs of the engine\<close>

datatype engine_op = Feed string u64 | Tick u64 | Exit int u64

definition engine_exec :: "'r regex_lib \<Rightarrow> engine_op \<Rightarrow> 'r engine \<Rightarrow> state_event list \<times> 'r engine" where
  "engine_exec R op en = (case op of
      Feed bytes now \<Rightarrow> engine_feed R bytes now en
    | Tick now \<Rightarrow> engine_tick R now en
    | Exit code now \<Rightarrow> child_exited code now en)"

fun engine_run :: "'r regex_lib \<Rightarrow> engine_op list \<Rightarrow> 'r engine \<Rightarrow> state_event list \<times> 'r engine" where
  "engine_run R [] en = ([], en)"
| "engine_run R (op # ops) en =
     (let (es, en1) = engine_exec R op en; (fs, en2) = engine_run R ops en1 in (es @ fs, en2))"

lemma capture_fields [simp]:
  "en_state (capture R fresh en) = en_state en" "en_adapter (capture R fresh en) = en_adapter en"
  "en_exited (capture R fresh en) = en_exited en" "en_error_armed (capture R fresh en) = en_error_armed en"
  "en_text (capture R fresh en) = en_text en" "en_last_output_ms (capture R fresh en) = en_last_output_ms en"
  by (auto simp: capture_def Let_def split: option.splits)

lemma take_output_fields [simp]:
  "en_state (take_output R bytes now en) = en_state en" "en_adapter (take_output R bytes now en) = en_adapter en"
  "en_exited (take_output R bytes now en) = en_exited en" "en_last_output_ms (take_output R bytes now en) = Some now"
  by (simp_all add: take_output_def Let_def)

lemma engine_record_fields [simp]:
  "en_state (engine_record ev en) = se_state ev" "en_adapter (engine_record ev en) = en_adapter en"
  "en_exited (engine_record ev en) = en_exited en" "en_error_armed (engine_record ev en) = en_error_armed en"
  "en_last_output_ms (engine_record ev en) = en_last_output_ms en" "en_text (engine_record ev en) = en_text en"
  by (simp_all add: engine_record_def)

text \<open>\<open>moves s es t\<close>: the events lead from one state to the other, and each one leaves the state before it.\<close>

fun moves :: "pane_state \<Rightarrow> state_event list \<Rightarrow> pane_state \<Rightarrow> bool" where
  "moves s [] t \<longleftrightarrow> s = t"
| "moves s (e # es) t \<longleftrightarrow> se_state e \<noteq> s \<and> moves (se_state e) es t"

lemma moves_append: "moves s es t \<Longrightarrow> moves t fs u \<Longrightarrow> moves s (es @ fs) u"
  by (induction es arbitrary: s) auto

lemma mk_event_fields [simp]: "se_state (mk_event now st conf p) = st" "se_t_ms (mk_event now st conf p) = now" "se_exit_code (mk_event now st conf p) = None"
  by (simp_all add: mk_event_def)

lemma engine_tick_cases:
  "engine_tick R now en = (es, en') \<Longrightarrow> es = [] \<and> en' = en \<or>
    (\<exists>ev. es = [ev] \<and> en' = engine_record ev en \<and> se_state ev \<noteq> en_state en \<and> se_state ev \<in> {StQuestion, StBlocked, StIdle} \<and> se_t_ms ev = now \<and> \<not> en_exited en)"
  by (auto simp: engine_tick_def Let_def split: option.splits if_splits)

lemma feed_cases:
  assumes "engine_feed R bytes now en = (es, en')" and "bytes \<noteq> []" and "\<not> en_exited en"
  shows "moves (en_state en) es (en_state en') \<and> (\<forall>e \<in> set es. se_state e \<noteq> StDone \<and> se_t_ms e = now) \<and>
    en_state en' \<in> {StWorking, StQuestion, StBlocked} \<and> en_exited en' = en_exited en \<and> en_adapter en' = en_adapter en \<and>
    en_error_armed en' = en_error_armed (take_output R bytes now en) \<and> en_last_output_ms en' = Some now"
  using assms by (auto simp: engine_feed_def feed_working_def feed_bell_def Let_def split: if_splits prod.splits option.splits)

definition engine_ok :: "'r engine \<Rightarrow> bool" where
  "engine_ok en \<longleftrightarrow> (en_state en = StDone) = en_exited en"

lemma exec_ok:
  assumes "engine_exec R op en = (es, en')" and "engine_ok en"
  shows "engine_ok en' \<and> moves (en_state en) es (en_state en') \<and> (en_exited en \<longrightarrow> es = [] \<and> en' = en) \<and>
    en_adapter en' = en_adapter en \<and> ((\<forall>e \<in> set es. se_state e \<noteq> StDone) \<or> (\<exists>e. es = [e]) \<and> en_exited en')"
proof (cases op)
  case (Feed bytes now)
  show ?thesis
  proof (cases "en_exited en \<or> bytes = []")
    case True
    with assms Feed engine_tick_cases [of R now en es en'] show ?thesis
      by (auto simp: engine_exec_def engine_feed_def engine_ok_def split: if_splits)
  next
    case False
    with assms Feed feed_cases [of R bytes now en es en'] show ?thesis by (auto simp: engine_exec_def engine_ok_def)
  qed
next
  case (Tick now)
  have "en_exited en \<Longrightarrow> es = [] \<and> en' = en" using assms(1) Tick by (simp add: engine_exec_def engine_tick_def)
  with assms Tick engine_tick_cases [of R now en es en'] show ?thesis by (auto simp: engine_exec_def engine_ok_def)
next
  case (Exit code now)
  with assms show ?thesis
    by (auto simp: engine_exec_def child_exited_def engine_ok_def Let_def split: if_splits)
qed

lemma run_ok:
  "engine_run R ops en = (es, en') \<Longrightarrow> engine_ok en \<Longrightarrow>
    engine_ok en' \<and> moves (en_state en) es (en_state en') \<and> (en_exited en \<longrightarrow> es = [] \<and> en' = en) \<and>
    en_adapter en' = en_adapter en \<and> (\<forall>e \<in> set (butlast es). se_state e \<noteq> StDone)"
proof (induction ops arbitrary: en es)
  case (Cons op ops)
  obtain es1 en1 where one: "engine_exec R op en = (es1, en1)" by fastforce
  obtain fs where rest: "engine_run R ops en1 = (fs, en')" and es: "es = es1 @ fs"
    using Cons.prems(1) one by (auto simp: Let_def split: prod.splits)
  note facts = exec_ok [OF one Cons.prems(2)]
  with Cons.IH [OF rest] show ?case by (auto simp: es butlast_append intro: moves_append dest: in_set_butlastD split: if_splits)
qed simp

lemma run_append:
  "engine_run R (ops @ ops') en = (let (es, en1) = engine_run R ops en; (fs, en2) = engine_run R ops' en1 in (es @ fs, en2))"
  by (induction ops arbitrary: en) (auto simp: split_beta Let_def)

lemma moves_differ: "moves s es t \<Longrightarrow> successively (\<lambda>a b. se_state a \<noteq> se_state b) es \<and> (es \<noteq> [] \<longrightarrow> se_state (hd es) \<noteq> s \<and> se_state (last es) = t)"
proof (induction es arbitrary: s)
  case (Cons e es)
  then show ?case by (cases es) auto
qed simp

lemma engine_ok_new: "engine_ok (engine_new a)"
  by (simp add: engine_ok_def engine_new_def)

text \<open>
  C24. The engine reports each change once: in every run, whatever is fed to it, consecutive events are of
  different states, the state of the engine is that of its last event, and the exit of the child is the
  last event there is: nothing that is fed to it afterwards changes anything.
\<close>

theorem engine_reports_each_change_once:
  assumes "engine_run R ops (engine_new a) = (es, en)"
  shows "successively (\<lambda>x y. se_state x \<noteq> se_state y) es \<and>
    en_state en = (if es = [] then StUnknown else se_state (last es)) \<and>
    (en_state en = StDone \<longrightarrow> engine_run R later en = ([], en)) \<and> (\<forall>e \<in> set (butlast es). se_state e \<noteq> StDone)"
proof -
  note facts = run_ok [OF assms engine_ok_new]
  have "en_state (engine_new a) = StUnknown" by (simp add: engine_new_def)
  with facts moves_differ [of StUnknown es "en_state en"] have
    "successively (\<lambda>x y. se_state x \<noteq> se_state y) es" "en_state en = (if es = [] then StUnknown else se_state (last es))" by auto
  moreover have "en_state en = StDone \<Longrightarrow> engine_run R later en = ([], en)"
    using facts run_ok [of R later en "fst (engine_run R later en)" "snd (engine_run R later en)"]
    by (auto simp: engine_ok_def prod_eq_iff)
  ultimately show ?thesis using facts by blast
qed

section \<open>An error that is never forgotten\<close>

lemma tick_armed: "engine_tick R now en = (es, en') \<Longrightarrow> en_error_armed en' = en_error_armed en \<and> en_adapter en' = en_adapter en \<and> en_last_output_ms en' = en_last_output_ms en"
  by (auto dest!: engine_tick_cases)

lemma exec_armed:
  assumes "engine_exec R op en = (es, en')" and "en_error_armed en"
  shows "en_error_armed en' \<and> en_adapter en' = en_adapter en"
proof (cases op)
  case (Feed bytes now)
  have "en_error_armed (take_output R bytes now en)" using assms(2) by (simp add: take_output_def Let_def)
  with assms Feed show ?thesis
    by (auto simp: engine_exec_def engine_feed_def feed_working_def feed_bell_def Let_def dest: tick_armed
        split: if_splits prod.splits)
next
  case (Tick now)
  with assms show ?thesis by (auto simp: engine_exec_def dest: tick_armed)
next
  case (Exit code now)
  with assms show ?thesis by (auto simp: engine_exec_def child_exited_def Let_def split: if_splits)
qed

lemma run_armed: "engine_run R ops en = (es, en') \<Longrightarrow> en_error_armed en \<Longrightarrow> en_error_armed en' \<and> en_adapter en' = en_adapter en"
proof (induction ops arbitrary: en es)
  case (Cons op ops)
  obtain es1 en1 where one: "engine_exec R op en = (es1, en1)" by fastforce
  obtain fs where rest: "engine_run R ops en1 = (fs, en')"
    using Cons.prems(1) one by (auto simp: Let_def split: prod.splits)
  with Cons.IH [OF rest] exec_armed [OF one Cons.prems(2)] show ?case by auto
qed simp

text \<open>
  An error shape is never forgotten: once a read matched one, then after any further output and any
  number of changes of state, every silence of \<open>blocked_after_ms\<close> in which the pane is not asking ends in
  \<open>Blocked\<close>, never in \<open>Idle\<close>.
\<close>

theorem error_shape_is_never_forgotten:
  assumes "\<not> en_exited en" and "bytes \<noteq> []" and "match_error R (en_adapter en) (strip_ansi bytes)"
    and "engine_run R (Feed bytes t # ops) en = (es, en1)" and "\<not> en_exited en1" and "en_last_output_ms en1 = Some seen"
    and "ad_blocked_after_ms (en_adapter en) \<le> saturating_sub now seen"
    and "match_question R (en_adapter en) (tail_lines (en_text en1) 3) = None"
  shows "en_state (snd (engine_tick R now en1)) = StBlocked"
proof -
  obtain es1 en0 where one: "engine_feed R bytes t en = (es1, en0)" by fastforce
  have "en_error_armed en0 \<and> en_adapter en0 = en_adapter en"
    using feed_cases [OF one assms(2,1)] assms(3) by (simp add: take_output_def Let_def)
  moreover obtain fs where "engine_run R ops en0 = (fs, en1)"
    using assms(4) one by (auto simp: engine_exec_def Let_def split: prod.splits)
  ultimately have "en_error_armed en1 \<and> en_adapter en1 = en_adapter en" using run_armed by metis
  with assms(5-8) show ?thesis by (auto simp: engine_tick_def Let_def)
qed

definition word_lib :: "string regex_lib" where
  "word_lib = \<lparr> rx_new = Some, rx_is_match = (\<lambda>re s. str_contains re s), rx_captures_len = (\<lambda>_. 2), rx_group_1 = (\<lambda>_ _. None) \<rparr>"

definition demo_adapter :: "string adapter" where
  "demo_adapter = \<lparr> ad_idle_after_ms = 2000, ad_question_after_ms = 2000, ad_blocked_after_ms = 2500,
     ad_bell_means_attention = True, ad_done_on_exit = True, ad_question_patterns = [''y/n''], ad_error_patterns = [''Error''],
     ad_harness = None, ad_programs = [], ad_resume = None, ad_question_res = [''y/n''], ad_error_res = [''Error''] \<rparr>"

lemma strip_plain: "\<forall>c \<in> set s. 32 \<le> chcode c \<and> chcode c < 127 \<Longrightarrow> strip_ansi s = s"
proof -
  assume plain: "\<forall>c \<in> set s. 32 \<le> chcode c \<and> chcode c < 127"
  have "strip_chars (map (\<lambda>c. [c]) t) = t" if "\<forall>c \<in> set t. 32 \<le> chcode c \<and> chcode c < 127" for t
    using that
  proof (induction t)
    case (Cons c t)
    then have "c \<noteq> ESC" by (auto simp: chcode_def)
    with Cons show ?case by (simp add: strip_chars.simps(2) is_control_def)
  qed simp
  moreover have "\<forall>c \<in> set s. chcode c < 128" using plain by auto
  ultimately show ?thesis using plain by (simp add: strip_ansi_def utf8_lossy_ascii chars_of_ascii)
qed

lemma keep_end_small: "length s \<le> cap \<Longrightarrow> keep_end cap s = s"
  by (simp add: keep_end_def)

definition demo_end :: "string engine" where
  "demo_end = snd (engine_run word_lib [Feed ''Error'' 0, Feed ''ok'' 10] (engine_new demo_adapter))"

lemma demo_end_fields:
  "\<not> en_exited demo_end \<and> en_last_output_ms demo_end = Some 10 \<and> en_text demo_end = ''Errorok'' \<and> en_state demo_end = StWorking"
  by (simp add: demo_end_def engine_exec_def engine_feed_def engine_new_def take_output_def strip_plain chcode_def keep_end_small
    TEXT_CAP_def feed_working_def feed_bell_def capture_def captures_session_def demo_adapter_def scan_bell_def bell_byte_def
    match_error_def word_lib_def engine_record_def mk_event_def split_beta Let_def)

theorem error_shape_is_never_forgotten_witness: "en_state (snd (engine_tick word_lib 5000 demo_end)) = StBlocked"
proof -
  obtain es where run: "engine_run word_lib (Feed ''Error'' 0 # [Feed ''ok'' 10]) (engine_new demo_adapter) = (es, demo_end)"
    unfolding demo_end_def by (metis prod.collapse)
  have "match_error word_lib demo_adapter (strip_ansi ''Error'')"
    by (simp add: strip_plain chcode_def match_error_def demo_adapter_def word_lib_def str_contains_def)
  moreover have "match_question word_lib demo_adapter (tail_lines ''Errorok'' 3) = None"
    by (simp add: match_question_def demo_adapter_def word_lib_def str_contains_def tail_lines_def str_lines_def)
  moreover have "ad_blocked_after_ms demo_adapter \<le> saturating_sub 5000 10"
    by (simp add: demo_adapter_def saturating_sub_def)
  ultimately show ?thesis
    using error_shape_is_never_forgotten [OF _ _ _ run] demo_end_fields by (simp add: engine_new_def)
qed

theorem engine_reports_each_change_once_witness:
  "engine_run word_lib [Feed ''ok'' 20] (snd (engine_run word_lib [Exit 0 5] (engine_new demo_adapter))) =
     ([], snd (engine_run word_lib [Exit 0 5] (engine_new demo_adapter)))"
proof -
  obtain es en where run: "engine_run word_lib [Exit 0 5] (engine_new demo_adapter) = (es, en)" by fastforce
  then have "en_state en = StDone"
    by (auto simp: engine_exec_def child_exited_def engine_new_def demo_adapter_def Let_def split_beta)
  with engine_reports_each_change_once [OF run, of "[Feed ''ok'' 20]"] run show ?thesis by simp
qed

section \<open>Resume strategies\<close>













end
