(* ===== verification/Notify_Policy.thy ===== *)
theory Notify_Policy
  imports Audit_Log Mesh_Resolve
begin

text \<open>
  Which agent transitions an operator is told about: quiet hours (\<open>crates/arreo-core/src/notify/quiet.rs\<close>) and
  the policy with its rules, pane patterns, row format and quick actions (\<open>notify/mod.rs\<close>). The policy is
  pure; the log it reads its history from is in \<open>Notify_Daemon\<close>. An \<open>i32\<close> is an \<open>int\<close>.
\<close>

section \<open>Quiet hours\<close>

record quiet_hours =
  qh_start_min :: nat
  qh_end_min :: nat

datatype quiet_error = QuietShape string | QuietHour string | QuietMinute string

definition parse_clock :: "string \<Rightarrow> string \<Rightarrow> quiet_error + nat" where
  "parse_clock text whole = (case split_once (CHR '':'') text of
      None \<Rightarrow> Err (QuietShape whole)
    | Some (hour, minute) \<Rightarrow>
        (case parse_u32 (trim hour) of None \<Rightarrow> Err (QuietHour text) | Some h \<Rightarrow>
        (case parse_u32 (trim minute) of None \<Rightarrow> Err (QuietMinute text) | Some m \<Rightarrow>
           if 23 < h then Err (QuietHour text)
           else if 59 < m then Err (QuietMinute text) else Ok (h * 60 + m))))"

definition quiet_parse :: "string \<Rightarrow> quiet_error + quiet_hours" where
  "quiet_parse spec = (case split_once (CHR ''-'') spec of
      None \<Rightarrow> Err (QuietShape spec)
    | Some (start, stop) \<Rightarrow>
        (case parse_clock (trim start) spec of Err e \<Rightarrow> Err e | Ok a \<Rightarrow>
        (case parse_clock (trim stop) spec of Err e \<Rightarrow> Err e | Ok b \<Rightarrow>
           Ok \<lparr> qh_start_min = a, qh_end_min = b \<rparr>)))"

definition local_minutes :: "u64 \<Rightarrow> int \<Rightarrow> nat" where
  "local_minutes at utc_offset = nat ((int (unat at div 60000) + utc_offset) mod (24 * 60))"

definition quiet_contains :: "quiet_hours \<Rightarrow> u64 \<Rightarrow> int \<Rightarrow> bool" where
  "quiet_contains q at utc_offset =
     (let now = local_minutes at utc_offset in
      if qh_start_min q = qh_end_min q then False
      else if qh_start_min q < qh_end_min q then qh_start_min q \<le> now \<and> now < qh_end_min q
      else qh_start_min q \<le> now \<or> now < qh_end_min q)"

definition two_digits :: "nat \<Rightarrow> string" where
  "two_digits n = pad_zero 2 (show_nat n)"

definition quiet_window :: "quiet_hours \<Rightarrow> string" where
  "quiet_window q = two_digits (qh_start_min q div 60) @ '':'' @ two_digits (qh_start_min q mod 60) @ ''-'' @
     two_digits (qh_end_min q div 60) @ '':'' @ two_digits (qh_end_min q mod 60)"

section \<open>States, transitions and decisions\<close>

datatype agent_state = AgentUnknown | Working | Idle | Question | Blocked | AgentDone

definition DEFAULT_ON :: "agent_state list" where
  "DEFAULT_ON = [Blocked, Question]"

record transition =
  tn_pane :: string
  tn_machine :: string
  tn_at_ms :: u64
  tn_from :: agent_state
  tn_to :: agent_state
  tn_reason :: string

record history =
  hs_last_notified_ms :: "u64 option"
  hs_last_notified_state :: "agent_state option"

definition history_default :: history where
  "history_default = \<lparr> hs_last_notified_ms = None, hs_last_notified_state = None \<rparr>"

datatype suppress_reason =
    NoRule
  | Quiet string
  | Coalesced u64 u64 u64
  | SameEpisode agent_state

datatype notify_decision = Notify string | Suppressed suppress_reason

definition is_notify :: "notify_decision \<Rightarrow> bool" where
  "is_notify d = (case d of Notify _ \<Rightarrow> True | Suppressed _ \<Rightarrow> False)"

definition state_word :: "agent_state \<Rightarrow> string" where
  "state_word s = (case s of
      AgentUnknown \<Rightarrow> ''unknown'' | Working \<Rightarrow> ''working'' | Idle \<Rightarrow> ''idle''
    | Question \<Rightarrow> ''question'' | Blocked \<Rightarrow> ''blocked'' | AgentDone \<Rightarrow> ''done'')"

definition state_from_word :: "string \<Rightarrow> agent_state option" where
  "state_from_word w = (let t = to_ascii_lowercase (trim w) in
     if t = ''unknown'' then Some AgentUnknown else if t = ''working'' then Some Working
     else if t = ''idle'' then Some Idle else if t = ''question'' then Some Question
     else if t = ''blocked'' then Some Blocked else if t = ''done'' then Some AgentDone else None)"

text \<open>\<open>" \<dots> "\<close> with the em dash.\<close>

definition DASH :: string where
  "DASH = '' '' @ [CHR 0xE2, CHR 0x80, CHR 0x94] @ '' ''"

definition suppress_word :: "suppress_reason \<Rightarrow> string" where
  "suppress_word r = (case r of
      NoRule \<Rightarrow> ''no-rule'' | Quiet _ \<Rightarrow> ''quiet-hours'' | Coalesced _ _ _ \<Rightarrow> ''coalesced'' | SameEpisode _ \<Rightarrow> ''same-episode'')"

text \<open>
  \<open>ms as f64 / 1000.0\<close> as it prints: the shortest decimal that reads back, which below \<open>10 ^ 15\<close>
  milliseconds is the exact one without trailing zeros.
\<close>

definition show_seconds :: "nat \<Rightarrow> string" where
  "show_seconds ms =
     (let frac = rev (dropWhile (\<lambda>c. c = CHR ''0'') (rev (pad_zero 3 (show_nat (ms mod 1000))))) in
      show_nat (ms div 1000) @ (if frac = [] then [] else CHR ''.'' # frac))"

definition suppress_detail :: "suppress_reason \<Rightarrow> string" where
  "suppress_detail r = (case r of
      NoRule \<Rightarrow> ''no rule matches this transition''
    | Quiet window \<Rightarrow> ''inside quiet hours '' @ window
    | Coalesced _ window_secs since_ms \<Rightarrow> ''a notification for this pane went out '' @ show_seconds (unat since_ms) @
        ''s ago, inside the '' @ show_nat (unat window_secs) @ ''s coalescing window''
    | SameEpisode s \<Rightarrow> ''already notified for this episode of '' @ state_word s)"

definition suppress_display :: "suppress_reason \<Rightarrow> string" where
  "suppress_display r = suppress_word r @ DASH @ suppress_detail r"

definition decision_display :: "notify_decision \<Rightarrow> string" where
  "decision_display d = (case d of Notify reason \<Rightarrow> ''notify'' @ DASH @ reason | Suppressed r \<Rightarrow> ''suppressed: '' @ suppress_display r)"

section \<open>Quick actions and the row format\<close>

datatype notify_action = Reply | Skip | KillPane

definition action_as_str :: "notify_action \<Rightarrow> string" where
  "action_as_str a = (case a of Reply \<Rightarrow> ''reply'' | Skip \<Rightarrow> ''skip'' | KillPane \<Rightarrow> ''kill'')"

definition action_parse :: "string \<Rightarrow> notify_action option" where
  "action_parse w = (let t = to_ascii_lowercase (trim w) in
     if t = ''reply'' then Some Reply else if t = ''skip'' then Some Skip else if t = ''kill'' then Some KillPane else None)"

definition needs_text :: "notify_action \<Rightarrow> bool" where
  "needs_text a \<longleftrightarrow> a = Reply"

definition MAX_REPLY_BYTES :: nat where "MAX_REPLY_BYTES = 4096"

definition reply_text_within_bound :: "string \<Rightarrow> bool" where
  "reply_text_within_bound text \<longleftrightarrow> length text \<le> MAX_REPLY_BYTES"

definition actions_for :: "agent_state \<Rightarrow> notify_action list" where
  "actions_for s = (if s = Question then [Reply] else []) @ [Skip, KillPane]"

record push_payload =
  pp_pane :: string
  pp_machine :: string
  pp_state :: agent_state
  pp_sentence :: string
  pp_actions :: "notify_action list"
  pp_at_ms :: u64

definition push_payload_of :: "transition \<Rightarrow> notify_decision \<Rightarrow> push_payload option" where
  "push_payload_of tn d = (case d of
      Notify reason \<Rightarrow> Some \<lparr> pp_pane = tn_pane tn, pp_machine = tn_machine tn, pp_state = tn_to tn,
        pp_sentence = reason, pp_actions = actions_for (tn_to tn), pp_at_ms = tn_at_ms tn \<rparr>
    | Suppressed _ \<Rightarrow> None)"

definition DETAIL_STATE_PREFIX :: string where "DETAIL_STATE_PREFIX = ''state=''"
definition DETAIL_ACTIONS_PREFIX :: string where "DETAIL_ACTIONS_PREFIX = '' actions=''"

definition state_from_detail :: "string \<Rightarrow> agent_state option" where
  "state_from_detail detail = (case strip_prefix DETAIL_STATE_PREFIX detail of
      None \<Rightarrow> None
    | Some rest \<Rightarrow> (case split_on (CHR '';'') rest of [] \<Rightarrow> None | w # _ \<Rightarrow> state_from_word w))"

fun join_commas :: "string list \<Rightarrow> string" where
  "join_commas [] = []"
| "join_commas [w] = w"
| "join_commas (w # ws) = w @ CHR '','' # join_commas ws"

definition detailed :: "agent_state \<Rightarrow> string \<Rightarrow> string" where
  "detailed s rest = DETAIL_STATE_PREFIX @ state_word s @ ''; '' @ rest @ DETAIL_ACTIONS_PREFIX @
     join_commas (map action_as_str (actions_for s))"

definition detail_for :: "agent_state \<Rightarrow> string \<Rightarrow> string" where
  "detail_for s reason = detailed s reason"

text \<open>\<open>str::rsplit_once\<close> with a text pattern: the last place it occurs.\<close>

fun rsplit_str :: "string \<Rightarrow> string \<Rightarrow> (string \<times> string) option" where
  "rsplit_str pat [] = (if pat = [] then Some ([], []) else None)"
| "rsplit_str pat (c # s) = (case rsplit_str pat s of
      Some (a, b) \<Rightarrow> Some (c # a, b)
    | None \<Rightarrow> map_option (\<lambda>b. ([], b)) (strip_prefix pat (c # s)))"

fun parse_actions :: "string list \<Rightarrow> notify_action list option" where
  "parse_actions [] = Some []"
| "parse_actions (w # ws) = (case action_parse w of None \<Rightarrow> None | Some a \<Rightarrow> map_option (Cons a) (parse_actions ws))"

definition actions_from_detail :: "string \<Rightarrow> notify_action list option" where
  "actions_from_detail detail = (case rsplit_str DETAIL_ACTIONS_PREFIX detail of
      None \<Rightarrow> None | Some (_, l) \<Rightarrow> parse_actions (split_on (CHR '','') l))"

definition strip_actions :: "string \<Rightarrow> string" where
  "strip_actions detail = (case rsplit_str DETAIL_ACTIONS_PREFIX detail of Some (head, _) \<Rightarrow> head | None \<Rightarrow> detail)"

section \<open>Pane patterns\<close>

fun skip_stars :: "string list \<Rightarrow> nat \<Rightarrow> nat" where
  "skip_stars [] p = p"
| "skip_stars (c # cs) p = (if c = ''*'' then skip_stars cs (p + 1) else p)"

text \<open>The loop of \<open>Glob::matches\<close> over the characters, with its two positions and the place to go back to.\<close>

function glob_loop :: "string list \<Rightarrow> string list \<Rightarrow> nat \<Rightarrow> nat \<Rightarrow> (nat \<times> nat) option \<Rightarrow> bool" where
  "glob_loop pat tx p t star =
     (if t < length tx then
        if p < length pat \<and> pat ! p = tx ! t then glob_loop pat tx (p + 1) (t + 1) star
        else if p < length pat \<and> pat ! p = ''*'' then glob_loop pat tx (p + 1) t (Some (p, t))
        else case star of
            Some (sp, st) \<Rightarrow> glob_loop pat tx (sp + 1) (st + 1) (Some (sp, st + 1))
          | None \<Rightarrow> False
      else skip_stars (drop p pat) p = length pat)"
  by pat_completeness auto
termination
  by (relation "(\<lambda>(pat, tx, p, t, star). length tx + 1 - (case star of None \<Rightarrow> 0 | Some (_, st) \<Rightarrow> Suc (min st t)))
      <*mlex*> measure (\<lambda>(pat, tx, p, t, star). (length pat - p) + (length tx - t))")
    (auto simp: mlex_iff wf_mlex split: option.splits)

declare glob_loop.simps [simp del]

definition glob_matches :: "string \<Rightarrow> string \<Rightarrow> bool" where
  "glob_matches pattern text = glob_loop (chars_of pattern) (chars_of text) 0 0 None"

section \<open>The policy\<close>

record rule =
  ru_on :: "agent_state list"
  ru_panes :: "string option"
  ru_machine :: "string option"

definition for_states :: "agent_state list \<Rightarrow> rule" where
  "for_states on = \<lparr> ru_on = on, ru_panes = None, ru_machine = None \<rparr>"

definition rule_matches :: "rule \<Rightarrow> transition \<Rightarrow> bool" where
  "rule_matches r tn =
     (if tn_to tn \<notin> set (ru_on r) then False
      else if (case ru_panes r of None \<Rightarrow> False | Some g \<Rightarrow> \<not> glob_matches g (tn_pane tn)) then False
      else if (case ru_machine r of None \<Rightarrow> False | Some m \<Rightarrow> m \<noteq> tn_machine tn) then False
      else True)"

record policy =
  po_rules :: "rule list"
  po_once_per_episode :: bool
  po_coalesce_secs :: u64
  po_quiet :: "quiet_hours option"
  po_utc_offset_minutes :: int

definition policy_default :: policy where
  "policy_default = \<lparr> po_rules = [for_states DEFAULT_ON], po_once_per_episode = True, po_coalesce_secs = 0,
     po_quiet = None, po_utc_offset_minutes = 0 \<rparr>"

definition quiet_suppression :: "policy \<Rightarrow> transition \<Rightarrow> notify_decision option" where
  "quiet_suppression po tn = (case po_quiet po of
      None \<Rightarrow> None
    | Some q \<Rightarrow> if quiet_contains q (tn_at_ms tn) (po_utc_offset_minutes po)
        then Some (Suppressed (Quiet (quiet_window q))) else None)"

definition coalesce_suppression :: "policy \<Rightarrow> transition \<Rightarrow> history \<Rightarrow> notify_decision option" where
  "coalesce_suppression po tn hs =
     (if 0 < po_coalesce_secs po then
        (case hs_last_notified_ms hs of
           None \<Rightarrow> None
         | Some told \<Rightarrow>
             (let window_ms = saturating_mul (po_coalesce_secs po) 1000; elapsed = saturating_sub (tn_at_ms tn) told in
              if elapsed < window_ms then Some (Suppressed (Coalesced told (po_coalesce_secs po) elapsed)) else None))
      else None)"

definition policy_decide :: "policy \<Rightarrow> transition \<Rightarrow> history \<Rightarrow> notify_decision" where
  "policy_decide po tn hs =
     (if \<not> list_ex (\<lambda>r. rule_matches r tn) (po_rules po) then Suppressed NoRule
      else case quiet_suppression po tn of Some d \<Rightarrow> d | None \<Rightarrow>
        (case coalesce_suppression po tn hs of Some d \<Rightarrow> d | None \<Rightarrow>
           if po_once_per_episode po \<and> tn_from tn = tn_to tn \<and> hs_last_notified_state hs = Some (tn_to tn)
           then Suppressed (SameEpisode (tn_to tn))
           else Notify (tn_reason tn)))"

section \<open>The configuration section\<close>

datatype policy_error =
    PolicyIo
  | PolicyParse
  | BothOnAndRules
  | UnknownState string
  | EmptyRule nat
  | BadQuietHours quiet_error
  | CoalesceTooLarge u64 u64

record rule_section =
  rx_on :: "string list option"
  rx_panes :: "string option"
  rx_machine :: "string option"

record notify_section =
  ns_on :: "string list option"
  ns_rules :: "rule_section list option"
  ns_once_per_episode :: "bool option"
  ns_coalesce_secs :: "u64 option"
  ns_quiet_hours :: "string option"
  ns_utc_offset_minutes :: "int option"

definition MAX_COALESCE_SECS :: u64 where "MAX_COALESCE_SECS = 7 * 24 * 60 * 60"

fun parse_states :: "string list \<Rightarrow> policy_error + agent_state list" where
  "parse_states [] = Ok []"
| "parse_states (w # ws) = (case state_from_word w of
      None \<Rightarrow> Err (UnknownState w)
    | Some s \<Rightarrow> (case parse_states ws of Err e \<Rightarrow> Err e | Ok ss \<Rightarrow> Ok (s # ss)))"

definition parse_rule :: "nat \<Rightarrow> rule_section \<Rightarrow> policy_error + rule" where
  "parse_rule index r =
     (case (case rx_on r of Some words \<Rightarrow> parse_states words | None \<Rightarrow> Ok DEFAULT_ON) of
        Err e \<Rightarrow> Err e
      | Ok on \<Rightarrow> if on = [] then Err (EmptyRule index)
          else Ok \<lparr> ru_on = on, ru_panes = rx_panes r, ru_machine = rx_machine r \<rparr>)"

fun parse_rules :: "nat \<Rightarrow> rule_section list \<Rightarrow> policy_error + rule list" where
  "parse_rules index [] = Ok []"
| "parse_rules index (r # rs) = (case parse_rule index r of Err e \<Rightarrow> Err e
     | Ok x \<Rightarrow> (case parse_rules (index + 1) rs of Err e \<Rightarrow> Err e | Ok xs \<Rightarrow> Ok (x # xs)))"

definition section_rules :: "notify_section \<Rightarrow> policy_error + rule list" where
  "section_rules sec = (case (ns_rules sec, ns_on sec) of
      (Some rules, None) \<Rightarrow> parse_rules 0 rules
    | (Some _, Some _) \<Rightarrow> Err BothOnAndRules
    | (None, Some words) \<Rightarrow> (case parse_states words of Err e \<Rightarrow> Err e
        | Ok on \<Rightarrow> if on = [] then Err (EmptyRule 0) else Ok [for_states on])
    | (None, None) \<Rightarrow> Ok [for_states DEFAULT_ON])"

definition unwrap_or :: "'a option \<Rightarrow> 'a \<Rightarrow> 'a" where
  "unwrap_or v d = (case v of Some x \<Rightarrow> x | None \<Rightarrow> d)"

definition from_section :: "notify_section \<Rightarrow> policy_error + policy" where
  "from_section sec =
     (case section_rules sec of Err e \<Rightarrow> Err e | Ok rules \<Rightarrow>
     (case (case ns_quiet_hours sec of None \<Rightarrow> Ok None | Some spec \<Rightarrow> map_sum BadQuietHours Some (quiet_parse spec)) of
        Err e \<Rightarrow> Err e
      | Ok quiet \<Rightarrow>
          (let secs = unwrap_or (ns_coalesce_secs sec) 0 in
           if MAX_COALESCE_SECS < secs then Err (CoalesceTooLarge secs MAX_COALESCE_SECS)
           else Ok \<lparr> po_rules = rules, po_once_per_episode = unwrap_or (ns_once_per_episode sec) True,
                     po_coalesce_secs = secs, po_quiet = quiet,
                     po_utc_offset_minutes = unwrap_or (ns_utc_offset_minutes sec) 0 \<rparr>)))"

text \<open>
  \<open>Policy::load\<close>: no file and no \<open>[notify]\<close> section both mean that notifications are off. \<open>toml\<close> reads a
  configuration file as its optional section.
\<close>

definition policy_load :: "(string \<Rightarrow> notify_section option option) \<Rightarrow> file_read \<Rightarrow> policy_error + policy option" where
  "policy_load toml f = (case f of
      FileAbsent \<Rightarrow> Ok None
    | FileUnreadable \<Rightarrow> Err PolicyIo
    | FileText text \<Rightarrow> (case toml text of
          None \<Rightarrow> Err PolicyParse
        | Some None \<Rightarrow> Ok None
        | Some (Some section) \<Rightarrow> (case from_section section of Err e \<Rightarrow> Err e | Ok po \<Rightarrow> Ok (Some po))))"

end
