(* ===== verification/Notify_Daemon.thy ===== *)
theory Notify_Daemon
  imports Notify_Policy State_Engine
begin

text \<open>
  The notification tick and the quick actions of the daemon (\<open>crates/arreo-server/src/daemon.rs\<close>), and the
  writer of a session's audit rows (\<open>audit.rs\<close>): a pane's journal is pumped through its engine, every event
  is put to the policy with the history read back from the audit log, the decision is recorded, and what was
  delivered is pushed. A pane entry is the part of \<open>PaneEntry\<close> that these read; whether its child runs is a
  field. The order of the registry's hash map is the order of the list of entries. Clock readings are
  arguments, as are \<open>to_lower\<close>, \<open>parse_peer\<close> and the regular expressions.
\<close>

section \<open>Panes\<close>

record 'r pane_entry =
  pn_ring :: ring_buffer
  pn_fed :: nat
  pn_engine :: "'r engine"
  pn_running :: bool

definition pump :: "'r regex_lib \<Rightarrow> u64 \<Rightarrow> 'r pane_entry \<Rightarrow> state_event list \<times> 'r pane_entry" where
  "pump R now e =
     (let raw = rb_raw (pn_ring e);
          fresh = (if pn_fed e < length raw then drop (pn_fed e) raw else []);
          (evs, en) = engine_feed R fresh now (pn_engine e)
      in (evs, e\<lparr> pn_fed := length raw, pn_engine := en \<rparr>))"

definition engine_state_to_wire :: "pane_state \<Rightarrow> agent_state" where
  "engine_state_to_wire s = (case s of
      StUnknown \<Rightarrow> AgentUnknown | StWorking \<Rightarrow> Working | StIdle \<Rightarrow> Idle
    | StQuestion \<Rightarrow> Question | StBlocked \<Rightarrow> Blocked | StDone \<Rightarrow> AgentDone)"

definition wire_state :: "'r pane_entry \<Rightarrow> agent_state" where
  "wire_state e = engine_state_to_wire (en_state (pn_engine e))"

definition confidence_to_wire :: "confidence \<Rightarrow> string" where
  "confidence_to_wire c = (case c of Direct \<Rightarrow> ''direct'' | Inferred rule \<Rightarrow> ''inferred:'' @ rule)"

definition last_nonempty_line :: "string list \<Rightarrow> string option" where
  "last_nonempty_line ls = find (\<lambda>l. l \<noteq> []) (map trim (rev ls))"

definition notify_sentence :: "state_event \<Rightarrow> agent_state \<Rightarrow> 'r pane_entry \<Rightarrow> string" where
  "notify_sentence ev st e =
     state_word st @ '' ('' @ confidence_to_wire (se_confidence ev) @ '')'' @
     (case se_matched_pattern ev of None \<Rightarrow> [] | Some p \<Rightarrow> '': '' @ p) @
     (if st = Question then
        (case last_nonempty_line (lines_with_partial (pn_ring e)) of None \<Rightarrow> [] | Some asking \<Rightarrow> DASH @ asking)
      else [])"

section \<open>The log as memory\<close>

definition NOTIFY_SENT :: string where "NOTIFY_SENT = ''notify.sent''"
definition NOTIFY_SUPPRESSED :: string where "NOTIFY_SUPPRESSED = ''notify.suppressed''"
definition NOTIFY_ACT :: string where "NOTIFY_ACT = ''notify.act''"
definition NOTIFY_HISTORY_SCAN :: u64 where "NOTIFY_HISTORY_SCAN = 200"

definition notify_history :: "audit_row list \<Rightarrow> string \<Rightarrow> history" where
  "notify_history t pane =
     (case find (\<lambda>row. sa_agent row = pane) (audit_recent_by_action NOTIFY_SENT NOTIFY_HISTORY_SCAN t) of
        Some row \<Rightarrow> \<lparr> hs_last_notified_ms = Some (sa_ts_ms row),
          hs_last_notified_state = (case sa_detail row of None \<Rightarrow> None | Some d \<Rightarrow> state_from_detail d) \<rparr>
      | None \<Rightarrow> history_default)"

definition notify_event :: "transition \<Rightarrow> notify_decision \<Rightarrow> audit_event" where
  "notify_event tn d =
     (let (action, detail, oc) = (case d of
          Notify reason \<Rightarrow> (NOTIFY_SENT, detail_for (tn_to tn) reason, OutcomeOk)
        | Suppressed r \<Rightarrow> (NOTIFY_SUPPRESSED, detailed (tn_to tn) (suppress_word r @ DASH @ suppress_detail r), Refused))
      in (event_new action UnknownKind oc (tn_at_ms tn))\<lparr> ev_device := ''daemon'', ev_agent := tn_pane tn,
           ev_prompt := tn_reason tn, ev_detail := Some detail \<rparr>)"

definition record_notify :: "(string \<Rightarrow> string) \<Rightarrow> (string \<Rightarrow> ip_addr option) \<Rightarrow> transition \<Rightarrow> notify_decision \<Rightarrow> audit_row list \<Rightarrow> audit_row list" where
  "record_notify to_lower parse_peer tn d t = audit_record to_lower parse_peer (notify_event tn d) t"

text \<open>The payload that is sent to the devices, if there is a push leg.\<close>

definition decide_record_and_push :: "(string \<Rightarrow> string) \<Rightarrow> (string \<Rightarrow> ip_addr option) \<Rightarrow> policy \<Rightarrow> bool \<Rightarrow> transition
    \<Rightarrow> audit_row list \<Rightarrow> push_payload list \<times> audit_row list" where
  "decide_record_and_push to_lower parse_peer po push tn t =
     (let d = policy_decide po tn (notify_history t (tn_pane tn));
          t1 = record_notify to_lower parse_peer tn d t
      in (case push_payload_of tn d of None \<Rightarrow> [] | Some p \<Rightarrow> if push then [p] else [], t1))"

fun decide_all :: "(string \<Rightarrow> string) \<Rightarrow> (string \<Rightarrow> ip_addr option) \<Rightarrow> policy \<Rightarrow> bool \<Rightarrow> transition list
    \<Rightarrow> audit_row list \<Rightarrow> push_payload list \<times> audit_row list" where
  "decide_all to_lower parse_peer po push [] t = ([], t)"
| "decide_all to_lower parse_peer po push (tn # tns) t =
     (let (ps, t1) = decide_record_and_push to_lower parse_peer po push tn t;
          (qs, t2) = decide_all to_lower parse_peer po push tns t1
      in (ps @ qs, t2))"

section \<open>The tick\<close>

definition mk_transition :: "string \<Rightarrow> string \<Rightarrow> u64 \<Rightarrow> agent_state \<Rightarrow> agent_state \<Rightarrow> string \<Rightarrow> transition" where
  "mk_transition pane machine at src dst reason =
     \<lparr> tn_pane = pane, tn_machine = machine, tn_at_ms = at, tn_from = src, tn_to = dst, tn_reason = reason \<rparr>"

fun event_transitions :: "string \<Rightarrow> string \<Rightarrow> 'r pane_entry \<Rightarrow> agent_state \<Rightarrow> state_event list \<Rightarrow> transition list" where
  "event_transitions pane machine e src [] = []"
| "event_transitions pane machine e src (ev # evs) =
     (let dst = engine_state_to_wire (se_state ev) in
      mk_transition pane machine (se_t_ms ev) src dst (notify_sentence ev dst e) #
      event_transitions pane machine e dst evs)"

definition tick_transitions :: "string \<Rightarrow> string \<Rightarrow> u64 \<Rightarrow> 'r pane_entry \<Rightarrow> agent_state \<Rightarrow> agent_state \<Rightarrow> state_event list \<Rightarrow> transition list" where
  "tick_transitions pane machine later e previous after evs =
     (if evs = [] \<and> previous \<noteq> after
      then [mk_transition pane machine later previous after
        (state_word after @ '' (observed by the tick: the transition was consumed by a client'' @ CHR 0x27 # ''s poll)'')]
      else []) @ event_transitions pane machine e previous evs"

record tick_state =
  tk_last_seen :: "(string, agent_state) btree"
  tk_log :: "audit_row list"
  tk_pushed :: "push_payload list"

text \<open>
  One pane of a pass. \<open>po\<close> is \<open>None\<close> without a \<open>[notify]\<close> section, \<open>opened\<close> says whether the store opened; \<open>now\<close>
  and \<open>later\<close> are the two readings of the clock.
\<close>

definition tick_pane :: "'r regex_lib \<Rightarrow> (string \<Rightarrow> string) \<Rightarrow> (string \<Rightarrow> ip_addr option) \<Rightarrow> policy option \<Rightarrow> bool \<Rightarrow> bool \<Rightarrow> string
    \<Rightarrow> u64 \<Rightarrow> u64 \<Rightarrow> string \<Rightarrow> 'r pane_entry \<Rightarrow> tick_state \<Rightarrow> 'r pane_entry \<times> tick_state" where
  "tick_pane R to_lower parse_peer po opened push machine now later pane e st =
     (let observed = wire_state e;
          (evs, e1) = pump R now e;
          after = wire_state e1;
          previous = (case bt_get (tk_last_seen st) pane of Some s \<Rightarrow> s | None \<Rightarrow> observed);
          st1 = st\<lparr> tk_last_seen := bt_insert pane after (tk_last_seen st) \<rparr>
      in case po of
          Some pol \<Rightarrow>
            if opened then
              (let (ps, t) = decide_all to_lower parse_peer pol push (tick_transitions pane machine later e1 previous after evs) (tk_log st1)
               in (e1, st1\<lparr> tk_log := t, tk_pushed := tk_pushed st1 @ ps \<rparr>))
            else (e1, st1)
        | None \<Rightarrow> (e1, st1))"

fun tick_panes :: "'r regex_lib \<Rightarrow> (string \<Rightarrow> string) \<Rightarrow> (string \<Rightarrow> ip_addr option) \<Rightarrow> policy option \<Rightarrow> bool \<Rightarrow> bool \<Rightarrow> string
    \<Rightarrow> (nat \<Rightarrow> u64 \<times> u64) \<Rightarrow> (string \<times> 'r pane_entry) list \<Rightarrow> tick_state \<Rightarrow> (string \<times> 'r pane_entry) list \<times> tick_state" where
  "tick_panes R to_lower parse_peer po opened push machine clock [] st = ([], st)"
| "tick_panes R to_lower parse_peer po opened push machine clock ((pane, e) # es) st =
     (let (e1, st1) = tick_pane R to_lower parse_peer po opened push machine (fst (clock (length es))) (snd (clock (length es))) pane e st;
          (es1, st2) = tick_panes R to_lower parse_peer po opened push machine clock es st1
      in ((pane, e1) # es1, st2))"

definition tick_pass :: "'r regex_lib \<Rightarrow> (string \<Rightarrow> string) \<Rightarrow> (string \<Rightarrow> ip_addr option) \<Rightarrow> policy option \<Rightarrow> bool \<Rightarrow> bool \<Rightarrow> string
    \<Rightarrow> (nat \<Rightarrow> u64 \<times> u64) \<Rightarrow> (string \<times> 'r pane_entry) list \<Rightarrow> tick_state \<Rightarrow> (string \<times> 'r pane_entry) list \<times> tick_state" where
  "tick_pass R to_lower parse_peer po opened push machine clock es st =
     tick_panes R to_lower parse_peer po opened push machine clock es
       (st\<lparr> tk_last_seen := filter (\<lambda>(pane, _). pane \<in> set (map fst es)) (tk_last_seen st) \<rparr>)"

section \<open>Audit rows of a session\<close>

record actor =
  ac_device :: string
  ac_peer :: "string option"

definition actor_local :: actor where
  "actor_local = \<lparr> ac_device = LOCAL_CLI, ac_peer = None \<rparr>"

definition actor_remote :: "string \<Rightarrow> ip_addr \<Rightarrow> actor" where
  "actor_remote device ip = \<lparr> ac_device = device, ac_peer = Some (truncate_peer ip) \<rparr>"

definition kind_for :: "string \<Rightarrow> audit_kind" where
  "kind_for action =
     (if action \<in> {''prompt'', ''send'', ''attach''} then Prompt
      else if action = ''auth.reject'' then AuthReject
      else if action = ''pairing.failed'' then PairingFailed
      else if action \<in> {''device.issue'', ''device.rotate'', ''device.revoke''} then DeviceChange
      else if action \<in> {''trust.grant'', ''trust.revoke'', ''trust.refuse''} then Trust
      else UnknownKind)"

definition record_with_prompt :: "(string \<Rightarrow> string) \<Rightarrow> (string \<Rightarrow> ip_addr option) \<Rightarrow> actor \<Rightarrow> u64 \<Rightarrow> string \<Rightarrow> audit_outcome \<Rightarrow> string
    \<Rightarrow> string \<Rightarrow> string option \<Rightarrow> audit_row list \<Rightarrow> audit_row list" where
  "record_with_prompt to_lower parse_peer ac now action oc agent prompt detail t =
     audit_record to_lower parse_peer ((event_new action (kind_for action) oc now)\<lparr> ev_device := ac_device ac,
       ev_agent := agent, ev_prompt := prompt, ev_peer := ac_peer ac, ev_detail := detail \<rparr>) t"

section \<open>Quick actions\<close>

definition PANE_EXITED :: string where "PANE_EXITED = ''the pane has exited''"

record 'r act_world =
  aw_registry :: "(string, 'r pane_entry) btree"
  aw_log :: "audit_row list"
  aw_written :: "(string \<times> string) list"

text \<open>The check of the shape: the text to send, if any, or the refusal.\<close>

definition act_text :: "notify_action \<Rightarrow> string option \<Rightarrow> string + string option" where
  "act_text action text = (case (action, text) of
      (Reply, None) \<Rightarrow> Err ''reply needs text''
    | (Reply, Some said) \<Rightarrow>
        if \<not> reply_text_within_bound said
        then Err (''reply text is too long: '' @ show_nat (length said) @ '' bytes, the bound is '' @ show_nat MAX_REPLY_BYTES)
        else Ok (Some said)
    | (_, Some _) \<Rightarrow> Err ''--text applies only to reply''
    | (_, None) \<Rightarrow> Ok None)"

text \<open>
  The act itself on a running pane, with the message of a failure. \<open>send_failure\<close> is the error of the
  pseudo-terminal, if there is one; \<open>debug\<close> prints a quoted string. The reads of the clock are one value.
\<close>

definition act_perform :: "'r regex_lib \<Rightarrow> (string \<Rightarrow> string) \<Rightarrow> string option \<Rightarrow> u64 \<Rightarrow> string \<Rightarrow> notify_action \<Rightarrow> string option
    \<Rightarrow> 'r act_world \<Rightarrow> (string + unit) \<times> 'r act_world" where
  "act_perform R debug send_failure now pane action text w =
     (case bt_get (aw_registry w) pane of
        None \<Rightarrow> (Err (''pane '' @ debug pane @ '' not found''), w)
      | Some e \<Rightarrow>
          if \<not> pn_running e then (Err PANE_EXITED, w)
          else (case (action, text) of
              (Reply, Some said) \<Rightarrow>
                (let e1 = snd (pump R now e);
                     w1 = w\<lparr> aw_registry := bt_insert pane e1 (aw_registry w) \<rparr>;
                     state = wire_state e1
                 in if state \<noteq> Question
                    then (Err (''cannot reply: the pane is not asking (state='' @ state_word state @ '')''), w1)
                    else (case send_failure of
                        Some msg \<Rightarrow> (Err (''send failed: '' @ msg), w1)
                      | None \<Rightarrow> (Ok (), w1\<lparr> aw_written := aw_written w @ [(pane, said @ [NEWLINE])],
                          aw_registry := bt_insert pane (snd (pump R now e1)) (aw_registry w1) \<rparr>)))
            | (KillPane, _) \<Rightarrow> (Ok (), w\<lparr> aw_registry := bt_remove pane (aw_registry w) \<rparr>)
            | _ \<Rightarrow> (Ok (), w)))"

definition serve_notify_act :: "'r regex_lib \<Rightarrow> (string \<Rightarrow> string) \<Rightarrow> (string \<Rightarrow> ip_addr option) \<Rightarrow> (string \<Rightarrow> string) \<Rightarrow> string option \<Rightarrow> actor \<Rightarrow> u64
    \<Rightarrow> string \<Rightarrow> notify_action \<Rightarrow> string option \<Rightarrow> 'r act_world \<Rightarrow> (bool \<times> string) \<times> 'r act_world" where
  "serve_notify_act R to_lower parse_peer debug send_failure ac now pane action text w =
     (let prompt = (case action of Reply \<Rightarrow> (case text of Some t \<Rightarrow> t | None \<Rightarrow> []) | _ \<Rightarrow> []);
          log = (\<lambda>oc detail w. w\<lparr> aw_log := record_with_prompt to_lower parse_peer ac now NOTIFY_ACT oc pane prompt (Some detail) (aw_log w) \<rparr>);
          refused = (\<lambda>detail w. ((False, detail), log Refused (''action='' @ action_as_str action @ ''; '' @ detail) w))
      in case act_text action text of
          Err detail \<Rightarrow> refused detail w
        | Ok said \<Rightarrow>
            (case act_perform R debug send_failure now pane action said w of
               (Err detail, w1) \<Rightarrow> refused detail w1
             | (Ok _, w1) \<Rightarrow> ((True, []), log OutcomeOk (''action='' @ action_as_str action) w1)))"

end
