(* ===== verification/Notify_Properties.thy ===== *)
theory Notify_Properties
  imports Notify_Daemon
begin

text \<open>
  What is shown of notifications: pane patterns mean what a wildcard means, quiet hours are a window of the
  day, a row's detail can be read back; and the places where a pattern misses a pane and where a row keeps a
  secret that it masks.
\<close>

section \<open>Pane patterns\<close>

fun wild :: "string list \<Rightarrow> string list \<Rightarrow> bool" where
  "wild [] s \<longleftrightarrow> s = []"
| "wild (c # p) [] \<longleftrightarrow> c = ''*'' \<and> wild p []"
| "wild (c # p) (d # s) \<longleftrightarrow> (if c = ''*'' then wild p (d # s) \<or> wild (c # p) s else c = d \<and> wild p s)"

lemma wild_star: "wild (''*'' # p) s \<longleftrightarrow> (\<exists>k \<le> length s. wild p (drop k s))"
proof (induction s)
  case (Cons d s)
  have "(\<exists>k \<le> length (d # s). wild p (drop k (d # s))) \<longleftrightarrow> wild p (d # s) \<or> (\<exists>k \<le> length s. wild p (drop k s))"
    by (metis Suc_le_mono drop0 drop_Suc_Cons le0 length_Cons not0_implies_Suc)
  with Cons show ?case by simp
qed simp

lemma wild_literal: "''*'' \<notin> set u \<Longrightarrow> wild (u @ q) s \<longleftrightarrow> (\<exists>s'. s = u @ s' \<and> wild q s')"
proof (induction u arbitrary: s)
  case (Cons c u)
  then show ?case by (cases s) auto
qed simp

lemma wild_star_more: "wild (''*'' # p) (drop k s) \<Longrightarrow> k \<le> length s \<Longrightarrow> wild (''*'' # p) s"
proof -
  assume "wild (''*'' # p) (drop k s)" and k: "k \<le> length s"
  then obtain j where "j \<le> length s - k" and "wild p (drop (j + k) s)" by (auto simp: wild_star)
  with k show ?thesis unfolding wild_star by (intro exI [of _ "j + k"]) simp
qed

lemma wild_Nil: "wild p [] \<longleftrightarrow> set p \<subseteq> {''*''}"
  by (induction p) auto

lemma skip_stars_all: "skip_stars cs p = p + length cs \<longleftrightarrow> set cs \<subseteq> {''*''}"
proof (induction cs arbitrary: p)
  case (Cons c cs)
  have "skip_stars cs (Suc p) = Suc (p + length cs) \<longleftrightarrow> set cs \<subseteq> {''*''}" using Cons.IH [of "Suc p"] by simp
  then show ?case by auto
qed simp

text \<open>The place to go back to: the star, with only literal characters matched since.\<close>

definition star_ok :: "string list \<Rightarrow> nat \<Rightarrow> nat \<Rightarrow> (nat \<times> nat) option \<Rightarrow> bool" where
  "star_ok pat p t star = (case star of None \<Rightarrow> True
     | Some (sp, st) \<Rightarrow> sp < p \<and> t = st + (p - Suc sp) \<and> (\<forall>i. sp < i \<and> i < p \<longrightarrow> pat ! i \<noteq> ''*''))"

definition retry :: "string list \<Rightarrow> string list \<Rightarrow> (nat \<times> nat) option \<Rightarrow> bool" where
  "retry pat tx star = (case star of None \<Rightarrow> False
     | Some (sp, st) \<Rightarrow> \<exists>k. st < k \<and> k \<le> length tx \<and> wild (drop (Suc sp) pat) (drop k tx))"

lemma retry_segment:
  assumes "star_ok pat p t (Some (sp, st))" and "p \<le> length pat" and "st < k" and "k \<le> length tx"
    and "wild (drop (Suc sp) pat) (drop k tx)"
  shows "\<exists>j. t < j \<and> j \<le> length tx \<and> wild (drop p pat) (drop j tx)"
proof -
  let ?u = "take (p - Suc sp) (drop (Suc sp) pat)"
  have split: "drop (Suc sp) pat = ?u @ drop p pat"
    using assms(1) by (simp add: star_ok_def) (metis append_take_drop_id drop_drop le_add_diff_inverse2 Suc_leI)
  have "''*'' \<notin> set ?u"
    using assms(1,2) by (auto simp: star_ok_def in_set_conv_nth)
  with assms(5) split obtain s' where s': "drop k tx = ?u @ s'" and w: "wild (drop p pat) s'" using wild_literal by metis
  have len: "length ?u = p - Suc sp" using assms(1,2) by (simp add: star_ok_def)
  then have "s' = drop (k + (p - Suc sp)) tx" using s' by (metis append_eq_conv_conj drop_drop add.commute)
  moreover have "k + (p - Suc sp) \<le> length tx" using s' len assms(4) by (metis add.commute le_add_diff_inverse2 length_append length_drop nat_add_left_cancel_le le_add1)
  ultimately show ?thesis using w assms(1,3) by (intro exI [of _ "k + (p - Suc sp)"]) (auto simp: star_ok_def)
qed

lemma star_or_retry:
  assumes "t \<le> length tx"
  shows "wild (drop (Suc p) pat) (drop t tx) \<or> retry pat tx (Some (p, t)) \<longleftrightarrow> wild (''*'' # drop (Suc p) pat) (drop t tx)"
proof -
  have "(\<exists>k. t < k \<and> k \<le> length tx \<and> P k) \<or> P t \<longleftrightarrow> (\<exists>k \<le> length tx - t. P (k + t))" for P
  proof
    assume "(\<exists>k. t < k \<and> k \<le> length tx \<and> P k) \<or> P t"
    then obtain k where "t \<le> k \<and> k \<le> length tx \<and> P k" using assms less_imp_le by blast
    then show "\<exists>k \<le> length tx - t. P (k + t)" by (intro exI [of _ "k - t"]) auto
  next
    assume "\<exists>k \<le> length tx - t. P (k + t)"
    then obtain k where "k \<le> length tx - t" "P (k + t)" by auto
    then show "(\<exists>k. t < k \<and> k \<le> length tx \<and> P k) \<or> P t"
      using assms by (cases k) (auto intro!: exI [of _ "k + t"])
  qed
  from this [of "\<lambda>k. wild (drop (Suc p) pat) (drop k tx)"] show ?thesis by (auto simp: wild_star retry_def)
qed

lemma glob_loop_wild:
  assumes "''*'' \<notin> set tx"
  shows "p \<le> length pat \<Longrightarrow> t \<le> length tx \<Longrightarrow> star_ok pat p t star \<Longrightarrow>
    glob_loop pat tx p t star \<longleftrightarrow> wild (drop p pat) (drop t tx) \<or> retry pat tx star"
  using assms
proof (induction pat tx p t star rule: glob_loop.induct)
  case (1 pat tx p t star)
  note len = "1.prems"(1,2) and star = "1.prems"(3) and plain = "1.prems"(4)
  note unfold = glob_loop.simps [of pat tx p t star]
  show ?case
  proof (cases "t < length tx")
    case False
    have "\<not> retry pat tx star"
    proof
      assume "retry pat tx star"
      then obtain sp st k where "star = Some (sp, st)" "st < k" "k \<le> length tx" "wild (drop (Suc sp) pat) (drop k tx)"
        by (auto simp: retry_def split: option.splits)
      from retry_segment [OF star [unfolded this(1)] len(1) this(2-4)] False len(2) show False by auto
    qed
    moreover have "glob_loop pat tx p t star \<longleftrightarrow> skip_stars (drop p pat) p = length pat" using False by (simp add: unfold)
    ultimately show ?thesis
      using False len skip_stars_all [of "drop p pat" p] by (simp add: wild_Nil)
  next
    case True
    note t = True and tdrop = Cons_nth_drop_Suc [OF True]
    show ?thesis
    proof (cases "p < length pat \<and> pat ! p = tx ! t")
      case True
      then have lit: "pat ! p \<noteq> ''*''" using plain t nth_mem [of t tx] by metis
      have "star_ok pat (p + 1) (t + 1) star"
        using star lit by (auto simp: star_ok_def less_Suc_eq split: option.splits)
      moreover have "wild (drop p pat) (drop t tx) = wild (drop (Suc p) pat) (drop (Suc t) tx)"
        using True lit Cons_nth_drop_Suc [of p pat] tdrop wild.simps(3) [of "pat ! p" "drop (Suc p) pat" "tx ! t" "drop (Suc t) tx"] by simp
      ultimately show ?thesis
        using "1.IH"(1) [OF t True] True t plain len by (simp add: unfold)
    next
      case nolit: False
      show ?thesis
      proof (cases "p < length pat \<and> pat ! p = ''*''")
        case True
        then have pdrop: "drop p pat = ''*'' # drop (Suc p) pat" using Cons_nth_drop_Suc [of p pat] by simp
        have "star_ok pat (p + 1) t (Some (p, t))" by (auto simp: star_ok_def less_Suc_eq)
        then have "glob_loop pat tx p t star \<longleftrightarrow> wild (drop (Suc p) pat) (drop t tx) \<or> retry pat tx (Some (p, t))"
          using "1.IH"(2) [OF t nolit True] True t nolit plain len by (simp add: unfold)
        also have "\<dots> \<longleftrightarrow> wild (drop p pat) (drop t tx)"
          unfolding pdrop by (rule star_or_retry [OF len(2)])
        also have "\<dots> \<longleftrightarrow> wild (drop p pat) (drop t tx) \<or> retry pat tx star"
        proof -
          have "wild (drop p pat) (drop t tx)" if again: "retry pat tx star"
          proof -
            obtain sp st k where "star = Some (sp, st)" "st < k" "k \<le> length tx" "wild (drop (Suc sp) pat) (drop k tx)"
              using again by (auto simp: retry_def split: option.splits)
            from retry_segment [OF star [unfolded this(1)] len(1) this(2-4)]
            obtain j where "t < j" "j \<le> length tx" "wild (drop p pat) (drop j tx)" by auto
            then show ?thesis
              using wild_star_more [of "drop (Suc p) pat" "j - t" "drop t tx"] pdrop by simp
          qed
          then show ?thesis by auto
        qed
        finally show ?thesis .
      next
        case nostar: False
        have "\<not> wild (drop p pat) (drop t tx)"
        proof (cases "p < length pat")
          case True
          with nolit nostar show ?thesis using Cons_nth_drop_Suc [OF True] tdrop wild.simps(3) by metis
        next
          case False
          with t show ?thesis by simp
        qed
        moreover have "glob_loop pat tx p t star \<longleftrightarrow> retry pat tx star"
        proof (cases star)
          case None
          with t nolit nostar show ?thesis by (auto simp: glob_loop.simps [of pat tx p t None] retry_def)
        next
          case (Some ss)
          then obtain sp st where ss: "star = Some (sp, st)" by (cases ss) auto
          have bounds: "sp < p" "st \<le> t" using star ss by (auto simp: star_ok_def)
          have "glob_loop pat tx p t star \<longleftrightarrow> glob_loop pat tx (sp + 1) (st + 1) (Some (sp, st + 1))"
            using t nolit nostar by (auto simp: ss glob_loop.simps [of pat tx p t "Some (sp, st)"])
          also have "\<dots> \<longleftrightarrow> wild (drop (Suc sp) pat) (drop (Suc st) tx) \<or> retry pat tx (Some (sp, st + 1))"
          proof -
            have "star_ok pat (sp + 1) (st + 1) (Some (sp, st + 1))" by (auto simp: star_ok_def)
            with "1.IH"(3) [OF t nolit nostar ss refl] bounds len t plain show ?thesis by simp
          qed
          also have "\<dots> \<longleftrightarrow> retry pat tx star"
            unfolding ss retry_def using bounds t by (auto intro: Suc_lessD) (metis Suc_lessI)
          finally show ?thesis .
        qed
        ultimately show ?thesis by simp
      qed
    qed
  qed
qed

text \<open>
  C23. A pane pattern means what its wildcard means: for a pane id without a star in it, the two-pointer
  loop accepts exactly the ids that the pattern describes, each \<open>*\<close> standing for any run of characters.
\<close>

theorem glob_is_wildcard:
  assumes "''*'' \<notin> set (chars_of pane)"
  shows "glob_matches pattern pane \<longleftrightarrow> wild (chars_of pattern) (chars_of pane)"
  using glob_loop_wild [OF assms, of 0 "chars_of pattern" 0 None] by (simp add: glob_matches_def star_ok_def retry_def)

theorem glob_is_wildcard_witness: "glob_matches ''b*-*2'' ''build-12'' \<and> \<not> glob_matches ''b*-*2'' ''build-21''"
proof -
  have "wild (chars_of ''b*-*2'') (chars_of ''build-12'')" by code_simp
  moreover have "\<not> wild (chars_of ''b*-*2'') (chars_of ''build-21'')" by code_simp
  moreover have "''*'' \<notin> set (chars_of ''build-12'')" "''*'' \<notin> set (chars_of ''build-21'')" by code_simp+
  ultimately show ?thesis using glob_is_wildcard by simp
qed

text \<open>For an id that begins with a star it does not: \<open>*\<close> alone does not match one.\<close>

theorem star_misses_starred_pane: "\<not> glob_matches ''*'' (''*'' @ CHR ''a'' # rest)"
proof -
  have "\<not> is_cont (CHR ''a'')" by (simp add: is_cont_def chcode_def)
  then obtain y where y: "chars_of (''*'' @ CHR ''a'' # rest) = ''*'' # y" "y \<noteq> []" by simp
  have "glob_loop [''*''] (''*'' # y) 0 0 None = glob_loop [''*''] (''*'' # y) 1 1 None"
    by (subst glob_loop.simps) simp
  also have "\<dots> = False" using y(2) by (subst glob_loop.simps) simp
  finally show ?thesis using y by (simp add: glob_matches_def)
qed

section \<open>The detail of a row\<close>

lemma rsplit_str_None: "rsplit_str pat s = None \<Longrightarrow> pat \<noteq> [] \<Longrightarrow> strip_prefix pat s = None"
  by (cases s) (auto simp: strip_prefix_def split: option.splits if_splits)

lemma rsplit_str_first:
  assumes "pat = c # ps" and "c \<notin> set ps" and "c \<notin> set l"
  shows "rsplit_str pat (k @ pat @ l) = Some (k, l)"
proof -
  have none: "c \<notin> set s \<Longrightarrow> rsplit_str pat s = None" for s
    using assms(1) by (induction s) (auto simp: strip_prefix_def)
  have "rsplit_str pat (pat @ l) = Some ([], l)"
    using assms none [of "ps @ l"] by (simp add: strip_prefix_def)
  then show ?thesis by (induction k) auto
qed

text \<open>
  What is written to a row can be read back: whatever the sentence says, the state, the quick actions
  and the sentence of a notification row are those it was written with.
\<close>

theorem detail_round_trip:
  "state_from_detail (detail_for s reason) = Some s \<and> actions_from_detail (detail_for s reason) = Some (actions_for s) \<and>
   strip_actions (detail_for s reason) = ''state='' @ state_word s @ ''; '' @ reason"
proof -
  let ?l = "join_commas (map action_as_str (actions_for s))"
  have "CHR '' '' \<notin> set ?l" by (simp add: actions_for_def action_as_str_def)
  then have split: "rsplit_str DETAIL_ACTIONS_PREFIX (detail_for s reason) = Some (''state='' @ state_word s @ ''; '' @ reason, ?l)"
    using rsplit_str_first [of DETAIL_ACTIONS_PREFIX "CHR '' ''" "''actions=''" ?l "''state='' @ state_word s @ ''; '' @ reason"]
    by (simp add: DETAIL_ACTIONS_PREFIX_def DETAIL_STATE_PREFIX_def detail_for_def detailed_def)
  moreover have "parse_actions (split_on (CHR '','') ?l) = Some (actions_for s)"
    by (cases s; hypsubst; code_simp)
  moreover have "state_from_detail (detail_for s reason) = Some s"
  proof -
    have "CHR '';'' \<notin> set (state_word s)" by (cases s) (simp_all add: state_word_def)
    moreover have "state_from_word (state_word s) = Some s" by (cases s; hypsubst; code_simp)
    ultimately show ?thesis
      by (simp add: state_from_detail_def strip_prefix_def detail_for_def detailed_def DETAIL_STATE_PREFIX_def split_on_append)
  qed
  ultimately show ?thesis by (simp add: actions_from_detail_def strip_actions_def)
qed

section \<open>Quiet hours\<close>

lemma parse_clock_bound: "parse_clock tx whole = Ok m \<Longrightarrow> m < 1440"
  by (auto simp: parse_clock_def split: option.splits if_splits prod.splits)

lemma quiet_parse_bounds: "quiet_parse spec = Ok q \<Longrightarrow> qh_start_min q < 1440 \<and> qh_end_min q < 1440"
  by (auto simp: quiet_parse_def dest: parse_clock_bound split: option.splits sum.splits prod.splits)

lemma in_window_iff:
  fixes a b n :: nat
  assumes "a < 1440" and "b < 1440" and "n < 1440"
  shows "(if a = b then False else if a < b then a \<le> n \<and> n < b else a \<le> n \<or> n < b) \<longleftrightarrow>
    (int n - int a) mod 1440 < (int b - int a) mod 1440"
proof -
  have "(int x - int a) mod 1440 = (if a \<le> x then int x - int a else int x - int a + 1440)" if "x < 1440" for x
  proof (cases "a \<le> x")
    case False
    have "(int x - int a + 1440) mod 1440 = int x - int a + 1440" using False assms(1) that by (intro mod_pos_pos_trivial) auto
    then show ?thesis using False by simp
  qed (use assms that in simp)
  with assms show ?thesis by auto
qed

lemma local_minutes_bound: "local_minutes at off < 1440"
  by (simp add: local_minutes_def nat_less_iff)

lemma parse_two_digits:
  assumes "n < 100"
  shows "parse_u32 (two_digits n) = Some n \<and> (\<forall>c \<in> set (two_digits n). is_ascii_digit c)"
proof -
  have digits: "\<forall>c \<in> set (two_digits n). is_ascii_digit c"
    using show_nat_all_digits [of n] by (auto simp: two_digits_def pad_zero_def is_ascii_digit_def chcode_def)
  have "dec_number g 0 (replicate k (CHR ''0'') @ s) = dec_number g 0 s" for g k s
    by (induction k) (simp_all add: is_ascii_digit_def chcode_def)
  then have num: "dec_number (2 ^ 32 - 1) 0 (two_digits n) = Some n"
    using assms dec_number_show [of n "2 ^ 32 - 1"] by (simp add: two_digits_def pad_zero_def)
  have "length (show_nat n) \<le> 2" using length_show_nat [of n 1] assms by simp
  then have "length (two_digits n) = 2" by (simp add: two_digits_def pad_zero_def)
  then obtain c d where cd: "two_digits n = [c, d]" by (auto simp: numeral_2_eq_2 length_Suc_conv)
  have "c \<noteq> CHR ''+''" using digits cd by (auto simp: is_ascii_digit_def chcode_def)
  with num cd digits show ?thesis by (simp add: parse_u32_def parse_unsigned_def)
qed

lemma two_digits_no: "n < 100 \<Longrightarrow> \<not> is_ascii_digit c \<Longrightarrow> c \<notin> set (two_digits n)"
  using parse_two_digits [of n] by blast

lemma two_digits_visible: "n < 100 \<Longrightarrow> visible (two_digits n)"
  using parse_two_digits [of n] by (auto simp: visible_def is_ascii_digit_def)

lemma minutes_small: "m < 1440 \<Longrightarrow> m div 60 < 100 \<and> m mod 60 < (100 :: nat) \<and> \<not> 23 < m div 60 \<and> \<not> 59 < m mod 60"
  using mod_less_divisor [of 60 m] by linarith

lemma not_digits: "\<not> is_ascii_digit (CHR '':'')" "\<not> is_ascii_digit (CHR ''-'')"
  by (simp_all add: is_ascii_digit_def chcode_def)

lemma parse_clock_shown:
  assumes "m < 1440"
  shows "parse_clock (trim (two_digits (m div 60) @ '':'' @ two_digits (m mod 60))) whole = Ok m"
proof -
  note small = minutes_small [OF assms]
  have "split_once (CHR '':'') (two_digits (m div 60) @ '':'' @ two_digits (m mod 60)) = Some (two_digits (m div 60), two_digits (m mod 60))"
    using split_once_eq [of "CHR '':''" "two_digits (m div 60)" "two_digits (m mod 60)"] two_digits_no not_digits small by simp
  moreover have "visible (two_digits (m div 60) @ '':'' @ two_digits (m mod 60))"
    using two_digits_visible small by (auto simp: visible_def chcode_def)
  ultimately show ?thesis
    using parse_two_digits small by (simp add: parse_clock_def visible_trim two_digits_visible)
qed

lemma quiet_parse_window:
  assumes "qh_start_min q < 1440" and "qh_end_min q < 1440"
  shows "quiet_parse (quiet_window q) = Ok q"
proof -
  let ?a = "two_digits (qh_start_min q div 60) @ '':'' @ two_digits (qh_start_min q mod 60)"
    and ?b = "two_digits (qh_end_min q div 60) @ '':'' @ two_digits (qh_end_min q mod 60)"
  have "CHR ''-'' \<notin> set ?a"
    using two_digits_no not_digits minutes_small [OF assms(1)] by auto
  from split_once_eq [OF this, of ?b] have "split_once (CHR ''-'') (quiet_window q) = Some (?a, ?b)"
    by (simp add: quiet_window_def)
  then show ?thesis
    using parse_clock_shown [OF assms(1)] parse_clock_shown [OF assms(2)] by (simp add: quiet_parse_def)
qed

text \<open>
  C34. Quiet hours are a window of the day: every accepted specification is two minutes of the day; an
  instant is inside exactly when it is less past the start, around the clock, than the end is, so also for
  windows over midnight and never for equal bounds; and the printed window is accepted as the same one.
\<close>

theorem quiet_hours_are_a_window:
  assumes "quiet_parse spec = Ok q"
  shows "qh_start_min q < 1440 \<and> qh_end_min q < 1440 \<and>
    (quiet_contains q at off \<longleftrightarrow>
      (int (unat at div 60000) + off - int (qh_start_min q)) mod 1440 < (int (qh_end_min q) - int (qh_start_min q)) mod 1440) \<and>
    quiet_parse (quiet_window q) = Ok q"
proof -
  note bounds = quiet_parse_bounds [OF assms]
  let ?now = "local_minutes at off"
  have "int ?now = (int (unat at div 60000) + off) mod 1440" by (simp add: local_minutes_def)
  then have "(int ?now - int (qh_start_min q)) mod 1440 = (int (unat at div 60000) + off - int (qh_start_min q)) mod 1440"
    by (metis mod_diff_left_eq)
  with bounds in_window_iff [of "qh_start_min q" "qh_end_min q" ?now] local_minutes_bound [of at off] have
    contains: "quiet_contains q at off \<longleftrightarrow>
      (int (unat at div 60000) + off - int (qh_start_min q)) mod 1440 < (int (qh_end_min q) - int (qh_start_min q)) mod 1440"
    by (simp add: quiet_contains_def Let_def)
  with bounds contains quiet_parse_window [of q] show ?thesis by simp
qed

definition night :: quiet_hours where
  "night = \<lparr> qh_start_min = 22 * 60, qh_end_min = 7 * 60 \<rparr>"

theorem quiet_hours_are_a_window_witness:
  "quiet_window night = ''22:00-07:00'' \<and> quiet_parse (quiet_window night) = Ok night \<and>
   quiet_contains night (word_of_nat (23 * 60 * 60000)) 0 \<and> \<not> quiet_contains night (word_of_nat (7 * 60 * 60000)) 0"
proof -
  have parsed: "quiet_parse (quiet_window night) = Ok night" by (rule quiet_parse_window) (simp_all add: night_def)
  moreover have "two_digits 22 = ''22''" "two_digits 0 = ''00''" "two_digits 7 = ''07''" by code_simp+
  then have "quiet_window night = ''22:00-07:00''" by (simp add: quiet_window_def night_def)
  ultimately show ?thesis
    using quiet_hours_are_a_window [OF parsed, of "word_of_nat (23 * 60 * 60000)" 0]
      quiet_hours_are_a_window [OF parsed, of "word_of_nat (7 * 60 * 60000)" 0]
    by (simp add: night_def)
qed

section \<open>What a row keeps\<close>

text \<open>
  A notification row keeps the secret that it masks: the sentence is redacted where it is the prompt
  of the row, and stored as it is in the detail of the same row.
\<close>

theorem notification_detail_keeps_secret:
  assumes "redact to_lower (tn_reason tn) = (masked, True)" and "policy_decide po tn (notify_history t (tn_pane tn)) = Notify reason"
  shows "\<exists>r before after. snd (decide_record_and_push to_lower parse_peer po push tn t) = t @ [r] \<and>
    ar_prompt r = masked \<and> ar_redacted r \<and> ar_detail r = Some (before @ tn_reason tn @ after)"
proof -
  have "reason = tn_reason tn"
    using assms(2) by (auto simp: policy_decide_def quiet_suppression_def coalesce_suppression_def Let_def split: if_splits option.splits)
  moreover have "\<exists>before after. detail_for (tn_to tn) reason = before @ reason @ after"
    by (rule exI [of _ "DETAIL_STATE_PREFIX @ state_word (tn_to tn) @ ''; ''"],
        rule exI [of _ "drop (length (DETAIL_STATE_PREFIX @ state_word (tn_to tn) @ ''; '' @ reason)) (detail_for (tn_to tn) reason)"])
      (simp add: detail_for_def detailed_def)
  ultimately show ?thesis
    using assms by (auto simp: decide_record_and_push_def record_notify_def notify_event_def audit_record_def event_new_def Let_def)
qed

definition asking :: transition where
  "asking = \<lparr> tn_pane = ''p1'', tn_machine = ''m'', tn_at_ms = 5, tn_from = Working, tn_to = Question,
     tn_reason = ''sk-12345678'' \<rparr>"

theorem notification_detail_keeps_secret_witness:
  "\<exists>r before after. snd (decide_record_and_push to_ascii_lowercase (\<lambda>_. None) policy_default True asking []) = [r] \<and>
     ar_prompt r = ''[REDACTED:token]'' \<and> ar_detail r = Some (before @ ''sk-12345678'' @ after)"
proof -
  have "find_token ''sk-12345678'' = Some (0, length ''sk-12345678'', ''api key (sk- prefix)'')" by code_simp
  moreover have "str_lines ''sk-12345678'' = [''sk-12345678'']" by code_simp
  ultimately have "redact to_ascii_lowercase (tn_reason asking) = (''[REDACTED:token]'', True)"
    using redact_token [of "''sk-12345678''"] by (simp add: asking_def MASKED_def)
  moreover have "policy_decide policy_default asking (notify_history [] (tn_pane asking)) = Notify (tn_reason asking)"
    by (simp add: policy_decide_def policy_default_def for_states_def rule_matches_def DEFAULT_ON_def asking_def quiet_suppression_def
      coalesce_suppression_def notify_history_def audit_recent_by_action_def sql_limit_def history_default_def)
  ultimately show ?thesis
    using notification_detail_keeps_secret [of to_ascii_lowercase asking _ policy_default "[]" _ "\<lambda>_. None" True] by (fastforce simp: asking_def)
qed

end
