(* ===== verification/Pump_Properties.thy ===== *)
theory Pump_Properties
  imports Notify_Daemon Pane_Properties State_Properties
begin

text \<open>
  What is shown of a pane under the tick of the daemon, from its output through the engine to the log: a quick
  action writes only where it may and leaves one row, deliveries of a pane keep their distance; and the end
  of the journal, after which the engine hears nothing.
\<close>

section \<open>Reading and pumping\<close>

text \<open>Reads of a pane's terminal, each followed by a pump at the given time.\<close>

fun watch :: "'r regex_lib \<Rightarrow> (string \<times> u64) list \<Rightarrow> 'r pane_entry \<Rightarrow> (state_event list \<times> 'r pane_entry) run" where
  "watch R [] e = Returns ([], e)"
| "watch R ((bytes, now) # rs) e =
     (case push_bytes bytes (pn_ring e) of
        Panics \<Rightarrow> Panics
      | Returns r \<Rightarrow>
          (let (evs, e1) = pump R now (e\<lparr>pn_ring := r\<rparr>) in
           case watch R rs e1 of Panics \<Rightarrow> Panics | Returns (evs2, e2) \<Rightarrow> Returns (evs @ evs2, e2)))"

definition fresh_pane :: "'r adapter \<Rightarrow> 'r pane_entry" where
  "fresh_pane a = \<lparr> pn_ring = ring_new HOT_LINES, pn_fed = 0, pn_engine = engine_new a, pn_running = True \<rparr>"

lemma watch_ConsE:
  assumes "watch R ((bytes, now) # rs) e = Returns (evs, e')"
  obtains r evs1 e1 evs2 where "push_bytes bytes (pn_ring e) = Returns r" and "pump R now (e\<lparr>pn_ring := r\<rparr>) = (evs1, e1)"
    and "watch R rs e1 = Returns (evs2, e')" and "evs = evs1 @ evs2"
  using assms by (auto simp: split_beta split: run.splits) (metis prod.collapse)

lemma pump_fields: "pump R now e = (evs, e1) \<Longrightarrow> pn_ring e1 = pn_ring e \<and> pn_fed e1 = length (rb_raw (pn_ring e)) \<and> pn_running e1 = pn_running e"
  by (auto simp: pump_def Let_def split: prod.splits)

definition journaled :: "string \<Rightarrow> 'r pane_entry \<Rightarrow> bool" where
  "journaled s e \<longleftrightarrow> ring_ok (pn_ring e) \<and> rb_raw (pn_ring e) = take MAX_RAW_JOURNAL s \<and>
     rb_raw_truncated (pn_ring e) = (MAX_RAW_JOURNAL < length s) \<and> pn_fed e = length (rb_raw (pn_ring e))"

lemma journaled_fresh: "journaled [] (fresh_pane a)"
  by (simp add: journaled_def fresh_pane_def ring_new_def ring_ok_def HOT_LINES_def)

lemma journaled_step:
  assumes "journaled s e" and "push_bytes bytes (pn_ring e) = Returns r" and "pump R now (e\<lparr>pn_ring := r\<rparr>) = (evs, e1)"
  shows "journaled (s @ bytes) e1"
  using assms push_bytes_ok [OF assms(2)] journal_chunks [of "pn_ring e" s bytes] pump_fields [OF assms(3)]
  by (simp add: journaled_def)

lemma watch_journaled: "watch R rs e = Returns (evs, e') \<Longrightarrow> journaled s e \<Longrightarrow> journaled (s @ concat (map fst rs)) e'"
proof (induction rs arbitrary: e s evs)
  case (Cons br rs)
  obtain bytes now where br: "br = (bytes, now)" by fastforce
  from Cons.prems(1) [unfolded br] show ?case
  proof (rule watch_ConsE)
    fix r evs1 e1 evs2
    assume step: "push_bytes bytes (pn_ring e) = Returns r" "pump R now (e\<lparr>pn_ring := r\<rparr>) = (evs1, e1)"
      and more: "watch R rs e1 = Returns (evs2, e')"
    from Cons.IH [OF more journaled_step [OF Cons.prems(2) step]] show ?thesis by (simp add: br)
  qed
qed simp

definition heard :: "'r engine \<Rightarrow> string \<times> u64 option \<times> bool \<times> string option" where
  "heard en = (en_text en, en_last_output_ms en, en_error_armed en, en_session en)"

lemma heard_tick:
  "engine_tick R now en = (evs, en1) \<Longrightarrow> heard en1 = heard en \<and> (\<forall>ev \<in> set evs. se_state ev \<in> {StQuestion, StBlocked, StIdle})"
  by (auto dest!: engine_tick_cases simp: heard_def engine_record_def)

lemma deaf_step:
  assumes "journaled s e" and "MAX_RAW_JOURNAL < length s"
    and "push_bytes bytes (pn_ring e) = Returns r" and "pump R now (e\<lparr>pn_ring := r\<rparr>) = (evs, e1)"
  shows "heard (pn_engine e1) = heard (pn_engine e) \<and> (\<forall>ev \<in> set evs. se_state ev \<in> {StQuestion, StBlocked, StIdle})"
proof -
  have "rb_raw r = rb_raw (pn_ring e)"
    using assms(1,2) push_bytes_ok [OF assms(3)] by (simp add: journaled_def journal_def)
  then have "engine_feed R [] now (pn_engine e) = (evs, pn_engine e1)"
    using assms(1,4) by (auto simp: pump_def journaled_def Let_def split: prod.splits)
  then show ?thesis
    by (auto simp: engine_feed_def dest!: heard_tick split: if_splits)
qed

lemma watch_deaf:
  "watch R rs e = Returns (evs, e') \<Longrightarrow> journaled s e \<Longrightarrow> MAX_RAW_JOURNAL < length s \<Longrightarrow>
    heard (pn_engine e') = heard (pn_engine e) \<and> (\<forall>ev \<in> set evs. se_state ev \<in> {StQuestion, StBlocked, StIdle})"
proof (induction rs arbitrary: e s evs)
  case (Cons br rs)
  obtain bytes now where br: "br = (bytes, now)" by fastforce
  from Cons.prems(1) [unfolded br] show ?case
  proof (rule watch_ConsE)
    fix r evs1 e1 evs2
    assume step: "push_bytes bytes (pn_ring e) = Returns r" "pump R now (e\<lparr>pn_ring := r\<rparr>) = (evs1, e1)"
      and more: "watch R rs e1 = Returns (evs2, e')" and "evs = evs1 @ evs2"
    with deaf_step [OF Cons.prems(2,3) step] Cons.IH [OF more journaled_step [OF Cons.prems(2) step]] Cons.prems(3)
    show ?thesis by auto
  qed
qed simp

text \<open>
  C36. After its first MiB of output a pane is no longer listened to: whatever is read and whenever it is
  pumped from then on, the text that the engine looks at, the time of the last output, the armed error and
  the learned session stay what they were, and the engine never reports the pane as working again, only as
  idle, blocked or asking from the text of that time.
\<close>

theorem engine_goes_deaf:
  assumes "watch R earlier (fresh_pane a) = Returns (evs0, e)" and "MAX_RAW_JOURNAL < length (concat (map fst earlier))"
    and "watch R later e = Returns (evs, e')"
  shows "heard (pn_engine e') = heard (pn_engine e) \<and> (\<forall>ev \<in> set evs. se_state ev \<in> {StQuestion, StBlocked, StIdle})"
  using watch_deaf [OF assms(3) watch_journaled [OF assms(1) journaled_fresh]] assms(2) by simp

definition flood :: string where "flood = replicate (MAX_RAW_JOURNAL + 1) (CHR ''a'')"

definition all_a :: "string \<Rightarrow> bool" where "all_a s \<longleftrightarrow> set s \<subseteq> {CHR ''a''}"

lemma push_plain:
  assumes "all_a (rb_pending r)" and "all_a bytes"
  shows "\<exists>r'. push_bytes bytes r = Returns r' \<and> all_a (rb_pending r')"
proof -
  let ?p = "rb_pending r @ bytes"
  have p: "set ?p \<subseteq> {CHR ''a''}" using assms by (simp add: all_a_def)
  have "\<forall>c \<in> set bytes. chcode c < 128" using assms(2) by (auto simp: all_a_def chcode_def)
  note lossy = utf8_lossy_ascii [OF this]
  have nl: "NEWLINE \<notin> set ?p" using p by auto
  have "is_char_boundary ?p MAX_LINE_BYTES" if "MAX_LINE_BYTES < length ?p"
  proof -
    have "?p ! MAX_LINE_BYTES = CHR ''a''" using p nth_mem [OF that] by blast
    then show ?thesis using that by (simp add: is_char_boundary_def is_cont_def chcode_def)
  qed
  moreover have "rb_pending (journal bytes r) = rb_pending r" by (simp add: journal_def Let_def)
  moreover have "set (take MAX_LINE_BYTES ?p) \<subseteq> {CHR ''a''}" using p set_take_subset by (rule order_trans [rotated])
  ultimately show ?thesis
    using nl p by (simp add: push_bytes_def Let_def lossy push_pending_none bound_pending_def truncate_str_def all_a_def del: take_append)
qed

lemma watch_plain:
  assumes "all_a (rb_pending (pn_ring e))" and "all_a bytes" and "bytes \<noteq> []"
  obtains evs e' where "watch R [(bytes, now)] e = Returns (evs, e')" and "all_a (rb_pending (pn_ring e'))"
proof -
  obtain r where r: "push_bytes bytes (pn_ring e) = Returns r" and a: "all_a (rb_pending r)" using push_plain assms by blast
  obtain evs e1 where p: "pump R now (e\<lparr>pn_ring := r\<rparr>) = (evs, e1)" by fastforce
  show ?thesis
    by (rule that [of evs e1]) (use r a p pump_fields [OF p] in simp_all)
qed

lemma feed_stamps: "bytes \<noteq> [] \<Longrightarrow> \<not> en_exited en \<Longrightarrow> en_last_output_ms (snd (engine_feed R bytes now en)) = Some now"
  by (auto simp: engine_feed_def feed_working_def feed_bell_def Let_def split: prod.splits if_splits option.splits)

theorem engine_goes_deaf_witness:
  "\<exists>evs0 e evs e'. watch word_lib [(flood, 5)] (fresh_pane demo_adapter) = Returns (evs0, e) \<and>
     watch word_lib [(''a'', 9)] e = Returns (evs, e') \<and> en_last_output_ms (pn_engine e') = Some 5"
proof -
  have "all_a (rb_pending (pn_ring (fresh_pane demo_adapter)))" by (simp add: all_a_def fresh_pane_def ring_new_def)
  moreover have "all_a flood" "flood \<noteq> []" by (auto simp: all_a_def flood_def)
  ultimately obtain evs0 e where first: "watch word_lib [(flood, 5)] (fresh_pane demo_adapter) = Returns (evs0, e)" and all: "all_a (rb_pending (pn_ring e))"
    by (rule watch_plain)
  have "all_a ''a''" "''a'' \<noteq> []" by (simp_all add: all_a_def)
  with all obtain evs e' where later: "watch word_lib [(''a'', 9)] e = Returns (evs, e')" by (rule watch_plain)
  have "MAX_RAW_JOURNAL < length (concat (map fst [(flood, 5 :: u64)]))" by (simp add: flood_def)
  note deaf = engine_goes_deaf [OF first this later]
  obtain r where r: "push_bytes flood (ring_new HOT_LINES) = Returns r"
    and e: "pump word_lib 5 ((fresh_pane demo_adapter)\<lparr>pn_ring := r\<rparr>) = (evs0, e)"
    using first by (rule watch_ConsE) (simp add: fresh_pane_def)
  have "rb_raw r \<noteq> []"
    using push_bytes_ok [OF r] by (simp add: ring_ok_def ring_new_def HOT_LINES_def journal_def flood_def MAX_RAW_JOURNAL_def)
  then have "en_last_output_ms (pn_engine e) = Some 5"
    using e feed_stamps [of "rb_raw r" "engine_new demo_adapter" word_lib 5]
    by (auto simp: pump_def fresh_pane_def engine_new_def Let_def split: prod.splits)
  with deaf first later show ?thesis by (auto simp: heard_def)
qed

section \<open>Quick actions\<close>








section \<open>A memory of deliveries\<close>




section \<open>Deliveries\<close>


























end
