(* ===== verification/Spec2Isabelle.thy ===== *)
theory Spec2Isabelle
  imports Identity_Properties Sync_Properties Relay_Inbox_Properties Relay_Mailbox_Properties
    Pairing_Flow_Properties Proto_Properties Relay_Directory_Properties Relay_Router_Properties
    Mesh_Properties Audit_Properties Pane_Properties State_Properties Notify_Properties
    Pump_Properties
begin

text \<open>
  \<^bold>\<open>Arreo: a verification development\<close>

  Arreo runs coding agents on several machines. A daemon on each machine keeps the agents' terminals; a
  phone or another machine attaches to it; a relay carries messages between machines that cannot reach
  each other, holds messages for machines that are off, and lends a mailbox to two devices that pair.
  Configuration is kept in step between machines. This development models, from the sources under
  \<open>crates/\<close>, the parts that decide: who may connect and do what, how two devices come to trust each other,
  what the relay stores, how two copies of a configuration are merged, how bytes become messages, what is
  kept of an agent's output and of what was done, and when an operator is told about it.

  \<^bold>\<open>Conventions.\<close> A Rust struct is a record, an enum a datatype, an operation one function that returns the
  changed state. \<open>Result\<close> is a sum (\<open>Ok\<close>, \<open>Err\<close>), \<open>u64\<close> and \<open>u8\<close> are words, row counts and lengths are
  \<open>nat\<close>, a SQLite integer is an \<open>int\<close>. Text is its UTF-8 bytes. Code that can panic returns a \<open>run\<close>: the
  release profile aborts the process on a panic. A loop that need not end returns an \<open>option\<close>, with \<open>None\<close>
  for a call that never returns. A \<open>BTreeMap\<close>, and a \<open>HashMap\<close> whose order is never observed, is a sorted
  association list (the locale \<open>ordered_map\<close> of \<open>Arreo_Prelude\<close>); where the order of a hash map could be
  observed it is an argument. Cryptography, MessagePack, JSON, base64 and the operating system's entropy
  are third-party code and are arguments; what a property needs of them is a named hypothesis with a
  concrete instance in its witness. Messages of errors are kept where they are fixed text.

  \<^bold>\<open>Shared theories.\<close> \<open>Arreo_Prelude\<close>: results, words, sorted maps, text, panics and slices. \<open>Text_Utf8\<close>: UTF-8
  validity, parsing of numbers, splitting. \<open>Step_Systems\<close>: sequences of labelled steps and the locale
  \<open>guarded_system\<close> of a step relation that keeps an invariant, with the two induction principles the
  components use.

  \<^bold>\<open>Identity\<close> (\<open>crates/arreo-core/src/identity/\<close>, the devices table of \<open>store.rs\<close>). \<open>Identity_Keys\<close> has the hex
  forms of keys, \<open>Identity_Role\<close> roles and verbs, \<open>Identity_Cert\<close> certificates, the index of devices and the
  decision who may connect, \<open>Identity_Authority\<close> the authority of a machine with its certificate files, its
  table and its audit log, and every operation of it. \<open>Identity_Authority_Facts\<close> and \<open>_Pins\<close> hold what
  every operation keeps. Shown in \<open>Identity_Properties\<close>: a revoked device stays refused through every
  sequence of operations; a verb is allowed only under a role that the root signed; an issued key is
  authorized; every refusal is audited; and four places where the code does less than it says.

  \<^bold>\<open>Synchronisation\<close> (\<open>crates/arreo-core/src/sync/\<close>). \<open>Sync_Vector\<close>: version vectors, with the locale
  \<open>replica_merge\<close>; absorbing in any order converges, and \<open>relation\<close> decides the order of knowledge.
  \<open>Sync_Jsonc\<close> and \<open>Sync_Merge\<close>: the comment scanner and the merge of two documents; \<open>Civil_Time\<close> and
  \<open>Sync_Conflict\<close>: dates and the names of conflict copies. Shown in \<open>Sync_Properties\<close>: a merge keeps every
  fact of both documents, refuses only real conflicts, is symmetric; conflict copies never collide.

  \<^bold>\<open>The inbox of the relay\<close> (\<open>crates/arreo-relay/src/inbox.rs\<close>, two tables of \<open>store.rs\<close>). \<open>Relay_Inbox\<close> has
  every operation as a function of the tables, \<open>Relay_Inbox_Facts\<close> the invariant. Shown in
  \<open>Relay_Inbox_Properties\<close>: the books of every device balance through every sequence of operations, the
  table refines a first-in first-out queue, a drain is in order; and two defects of its numbers.

  \<^bold>\<open>The directory\<close> (\<open>crates/arreo-core/src/mesh/directory.rs\<close>, \<open>crates/arreo-relay/src/directory.rs\<close>, three
  tables of \<open>store.rs\<close>). \<open>Mesh_Directory\<close> has machine ids, names, presence, the text export with its
  parser and the cache of a server; \<open>Relay_Directory\<close> every operation of the durable directory as a
  function of the tables, with the unique index checked where a statement could break it;
  \<open>Relay_Directory_Facts\<close> the invariant of the tables. Shown in \<open>Relay_Directory_Properties\<close> over every
  sequence of requests (an interpretation of \<open>guarded_system\<close>): the tables stay typed and the export can
  be read back; a join is granted the first free name; a removed name is held; pruning takes exactly the
  stale machines; and two ways a join goes wrong.

  \<^bold>\<open>The router of the relay\<close> (\<open>crates/arreo-core/src/relay/mod.rs\<close>, \<open>crates/arreo-relay/src/router.rs\<close>,
  \<open>presence.rs\<close>). \<open>Relay_Wire\<close> has the messages, the framing of envelopes and the verification of a
  device, \<open>Relay_Router\<close> the registry of live sessions with their bounded queues, every kind of envelope a
  device can send, the writer and the life of a session. \<open>Relay_World\<close> interleaves any number of
  connections as a step relation, an instance of \<open>guarded_system\<close>. Shown in \<open>Relay_Router_Properties\<close>: what
  is queued for a session comes from an authenticated device of its account; the newest session of a
  device keeps the route; reports are true; proofs cannot be replayed; envelopes survive chunking; and
  three defects, one of which lets a device stop the relay.

  \<^bold>\<open>Trust and lookup\<close> (\<open>crates/arreo-core/src/mesh/trust.rs\<close>, \<open>ledger.rs\<close>, \<open>resolve.rs\<close>,
  \<open>relay/config.rs\<close>, the table \<open>machine_trust\<close> of \<open>store.rs\<close>, \<open>SessionAuth::check\<close> of the daemon).
  \<open>Mesh_Trust\<close> has the rule, the ledger with its audit rows, the backfill at boot and the two gates every
  verb of a remote session passes; \<open>Mesh_Resolve\<close> the configuration file and the way a client finds a
  machine by name. Shown in \<open>Mesh_Properties\<close>: a grant that was cut stays cut over every sequence of
  ledger operations (an interpretation of \<open>guarded_system\<close>); a grant is exactly one grant; a lookup
  refines the directory; and two defects, a backfill that restores what was taken away and a lookup that
  cannot find a name that changed hands.

  \<^bold>\<open>Pairing.\<close> \<open>Relay_Mailbox\<close> is the mailbox (\<open>crates/arreo-relay/src/pairing.rs\<close>): four write-once slots per
  session, single-use sessions, a bounded memory of used ids. \<open>Relay_Mailbox_Properties\<close>: flights are
  write-once and used ids stay refused over every sequence of requests, the state stays bounded, and a
  huge lifetime panics. \<open>Pairing_Code\<close> is the four-word code (\<open>pairing/code.rs\<close>), \<open>Pairing_Invite\<close> the
  invite URI and addresses (\<open>flow.rs\<close>, \<open>wire.rs\<close>), \<open>Pairing_Flow\<close> both halves of the exchange over a
  network and a clock of any kind. \<open>Pairing_World\<close> connects them to the mailbox, with the requests of
  other clients interleaved by a schedule; \<open>Pairing_Flow_Facts\<close> proves the exchange once in the locale
  \<open>flight_store\<close> and instantiates it with that mailbox. Shown in \<open>Pairing_Code_Properties\<close> and
  \<open>Pairing_Flow_Properties\<close>: a code and an invite survive being printed and parsed; the suggestion for a
  mistyped word is the nearest by edit distance; a pairing nobody disturbs succeeds from \<open>begin\<close> to the
  verified certificate; a wrong code costs the session; the phone accepts only the invited server; every
  wait ends.

  \<^bold>\<open>The wire\<close> (\<open>crates/arreo-core/src/proto/codec.rs\<close>, \<open>read_message\<close> of \<open>crates/arreo-server/src/daemon.rs\<close>).
  \<open>Proto_Codec\<close> has frames, the hand-written MessagePack reader and version negotiation, \<open>Daemon_Read\<close> the
  daemon's loop over chunks of a stream. \<open>Proto_Codec_Facts\<close> gives the MessagePack grammar as an inductive
  predicate. Shown in \<open>Proto_Properties\<close>: frames survive any chunking; the reader steps over exactly one
  value; versions agree within one; and two ways a peer stops or fills the daemon.

  \<^bold>\<open>The audit log\<close> (\<open>crates/arreo-core/src/fixtures.rs\<close>, the table \<open>audit\<close> of \<open>store.rs\<close>). \<open>Secrets_Scan\<close> has the
  scanner for secrets and the redaction that uses it, \<open>Audit_Log\<close> the writer, the readers, the pruning and
  the export. Shown in \<open>Audit_Properties\<close>: the masker hides exactly what the scanner finds; the log accounts
  for every row over every sequence of events and prunings; and a flagged line that is stored in the clear
  when another line of the text was masked.

  \<^bold>\<open>Panes\<close> (\<open>crates/arreo-core/src/pty.rs\<close>, \<open>state/\<close>). \<open>Pane_Ring\<close> is the bounded buffer of a pane's output and
  its capture for a handoff, \<open>State_Engine\<close> the engine that reads the output as states, the adapters with
  their resume strategies, and their registry; regular expressions are an argument. Shown in
  \<open>Pane_Properties\<close> and \<open>State_Properties\<close>: the buffer is bounded and accounts for what it drops, a handoff
  restores it; a bell is told from the end of a title however the stream is cut; every change is reported
  once and the exit of the child is the last one; a resume strategy takes its own arguments off again; and
  a long line that stops the daemon, characters lost between reads, an error that is never forgotten.

  \<^bold>\<open>Notifications\<close> (\<open>crates/arreo-core/src/notify/\<close>, \<open>crates/arreo-server/src/audit.rs\<close>, the tick and the quick
  actions of \<open>daemon.rs\<close>). \<open>Notify_Policy\<close> has quiet hours, rules and the decision, \<open>Notify_Daemon\<close> the pump
  of a pane, one pass of the tick, the history read back from the log and the quick actions. Shown in
  \<open>Notify_Properties\<close>: a pane pattern means what its wildcard means, quiet hours are a window around the
  clock, the detail of a row can be read back. In \<open>Pump_Properties\<close>: a quick action is guarded and leaves
  one row; deliveries of a pane keep their distance, shown in the locale \<open>notify_memory\<close> of what the policy
  needs of a memory and interpreted by the log; and an engine that hears nothing after the first MiB.

  \<^bold>\<open>Fuel.\<close> Only \<open>skip_value\<close> takes fuel, the depth of its recursion; the reader passes the length of the
  frame, which is shown to be enough. \<open>wait_for\<close> is a \<open>partial_function\<close>, and that it returns is shown from
  a clock that advances. All other loops are total functions with a measure.

  \<^bold>\<open>Not modelled.\<close> Processes and terminals, sockets, QUIC and Noise, the asynchronous daemon around the parts
  named above, the command line, the terminal interface, the foreign function interface and the build
  tools: they are I/O around the decisions. Left for later, in this order: the synchronisation engine and
  its paths; update channels, verification and deferral; the audit table of the relay.
\<close>

end
